(* ===== verification/Prelude.thy ===== *)
theory Prelude
  imports Main "HOL-Library.Word" "HOL-Library.Char_ord" "HOL-Library.List_Lexorder"
begin

text \<open>
  Shared vocabulary of the development: machine integers, Go strings as byte lists with
  their byte-wise order, keyed collections (the model of a Go map whose iteration order
  the code fixes by sorting, and of a document collection listed by id), weighted sums over
  such collections, and the hook collections the component proofs use.
\<close>

section \<open>Machine integers and hint collections\<close>

type_synonym u8 = "8 word"
type_synonym u16 = "16 word"
type_synonym u32 = "32 word"
type_synonym u64 = "64 word"

named_theorems kv_simps "lookups and sums over keyed collections"
named_theorems ledger_defs "definitions of the ledger client's operations"
named_theorems store_defs "definitions of the document store's operations"

text \<open>Go's fallible calls: an error on the left, the value on the right.\<close>

definition is_ok :: "'e + 'a \<Rightarrow> bool" where
  "is_ok r = (case r of Inl _ \<Rightarrow> False | Inr _ \<Rightarrow> True)"

lemma is_ok_simps [simp]: "\<not> is_ok (Inl e)" "is_ok (Inr v)"
  by (simp_all add: is_ok_def)

lemma is_ok_ex: "is_ok r \<longleftrightarrow> (\<exists>v. r = Inr v)"
  by (cases r) auto

section \<open>Keyed collections\<close>

text \<open>
  A keyed collection is an association list in ascending key order with distinct keys.
  Lookup is \<open>map_of\<close>; \<open>kv_put\<close> inserts or replaces; \<open>kv_del\<close> removes.
\<close>

type_synonym ('k, 'v) kv = "('k \<times> 'v) list"

fun kv_put :: "'k::linorder \<Rightarrow> 'v \<Rightarrow> ('k, 'v) kv \<Rightarrow> ('k, 'v) kv" where
  "kv_put k v [] = [(k, v)]"
| "kv_put k v ((k', v') # xs) =
     (if k < k' then (k, v) # (k', v') # xs
      else if k = k' then (k, v) # xs
      else (k', v') # kv_put k v xs)"

definition kv_del :: "'k \<Rightarrow> ('k, 'v) kv \<Rightarrow> ('k, 'v) kv" where
  "kv_del k xs = filter (\<lambda>p. fst p \<noteq> k) xs"

definition kv_ok :: "('k::linorder, 'v) kv \<Rightarrow> bool" where
  "kv_ok xs = sorted_wrt (<) (map fst xs)"

lemma map_of_kv_put [kv_simps, simp]: "map_of (kv_put k v xs) = (map_of xs)(k \<mapsto> v)"
  by (induction k v xs rule: kv_put.induct) auto

lemma map_of_kv_del [kv_simps, simp]: "map_of (kv_del k xs) = (map_of xs)(k := None)"
  unfolding kv_del_def by (induction xs) auto

lemma kv_ok_Nil [simp]: "kv_ok []"
  by (simp add: kv_ok_def)

lemma kv_ok_Cons [simp]:
  "kv_ok (p # xs) \<longleftrightarrow> (\<forall>q \<in> set xs. fst p < fst q) \<and> kv_ok xs"
  by (auto simp: kv_ok_def)

lemma set_kv_put_keys: "fst ` set (kv_put k v xs) = insert k (fst ` set xs)"
  by (induction k v xs rule: kv_put.induct) auto

lemma kv_ok_put [simp, intro]: "kv_ok xs \<Longrightarrow> kv_ok (kv_put k v xs)"
proof (induction k v xs rule: kv_put.induct)
  case (1 k v)
  then show ?case by simp
next
  case (2 k v k' v' xs)
  show ?case
  proof (cases "k' < k")
    case True
    have "\<forall>q \<in> set (kv_put k v xs). k' < fst q"
    proof
      fix q assume "q \<in> set (kv_put k v xs)"
      then have "fst q \<in> insert k (fst ` set xs)"
        using set_kv_put_keys [of k v xs] by blast
      with True 2 show "k' < fst q" by auto
    qed
    with True 2 show ?thesis by auto
  next
    case False
    with 2 show ?thesis by (auto dest: less_trans)
  qed
qed

lemma kv_ok_del [simp, intro]: "kv_ok xs \<Longrightarrow> kv_ok (kv_del k xs)"
  unfolding kv_del_def by (induction xs) auto

lemma kv_ok_distinct: "kv_ok xs \<Longrightarrow> distinct (map fst xs)"
  by (induction xs) auto

lemma kv_mem_iff: "kv_ok xs \<Longrightarrow> (k, v) \<in> set xs \<longleftrightarrow> map_of xs k = Some v"
  by (simp add: kv_ok_distinct)

lemma kv_vals_iff: "kv_ok xs \<Longrightarrow> v \<in> snd ` set xs \<longleftrightarrow> (\<exists>k. map_of xs k = Some v)"
  by (force simp: kv_mem_iff [symmetric])

section \<open>Weighted sums over keyed collections\<close>

definition kv_sum :: "('v \<Rightarrow> 'n::comm_monoid_add) \<Rightarrow> ('k, 'v) kv \<Rightarrow> 'n" where
  "kv_sum f xs = sum_list (map (\<lambda>p. f (snd p)) xs)"

lemma kv_sum_Nil [simp]: "kv_sum f [] = 0"
  by (simp add: kv_sum_def)

lemma kv_sum_Cons [simp]: "kv_sum f (p # xs) = f (snd p) + kv_sum f xs"
  by (simp add: kv_sum_def)

text \<open>A new key adds its weight; an old key swaps the old weight for the new one.\<close>

lemma kv_sum_put_new [kv_simps]:
  "map_of xs k = None \<Longrightarrow> kv_sum f (kv_put k v xs) = f v + kv_sum f xs"
  by (induction k v xs rule: kv_put.induct) (auto simp: ac_simps split: if_splits)

lemma kv_sum_put_old:
  "kv_ok xs \<Longrightarrow> map_of xs k = Some u \<Longrightarrow>
   kv_sum f (kv_put k v xs) + f u = f v + kv_sum f xs"
proof (induction k v xs rule: kv_put.induct)
  case (1 k v)
  then show ?case by simp
next
  case (2 k v k' v' xs)
  show ?case
  proof (cases "k < k'")
    case True
    with 2 have "k \<notin> fst ` set xs" by (auto dest: less_trans)
    then have "map_of xs k = None" by (simp add: map_of_eq_None_iff)
    with True 2 show ?thesis by (simp split: if_splits)
  next
    case False
    with 2 show ?thesis
      by (cases "k = k'") (simp_all add: ac_simps, metis add.left_commute)
  qed
qed

lemma kv_sum_member_le:
  fixes f :: "'v \<Rightarrow> nat"
  shows "map_of xs k = Some u \<Longrightarrow> f u \<le> kv_sum f xs"
  by (induction xs) (auto split: if_splits)

lemma kv_sum_zero:
  fixes f :: "'v \<Rightarrow> nat"
  shows "(\<And>p. p \<in> set xs \<Longrightarrow> f (snd p) = 0) \<Longrightarrow> kv_sum f xs = 0"
  by (induction xs) auto

lemma kv_sum_add: "kv_sum (\<lambda>v. f v + g v) xs = kv_sum f xs + kv_sum g xs"
  by (induction xs) (auto simp: ac_simps)

text \<open>Two collections with the same lookups are the same collection.\<close>

lemma kv_eqI:
  assumes "kv_ok xs" "kv_ok ys" "map_of xs = map_of ys"
  shows "xs = ys"
proof (rule map_sorted_distinct_set_unique [where f = fst])
  show "set xs = set ys"
  proof (intro set_eqI)
    fix p
    show "p \<in> set xs \<longleftrightarrow> p \<in> set ys"
      using kv_mem_iff [OF assms(1), of "fst p" "snd p"] kv_mem_iff [OF assms(2), of "fst p" "snd p"]
        assms(3) by simp
  qed
  then show "inj_on fst (set xs \<union> set ys)"
    using kv_ok_distinct [OF assms(1)] by (simp add: distinct_map)
qed (use assms in \<open>simp_all add: kv_ok_distinct kv_ok_def strict_sorted_imp_sorted\<close>)

lemma kv_put_same: "kv_ok xs \<Longrightarrow> map_of xs k = Some v \<Longrightarrow> kv_put k v xs = xs"
  by (rule kv_eqI) auto

lemma kv_put_put [simp]: "kv_ok xs \<Longrightarrow> kv_put k v (kv_put k u xs) = kv_put k v xs"
  by (rule kv_eqI) auto

end
