(* ===== verification/GoStd.thy ===== *)
theory GoStd
  imports Prelude
begin

text \<open>
  The parts of the Go standard library the modelled code calls, written as executable
  definitions over byte strings: hexadecimal and decimal rendering, ASCII case folding and
  trimming, and time values. An instant (Go's \<open>time.Time\<close>) is its number of nanoseconds
  since the Unix epoch; \<open>Format\<close> and \<open>Parse\<close> are given for the RFC 3339 layouts and
  for calendar dates and months. Strings are read as ASCII: Go's Unicode case folding and
  Unicode white space outside ASCII are not modelled.
\<close>

section \<open>Bytes, hexadecimal and decimal\<close>

definition byte_of :: "char \<Rightarrow> nat" where
  "byte_of c = of_char c"

definition hex_digit :: "nat \<Rightarrow> char" where
  "hex_digit n = (if n < 10 then char_of (48 + n) else char_of (87 + n))"

definition hex_value :: "char \<Rightarrow> nat option" where
  "hex_value c = (let n = byte_of c in
     if 48 \<le> n \<and> n \<le> 57 then Some (n - 48)
     else if 97 \<le> n \<and> n \<le> 102 then Some (n - 87)
     else if 65 \<le> n \<and> n \<le> 70 then Some (n - 55)
     else None)"

definition hex_byte :: "u8 \<Rightarrow> string" where
  "hex_byte b = [hex_digit (unat b div 16), hex_digit (unat b mod 16)]"

definition hex_encode :: "u8 list \<Rightarrow> string" where
  "hex_encode bs = concat (map hex_byte bs)"

fun hex_decode :: "string \<Rightarrow> u8 list option" where
  "hex_decode [] = Some []"
| "hex_decode [c] = None"
| "hex_decode (c # d # cs) =
     (case (hex_value c, hex_value d) of
        (Some h, Some l) \<Rightarrow> map_option (Cons (of_nat (16 * h + l))) (hex_decode cs)
      | _ \<Rightarrow> None)"

lemma hex_value_digit [simp]: "n < 16 \<Longrightarrow> hex_value (hex_digit n) = Some n"
  by (auto simp: hex_value_def hex_digit_def byte_of_def Let_def)

lemma hex_decode_encode [simp]: "hex_decode (hex_encode bs) = Some bs"
proof (induction bs)
  case Nil
  then show ?case by (simp add: hex_encode_def)
next
  case (Cons b bs)
  have "unat b < 2 ^ LENGTH(8)" by (rule unsigned_less)
  then have lt: "unat b div 16 < 16" by simp
  have eq: "of_nat (16 * (unat b div 16) + unat b mod 16) = b"
    by (simp only: mult_div_mod_eq) simp
  from Cons lt eq show ?case by (simp add: hex_encode_def hex_byte_def)
qed

lemma hex_encode_inj: "hex_encode a = hex_encode b \<longleftrightarrow> a = b"
  by (metis hex_decode_encode option.inject)

lemma length_hex_encode [simp]: "length (hex_encode bs) = 2 * length bs"
  by (induction bs) (auto simp: hex_encode_def hex_byte_def)

fun dec_digits :: "nat \<Rightarrow> int \<Rightarrow> string" where
  "dec_digits 0 n = []"
| "dec_digits (Suc w) n = dec_digits w (n div 10) @ [char_of (48 + n mod 10)]"

lemma length_dec_digits [simp]: "length (dec_digits w n) = w"
  by (induction w arbitrary: n) simp_all

function dec_width :: "int \<Rightarrow> nat" where
  "dec_width n = (if n < 10 then 1 else Suc (dec_width (n div 10)))"
  by pat_completeness auto
termination
  by (relation "measure nat") auto

declare dec_width.simps [simp del]

text \<open>Decimal rendering (\<open>%d\<close>); \<open>pad w n\<close> is the zero-padded form of width \<open>w\<close>.\<close>

definition pad :: "nat \<Rightarrow> int \<Rightarrow> string" where
  "pad w n = dec_digits w n"

definition itoa :: "int \<Rightarrow> string" where
  "itoa i = (if i < 0 then ''-'' @ dec_digits (dec_width (- i)) (- i)
             else dec_digits (dec_width i) i)"

definition is_digit :: "char \<Rightarrow> bool" where
  "is_digit c \<longleftrightarrow> 48 \<le> byte_of c \<and> byte_of c \<le> 57"

definition digit_val :: "char \<Rightarrow> int" where
  "digit_val c = of_char c - 48"

definition digits_val :: "string \<Rightarrow> int" where
  "digits_val cs = foldl (\<lambda>a c. 10 * a + digit_val c) 0 cs"

section \<open>Package strings\<close>

definition to_lower_char :: "char \<Rightarrow> char" where
  "to_lower_char c = (if 65 \<le> byte_of c \<and> byte_of c \<le> 90 then char_of (byte_of c + 32) else c)"

definition to_lower :: "string \<Rightarrow> string" where
  "to_lower s = map to_lower_char s"

definition to_upper_char :: "char \<Rightarrow> char" where
  "to_upper_char c = (if 97 \<le> byte_of c \<and> byte_of c \<le> 122 then char_of (byte_of c - 32) else c)"

definition to_upper :: "string \<Rightarrow> string" where
  "to_upper s = map to_upper_char s"

definition is_space :: "char \<Rightarrow> bool" where
  "is_space c \<longleftrightarrow> byte_of c = 32 \<or> (9 \<le> byte_of c \<and> byte_of c \<le> 13)"

definition trim_space :: "string \<Rightarrow> string" where
  "trim_space s = rev (dropWhile is_space (rev (dropWhile is_space s)))"

definition contains_any :: "string \<Rightarrow> string \<Rightarrow> bool" where
  "contains_any s chars = list_ex (\<lambda>c. c \<in> set chars) s"

text \<open>\<open>%q\<close> of a string without characters that need an escape.\<close>

definition quoted :: "string \<Rightarrow> string" where
  "quoted s = [CHR 0x22] @ s @ [CHR 0x22]"

text \<open>\<open>strconv.ParseInt(s, 10, 64)\<close>: an optional sign, then one or more digits, in range.\<close>

definition parse_int64 :: "string \<Rightarrow> int option" where
  "parse_int64 s =
     (let (neg, ds) = (case s of
          [] \<Rightarrow> (False, [])
        | c # cs \<Rightarrow> if c = CHR ''-'' then (True, cs) else if c = CHR ''+'' then (False, cs)
                  else (False, s));
          v = (if neg then - digits_val ds else digits_val ds)
      in if ds = [] \<or> \<not> list_all is_digit ds then None
         else if v < - (2 ^ 63) \<or> 2 ^ 63 - 1 < v then None
         else Some v)"

lemma parse_int64_range:
  assumes "parse_int64 s = Some v"
  shows "- (2 ^ 63) \<le> v \<and> v < 2 ^ 63"
proof -
  obtain neg ds where "(case s of [] \<Rightarrow> (False, [])
        | c # cs \<Rightarrow> if c = CHR ''-'' then (True, cs) else if c = CHR ''+'' then (False, cs)
                  else (False, s)) = (neg, ds)" by fastforce
  with assms show ?thesis by (auto simp: parse_int64_def Let_def split: if_splits)
qed

section \<open>Package time\<close>

type_synonym instant = int

definition second_ns :: int where "second_ns = 1000000000"

definition hour_ns :: int where "hour_ns = 3600 * second_ns"

text \<open>Proleptic Gregorian calendar from days since 1970-01-01, and back.\<close>

definition civil_from_days :: "int \<Rightarrow> int \<times> int \<times> int" where
  "civil_from_days d =
     (let z = d + 719468;
          era = z div 146097;
          doe = z mod 146097;
          yoe = (doe - doe div 1460 + doe div 36524 - doe div 146096) div 365;
          doy = doe - (365 * yoe + yoe div 4 - yoe div 100);
          mp = (5 * doy + 2) div 153;
          day = doy - (153 * mp + 2) div 5 + 1;
          month = (if mp < 10 then mp + 3 else mp - 9);
          year = yoe + era * 400 + (if month \<le> 2 then 1 else 0)
      in (year, month, day))"

definition days_from_civil :: "int \<Rightarrow> int \<Rightarrow> int \<Rightarrow> int" where
  "days_from_civil y m d =
     (let y' = (if m \<le> 2 then y - 1 else y);
          era = y' div 400;
          yoe = y' mod 400;
          mp = (if m > 2 then m - 3 else m + 9);
          doy = (153 * mp + 2) div 5 + d - 1;
          doe = yoe * 365 + yoe div 4 - yoe div 100 + doy
      in era * 146097 + doe - 719468)"

definition is_leap :: "int \<Rightarrow> bool" where
  "is_leap y \<longleftrightarrow> y mod 4 = 0 \<and> (y mod 100 \<noteq> 0 \<or> y mod 400 = 0)"

definition days_in_month :: "int \<Rightarrow> int \<Rightarrow> int" where
  "days_in_month y m =
     (if m = 2 then (if is_leap y then 29 else 28)
      else if m \<in> {4, 6, 9, 11} then 30 else 31)"

definition fmt_date :: "instant \<Rightarrow> string" where
  "fmt_date t = (case civil_from_days (t div (24 * hour_ns)) of (y, m, d) \<Rightarrow>
     pad 4 y @ ''-'' @ pad 2 m @ ''-'' @ pad 2 d)"

definition fmt_clock :: "instant \<Rightarrow> string" where
  "fmt_clock t = (let s = (t div second_ns) mod 86400 in
     pad 2 (s div 3600) @ '':'' @ pad 2 (s div 60 mod 60) @ '':'' @ pad 2 (s mod 60))"

text \<open>\<open>t.UTC().Format(time.RFC3339)\<close>, and with nanoseconds (trailing zeros dropped).\<close>

definition format_rfc3339 :: "instant \<Rightarrow> string" where
  "format_rfc3339 t = fmt_date t @ ''T'' @ fmt_clock t @ ''Z''"

definition format_rfc3339nano :: "instant \<Rightarrow> string" where
  "format_rfc3339nano t =
     (let ns = t mod second_ns;
          frac = rev (dropWhile (\<lambda>c. c = CHR ''0'') (rev (pad 9 ns)))
      in fmt_date t @ ''T'' @ fmt_clock t @ (if ns = 0 then '''' else ''.'' @ frac) @ ''Z'')"

text \<open>
  Fixed-width numbers and separators of a layout; each step returns the rest of the input.
\<close>

definition take_num :: "nat \<Rightarrow> string \<Rightarrow> (int \<times> string) option" where
  "take_num w s = (if w \<le> length s \<and> list_all is_digit (take w s)
     then Some (digits_val (take w s), drop w s) else None)"

definition take_chr :: "char \<Rightarrow> string \<Rightarrow> string option" where
  "take_chr c s = (case s of [] \<Rightarrow> None | d # ds \<Rightarrow> if d = c then Some ds else None)"

text \<open>Go accepts one or two digits for the hour of a 24-hour layout.\<close>

definition take_hour :: "string \<Rightarrow> (int \<times> string) option" where
  "take_hour s = (case take_num 2 s of Some r \<Rightarrow> Some r | None \<Rightarrow> take_num 1 s)"

text \<open>A fraction after the seconds may be introduced by a dot or a comma; digits beyond
  the ninth are dropped.\<close>

definition take_frac :: "string \<Rightarrow> int \<times> string" where
  "take_frac s = (case s of
       c # d # cs \<Rightarrow>
         if (c = CHR ''.'' \<or> c = CHR '','') \<and> is_digit d then
           (let ds = takeWhile is_digit (d # cs);
                nine = take 9 (ds @ replicate 9 (CHR ''0''))
            in (digits_val nine, dropWhile is_digit (d # cs)))
         else (0, s)
     | _ \<Rightarrow> (0, s))"

text \<open>The zone offset in seconds: \<open>Z\<close>, or a signed \<open>hh:mm\<close>; the input must end there.\<close>

definition take_zone :: "string \<Rightarrow> int option" where
  "take_zone s = (if s = ''Z'' then Some 0 else
     (case s of
        c # cs \<Rightarrow>
          if c = CHR ''+'' \<or> c = CHR ''-'' then
            (case take_num 2 cs of
               Some (h, r) \<Rightarrow> (case take_chr CHR '':'' r of
                 Some r1 \<Rightarrow> (case take_num 2 r1 of
                   Some (m, r2) \<Rightarrow>
                     if r2 = [] \<and> h \<le> 24 \<and> m < 60
                     then Some ((if c = CHR ''-'' then -1 else 1) * (h * 3600 + m * 60))
                     else None
                 | None \<Rightarrow> None)
               | None \<Rightarrow> None)
             | None \<Rightarrow> None)
          else None
      | [] \<Rightarrow> None))"

definition take_date :: "string \<Rightarrow> (int \<times> int \<times> int \<times> string) option" where
  "take_date s = Option.bind (take_num 4 s) (\<lambda>(y, r).
     Option.bind (take_chr CHR ''-'' r) (\<lambda>r.
     Option.bind (take_num 2 r) (\<lambda>(m, r).
     Option.bind (take_chr CHR ''-'' r) (\<lambda>r.
     Option.bind (take_num 2 r) (\<lambda>(d, r).
       if 1 \<le> m \<and> m \<le> 12 \<and> 1 \<le> d \<and> d \<le> days_in_month y m
       then Some (y, m, d, r) else None)))))"

text \<open>\<open>time.Parse(time.RFC3339, s)\<close> and \<open>time.Parse(time.RFC3339Nano, s)\<close>, which accept
  the same strings.\<close>

definition parse_rfc3339 :: "string \<Rightarrow> instant option" where
  "parse_rfc3339 s = Option.bind (take_date s) (\<lambda>(y, m, d, r).
     Option.bind (take_chr CHR ''T'' r) (\<lambda>r.
     Option.bind (take_hour r) (\<lambda>(hh, r).
     Option.bind (take_chr CHR '':'' r) (\<lambda>r.
     Option.bind (take_num 2 r) (\<lambda>(mi, r).
     Option.bind (take_chr CHR '':'' r) (\<lambda>r.
     Option.bind (take_num 2 r) (\<lambda>(ss, r).
       case take_frac r of (ns, r) \<Rightarrow>
         Option.bind (take_zone r) (\<lambda>off.
           if hh < 24 \<and> mi < 60 \<and> ss < 60
           then Some ((days_from_civil y m d * 86400 + hh * 3600 + mi * 60 + ss - off)
                        * second_ns + ns)
           else None))))))))"

text \<open>\<open>time.Parse("2006-01-02", s)\<close> and \<open>time.Parse("2006-01", s)\<close> succeed.\<close>

definition valid_date :: "string \<Rightarrow> bool" where
  "valid_date s = (case take_date s of Some (y, m, d, r) \<Rightarrow> r = [] | None \<Rightarrow> False)"

definition valid_period :: "string \<Rightarrow> bool" where
  "valid_period s = (case Option.bind (take_num 4 s) (\<lambda>(y, r).
       Option.bind (take_chr CHR ''-'' r) (take_num 2)) of
     Some (m, r) \<Rightarrow> 1 \<le> m \<and> m \<le> 12 \<and> r = []
   | None \<Rightarrow> False)"

end
