(* ===== verification/Saga.thy ===== *)
theory Saga
  imports GoStd
begin

text \<open>
  \<open>packages/temporal-sdkx/sdkx.go\<close>: the activity registry and retry loop, SAGA execution with
  compensation in reverse order, and the in-process workflow runner. An activity is a function of
  its input and of the world state \<open>'s\<close> it acts on; contexts, spans and log lines carry no
  state. The back-off delays between attempts are waits only and are not modelled.
\<close>

section \<open>Activities, registry, retry\<close>

type_synonym ('i, 'o, 'e, 's) activity = "'i \<Rightarrow> 's \<Rightarrow> ('e + 'o) \<times> 's"

type_synonym ('i, 'o, 'e, 's) registry = "(string, ('i, 'o, 'e, 's) activity) kv"

text \<open>\<open>Register\<close> panics on a duplicate name.\<close>

definition Register ::
  "string \<Rightarrow> ('i, 'o, 'e, 's) activity \<Rightarrow> ('i, 'o, 'e, 's) registry
     \<Rightarrow> ('i, 'o, 'e, 's) registry option" where
  "Register name a r = (case map_of r name of Some _ \<Rightarrow> None | None \<Rightarrow> Some (kv_put name a r))"

definition Get :: "string \<Rightarrow> ('i, 'o, 'e, 's) registry \<Rightarrow> ('i, 'o, 'e, 's) activity option" where
  "Get name r = map_of r name"

definition Names :: "('i, 'o, 'e, 's) registry \<Rightarrow> string list" where
  "Names r = sort (map fst r)"

datatype 'e activity_error =
    NotRegistered string
  | ContextDone
  | FailedAfter string nat 'e

text \<open>
  The attempt loop: \<open>left\<close> attempts remain, the current one has number \<open>attempt\<close>;
  \<open>cancelled n\<close> says that the context is done while waiting after attempt \<open>n\<close>. The loop is
  entered with \<open>left = maxAttempts + 1 - attempt\<close>, so the equation for no attempts left is never used.
\<close>

fun retry_loop ::
  "string \<Rightarrow> ('i, 'o, 'e, 's) activity \<Rightarrow> (nat \<Rightarrow> bool) \<Rightarrow> nat \<Rightarrow> nat \<Rightarrow> nat \<Rightarrow> 'i \<Rightarrow> 's
     \<Rightarrow> ('e activity_error + 'o) \<times> 's" where
  "retry_loop name act cancelled maxAttempts attempt 0 i s = (Inl ContextDone, s)"
| "retry_loop name act cancelled maxAttempts attempt (Suc left) i s =
     (case act i s of
        (Inr out, s1) \<Rightarrow> (Inr out, s1)
      | (Inl e, s1) \<Rightarrow>
          if attempt < maxAttempts then
            (if cancelled attempt then (Inl ContextDone, s1)
             else retry_loop name act cancelled maxAttempts (Suc attempt) left i s1)
          else (Inl (FailedAfter name maxAttempts e), s1))"

definition ExecuteActivity ::
  "('i, 'o, 'e, 's) registry \<Rightarrow> (nat \<Rightarrow> bool) \<Rightarrow> int \<Rightarrow> string \<Rightarrow> 'i \<Rightarrow> 's
     \<Rightarrow> ('e activity_error + 'o) \<times> 's" where
  "ExecuteActivity reg cancelled maximumAttempts name i s =
     (case Get name reg of
        None \<Rightarrow> (Inl (NotRegistered name), s)
      | Some act \<Rightarrow>
          (let m = (if maximumAttempts \<le> 0 then 1 else nat maximumAttempts)
           in retry_loop name act cancelled m 1 m i s))"

section \<open>Sagas\<close>

record ('i, 'o, 'e, 's) saga_step =
  Name :: string
  Action :: "('i, 'o, 'e, 's) activity"
  Compensation :: "('o \<Rightarrow> 's \<Rightarrow> 'e option \<times> 's) option"

record 'e saga_error =
  Step :: string
  Err :: 'e
  CompensationErrors :: "(string \<times> 'e) list"

text \<open>The compensation loop, over the completed steps from the last to the first; an error is
  collected and the loop goes on.\<close>

fun compensate ::
  "(('i, 'o, 'e, 's) saga_step \<times> 'o) list \<Rightarrow> 's \<Rightarrow> (string \<times> 'e) list \<times> 's" where
  "compensate [] s = ([], s)"
| "compensate ((st, out) # ds) s =
     (case Compensation st of
        None \<Rightarrow> compensate ds s
      | Some c \<Rightarrow>
          (let (err, s1) = c out s;
               (errs, s2) = compensate ds s1
           in ((case err of None \<Rightarrow> errs | Some e \<Rightarrow> (Name st, e) # errs), s2)))"

fun saga_loop ::
  "('i, 'o, 'e, 's) saga_step list \<Rightarrow> (('i, 'o, 'e, 's) saga_step \<times> 'o) list \<Rightarrow> 'i \<Rightarrow> 's
     \<Rightarrow> 'e saga_error option \<times> 's" where
  "saga_loop [] completed i s = (None, s)"
| "saga_loop (st # sts) completed i s =
     (case Action st i s of
        (Inl e, s1) \<Rightarrow>
          (let (errs, s2) = compensate (rev completed) s1
           in (Some \<lparr>Step = Name st, Err = e, CompensationErrors = errs\<rparr>, s2))
      | (Inr out, s1) \<Rightarrow> saga_loop sts (completed @ [(st, out)]) i s1)"

definition saga_run ::
  "('i, 'o, 'e, 's) saga_step list \<Rightarrow> 'i \<Rightarrow> 's \<Rightarrow> 'e saga_error option \<times> 's" where
  "saga_run sts i s = saga_loop sts [] i s"

section \<open>The in-process runner\<close>

record run_record =
  WorkflowID :: string
  rName :: string
  StartedAt :: instant
  EndedAt :: instant
  Status :: string
  rError :: string
  Duration :: int

type_synonym ('i, 'o, 's) workflow = "'i \<Rightarrow> 's \<Rightarrow> (string + 'o) \<times> 's"

record ('i, 'o, 's) runner =
  wfs :: "(string, ('i, 'o, 's) workflow) kv"
  rhistory :: "run_record list"
  seq :: nat

definition NewInprocRunner :: "('i, 'o, 's) runner" where
  "NewInprocRunner = \<lparr>wfs = [], rhistory = [], seq = 0\<rparr>"

definition RegisterWorkflow ::
  "string \<Rightarrow> ('i, 'o, 's) workflow \<Rightarrow> ('i, 'o, 's) runner \<Rightarrow> ('i, 'o, 's) runner" where
  "RegisterWorkflow name wkf r = r\<lparr>wfs := kv_put name wkf (wfs r)\<rparr>"

text \<open>\<open>t0\<close> and \<open>t1\<close> are the clock readings before and after the workflow ran.\<close>

definition Execute ::
  "instant \<Rightarrow> instant \<Rightarrow> string \<Rightarrow> 'i \<Rightarrow> ('i, 'o, 's) runner \<Rightarrow> 's
     \<Rightarrow> (string + 'o) \<times> ('i, 'o, 's) runner \<times> 's" where
  "Execute t0 t1 name i r s =
     (let r1 = r\<lparr>seq := Suc (seq r)\<rparr>;
          wid = ''wf-run-'' @ itoa (int (seq r1))
      in case map_of (wfs r) name of
        None \<Rightarrow> (Inl (''workflow '' @ name @ '' not registered''), r1, s)
      | Some wkf \<Rightarrow>
         (let (out, s1) = wkf i s;
              (st, em) = (case out of Inl e \<Rightarrow> (''failed'', e) | Inr _ \<Rightarrow> (''completed'', ''''));
              rc = \<lparr>WorkflowID = wid, rName = name, StartedAt = t0, EndedAt = t1,
                    Status = st, rError = em, Duration = t1 - t0\<rparr>
          in (out, r1\<lparr>rhistory := rhistory r1 @ [rc]\<rparr>, s1)))"

definition WorkflowNames :: "('i, 'o, 's) runner \<Rightarrow> string list" where
  "WorkflowNames r = sort (map fst (wfs r))"

section \<open>How often an activity runs\<close>

text \<open>An activity that counts its own calls: the observation used to state the retry bound.\<close>

definition counting ::
  "('i, 'o, 'e, 's) activity \<Rightarrow> ('i, 'o, 'e, 's \<times> nat) activity" where
  "counting act i sn = (let (r, s1) = act i (fst sn) in (r, (s1, Suc (snd sn))))"

lemma counting_simp [simp]:
  "act i s = (r, s1) \<Longrightarrow> counting act i (s, n) = (r, (s1, Suc n))"
  by (simp add: counting_def)

lemma retry_loop_calls:
  assumes "retry_loop name (counting act) cancelled m attempt left i (s, n) = (r, (s', n'))"
    "left + attempt = Suc m" "attempt \<le> m"
  shows "n < n' \<and> n' \<le> n + left \<and> ((\<exists>e. r = Inl (FailedAfter name m e)) \<longrightarrow> n' = n + left)
     \<and> (r = Inl ContextDone \<longrightarrow> (\<exists>k \<ge> attempt. k < m \<and> cancelled k))"
  using assms
proof (induction left arbitrary: attempt s n)
  case 0
  then show ?case by simp
next
  case (Suc left)
  obtain a s1 where a: "act i s = (a, s1)" by fastforce
  show ?case
  proof (cases a)
    case (Inr out)
    with Suc.prems a show ?thesis by auto
  next
    case (Inl e)
    show ?thesis
    proof (cases "attempt < m \<and> \<not> cancelled attempt")
      case True
      with Suc.prems(1) a Inl have
        "retry_loop name (counting act) cancelled m (Suc attempt) left i (s1, Suc n) = (r, (s', n'))"
        by simp
      from Suc.IH [OF this] Suc.prems(2) True show ?thesis
        by (auto dest: Suc_leD)
    next
      case False
      with Suc.prems a Inl show ?thesis
        by (auto split: if_splits)
    qed
  qed
qed

section \<open>Order of compensation\<close>

text \<open>A step that also writes down its calls: actions as \<open>Inl\<close>, compensations as \<open>Inr\<close>.\<close>

type_synonym call_log = "(string + string) list"

definition logged ::
  "('i, 'o, 'e, 's) saga_step \<Rightarrow> ('i, 'o, 'e, 's \<times> call_log) saga_step" where
  "logged st = \<lparr>Name = Name st,
     Action = (\<lambda>i sl. let (r, s1) = Action st i (fst sl) in (r, (s1, snd sl @ [Inl (Name st)]))),
     Compensation = map_option (\<lambda>c out sl.
       let (e, s1) = c out (fst sl) in (e, (s1, snd sl @ [Inr (Name st)]))) (Compensation st)\<rparr>"

definition comp_calls :: "('i, 'o, 'e, 's) saga_step list \<Rightarrow> call_log" where
  "comp_calls sts = map (\<lambda>st. Inr (Name st)) (filter (\<lambda>st. Compensation st \<noteq> None) (rev sts))"

lemma logged_simps [simp]:
  "Name (logged st) = Name st"
  "Compensation (logged st) = map_option (\<lambda>c out sl.
       let (e, s1) = c out (fst sl) in (e, (s1, snd sl @ [Inr (Name st)]))) (Compensation st)"
  by (simp_all add: logged_def)

lemma logged_action [simp]:
  "Action st i s = (r, s1) \<Longrightarrow> Action (logged st) i (s, l) = (r, (s1, l @ [Inl (Name st)]))"
  by (simp add: logged_def)

lemma compensate_log:
  "snd (snd (compensate (map (apfst logged) ds) (s, l)))
     = l @ map (\<lambda>d. Inr (Name (fst d))) (filter (\<lambda>d. Compensation (fst d) \<noteq> None) ds)"
proof (induction ds arbitrary: s l)
  case Nil
  then show ?case by simp
next
  case (Cons d ds)
  obtain st out where d: "d = (st, out)" by (cases d)
  show ?case
  proof (cases "Compensation st")
    case None
    with Cons show ?thesis by (simp add: d)
  next
    case (Some c)
    obtain e s1 where "c out s = (e, s1)" by fastforce
    with Cons [of s1 "l @ [Inr (Name st)]"] Some show ?thesis
      by (auto simp: d split: prod.splits)
  qed
qed

lemma saga_loop_log:
  assumes "saga_loop (map logged sts) (map (apfst logged) ds) i (s, l) = (r, (s', l'))"
  shows "(case r of
       None \<Rightarrow> l' = l @ map (\<lambda>st. Inl (Name st)) sts
     | Some e \<Rightarrow> (\<exists>k < length sts. Step e = Name (sts ! k)
         \<and> l' = l @ map (\<lambda>st. Inl (Name st)) (take (Suc k) sts)
                @ comp_calls (map fst ds @ take k sts)))"
  using assms
proof (induction sts arbitrary: ds s l)
  case Nil
  then show ?case by auto
next
  case (Cons st sts)
  obtain a s1 where a: "Action st i s = (a, s1)" by fastforce
  show ?case
  proof (cases a)
    case (Inl e)
    let ?l1 = "l @ [Inl (Name st)]"
    from Cons.prems a Inl obtain errs where
      r: "r = Some \<lparr>Step = Name st, Err = e, CompensationErrors = errs\<rparr>"
      and c: "compensate (rev (map (apfst logged) ds)) (s1, ?l1) = (errs, (s', l'))"
      by (auto split: prod.splits)
    have "l' = ?l1 @ map (\<lambda>d. Inr (Name (fst d)))
        (filter (\<lambda>d. Compensation (fst d) \<noteq> None) (rev ds))"
      using compensate_log [of "rev ds" s1 ?l1] c by (simp add: rev_map)
    then have "l' = l @ [Inl (Name st)] @ comp_calls (map fst ds)"
      by (simp add: comp_calls_def rev_map filter_map o_def)
    with r show ?thesis by (intro exI [of _ 0] | simp)+
  next
    case (Inr out)
    let ?l1 = "l @ [Inl (Name st)]"
    from Cons.prems a Inr have
      "saga_loop (map logged sts) (map (apfst logged) (ds @ [(st, out)])) i (s1, ?l1) = (r, (s', l'))"
      by simp
    note IH = Cons.IH [OF this]
    show ?thesis
    proof (cases r)
      case None
      with IH show ?thesis by simp
    next
      case (Some e)
      with IH obtain k where k: "k < length sts" "Step e = Name (sts ! k)"
        "l' = ?l1 @ map (\<lambda>st. Inl (Name st)) (take (Suc k) sts)
                @ comp_calls (map fst (ds @ [(st, out)]) @ take k sts)" by auto
      then have "Suc k < length (st # sts) \<and> Step e = Name ((st # sts) ! Suc k)
         \<and> l' = l @ map (\<lambda>st. Inl (Name st)) (take (Suc (Suc k)) (st # sts))
                @ comp_calls (map fst ds @ take (Suc k) (st # sts))"
        by simp
      with Some show ?thesis by auto
    qed
  qed
qed

section \<open>A contract for steps that can be undone\<close>

text \<open>
  \<open>view\<close> is what compensation is meant to restore. A step is \<open>clean\<close> at a state when its
  failure leaves the view alone. It is \<open>undoable\<close> there when, besides, its compensation, run at
  any state with the view the action left, brings the earlier view back unless it reports an
  error (a step without compensation must not change the view).
\<close>

locale saga_undo =
  fixes view :: "'s \<Rightarrow> 'v"
    and clean :: "('i, 'o, 'e, 's) saga_step \<Rightarrow> 'i \<Rightarrow> 's \<Rightarrow> bool"
    and undoable :: "('i, 'o, 'e, 's) saga_step \<Rightarrow> 'i \<Rightarrow> 's \<Rightarrow> bool"
  assumes clean_fail: "clean st i s \<Longrightarrow> Action st i s = (Inl e, s1) \<Longrightarrow> view s1 = view s"
    and undoable_clean: "undoable st i s \<Longrightarrow> clean st i s"
    and undoable_none: "undoable st i s \<Longrightarrow> Action st i s = (Inr out, s1) \<Longrightarrow>
          Compensation st = None \<Longrightarrow> view s1 = view s"
    and undoable_comp: "undoable st i s \<Longrightarrow> Action st i s = (Inr out, s1) \<Longrightarrow>
          Compensation st = Some c \<Longrightarrow> view t = view s1 \<Longrightarrow>
          c out t = (None, t') \<Longrightarrow> view t' = view s"
begin

text \<open>Along the run every step but the last is undoable; the last one only has to fail cleanly.\<close>

fun all_undoable :: "('i, 'o, 'e, 's) saga_step list \<Rightarrow> 'i \<Rightarrow> 's \<Rightarrow> bool" where
  "all_undoable [] i s = True"
| "all_undoable (st # sts) i s =
     (clean st i s \<and> (case Action st i s of (Inl e, s1) \<Rightarrow> True
        | (Inr out, s1) \<Rightarrow> sts = [] \<or> undoable st i s \<and> all_undoable sts i s1))"

text \<open>\<open>rewinds ds i s s0\<close>: the completed steps \<open>ds\<close> (last first) led from \<open>s0\<close> to \<open>s\<close>.\<close>

fun rewinds :: "(('i, 'o, 'e, 's) saga_step \<times> 'o) list \<Rightarrow> 'i \<Rightarrow> 's \<Rightarrow> 's \<Rightarrow> bool" where
  "rewinds [] i s s0 = (s = s0)"
| "rewinds ((st, out) # ds) i s s0 =
     (\<exists>p. undoable st i p \<and> Action st i p = (Inr out, s) \<and> rewinds ds i p s0)"

lemma compensate_restores:
  assumes "rewinds ds i s1 s0" "view t = view s1" "compensate ds t = ([], t')"
  shows "view t' = view s0"
  using assms
proof (induction ds arbitrary: s1 t)
  case Nil
  then show ?case by simp
next
  case (Cons d ds)
  obtain st out where d: "d = (st, out)" by (cases d)
  from Cons.prems(1) d obtain p where p: "undoable st i p" "Action st i p = (Inr out, s1)"
    "rewinds ds i p s0" by auto
  show ?case
  proof (cases "Compensation st")
    case None
    then have v: "view s1 = view p" by (rule undoable_none [OF p(1,2)])
    show ?thesis by (rule Cons.IH [OF p(3)]) (use Cons.prems v None d in simp_all)
  next
    case (Some c)
    obtain e t1 where c: "c out t = (e, t1)" by fastforce
    with Cons.prems(3) Some d have e: "e = None" and r: "compensate ds t1 = ([], t')"
      by (auto split: prod.splits option.splits)
    from undoable_comp [OF p(1,2) Some Cons.prems(2)] c e have v: "view t1 = view p" by simp
    show ?thesis by (rule Cons.IH [OF p(3) v r])
  qed
qed

lemma saga_loop_restores:
  assumes "all_undoable sts i s1" "rewinds (rev ds) i s1 s0"
    and "saga_loop sts ds i s1 = (Some err, t')" "CompensationErrors err = []"
  shows "view t' = view s0"
  using assms
proof (induction sts arbitrary: ds s1)
  case Nil
  then show ?case by simp
next
  case (Cons st sts)
  obtain a s2 where a: "Action st i s1 = (a, s2)" by fastforce
  show ?case
  proof (cases a)
    case (Inl e)
    with Cons.prems a have "compensate (rev ds) s2 = ([], t')"
      by (auto split: prod.splits)
    moreover have "view s2 = view s1" using Cons.prems(1) a Inl by (auto intro: clean_fail)
    ultimately show ?thesis using compensate_restores [OF Cons.prems(2)] by blast
  next
    case (Inr out)
    show ?thesis
    proof (cases "sts = []")
      case True
      with Cons.prems a Inr show ?thesis by simp
    next
      case False
      show ?thesis
        by (rule Cons.IH [of s2 "ds @ [(st, out)]"]) (use Cons.prems a Inr False in auto)
    qed
  qed
qed

theorem failed_saga_restores_view:
  assumes "all_undoable sts i s" "saga_run sts i s = (Some err, s')" "CompensationErrors err = []"
  shows "view s' = view s"
  by (rule saga_loop_restores [OF assms(1), of "[]" s])
    (use assms in \<open>simp_all add: saga_run_def\<close>)

end

end
