(* ===== verification/Ledger.thy ===== *)
theory Ledger
  imports GoStd
begin

unbundle bit_operations_syntax

text \<open>
  The ledger client of \<open>services/ledger/internal/tb/tb.go\<close>: 128-bit identifiers, accounts
  and transfers with 64-bit amounts that wrap as Go's \<open>uint64\<close> does, and the operations
  of \<open>DevClient\<close> (one definition per method). A method holds the mutex for its whole body,
  so it is one atomic step from state to state; the deferred \<open>runHooks\<close> runs after it.
  A nil account pointer in a two-phase operation is a panic, modelled as \<open>None\<close>.
\<close>

section \<open>Identifiers\<close>

datatype tbid = MkID (High: u64) (Low: u64)

abbreviation MakeID :: "u64 \<Rightarrow> u64 \<Rightarrow> tbid" where "MakeID \<equiv> MkID"

instantiation tbid :: linorder
begin

definition less_eq_tbid :: "tbid \<Rightarrow> tbid \<Rightarrow> bool" where
  "less_eq_tbid a b \<longleftrightarrow> High a < High b \<or> High a = High b \<and> Low a \<le> Low b"

definition less_tbid :: "tbid \<Rightarrow> tbid \<Rightarrow> bool" where
  "less_tbid a b \<longleftrightarrow> High a < High b \<or> High a = High b \<and> Low a < Low b"

instance
proof
  fix a b c :: tbid
  show "a < b \<longleftrightarrow> a \<le> b \<and> \<not> b \<le> a"
    by (auto simp: less_eq_tbid_def less_tbid_def)
  show "a \<le> a" by (simp add: less_eq_tbid_def)
  show "a \<le> b \<Longrightarrow> b \<le> c \<Longrightarrow> a \<le> c"
    by (auto simp: less_eq_tbid_def)
  show "a \<le> b \<Longrightarrow> b \<le> a \<Longrightarrow> a = b"
    by (auto simp: less_eq_tbid_def intro: tbid.expand)
  show "a \<le> b \<or> b \<le> a" by (auto simp: less_eq_tbid_def)
qed

end

text \<open>\<open>byte(w >> (56 - 8*i))\<close> for \<open>i\<close> from 0 to 7, and the shift-and-or loop of \<open>ParseID\<close>.\<close>

definition be_bytes :: "u64 \<Rightarrow> u8 list" where
  "be_bytes w = map (\<lambda>i. ucast (drop_bit (56 - 8 * i) w)) [0..<8]"

definition from_be_bytes :: "u8 list \<Rightarrow> u64" where
  "from_be_bytes bs = foldl (\<lambda>h b. push_bit 8 h OR ucast b) 0 bs"

definition ID_String :: "tbid \<Rightarrow> string" where
  "ID_String i = hex_encode (be_bytes (High i) @ be_bytes (Low i))"

definition ParseID :: "string \<Rightarrow> string + tbid" where
  "ParseID s = (case hex_decode s of
       None \<Rightarrow> Inl (''invalid 128-bit id '' @ quoted s)
     | Some b \<Rightarrow> if length b \<noteq> 16 then Inl (''invalid 128-bit id '' @ quoted s)
         else Inr (MkID (from_be_bytes (take 8 b)) (from_be_bytes (drop 8 b))))"

definition ID_Zero :: "tbid \<Rightarrow> bool" where
  "ID_Zero i \<longleftrightarrow> High i = 0 \<and> Low i = 0"

lemma length_be_bytes [simp]: "length (be_bytes w) = 8"
  by (simp add: be_bytes_def)

lemma shift_or_step:
  "push_bit 8 (drop_bit (k + 8) w) OR ucast (ucast (drop_bit k w) :: u8) = drop_bit k (w :: u64)"
proof (rule bit_eqI)
  fix n
  assume "possible_bit TYPE(64 word) n"
  then show "bit (push_bit 8 (drop_bit (k + 8) w) OR ucast (ucast (drop_bit k w) :: u8)) n
      = bit (drop_bit k w) n"
    by (auto simp: bit_simps dest: bit_imp_le_length)
qed

lemma from_be_bytes_be_bytes [simp]: "from_be_bytes (be_bytes w) = w"
proof -
  have top: "drop_bit 64 w = 0"
    by (rule bit_eqI) (auto simp: bit_simps dest: bit_imp_le_length)
  have upt8: "[0..<8] = [0, 1, 2, 3, 4, 5, 6, 7::nat]" by (simp add: upt_rec)
  show ?thesis
    using shift_or_step [of 56 w] shift_or_step [of 48 w] shift_or_step [of 40 w]
      shift_or_step [of 32 w] shift_or_step [of 24 w] shift_or_step [of 16 w]
      shift_or_step [of 8 w] shift_or_step [of 0 w] top
    by (simp add: from_be_bytes_def be_bytes_def upt8)
qed

lemma ParseID_String: "ParseID (ID_String i) = Inr i"
  by (simp add: ParseID_def ID_String_def)

section \<open>Accounts, transfers, results\<close>

abbreviation "CodeAuthorise \<equiv> (1::u16)"
abbreviation "CodeVoid \<equiv> (3::u16)"

definition FlagDebitsMustNotExceedCredits :: u16 where
  "FlagDebitsMustNotExceedCredits = push_bit 0 1"

definition FlagCreditsMustNotExceedDebits :: u16 where
  "FlagCreditsMustNotExceedDebits = push_bit 1 1"

record account =
  aID :: tbid
  aLedger :: u64
  aCode :: u16
  aFlags :: u16
  aUserData :: string
  DebitsPending :: u64
  DebitsPosted :: u64
  CreditsPending :: u64
  CreditsPosted :: u64
  aCreatedAt :: string

record balance =
  AccountID :: tbid
  bDebitsPending :: u64
  bDebitsPosted :: u64
  bCreditsPending :: u64
  bCreditsPosted :: u64
  PostedNet :: "64 word" \<comment> \<open>an \<open>int64\<close>, read with \<open>sint\<close>\<close>
  AvailableKobo :: "64 word"

record transfer =
  tID :: tbid
  DebitAccountID :: tbid
  CreditAccountID :: tbid
  Amount :: u64
  tLedger :: u64
  tCode :: u16
  Pending :: bool
  PendingID :: tbid
  Resolved :: bool
  tUserData :: string
  tCreatedAt :: string
  TimeoutSeconds :: u32
  ExpiresAt :: string

datatype ResultCode =
    OK | Exists | ExistsWithDifferentAttributes | AccountNotFound | AccountsMustBeDifferent
  | AmountMustBePositive | ExceedsCredits | ExceedsDebits | LedgerMustMatch
  | PendingTransferNotFound | PendingTransferNotPending | ExceedsPendingAmount
  | PendingTransferHasDifferentAttr | TransferNotPending | Overflows

record tb_result =
  Code :: ResultCode
  Message :: string

abbreviation res :: "ResultCode \<Rightarrow> tb_result" where
  "res c \<equiv> \<lparr>Code = c, Message = ''''\<rparr>"

abbreviation resm :: "ResultCode \<Rightarrow> string \<Rightarrow> tb_result" where
  "resm c m \<equiv> \<lparr>Code = c, Message = m\<rparr>"

datatype hook = OnChange | OnEvent transfer

record dev =
  accounts :: "(tbid, account) kv"
  transfers :: "(tbid, transfer) kv"
  nextSer :: "(u64, u64) kv"
  hasOnChange :: bool
  hasOnEvent :: bool
  pendingChange :: bool
  pendingEvents :: "transfer list"
  delivered :: "hook list" \<comment> \<open>the hook calls made so far, in order\<close>

definition NewDevClient :: dev where
  "NewDevClient = \<lparr>accounts = [], transfers = [], nextSer = [], hasOnChange = False,
     hasOnEvent = False, pendingChange = False, pendingEvents = [], delivered = []\<rparr>"

definition SetHooks :: "bool \<Rightarrow> bool \<Rightarrow> dev \<Rightarrow> dev" where
  "SetHooks onChange onEvent s = s\<lparr>hasOnChange := onChange, hasOnEvent := onEvent\<rparr>"

definition Snapshot :: "dev \<Rightarrow> account list \<times> transfer list \<times> (u64, u64) kv" where
  "Snapshot s = (sort_key (\<lambda>a. ID_String (aID a)) (map snd (accounts s)),
     sort_key (\<lambda>t. ID_String (tID t)) (map snd (transfers s)), nextSer s)"

definition Restore :: "account list \<Rightarrow> transfer list \<Rightarrow> (u64, u64) kv \<Rightarrow> dev \<Rightarrow> dev" where
  "Restore as ts sers s = s\<lparr>
     accounts := foldl (\<lambda>m a. kv_put (aID a) a m) (accounts s) as,
     transfers := foldl (\<lambda>m t. kv_put (tID t) t m) (transfers s) ts,
     nextSer := foldl (\<lambda>m p. kv_put (fst p) (snd p) m) (nextSer s) sers\<rparr>"

definition ser_of :: "dev \<Rightarrow> u64 \<Rightarrow> u64" where
  "ser_of s ns = (case map_of (nextSer s) ns of None \<Rightarrow> 0 | Some v \<Rightarrow> v)"

definition NextSerial :: "u64 \<Rightarrow> dev \<Rightarrow> u64 \<times> dev" where
  "NextSerial ns s = (let v = ser_of s ns + 1 in (v, s\<lparr>nextSer := kv_put ns v (nextSer s)\<rparr>))"

section \<open>Hooks\<close>

definition changedLocked :: "dev \<Rightarrow> dev" where
  "changedLocked s = s\<lparr>pendingChange := True\<rparr>"

definition eventLocked :: "transfer \<Rightarrow> dev \<Rightarrow> dev" where
  "eventLocked t s = s\<lparr>pendingEvents := pendingEvents s @ [t]\<rparr>"

definition runHooks :: "dev \<Rightarrow> dev" where
  "runHooks s = s\<lparr>pendingChange := False, pendingEvents := [],
     delivered := delivered s
       @ (if pendingChange s \<and> hasOnChange s then [OnChange] else [])
       @ (if hasOnEvent s then map OnEvent (pendingEvents s) else [])\<rparr>"

section \<open>Creating accounts\<close>

text \<open>One iteration of \<open>CreateAccounts\<close>; \<open>now_s\<close> is the value of \<open>now()\<close> there.\<close>

definition create_account :: "string \<Rightarrow> account \<Rightarrow> dev \<Rightarrow> tb_result \<times> dev" where
  "create_account now_s a s =
     (if ID_Zero (aID a) then (resm AccountNotFound ''id must be non-zero'', s)
      else case map_of (accounts s) (aID a) of
        Some existing \<Rightarrow>
          (if aLedger existing = aLedger a \<and> aFlags existing = aFlags a \<and> aCode existing = aCode a
           then (res Exists, s) else (res ExistsWithDifferentAttributes, s))
      | None \<Rightarrow>
          (let s1 = s\<lparr>accounts := kv_put (aID a) (a\<lparr>aCreatedAt := now_s\<rparr>) (accounts s)\<rparr>;
               s2 = (if ser_of s1 (High (aID a)) < Low (aID a)
                     then s1\<lparr>nextSer := kv_put (High (aID a)) (Low (aID a)) (nextSer s1)\<rparr>
                     else s1)
           in (res OK, s2)))"

fun create_loop :: "(nat \<Rightarrow> string) \<Rightarrow> nat \<Rightarrow> account list \<Rightarrow> dev \<Rightarrow> tb_result list \<times> dev" where
  "create_loop now_s i [] s = ([], s)"
| "create_loop now_s i (a # as) s =
     (let (r, s1) = create_account (now_s i) a s;
          (rs, s2) = create_loop now_s (Suc i) as s1
      in (r # rs, s2))"

definition CreateAccounts :: "(nat \<Rightarrow> string) \<Rightarrow> account list \<Rightarrow> dev \<Rightarrow> tb_result list \<times> dev" where
  "CreateAccounts now_s as s =
     (let (rs, s1) = create_loop now_s 0 as s in (rs, runHooks (changedLocked s1)))"

section \<open>Constraints and party validation\<close>

definition checkConstraints :: "account \<Rightarrow> u64 \<Rightarrow> u64 \<Rightarrow> u64 \<Rightarrow> u64 \<Rightarrow> ResultCode" where
  "checkConstraints a addDebitsPending addDebitsPosted addCreditsPending addCreditsPosted =
     (let dp = DebitsPending a + addDebitsPending;
          dposted = DebitsPosted a + addDebitsPosted;
          cp = CreditsPending a + addCreditsPending;
          cposted = CreditsPosted a + addCreditsPosted
      in if dp < DebitsPending a \<or> dposted < DebitsPosted a \<or> cp < CreditsPending a
            \<or> cposted < CreditsPosted a then Overflows
         else if aFlags a AND FlagDebitsMustNotExceedCredits \<noteq> 0 \<and> dp + dposted > cp + cposted
         then ExceedsCredits
         else if aFlags a AND FlagCreditsMustNotExceedDebits \<noteq> 0 \<and> cp + cposted > dp + dposted
         then ExceedsDebits
         else OK)"

definition validateParties :: "dev \<Rightarrow> transfer \<Rightarrow> tb_result + account \<times> account" where
  "validateParties s t =
     (if Amount t = 0 then Inl (res AmountMustBePositive)
      else if DebitAccountID t = CreditAccountID t then Inl (res AccountsMustBeDifferent)
      else case map_of (accounts s) (DebitAccountID t) of
        None \<Rightarrow> Inl (resm AccountNotFound ''debit account'')
      | Some dr \<Rightarrow> (case map_of (accounts s) (CreditAccountID t) of
          None \<Rightarrow> Inl (resm AccountNotFound ''credit account'')
        | Some cr \<Rightarrow> if aLedger dr \<noteq> aLedger cr then Inl (res LedgerMustMatch)
            else Inr (dr, cr)))"

definition sameAttrs :: "transfer \<Rightarrow> transfer \<Rightarrow> bool" where
  "sameAttrs a b \<longleftrightarrow> DebitAccountID a = DebitAccountID b
     \<and> CreditAccountID a = CreditAccountID b
     \<and> Amount a = Amount b \<and> tLedger a = tLedger b \<and> tCode a = tCode b"

text \<open>An in-place update through an account pointer of the map.\<close>

definition upd_account :: "tbid \<Rightarrow> (account \<Rightarrow> account) \<Rightarrow> dev \<Rightarrow> dev" where
  "upd_account i f s = (case map_of (accounts s) i of
       None \<Rightarrow> s | Some a \<Rightarrow> s\<lparr>accounts := kv_put i (f a) (accounts s)\<rparr>)"

definition put_transfer :: "tbid \<Rightarrow> transfer \<Rightarrow> dev \<Rightarrow> dev" where
  "put_transfer i t s = s\<lparr>transfers := kv_put i t (transfers s)\<rparr>"

section \<open>Immediate and pending transfers\<close>

definition transfer_body :: "string \<Rightarrow> transfer \<Rightarrow> dev \<Rightarrow> tb_result \<times> dev" where
  "transfer_body now_s t s =
     (case map_of (transfers s) (tID t) of
        Some existing \<Rightarrow>
          (if sameAttrs existing t then (res Exists, s)
           else (res ExistsWithDifferentAttributes, s))
      | None \<Rightarrow> (case validateParties s t of
          Inl r \<Rightarrow> (r, s)
        | Inr (dr, cr) \<Rightarrow>
            (let rc = checkConstraints dr 0 (Amount t) 0 0;
                 rc' = checkConstraints cr 0 0 0 (Amount t)
             in if rc \<noteq> OK then (resm rc ''debit account'', s)
                else if rc' \<noteq> OK then (resm rc' ''credit account'', s)
                else
                 (let s1 = upd_account (DebitAccountID t)
                             (\<lambda>a. a\<lparr>DebitsPosted := DebitsPosted a + Amount t\<rparr>) s;
                      s2 = upd_account (CreditAccountID t)
                             (\<lambda>a. a\<lparr>CreditsPosted := CreditsPosted a + Amount t\<rparr>) s1;
                      t' = t\<lparr>tCreatedAt := now_s, Pending := False\<rparr>
                  in (res OK, eventLocked t' (changedLocked (put_transfer (tID t) t' s2)))))))"

definition Transfer :: "string \<Rightarrow> transfer \<Rightarrow> dev \<Rightarrow> tb_result \<times> dev" where
  "Transfer now_s t s = apsnd runHooks (transfer_body now_s t s)"

text \<open>The record stored for a new reservation: \<open>now_t\<close> is the instant of the second clock
  reading, from which the expiry is computed.\<close>

definition reservation :: "string \<Rightarrow> instant \<Rightarrow> transfer \<Rightarrow> transfer" where
  "reservation now_s now_t t =
     (let t1 = t\<lparr>tCreatedAt := now_s, Pending := True\<rparr>
      in if TimeoutSeconds t > 0
         then t1\<lparr>ExpiresAt := format_rfc3339nano
                (now_t + uint (TimeoutSeconds t) * second_ns)\<rparr>
         else t1)"

definition pending_body :: "string \<Rightarrow> instant \<Rightarrow> transfer \<Rightarrow> dev \<Rightarrow> tb_result \<times> dev" where
  "pending_body now_s now_t t s =
     (case map_of (transfers s) (tID t) of
        Some existing \<Rightarrow>
          (if sameAttrs existing t \<and> Pending existing \<and> \<not> Resolved existing
           then (res Exists, s) else (res ExistsWithDifferentAttributes, s))
      | None \<Rightarrow> (case validateParties s t of
          Inl r \<Rightarrow> (r, s)
        | Inr (dr, cr) \<Rightarrow>
            (let rc = checkConstraints dr (Amount t) 0 0 0;
                 rc' = checkConstraints cr 0 0 (Amount t) 0
             in if rc \<noteq> OK then (resm rc ''debit account'', s)
                else if rc' \<noteq> OK then (resm rc' ''credit account'', s)
                else
                 (let s1 = upd_account (DebitAccountID t)
                             (\<lambda>a. a\<lparr>DebitsPending := DebitsPending a + Amount t\<rparr>) s;
                      s2 = upd_account (CreditAccountID t)
                             (\<lambda>a. a\<lparr>CreditsPending := CreditsPending a + Amount t\<rparr>) s1;
                      t2 = reservation now_s now_t t
                  in (res OK, eventLocked t2 (changedLocked (put_transfer (tID t) t2 s2)))))))"

definition PendingTransfer ::
  "string \<Rightarrow> instant \<Rightarrow> transfer \<Rightarrow> dev \<Rightarrow> tb_result \<times> dev" where
  "PendingTransfer now_s now_t t s = apsnd runHooks (pending_body now_s now_t t s)"

section \<open>Resolving pending transfers\<close>

text \<open>Releasing and re-reserving the amount of a pending transfer, and posting an amount.\<close>

definition release_pending :: "transfer \<Rightarrow> dev \<Rightarrow> dev" where
  "release_pending pt s =
     upd_account (CreditAccountID pt) (\<lambda>a. a\<lparr>CreditsPending := CreditsPending a - Amount pt\<rparr>)
       (upd_account (DebitAccountID pt) (\<lambda>a. a\<lparr>DebitsPending := DebitsPending a - Amount pt\<rparr>) s)"

definition reserve_pending :: "transfer \<Rightarrow> dev \<Rightarrow> dev" where
  "reserve_pending pt s =
     upd_account (CreditAccountID pt) (\<lambda>a. a\<lparr>CreditsPending := CreditsPending a + Amount pt\<rparr>)
       (upd_account (DebitAccountID pt) (\<lambda>a. a\<lparr>DebitsPending := DebitsPending a + Amount pt\<rparr>) s)"

definition post_amounts :: "transfer \<Rightarrow> u64 \<Rightarrow> dev \<Rightarrow> dev" where
  "post_amounts pt amount s =
     upd_account (CreditAccountID pt) (\<lambda>a. a\<lparr>CreditsPosted := CreditsPosted a + amount\<rparr>)
       (upd_account (DebitAccountID pt) (\<lambda>a. a\<lparr>DebitsPosted := DebitsPosted a + amount\<rparr>) s)"

text \<open>
  The common middle of \<open>PostPending\<close> and \<open>PostPendingAs\<close>: release, check both sides,
  post, or put the reservation back.
\<close>

definition settle_pending :: "transfer \<Rightarrow> u64 \<Rightarrow> dev \<Rightarrow> (tb_result \<times> dev) option" where
  "settle_pending pt amount s =
     (if map_of (accounts s) (DebitAccountID pt) = None
        \<or> map_of (accounts s) (CreditAccountID pt) = None then None
      else
       (let s1 = release_pending pt s;
            rc = checkConstraints (the (map_of (accounts s1) (DebitAccountID pt))) 0 amount 0 0;
            rc' = checkConstraints (the (map_of (accounts s1) (CreditAccountID pt))) 0 0 0 amount
        in if rc \<noteq> OK then Some (resm rc ''debit account'', reserve_pending pt s1)
           else if rc' \<noteq> OK then Some (resm rc' ''credit account'', reserve_pending pt s1)
           else Some (res OK, post_amounts pt amount s1)))"

definition post_record :: "tbid \<Rightarrow> tbid \<Rightarrow> transfer \<Rightarrow> u64 \<Rightarrow> string \<Rightarrow> transfer" where
  "post_record postID pendingID pt amount now_s = \<lparr>tID = postID,
     DebitAccountID = DebitAccountID pt, CreditAccountID = CreditAccountID pt,
     Amount = amount, tLedger = tLedger pt, tCode = tCode pt, Pending = False,
     PendingID = pendingID, Resolved = False, tUserData = tUserData pt, tCreatedAt = now_s,
     TimeoutSeconds = 0, ExpiresAt = ''''\<rparr>"

text \<open>After a successful settlement the pending record is marked resolved and the post recorded
  under \<open>i\<close>; a refused settlement leaves the records alone.\<close>

definition record_post ::
  "tbid \<Rightarrow> tbid \<Rightarrow> transfer \<Rightarrow> transfer \<Rightarrow> tb_result \<times> dev \<Rightarrow> tb_result \<times> dev" where
  "record_post pendingID i pt post rs =
     (let (r, s1) = rs
      in if Code r \<noteq> OK then (r, s1)
         else (res OK, eventLocked post (changedLocked
                (put_transfer i post (put_transfer pendingID (pt\<lparr>Resolved := True\<rparr>) s1)))))"

definition post_pending_body ::
  "string \<Rightarrow> tbid \<Rightarrow> u64 \<Rightarrow> u16 \<Rightarrow> dev \<Rightarrow> (tb_result \<times> dev) option" where
  "post_pending_body now_s pendingID amount0 code s =
     (case map_of (transfers s) pendingID of
        None \<Rightarrow> Some (res PendingTransferNotFound, s)
      | Some pt \<Rightarrow>
          if \<not> Pending pt \<or> Resolved pt then Some (res PendingTransferNotPending, s)
          else if code \<noteq> 0 \<and> code \<noteq> tCode pt
          then Some (resm PendingTransferHasDifferentAttr
                 ''code must match the pending transfer's code'', s)
          else
           (let amount = (if amount0 = 0 then Amount pt else amount0)
            in if amount > Amount pt then Some (res ExceedsPendingAmount, s)
               else map_option
                 (record_post pendingID pendingID pt
                    (post_record pendingID pendingID pt amount now_s))
                 (settle_pending pt amount s)))"

definition PostPending ::
  "string \<Rightarrow> tbid \<Rightarrow> u64 \<Rightarrow> u16 \<Rightarrow> dev \<Rightarrow> (tb_result \<times> dev) option" where
  "PostPending now_s pendingID amount code s =
     map_option (apsnd runHooks) (post_pending_body now_s pendingID amount code s)"

definition post_pending_as_body ::
  "string \<Rightarrow> tbid \<Rightarrow> tbid \<Rightarrow> u64 \<Rightarrow> u16 \<Rightarrow> dev \<Rightarrow> (tb_result \<times> dev) option" where
  "post_pending_as_body now_s pendingID postID amount0 code s =
     (case map_of (transfers s) pendingID of
        None \<Rightarrow> Some (res PendingTransferNotFound, s)
      | Some pt \<Rightarrow>
          if \<not> Pending pt \<or> Resolved pt then
            (case map_of (transfers s) postID of
               Some post \<Rightarrow>
                 if PendingID post = pendingID \<and> \<not> Pending post then Some (res OK, s)
                 else Some (res PendingTransferNotPending, s)
             | None \<Rightarrow> Some (res PendingTransferNotPending, s))
          else if code \<noteq> 0 \<and> code \<noteq> tCode pt
          then Some (resm PendingTransferHasDifferentAttr
                 ''code must match the pending transfer's code'', s)
          else (case map_of (transfers s) postID of
            Some existing \<Rightarrow>
              if PendingID existing = pendingID \<and> \<not> Pending existing then Some (res OK, s)
              else Some (resm Exists ''post id already in use'', s)
          | None \<Rightarrow>
             (let amount = (if amount0 = 0 then Amount pt else amount0)
              in if amount > Amount pt then Some (res ExceedsPendingAmount, s)
                 else map_option
                   (record_post pendingID postID pt
                      (post_record postID pendingID pt amount now_s))
                   (settle_pending pt amount s))))"

definition PostPendingAs ::
  "string \<Rightarrow> tbid \<Rightarrow> tbid \<Rightarrow> u64 \<Rightarrow> u16 \<Rightarrow> dev \<Rightarrow> (tb_result \<times> dev) option" where
  "PostPendingAs now_s pendingID postID amount code s =
     map_option (apsnd runHooks) (post_pending_as_body now_s pendingID postID amount code s)"

definition voided_record :: "transfer \<Rightarrow> u16 \<Rightarrow> string \<Rightarrow> transfer" where
  "voided_record pt code now_s =
     pt\<lparr>Resolved := True, tCode := code, Pending := False, tCreatedAt := now_s\<rparr>"

definition void_pending_body ::
  "string \<Rightarrow> tbid \<Rightarrow> u16 \<Rightarrow> dev \<Rightarrow> (tb_result \<times> dev) option" where
  "void_pending_body now_s pendingID code s =
     (case map_of (transfers s) pendingID of
        None \<Rightarrow> Some (res PendingTransferNotFound, s)
      | Some pt \<Rightarrow>
          if \<not> Pending pt \<or> Resolved pt then Some (res PendingTransferNotPending, s)
          else if code \<noteq> 0 \<and> code \<noteq> tCode pt
          then Some (resm PendingTransferHasDifferentAttr
                 ''code must match the pending transfer's code'', s)
          else if map_of (accounts s) (DebitAccountID pt) = None
            \<or> map_of (accounts s) (CreditAccountID pt) = None then None
          else
           (let voided = voided_record pt (tCode pt) now_s
            in Some (res OK, eventLocked voided (changedLocked
                 (put_transfer pendingID voided (release_pending pt s))))))"

definition VoidPending ::
  "string \<Rightarrow> tbid \<Rightarrow> u16 \<Rightarrow> dev \<Rightarrow> (tb_result \<times> dev) option" where
  "VoidPending now_s pendingID code s =
     map_option (apsnd runHooks) (void_pending_body now_s pendingID code s)"

section \<open>Expiry sweep\<close>

text \<open>The guard of the sweep: unresolved, with a parsable expiry at or before \<open>t\<close>.\<close>

definition expired_at :: "instant \<Rightarrow> transfer \<Rightarrow> bool" where
  "expired_at t pt \<longleftrightarrow> Pending pt \<and> \<not> Resolved pt \<and> ExpiresAt pt \<noteq> ''''
     \<and> (case parse_rfc3339 (ExpiresAt pt) of None \<Rightarrow> False | Some e \<Rightarrow> \<not> e > t)"

text \<open>The loop over the transfers present when the sweep starts; \<open>now_s\<close> gives the value of
  \<open>now()\<close> at each voided transfer.\<close>

fun expire_loop ::
  "instant \<Rightarrow> (tbid \<Rightarrow> string) \<Rightarrow> transfer list \<Rightarrow> transfer list \<Rightarrow> dev
     \<Rightarrow> (transfer list \<times> dev) option" where
  "expire_loop t now_s [] expired s = Some (expired, s)"
| "expire_loop t now_s (pt # pts) expired s =
     (if \<not> expired_at t pt then expire_loop t now_s pts expired s
      else if map_of (accounts s) (DebitAccountID pt) = None
        \<or> map_of (accounts s) (CreditAccountID pt) = None then None
      else
       (let voided = voided_record pt CodeVoid (now_s (tID pt))
        in expire_loop t now_s pts (expired @ [voided])
             (put_transfer (tID pt) voided (release_pending pt s))))"

definition ExpirePendings ::
  "instant \<Rightarrow> (tbid \<Rightarrow> string) \<Rightarrow> dev \<Rightarrow> (transfer list \<times> dev) option" where
  "ExpirePendings t now_s s =
     (case expire_loop t now_s (map snd (transfers s)) [] s of
        None \<Rightarrow> None
      | Some (expired, s1) \<Rightarrow>
          if expired = [] then Some ([], runHooks s1)
          else
           (let sorted_expired = sort_key (\<lambda>v. ID_String (tID v)) expired
            in Some (sorted_expired,
                 runHooks (fold eventLocked sorted_expired (changedLocked s1)))))"

section \<open>Reads\<close>

definition Balance :: "tbid \<Rightarrow> dev \<Rightarrow> balance option \<times> tb_result" where
  "Balance i s = (case map_of (accounts s) i of
       None \<Rightarrow> (None, res AccountNotFound)
     | Some a \<Rightarrow> (Some \<lparr>AccountID = i, bDebitsPending = DebitsPending a,
         bDebitsPosted = DebitsPosted a, bCreditsPending = CreditsPending a,
         bCreditsPosted = CreditsPosted a,
         PostedNet = CreditsPosted a - DebitsPosted a,
         AvailableKobo = CreditsPosted a - DebitsPosted a - DebitsPending a\<rparr>, res OK))"

definition GetAccount :: "tbid \<Rightarrow> dev \<Rightarrow> account option \<times> tb_result" where
  "GetAccount i s = (case map_of (accounts s) i of
       None \<Rightarrow> (None, res AccountNotFound) | Some a \<Rightarrow> (Some a, res OK))"

definition GetTransfer :: "tbid \<Rightarrow> dev \<Rightarrow> transfer option \<times> tb_result" where
  "GetTransfer i s = (case map_of (transfers s) i of
       None \<Rightarrow> (None, res PendingTransferNotFound) | Some t \<Rightarrow> (Some t, res OK))"

definition ListAccounts :: "dev \<Rightarrow> account list" where
  "ListAccounts s = sort_key (\<lambda>a. ID_String (aID a)) (map snd (accounts s))"

definition ListTransfers :: "tbid \<Rightarrow> dev \<Rightarrow> transfer list" where
  "ListTransfers i s = sort_key tCreatedAt
     (filter (\<lambda>t. ID_Zero i \<or> DebitAccountID t = i \<or> CreditAccountID t = i)
        (map snd (transfers s)))"

definition CountTransfers :: "dev \<Rightarrow> nat" where
  "CountTransfers s = length (transfers s)"

end
