(* ===== verification/LedgerInv.thy ===== *)
theory LedgerInv
  imports Ledger
begin

text \<open>
  Correctness of the ledger client: the invariant \<open>ledger_inv\<close> ties every balance counter of
  every account to the transfers on record, every operation preserves it, and none of them
  dereferences a missing account from a state that satisfies it. Conservation of posted money
  follows.
\<close>

section \<open>What the counters mean\<close>

definition open_pending :: "transfer \<Rightarrow> bool" where
  "open_pending t \<longleftrightarrow> Pending t \<and> \<not> Resolved t"

definition posted :: "transfer \<Rightarrow> bool" where
  "posted t \<longleftrightarrow> \<not> Pending t \<and> \<not> Resolved t"

definition w_on :: "(transfer \<Rightarrow> bool) \<Rightarrow> (transfer \<Rightarrow> tbid) \<Rightarrow> tbid \<Rightarrow> transfer \<Rightarrow> nat" where
  "w_on P side i t = (if P t \<and> side t = i then unat (Amount t) else 0)"

text \<open>The counters of an account equal the totals of the records that touch it.\<close>

definition books :: "tbid \<Rightarrow> account \<Rightarrow> (tbid, transfer) kv \<Rightarrow> bool" where
  "books i a ts \<longleftrightarrow>
     unat (DebitsPending a) = kv_sum (w_on open_pending DebitAccountID i) ts
   \<and> unat (CreditsPending a) = kv_sum (w_on open_pending CreditAccountID i) ts
   \<and> unat (DebitsPosted a) = kv_sum (w_on posted DebitAccountID i) ts
   \<and> unat (CreditsPosted a) = kv_sum (w_on posted CreditAccountID i) ts"

definition sound_record :: "(tbid, account) kv \<Rightarrow> tbid \<Rightarrow> transfer \<Rightarrow> bool" where
  "sound_record as i t \<longleftrightarrow> tID t = i \<and> DebitAccountID t \<noteq> CreditAccountID t
     \<and> map_of as (DebitAccountID t) \<noteq> None \<and> map_of as (CreditAccountID t) \<noteq> None"

definition ledger_inv :: "dev \<Rightarrow> bool" where
  "ledger_inv s \<longleftrightarrow> kv_ok (accounts s) \<and> kv_ok (transfers s)
     \<and> (\<forall>i a. map_of (accounts s) i = Some a \<longrightarrow> aID a = i \<and> books i a (transfers s))
     \<and> (\<forall>i t. map_of (transfers s) i = Some t \<longrightarrow> sound_record (accounts s) i t)"

lemma ledger_invI:
  assumes "kv_ok (accounts s)" "kv_ok (transfers s)"
    and "\<And>i a. map_of (accounts s) i = Some a \<Longrightarrow> aID a = i \<and> books i a (transfers s)"
    and "\<And>i t. map_of (transfers s) i = Some t \<Longrightarrow> sound_record (accounts s) i t"
  shows "ledger_inv s"
  using assms by (simp add: ledger_inv_def)

lemma ledger_invD:
  assumes "ledger_inv s"
  shows "kv_ok (accounts s)" "kv_ok (transfers s)"
    and "map_of (accounts s) i = Some a \<Longrightarrow> aID a = i \<and> books i a (transfers s)"
    and "map_of (transfers s) i = Some t \<Longrightarrow> sound_record (accounts s) i t"
  using assms by (auto simp: ledger_inv_def)

lemma ledger_inv_init: "ledger_inv NewDevClient"
  by (simp add: ledger_inv_def NewDevClient_def)

section \<open>Shared lemmas on the state\<close>

lemma accounts_upd [kv_simps]:
  "map_of (accounts (upd_account i f s)) j =
     (if j = i then map_option f (map_of (accounts s) j) else map_of (accounts s) j)"
  by (auto simp: upd_account_def split: option.splits)

lemma transfers_upd [kv_simps, simp]: "transfers (upd_account i f s) = transfers s"
  by (simp add: upd_account_def split: option.splits)

lemma kv_ok_accounts_upd [simp]: "kv_ok (accounts s) \<Longrightarrow> kv_ok (accounts (upd_account i f s))"
  by (simp add: upd_account_def split: option.splits)

lemma put_transfer_simps [kv_simps, simp]:
  "accounts (put_transfer i t s) = accounts s"
  "transfers (put_transfer i t s) = kv_put i t (transfers s)"
  by (simp_all add: put_transfer_def)

lemma hook_frame [kv_simps, simp]:
  "accounts (changedLocked s) = accounts s" "transfers (changedLocked s) = transfers s"
  "accounts (eventLocked t s) = accounts s" "transfers (eventLocked t s) = transfers s"
  "accounts (runHooks s) = accounts s" "transfers (runHooks s) = transfers s"
  by (simp_all add: changedLocked_def eventLocked_def runHooks_def)

lemma fold_event_frame [simp]:
  "accounts (fold eventLocked ts s) = accounts s" "transfers (fold eventLocked ts s) = transfers s"
  by (induction ts arbitrary: s) simp_all

lemma ledger_inv_frame:
  "accounts s' = accounts s \<Longrightarrow> transfers s' = transfers s \<Longrightarrow> ledger_inv s' \<longleftrightarrow> ledger_inv s"
  by (simp add: ledger_inv_def)

lemma ledger_inv_runHooks [simp]: "ledger_inv (runHooks s) \<longleftrightarrow> ledger_inv s"
  by (rule ledger_inv_frame) simp_all

text \<open>An accepted check rules out wrap-around on each counter it looked at.\<close>

lemma checkConstraints_no_wrap:
  assumes "checkConstraints a p q r t = OK"
  shows "unat (DebitsPending a + p) = unat (DebitsPending a) + unat p"
    and "unat (DebitsPosted a + q) = unat (DebitsPosted a) + unat q"
    and "unat (CreditsPending a + r) = unat (CreditsPending a) + unat r"
    and "unat (CreditsPosted a + t) = unat (CreditsPosted a) + unat t"
  using assms
  by (auto simp: checkConstraints_def Let_def unat_plus_simple [symmetric] split: if_splits)

lemma validateParties_Inr:
  assumes "validateParties s t = Inr (dr, cr)"
  shows "Amount t \<noteq> 0" "DebitAccountID t \<noteq> CreditAccountID t"
    "map_of (accounts s) (DebitAccountID t) = Some dr"
    "map_of (accounts s) (CreditAccountID t) = Some cr" "aLedger dr = aLedger cr"
  using assms by (auto simp: validateParties_def split: if_splits option.splits)

text \<open>Recording a transfer under a fresh id adds its weight to each total.\<close>

lemma books_put_new:
  assumes "map_of ts i = None"
  shows "books j a (kv_put i t ts) \<longleftrightarrow>
     unat (DebitsPending a)
       = w_on open_pending DebitAccountID j t + kv_sum (w_on open_pending DebitAccountID j) ts
   \<and> unat (CreditsPending a)
       = w_on open_pending CreditAccountID j t + kv_sum (w_on open_pending CreditAccountID j) ts
   \<and> unat (DebitsPosted a) = w_on posted DebitAccountID j t + kv_sum (w_on posted DebitAccountID j) ts
   \<and> unat (CreditsPosted a)
       = w_on posted CreditAccountID j t + kv_sum (w_on posted CreditAccountID j) ts"
  using assms by (simp add: books_def kv_sum_put_new)

lemma books_put_old:
  assumes "kv_ok ts" "map_of ts i = Some u" "books j a ts"
  shows "books j b (kv_put i t ts) \<longleftrightarrow>
     unat (DebitsPending b) + w_on open_pending DebitAccountID j u
       = unat (DebitsPending a) + w_on open_pending DebitAccountID j t
   \<and> unat (CreditsPending b) + w_on open_pending CreditAccountID j u
       = unat (CreditsPending a) + w_on open_pending CreditAccountID j t
   \<and> unat (DebitsPosted b) + w_on posted DebitAccountID j u
       = unat (DebitsPosted a) + w_on posted DebitAccountID j t
   \<and> unat (CreditsPosted b) + w_on posted CreditAccountID j u
       = unat (CreditsPosted a) + w_on posted CreditAccountID j t"
proof -
  have e: "x = kv_sum f (kv_put i t ts) \<longleftrightarrow> x + f u = kv_sum f ts + f t" for x :: nat and f
    using kv_sum_put_old [OF assms(1,2), of f t] by linarith
  show ?thesis
    using assms(3) by (simp only: books_def e)
qed

lemma sound_record_mono:
  assumes "sound_record as i t" "\<And>j. map_of as j \<noteq> None \<Longrightarrow> map_of bs j \<noteq> None"
  shows "sound_record bs i t"
  using assms by (auto simp: sound_record_def)

section \<open>Creating accounts\<close>

definition zero_balances :: "account \<Rightarrow> bool" where
  "zero_balances a \<longleftrightarrow> DebitsPending a = 0 \<and> DebitsPosted a = 0
     \<and> CreditsPending a = 0 \<and> CreditsPosted a = 0"

lemma create_account_inv:
  assumes inv: "ledger_inv s" and z: "zero_balances a"
    and step: "create_account now_s a s = (r, s')"
  shows "ledger_inv s'"
proof (cases "ID_Zero (aID a) \<or> map_of (accounts s) (aID a) \<noteq> None")
  case True
  with step have "s' = s"
    by (auto simp: create_account_def split: if_splits option.splits)
  with inv show ?thesis by simp
next
  case False
  let ?a = "a\<lparr>aCreatedAt := now_s\<rparr>"
  from False step have acc: "accounts s' = kv_put (aID a) ?a (accounts s)"
    and tr: "transfers s' = transfers s"
    by (auto simp: create_account_def Let_def split: if_splits)
  have fresh: "side t \<noteq> aID a" if "(j, t) \<in> set (transfers s)"
      "side = DebitAccountID \<or> side = CreditAccountID" for j t side
  proof -
    from that inv have "map_of (transfers s) j = Some t"
      by (simp add: kv_mem_iff ledger_invD)
    with inv have "sound_record (accounts s) j t" by (rule ledger_invD)
    with False that show ?thesis by (auto simp: sound_record_def)
  qed
  have zero: "kv_sum (w_on P side (aID a)) (transfers s) = 0"
    if "side = DebitAccountID \<or> side = CreditAccountID" for P side
    using fresh [OF _ that] by (intro kv_sum_zero) (auto simp: w_on_def)
  show ?thesis
  proof (rule ledger_invI)
    fix i b assume b: "map_of (accounts s') i = Some b"
    show "aID b = i \<and> books i b (transfers s')"
    proof (cases "i = aID a")
      case True
      with b have "b = ?a" by (simp add: acc)
      with True z show ?thesis
        by (simp add: tr books_def zero_balances_def zero)
    next
      case False
      with b have "map_of (accounts s) i = Some b" by (simp add: acc)
      with inv show ?thesis by (simp add: tr ledger_invD)
    qed
  next
    fix i t assume "map_of (transfers s') i = Some t"
    then have "sound_record (accounts s) i t" using inv by (simp add: tr ledger_invD)
    then show "sound_record (accounts s') i t"
      by (rule sound_record_mono) (auto simp: acc)
  qed (use inv acc tr in \<open>auto simp: ledger_invD\<close>)
qed

lemma create_loop_inv:
  assumes "ledger_inv s" "list_all zero_balances as" "create_loop now_s i as s = (rs, s')"
  shows "ledger_inv s'"
  using assms
proof (induction as arbitrary: i s rs)
  case Nil
  then show ?case by simp
next
  case (Cons a as)
  obtain r s1 where s1: "create_account (now_s i) a s = (r, s1)" by fastforce
  obtain rs' s2 where s2: "create_loop now_s (Suc i) as s1 = (rs', s2)" by fastforce
  from Cons.prems s1 s2 have "create_loop now_s (Suc i) as s1 = (rs', s')" by simp
  moreover from Cons.prems s1 have "ledger_inv s1" by (auto intro: create_account_inv)
  ultimately show ?case using Cons.IH Cons.prems by simp
qed

lemma CreateAccounts_inv:
  assumes "ledger_inv s" "list_all zero_balances as" "CreateAccounts now_s as s = (rs, s')"
  shows "ledger_inv s'"
proof -
  obtain rs1 s1 where s1: "create_loop now_s 0 as s = (rs1, s1)" by fastforce
  with assms have "ledger_inv s1" by (blast intro: create_loop_inv)
  moreover from assms(3) s1 have "s' = runHooks (changedLocked s1)"
    by (simp add: CreateAccounts_def)
  ultimately show ?thesis by (simp add: ledger_inv_def)
qed

section \<open>Two-sided updates\<close>

text \<open>
  Every money movement rewrites one debit and one credit account and one or two records. The
  rule reduces the invariant afterwards to the two rewritten accounts, the untouched ones and
  the records.
\<close>

lemma ledger_inv_two:
  assumes inv: "ledger_inv s" and ne: "dr \<noteq> cr"
    and d: "map_of (accounts s) dr = Some d" and c: "map_of (accounts s) cr = Some c"
    and acc: "\<And>j. map_of (accounts s') j = (if j = cr then Some c' else if j = dr then Some d'
      else map_of (accounts s) j)"
    and oka: "kv_ok (accounts s')" and okt: "kv_ok (transfers s')"
    and ids: "aID d' = aID d" "aID c' = aID c"
    and bd: "books dr d' (transfers s')" and bc: "books cr c' (transfers s')"
    and other: "\<And>j a. j \<noteq> dr \<Longrightarrow> j \<noteq> cr \<Longrightarrow> books j a (transfers s) \<Longrightarrow> books j a (transfers s')"
    and rec: "\<And>i t. map_of (transfers s') i = Some t \<Longrightarrow> sound_record (accounts s) i t"
  shows "ledger_inv s'"
proof (rule ledger_invI [OF oka okt])
  fix i b assume b: "map_of (accounts s') i = Some b"
  show "aID b = i \<and> books i b (transfers s')"
  proof (cases "i = dr \<or> i = cr")
    case True
    with b acc bd bc ids ne ledger_invD(3) [OF inv d] ledger_invD(3) [OF inv c]
    show ?thesis by (auto split: if_splits)
  next
    case False
    with b acc have "map_of (accounts s) i = Some b" by simp
    then have "aID b = i \<and> books i b (transfers s)" by (rule ledger_invD(3) [OF inv])
    with False other show ?thesis by simp
  qed
next
  fix i t assume "map_of (transfers s') i = Some t"
  then have "sound_record (accounts s) i t" by (rule rec)
  then show "sound_record (accounts s') i t"
    by (rule sound_record_mono) (simp add: acc)
qed

section \<open>Immediate and pending transfers\<close>

lemma transfer_body_cases:
  assumes "transfer_body now_s t s = (r, s')"
  shows "s' = s \<and> Code r \<noteq> OK \<or>
    (\<exists>dr cr. Code r = OK \<and> map_of (transfers s) (tID t) = None
       \<and> validateParties s t = Inr (dr, cr)
       \<and> checkConstraints dr 0 (Amount t) 0 0 = OK \<and> checkConstraints cr 0 0 0 (Amount t) = OK
       \<and> s' = (let t' = t\<lparr>tCreatedAt := now_s, Pending := False\<rparr>
               in eventLocked t' (changedLocked (put_transfer (tID t) t'
                   (upd_account (CreditAccountID t)
                      (\<lambda>a. a\<lparr>CreditsPosted := CreditsPosted a + Amount t\<rparr>)
                      (upd_account (DebitAccountID t)
                        (\<lambda>a. a\<lparr>DebitsPosted := DebitsPosted a + Amount t\<rparr>) s))))))"
proof -
  have err: "Code x \<noteq> OK" if "validateParties s t = Inl x" for x
    using that by (auto simp: validateParties_def split: if_splits option.splits)
  from assms err show ?thesis
    by (auto simp: transfer_body_def Let_def
        split: option.splits sum.splits prod.splits if_splits)
qed

lemma pending_body_cases:
  assumes "pending_body now_s now_t t s = (r, s')"
  shows "s' = s \<and> Code r \<noteq> OK \<or>
    (\<exists>dr cr. Code r = OK \<and> map_of (transfers s) (tID t) = None
       \<and> validateParties s t = Inr (dr, cr)
       \<and> checkConstraints dr (Amount t) 0 0 0 = OK \<and> checkConstraints cr 0 0 (Amount t) 0 = OK
       \<and> s' = (let t' = reservation now_s now_t t
               in eventLocked t' (changedLocked (put_transfer (tID t) t'
                   (upd_account (CreditAccountID t)
                      (\<lambda>a. a\<lparr>CreditsPending := CreditsPending a + Amount t\<rparr>)
                      (upd_account (DebitAccountID t)
                        (\<lambda>a. a\<lparr>DebitsPending := DebitsPending a + Amount t\<rparr>) s))))))"
proof -
  have err: "Code x \<noteq> OK" if "validateParties s t = Inl x" for x
    using that by (auto simp: validateParties_def split: if_splits option.splits)
  from assms err show ?thesis
    by (auto simp: pending_body_def Let_def
        split: option.splits sum.splits prod.splits if_splits)
qed

lemma transfer_body_inv:
  assumes inv: "ledger_inv s" and nr: "\<not> Resolved t" and step: "transfer_body now_s t s = (r, s')"
  shows "ledger_inv s'"
proof (cases "Code r = OK")
  case False
  with transfer_body_cases [OF step] inv show ?thesis by blast
next
  case True
  let ?t = "t\<lparr>tCreatedAt := now_s, Pending := False\<rparr>"
  let ?f = "\<lambda>a. a\<lparr>DebitsPosted := DebitsPosted a + Amount t\<rparr>"
  let ?g = "\<lambda>a. a\<lparr>CreditsPosted := CreditsPosted a + Amount t\<rparr>"
  from transfer_body_cases [OF step] True obtain dr cr where
    fresh: "map_of (transfers s) (tID t) = None" and v: "validateParties s t = Inr (dr, cr)"
    and ckd: "checkConstraints dr 0 (Amount t) 0 0 = OK"
    and ckc: "checkConstraints cr 0 0 0 (Amount t) = OK"
    and s': "accounts s' = accounts (upd_account (CreditAccountID t) ?g
               (upd_account (DebitAccountID t) ?f s))"
      "transfers s' = kv_put (tID t) ?t (transfers s)"
    by (auto simp: Let_def)
  note p = validateParties_Inr [OF v]
  have wd: "unat (DebitsPosted dr + Amount t) = unat (DebitsPosted dr) + unat (Amount t)"
    by (rule checkConstraints_no_wrap(2) [OF ckd])
  have wc: "unat (CreditsPosted cr + Amount t) = unat (CreditsPosted cr) + unat (Amount t)"
    by (rule checkConstraints_no_wrap(4) [OF ckc])
  have bd: "books (DebitAccountID t) dr (transfers s)"
    and bc: "books (CreditAccountID t) cr (transfers s)"
    using ledger_invD(3) [OF inv p(3)] ledger_invD(3) [OF inv p(4)] by auto
  show ?thesis
  proof (rule ledger_inv_two [OF inv p(2) p(3) p(4)])
    show "map_of (accounts s') j = (if j = CreditAccountID t then Some (?g cr)
        else if j = DebitAccountID t then Some (?f dr) else map_of (accounts s) j)" for j
      using p by (simp add: s'(1) accounts_upd)
    show "books (DebitAccountID t) (?f dr) (transfers s')"
      using bd nr p(2) fresh wd
      by (simp add: s'(2) books_put_new) (simp add: books_def w_on_def posted_def open_pending_def)
    show "books (CreditAccountID t) (?g cr) (transfers s')"
      using bc nr p(2) fresh wc
      by (simp add: s'(2) books_put_new) (simp add: books_def w_on_def posted_def open_pending_def)
    show "books j a (transfers s')" if "j \<noteq> DebitAccountID t" "j \<noteq> CreditAccountID t"
        "books j a (transfers s)" for j a
      using that fresh by (simp add: s'(2) books_put_new) (simp add: books_def w_on_def)
    show "sound_record (accounts s) i u" if "map_of (transfers s') i = Some u" for i u
    proof (cases "i = tID t")
      case True
      with that p show ?thesis by (auto simp: s'(2) sound_record_def)
    next
      case False
      with that inv show ?thesis by (simp add: s'(2) ledger_invD)
    qed
  qed (use inv s' in \<open>simp_all add: ledger_invD\<close>)
qed

lemma Transfer_inv:
  assumes "ledger_inv s" "\<not> Resolved t" "Transfer now_s t s = (r, s')"
  shows "ledger_inv s'"
  using assms transfer_body_inv [of s t now_s]
  by (cases "transfer_body now_s t s") (auto simp: Transfer_def)

lemma pending_body_inv:
  assumes inv: "ledger_inv s" and nr: "\<not> Resolved t"
    and step: "pending_body now_s now_t t s = (r, s')"
  shows "ledger_inv s'"
proof (cases "Code r = OK")
  case False
  with pending_body_cases [OF step] inv show ?thesis by blast
next
  case True
  let ?f = "\<lambda>a. a\<lparr>DebitsPending := DebitsPending a + Amount t\<rparr>"
  let ?g = "\<lambda>a. a\<lparr>CreditsPending := CreditsPending a + Amount t\<rparr>"
  let ?t = "reservation now_s now_t t"
  have t': "Pending ?t" "tID ?t = tID t" "Resolved ?t = Resolved t" "Amount ?t = Amount t"
      "DebitAccountID ?t = DebitAccountID t" "CreditAccountID ?t = CreditAccountID t"
    by (simp_all add: reservation_def Let_def)
  from pending_body_cases [OF step] True obtain dr cr where
    fresh: "map_of (transfers s) (tID t) = None" and v: "validateParties s t = Inr (dr, cr)"
    and ckd: "checkConstraints dr (Amount t) 0 0 0 = OK"
    and ckc: "checkConstraints cr 0 0 (Amount t) 0 = OK"
    and s': "accounts s' = accounts (upd_account (CreditAccountID t) ?g
               (upd_account (DebitAccountID t) ?f s))"
      "transfers s' = kv_put (tID t) ?t (transfers s)"
    by (auto simp: Let_def)
  note p = validateParties_Inr [OF v]
  have wd: "unat (DebitsPending dr + Amount t) = unat (DebitsPending dr) + unat (Amount t)"
    by (rule checkConstraints_no_wrap(1) [OF ckd])
  have wc: "unat (CreditsPending cr + Amount t) = unat (CreditsPending cr) + unat (Amount t)"
    by (rule checkConstraints_no_wrap(3) [OF ckc])
  have bd: "books (DebitAccountID t) dr (transfers s)"
    and bc: "books (CreditAccountID t) cr (transfers s)"
    using ledger_invD(3) [OF inv p(3)] ledger_invD(3) [OF inv p(4)] by auto
  show ?thesis
  proof (rule ledger_inv_two [OF inv p(2) p(3) p(4)])
    show "map_of (accounts s') j = (if j = CreditAccountID t then Some (?g cr)
        else if j = DebitAccountID t then Some (?f dr) else map_of (accounts s) j)" for j
      using p by (simp add: s'(1) accounts_upd)
    show "books (DebitAccountID t) (?f dr) (transfers s')"
      using bd nr p(2) fresh wd t'
      by (simp add: s'(2) books_put_new) (simp add: books_def w_on_def posted_def open_pending_def)
    show "books (CreditAccountID t) (?g cr) (transfers s')"
      using bc nr p(2) fresh wc t'
      by (simp add: s'(2) books_put_new) (simp add: books_def w_on_def posted_def open_pending_def)
    show "books j a (transfers s')" if "j \<noteq> DebitAccountID t" "j \<noteq> CreditAccountID t"
        "books j a (transfers s)" for j a
      using that fresh t' by (simp add: s'(2) books_put_new) (simp add: books_def w_on_def)
    show "sound_record (accounts s) i u" if "map_of (transfers s') i = Some u" for i u
    proof (cases "i = tID t")
      case True
      with that p t' show ?thesis by (auto simp: s'(2) sound_record_def)
    next
      case False
      with that inv show ?thesis by (simp add: s'(2) ledger_invD)
    qed
  qed (use inv s' in \<open>simp_all add: ledger_invD\<close>)
qed

lemma PendingTransfer_inv:
  assumes "ledger_inv s" "\<not> Resolved t" "PendingTransfer now_s now_t t s = (r, s')"
  shows "ledger_inv s'"
  using assms pending_body_inv [of s t now_s now_t]
  by (cases "pending_body now_s now_t t s") (auto simp: PendingTransfer_def)

section \<open>Resolving pending transfers\<close>

lemma release_accounts:
  "map_of (accounts (release_pending pt s)) j =
     (if DebitAccountID pt = CreditAccountID pt then
        (if j = CreditAccountID pt then
           map_option (\<lambda>a. a\<lparr>DebitsPending := DebitsPending a - Amount pt,
             CreditsPending := CreditsPending a - Amount pt\<rparr>) (map_of (accounts s) j)
         else map_of (accounts s) j)
      else if j = CreditAccountID pt then
        map_option (\<lambda>a. a\<lparr>CreditsPending := CreditsPending a - Amount pt\<rparr>) (map_of (accounts s) j)
      else if j = DebitAccountID pt then
        map_option (\<lambda>a. a\<lparr>DebitsPending := DebitsPending a - Amount pt\<rparr>) (map_of (accounts s) j)
      else map_of (accounts s) j)"
  by (cases "map_of (accounts s) j") (auto simp: release_pending_def accounts_upd)

lemma release_accounts_None [simp]:
  "map_of (accounts (release_pending pt s)) j = None \<longleftrightarrow> map_of (accounts s) j = None"
  by (simp add: release_pending_def accounts_upd)

lemma movement_frame [kv_simps, simp]:
  "transfers (release_pending pt s) = transfers s"
  "transfers (reserve_pending pt s) = transfers s"
  "transfers (post_amounts pt amount s) = transfers s"
  by (simp_all add: release_pending_def reserve_pending_def post_amounts_def)

lemma kv_ok_movement [simp]:
  "kv_ok (accounts s) \<Longrightarrow> kv_ok (accounts (release_pending pt s))"
  "kv_ok (accounts s) \<Longrightarrow> kv_ok (accounts (reserve_pending pt s))"
  "kv_ok (accounts s) \<Longrightarrow> kv_ok (accounts (post_amounts pt amount s))"
  by (simp_all add: release_pending_def reserve_pending_def post_amounts_def)

lemma upd_account_frame [simp]:
  "nextSer (upd_account i f s) = nextSer s" "hasOnChange (upd_account i f s) = hasOnChange s"
  "hasOnEvent (upd_account i f s) = hasOnEvent s"
  "pendingChange (upd_account i f s) = pendingChange s"
  "pendingEvents (upd_account i f s) = pendingEvents s"
  "delivered (upd_account i f s) = delivered s"
  by (simp_all add: upd_account_def split: option.split)

text \<open>Putting a released reservation back restores the very same state.\<close>

lemma reserve_release:
  assumes "kv_ok (accounts s)"
  shows "reserve_pending pt (release_pending pt s) = s"
proof -
  let ?s' = "reserve_pending pt (release_pending pt s)"
  have "map_of (accounts ?s') = map_of (accounts s)"
  proof
    fix j
    show "map_of (accounts ?s') j = map_of (accounts s) j"
      by (cases "map_of (accounts s) j")
        (auto simp: reserve_pending_def release_pending_def accounts_upd)
  qed
  then have "accounts ?s' = accounts s"
    using assms by (intro kv_eqI) simp_all
  then show ?thesis
    by (intro dev.equality) (simp_all add: reserve_pending_def release_pending_def)
qed

lemma settle_cases:
  assumes "settle_pending pt amount s = Some (r, s')" "kv_ok (accounts s)"
  shows "Code r \<noteq> OK \<and> s' = s \<or>
    (\<exists>d c. Code r = OK \<and> map_of (accounts (release_pending pt s)) (DebitAccountID pt) = Some d
       \<and> map_of (accounts (release_pending pt s)) (CreditAccountID pt) = Some c
       \<and> checkConstraints d 0 amount 0 0 = OK \<and> checkConstraints c 0 0 0 amount = OK
       \<and> s' = post_amounts pt amount (release_pending pt s))"
proof -
  let ?s1 = "release_pending pt s"
  from assms(1) have ne: "map_of (accounts s) (DebitAccountID pt) \<noteq> None"
      "map_of (accounts s) (CreditAccountID pt) \<noteq> None"
    by (auto simp: settle_pending_def split: if_splits)
  then obtain d c where d: "map_of (accounts ?s1) (DebitAccountID pt) = Some d"
    and c: "map_of (accounts ?s1) (CreditAccountID pt) = Some c"
    using release_accounts_None [of pt s] by (metis not_None_eq)
  consider (debit) "checkConstraints d 0 amount 0 0 \<noteq> OK"
    | (credit) "checkConstraints d 0 amount 0 0 = OK" "checkConstraints c 0 0 0 amount \<noteq> OK"
    | (ok) "checkConstraints d 0 amount 0 0 = OK" "checkConstraints c 0 0 0 amount = OK" by blast
  then show ?thesis
    using assms(1) ne d c reserve_release [OF assms(2), of pt]
    by cases (auto simp: settle_pending_def Let_def)
qed

lemma settle_total:
  assumes "ledger_inv s" "map_of (transfers s) i = Some pt"
  shows "\<exists>r s'. settle_pending pt amount s = Some (r, s')"
  using ledger_invD(4) [OF assms]
  by (auto simp: settle_pending_def sound_record_def Let_def)

text \<open>Enough of the reservation is still held to be released.\<close>

lemma open_pending_covered:
  assumes inv: "ledger_inv s" and t: "map_of (transfers s) i = Some pt" and op: "open_pending pt"
    and d: "map_of (accounts s) (DebitAccountID pt) = Some d"
    and c: "map_of (accounts s) (CreditAccountID pt) = Some c"
  shows "unat (DebitsPending d - Amount pt) + unat (Amount pt) = unat (DebitsPending d)"
    and "unat (CreditsPending c - Amount pt) + unat (Amount pt) = unat (CreditsPending c)"
proof -
  have "unat (Amount pt) = w_on open_pending DebitAccountID (DebitAccountID pt) pt"
    using op by (simp add: w_on_def)
  also have "\<dots> \<le> kv_sum (w_on open_pending DebitAccountID (DebitAccountID pt)) (transfers s)"
    by (rule kv_sum_member_le [OF t])
  also have "\<dots> = unat (DebitsPending d)"
    using ledger_invD(3) [OF inv d] by (simp add: books_def)
  finally have "unat (Amount pt) \<le> unat (DebitsPending d)" .
  then show "unat (DebitsPending d - Amount pt) + unat (Amount pt) = unat (DebitsPending d)"
    by (simp add: unat_sub word_le_nat_alt)
  have "unat (Amount pt) = w_on open_pending CreditAccountID (CreditAccountID pt) pt"
    using op by (simp add: w_on_def)
  also have "\<dots> \<le> kv_sum (w_on open_pending CreditAccountID (CreditAccountID pt)) (transfers s)"
    by (rule kv_sum_member_le [OF t])
  also have "\<dots> = unat (CreditsPending c)"
    using ledger_invD(3) [OF inv c] by (simp add: books_def)
  finally have "unat (Amount pt) \<le> unat (CreditsPending c)" .
  then show "unat (CreditsPending c - Amount pt) + unat (Amount pt) = unat (CreditsPending c)"
    by (simp add: unat_sub word_le_nat_alt)
qed

text \<open>
  A successful settlement of a sound record moves \<open>amount\<close> from reserved to posted on both
  sides, without wrapping.
\<close>

lemma settle_ok:
  assumes inv: "ledger_inv s" and t: "map_of (transfers s) i = Some pt"
    and st: "settle_pending pt amount s = Some (r, s')" and ok: "Code r = OK"
  obtains d c where
    "map_of (accounts s) (DebitAccountID pt) = Some d"
    "map_of (accounts s) (CreditAccountID pt) = Some c"
    "\<And>j. map_of (accounts s') j =
       (if j = CreditAccountID pt then Some (c\<lparr>CreditsPending := CreditsPending c - Amount pt,
            CreditsPosted := CreditsPosted c + amount\<rparr>)
        else if j = DebitAccountID pt then Some (d\<lparr>DebitsPending := DebitsPending d - Amount pt,
            DebitsPosted := DebitsPosted d + amount\<rparr>)
        else map_of (accounts s) j)"
    "unat (DebitsPosted d + amount) = unat (DebitsPosted d) + unat amount"
    "unat (CreditsPosted c + amount) = unat (CreditsPosted c) + unat amount"
    "s' = post_amounts pt amount (release_pending pt s)"
proof -
  from ledger_invD(4) [OF inv t] obtain d c where ne: "DebitAccountID pt \<noteq> CreditAccountID pt"
    and d: "map_of (accounts s) (DebitAccountID pt) = Some d"
    and c: "map_of (accounts s) (CreditAccountID pt) = Some c"
    by (auto simp: sound_record_def)
  let ?d = "d\<lparr>DebitsPending := DebitsPending d - Amount pt\<rparr>"
  let ?c = "c\<lparr>CreditsPending := CreditsPending c - Amount pt\<rparr>"
  have rel: "map_of (accounts (release_pending pt s)) (DebitAccountID pt) = Some ?d"
    "map_of (accounts (release_pending pt s)) (CreditAccountID pt) = Some ?c"
    using ne d c by (simp_all add: release_accounts)
  from settle_cases [OF st ledger_invD(1) [OF inv]] ok rel
  have ck: "checkConstraints ?d 0 amount 0 0 = OK" "checkConstraints ?c 0 0 0 amount = OK"
    and s': "s' = post_amounts pt amount (release_pending pt s)" by auto
  have "map_of (accounts s') j =
       (if j = CreditAccountID pt then Some (c\<lparr>CreditsPending := CreditsPending c - Amount pt,
            CreditsPosted := CreditsPosted c + amount\<rparr>)
        else if j = DebitAccountID pt then Some (d\<lparr>DebitsPending := DebitsPending d - Amount pt,
            DebitsPosted := DebitsPosted d + amount\<rparr>)
        else map_of (accounts s) j)" for j
    using ne d c by (simp add: s' post_amounts_def accounts_upd release_pending_def)
  with d c s' checkConstraints_no_wrap(2) [OF ck(1)] checkConstraints_no_wrap(4) [OF ck(2)] that
  show ?thesis by simp
qed

lemma record_post_cases:
  assumes "record_post pid i pt post (r1, s1) = (r, s')"
  shows "if Code r1 = OK then Code r = OK \<and> s' = eventLocked post (changedLocked
             (put_transfer i post (put_transfer pid (pt\<lparr>Resolved := True\<rparr>) s1)))
         else r = r1 \<and> s' = s1"
  using assms by (auto simp: record_post_def)

text \<open>Both ways of recording the post keep the books: over the pending id, or beside it.\<close>

lemma post_record_inv:
  assumes inv: "ledger_inv s" and t: "map_of (transfers s) pid = Some pt" and op: "open_pending pt"
    and st: "settle_pending pt amount s = Some (r1, s1)" and ok: "Code r1 = OK"
    and i: "i = pid \<or> map_of (transfers s) i = None"
    and post: "post = post_record i pid pt amount now_s"
    and acc: "accounts s' = accounts s1"
    and tr: "transfers s' = kv_put i post (kv_put pid (pt\<lparr>Resolved := True\<rparr>) (transfers s))"
  shows "ledger_inv s'"
proof -
  from settle_ok [OF inv t st ok] obtain d c where
    d: "map_of (accounts s) (DebitAccountID pt) = Some d" and
    c: "map_of (accounts s) (CreditAccountID pt) = Some c" and
    lk: "\<And>j. map_of (accounts s1) j =
       (if j = CreditAccountID pt then Some (c\<lparr>CreditsPending := CreditsPending c - Amount pt,
            CreditsPosted := CreditsPosted c + amount\<rparr>)
        else if j = DebitAccountID pt then Some (d\<lparr>DebitsPending := DebitsPending d - Amount pt,
            DebitsPosted := DebitsPosted d + amount\<rparr>)
        else map_of (accounts s) j)" and
    wd: "unat (DebitsPosted d + amount) = unat (DebitsPosted d) + unat amount" and
    wc: "unat (CreditsPosted c + amount) = unat (CreditsPosted c) + unat amount" and
    s1: "s1 = post_amounts pt amount (release_pending pt s)" by metis
  note sound = ledger_invD(4) [OF inv t]
  have ne: "DebitAccountID pt \<noteq> CreditAccountID pt" "CreditAccountID pt \<noteq> DebitAccountID pt"
    using sound by (auto simp: sound_record_def)
  note cover = open_pending_covered [OF inv t op d c]
  have okt: "kv_ok (transfers s)" by (rule ledger_invD(2) [OF inv])
  let ?m = "kv_put pid (pt\<lparr>Resolved := True\<rparr>) (transfers s)"
  have w: "w_on open_pending side j (pt\<lparr>Resolved := True\<rparr>) = 0"
    "w_on posted side j (pt\<lparr>Resolved := True\<rparr>) = 0" "w_on posted side j pt = 0"
    "w_on open_pending side j post = 0" for side j
    using op by (simp_all add: w_on_def open_pending_def posted_def post post_record_def)
  have bk: "books j b (transfers s') \<longleftrightarrow>
       unat (DebitsPending b) + w_on open_pending DebitAccountID j pt = unat (DebitsPending a)
     \<and> unat (CreditsPending b) + w_on open_pending CreditAccountID j pt = unat (CreditsPending a)
     \<and> unat (DebitsPosted b) = unat (DebitsPosted a) + w_on posted DebitAccountID j post
     \<and> unat (CreditsPosted b) = unat (CreditsPosted a) + w_on posted CreditAccountID j post"
    if ja: "books j a (transfers s)" for j a b
  proof (cases "i = pid")
    case True
    have "kv_put i post ?m = kv_put pid post (transfers s)" using True okt by simp
    then show ?thesis
      using books_put_old [OF okt t ja, of b post] by (simp add: tr w)
  next
    case False
    with i have fr: "map_of ?m i = None" by simp
    have e: "kv_sum f ?m + f pt = kv_sum f (transfers s) + f (pt\<lparr>Resolved := True\<rparr>)"
      for f :: "transfer \<Rightarrow> nat"
      using kv_sum_put_old [OF okt t, of f] by (simp add: ac_simps)
    show ?thesis
      using e [of "w_on open_pending DebitAccountID j"] e [of "w_on open_pending CreditAccountID j"]
        e [of "w_on posted DebitAccountID j"] e [of "w_on posted CreditAccountID j"]
        ja [unfolded books_def]
      unfolding tr books_put_new [OF fr] w by auto
  qed
  show ?thesis
  proof (rule ledger_inv_two [OF inv _ d c])
    show "DebitAccountID pt \<noteq> CreditAccountID pt" by (rule ne)
    show "map_of (accounts s') j =
       (if j = CreditAccountID pt then Some (c\<lparr>CreditsPending := CreditsPending c - Amount pt,
            CreditsPosted := CreditsPosted c + amount\<rparr>)
        else if j = DebitAccountID pt then Some (d\<lparr>DebitsPending := DebitsPending d - Amount pt,
            DebitsPosted := DebitsPosted d + amount\<rparr>)
        else map_of (accounts s) j)" for j
      using lk by (simp add: acc)
    show "kv_ok (accounts s')" using inv by (simp add: acc s1 ledger_invD)
    show "kv_ok (transfers s')" using okt by (simp add: tr)
    show "books (DebitAccountID pt) (d\<lparr>DebitsPending := DebitsPending d - Amount pt,
            DebitsPosted := DebitsPosted d + amount\<rparr>) (transfers s')"
      using bk [OF conjunct2 [OF ledger_invD(3) [OF inv d]]] cover wd ne op
      by (simp add: w_on_def post post_record_def posted_def)
    show "books (CreditAccountID pt) (c\<lparr>CreditsPending := CreditsPending c - Amount pt,
            CreditsPosted := CreditsPosted c + amount\<rparr>) (transfers s')"
      using bk [OF conjunct2 [OF ledger_invD(3) [OF inv c]]] cover wc ne op
      by (simp add: w_on_def post post_record_def posted_def)
    show "books j a (transfers s')" if "j \<noteq> DebitAccountID pt" "j \<noteq> CreditAccountID pt"
        "books j a (transfers s)" for j a
      using that bk [OF that(3)] by (simp add: w_on_def post post_record_def)
    show "sound_record (accounts s) k u" if "map_of (transfers s') k = Some u" for k u
      using that sound ledger_invD(4) [OF inv, of k u]
      by (auto simp: tr sound_record_def post post_record_def split: if_splits)
  qed simp_all
qed

lemma post_pending_body_inv:
  assumes inv: "ledger_inv s" and step: "post_pending_body now_s pid amount code s = Some (r, s')"
  shows "ledger_inv s'"
proof (cases "s' = s")
  case True
  with inv show ?thesis by simp
next
  case False
  let ?am = "\<lambda>pt. if amount = 0 then Amount pt else amount"
  from step False obtain pt r1 s1 where t: "map_of (transfers s) pid = Some pt"
    and op: "open_pending pt" and st: "settle_pending pt (?am pt) s = Some (r1, s1)"
    and rec: "record_post pid pid pt (post_record pid pid pt (?am pt) now_s) (r1, s1) = (r, s')"
    by (auto simp: post_pending_body_def open_pending_def Let_def
        split: option.splits if_splits)
  show ?thesis
  proof (cases "Code r1 = OK")
    case True
    note rc = record_post_cases [OF rec]
    show ?thesis
    proof (rule post_record_inv [OF inv t op st True, where i = pid and s' = s'])
      have "transfers s1 = transfers s"
        using settle_ok [OF inv t st True] by (metis movement_frame(1,3))
      with True rc show "transfers s' = kv_put pid (post_record pid pid pt (?am pt) now_s)
          (kv_put pid (pt\<lparr>Resolved := True\<rparr>) (transfers s))" by simp
    qed (use True rc in simp_all)
  next
    case False
    then show ?thesis
      using settle_cases [OF st ledger_invD(1) [OF inv]] record_post_cases [OF rec] inv by auto
  qed
qed

lemma post_pending_as_body_inv:
  assumes inv: "ledger_inv s"
    and step: "post_pending_as_body now_s pid i amount code s = Some (r, s')"
  shows "ledger_inv s'"
proof (cases "s' = s")
  case True
  with inv show ?thesis by simp
next
  case False
  let ?am = "\<lambda>pt. if amount = 0 then Amount pt else amount"
  from step False obtain pt r1 s1 where t: "map_of (transfers s) pid = Some pt"
    and fr: "map_of (transfers s) i = None"
    and op: "open_pending pt" and st: "settle_pending pt (?am pt) s = Some (r1, s1)"
    and rec: "record_post pid i pt (post_record i pid pt (?am pt) now_s) (r1, s1) = (r, s')"
    by (auto simp: post_pending_as_body_def open_pending_def Let_def
        split: option.splits if_splits)
  show ?thesis
  proof (cases "Code r1 = OK")
    case True
    note rc = record_post_cases [OF rec]
    show ?thesis
    proof (rule post_record_inv [OF inv t op st True, where i = i and s' = s'])
      have "transfers s1 = transfers s"
        using settle_ok [OF inv t st True] by (metis movement_frame(1,3))
      with True rc show "transfers s' = kv_put i (post_record i pid pt (?am pt) now_s)
          (kv_put pid (pt\<lparr>Resolved := True\<rparr>) (transfers s))" by simp
    qed (use True rc fr in simp_all)
  next
    case False
    then show ?thesis
      using settle_cases [OF st ledger_invD(1) [OF inv]] record_post_cases [OF rec] inv by auto
  qed
qed

section \<open>Voiding and expiry\<close>

lemma release_lookup:
  assumes inv: "ledger_inv s" and t: "map_of (transfers s) i = Some pt"
  obtains d c where
    "map_of (accounts s) (DebitAccountID pt) = Some d"
    "map_of (accounts s) (CreditAccountID pt) = Some c"
    "DebitAccountID pt \<noteq> CreditAccountID pt"
    "\<And>j. map_of (accounts (release_pending pt s)) j =
       (if j = CreditAccountID pt then Some (c\<lparr>CreditsPending := CreditsPending c - Amount pt\<rparr>)
        else if j = DebitAccountID pt then Some (d\<lparr>DebitsPending := DebitsPending d - Amount pt\<rparr>)
        else map_of (accounts s) j)"
proof -
  from ledger_invD(4) [OF inv t] obtain d c where "DebitAccountID pt \<noteq> CreditAccountID pt"
    "map_of (accounts s) (DebitAccountID pt) = Some d"
    "map_of (accounts s) (CreditAccountID pt) = Some c"
    by (auto simp: sound_record_def)
  with that show ?thesis by (simp add: release_accounts)
qed

lemma void_record_inv:
  assumes inv: "ledger_inv s" and t: "map_of (transfers s) pid = Some pt" and op: "open_pending pt"
    and acc: "accounts s' = accounts (release_pending pt s)"
    and tr: "transfers s' = kv_put pid (voided_record pt code now_s) (transfers s)"
  shows "ledger_inv s'"
proof -
  from release_lookup [OF inv t] obtain d c where
    d: "map_of (accounts s) (DebitAccountID pt) = Some d" and
    c: "map_of (accounts s) (CreditAccountID pt) = Some c" and
    ne: "DebitAccountID pt \<noteq> CreditAccountID pt" and
    lk: "\<And>j. map_of (accounts (release_pending pt s)) j =
       (if j = CreditAccountID pt then Some (c\<lparr>CreditsPending := CreditsPending c - Amount pt\<rparr>)
        else if j = DebitAccountID pt then Some (d\<lparr>DebitsPending := DebitsPending d - Amount pt\<rparr>)
        else map_of (accounts s) j)" by metis
  note sound = ledger_invD(4) [OF inv t]
  note cover = open_pending_covered [OF inv t op d c]
  have okt: "kv_ok (transfers s)" by (rule ledger_invD(2) [OF inv])
  let ?v = "voided_record pt code now_s"
  have w: "w_on open_pending side j ?v = 0" "w_on posted side j ?v = 0" "w_on posted side j pt = 0"
    for side j
    using op by (simp_all add: w_on_def open_pending_def posted_def voided_record_def)
  note bk = books_put_old [OF okt t, of _ _ _ ?v, unfolded w, folded tr]
  have ne': "CreditAccountID pt \<noteq> DebitAccountID pt" using ne by simp
  show ?thesis
  proof (rule ledger_inv_two [OF inv ne d c])
    show "map_of (accounts s') j =
       (if j = CreditAccountID pt then Some (c\<lparr>CreditsPending := CreditsPending c - Amount pt\<rparr>)
        else if j = DebitAccountID pt then Some (d\<lparr>DebitsPending := DebitsPending d - Amount pt\<rparr>)
        else map_of (accounts s) j)" for j
      using lk by (simp add: acc)
    show "kv_ok (accounts s')" using inv by (simp add: acc ledger_invD)
    show "kv_ok (transfers s')" using okt by (simp add: tr)
    show "books (DebitAccountID pt) (d\<lparr>DebitsPending := DebitsPending d - Amount pt\<rparr>) (transfers s')"
      using bk [OF conjunct2 [OF ledger_invD(3) [OF inv d]]] cover ne ne' op
      by (simp add: w_on_def)
    show "books (CreditAccountID pt) (c\<lparr>CreditsPending := CreditsPending c - Amount pt\<rparr>) (transfers s')"
      using bk [OF conjunct2 [OF ledger_invD(3) [OF inv c]]] cover ne ne' op
      by (simp add: w_on_def)
    show "books j a (transfers s')" if "j \<noteq> DebitAccountID pt" "j \<noteq> CreditAccountID pt"
        "books j a (transfers s)" for j a
      using that bk [OF that(3)] by (simp add: w_on_def)
    show "sound_record (accounts s) k u" if "map_of (transfers s') k = Some u" for k u
      using that sound ledger_invD(4) [OF inv, of k u]
      by (auto simp: tr sound_record_def voided_record_def split: if_splits)
  qed simp_all
qed

lemma void_pending_body_inv:
  assumes inv: "ledger_inv s" and step: "void_pending_body now_s pid code s = Some (r, s')"
  shows "ledger_inv s'"
proof (cases "s' = s")
  case True
  with inv show ?thesis by simp
next
  case False
  with step obtain pt where t: "map_of (transfers s) pid = Some pt" and op: "open_pending pt"
    and s': "accounts s' = accounts (release_pending pt s)"
      "transfers s' = kv_put pid (voided_record pt (tCode pt) now_s) (transfers s)"
    by (auto simp: void_pending_body_def open_pending_def Let_def split: option.splits if_splits)
  show ?thesis by (rule void_record_inv [OF inv t op s'])
qed

lemma expired_open: "expired_at t pt \<Longrightarrow> open_pending pt"
  by (simp add: expired_at_def open_pending_def)

text \<open>The sweep never panics, keeps the invariant, voids exactly the expired records of the list
  it was given, and reports them.\<close>

lemma expire_loop_spec:
  assumes "ledger_inv s" "\<And>pt. pt \<in> set pts \<Longrightarrow> map_of (transfers s) (tID pt) = Some pt"
    and "distinct (map tID pts)"
  shows "\<exists>s'. expire_loop t now_s pts ex s
       = Some (ex @ map (\<lambda>pt. voided_record pt CodeVoid (now_s (tID pt)))
                  (filter (expired_at t) pts), s')
     \<and> ledger_inv s'
     \<and> (\<forall>i. map_of (transfers s') i = (case map_of (transfers s) i of
           None \<Rightarrow> None
         | Some pt \<Rightarrow> if pt \<in> set pts \<and> expired_at t pt
             then Some (voided_record pt CodeVoid (now_s (tID pt))) else Some pt))"
  using assms
proof (induction pts arbitrary: s ex)
  case Nil
  then show ?case by (auto split: option.splits)
next
  case (Cons p pts)
  have p: "map_of (transfers s) (tID p) = Some p" using Cons.prems by simp
  show ?case
  proof (cases "expired_at t p")
    case False
    then have e: "(pt \<in> set (p # pts) \<and> expired_at t pt) = (pt \<in> set pts \<and> expired_at t pt)" for pt
      by auto
    show ?thesis
      using Cons.IH [of s ex] Cons.prems False unfolding e by simp
  next
    case True
    let ?v = "voided_record p CodeVoid (now_s (tID p))"
    let ?s = "put_transfer (tID p) ?v (release_pending p s)"
    from ledger_invD(4) [OF Cons.prems(1) p] have
      acc: "map_of (accounts s) (DebitAccountID p) \<noteq> None"
        "map_of (accounts s) (CreditAccountID p) \<noteq> None" by (auto simp: sound_record_def)
    have inv': "ledger_inv ?s"
      by (rule void_record_inv [OF Cons.prems(1) p expired_open [OF True]]) simp_all
    have notin: "tID q \<noteq> tID p" if "q \<in> set pts" for q
      using imageI [OF that, of tID] Cons.prems(3) by (simp, metis)
    have mem: "map_of (transfers ?s) (tID q) = Some q" if "q \<in> set pts" for q
      using that Cons.prems(2) [of q] notin [OF that] by simp
    from Cons.IH [OF inv' mem, of "ex @ [?v]"] Cons.prems(3) obtain s' where
      s': "expire_loop t now_s pts (ex @ [?v]) ?s
         = Some ((ex @ [?v]) @ map (\<lambda>pt. voided_record pt CodeVoid (now_s (tID pt)))
                  (filter (expired_at t) pts), s')" "ledger_inv s'"
      and lk: "\<And>i. map_of (transfers s') i = (case map_of (transfers ?s) i of
           None \<Rightarrow> None
         | Some pt \<Rightarrow> if pt \<in> set pts \<and> expired_at t pt
             then Some (voided_record pt CodeVoid (now_s (tID pt))) else Some pt)"
      by auto
    have vne: "\<not> expired_at t ?v" by (simp add: expired_at_def voided_record_def)
    have "map_of (transfers s') i = (case map_of (transfers s) i of
           None \<Rightarrow> None
         | Some pt \<Rightarrow> if pt \<in> set (p # pts) \<and> expired_at t pt
             then Some (voided_record pt CodeVoid (now_s (tID pt))) else Some pt)" for i
    proof (cases "i = tID p")
      case True
      with lk [of i] vne p \<open>expired_at t p\<close> show ?thesis by simp
    next
      case False
      then have "map_of (transfers s) i = Some u \<Longrightarrow> u \<noteq> p" for u
        using ledger_invD(4) [OF Cons.prems(1), of i u] by (auto simp: sound_record_def)
      with False lk [of i] show ?thesis by (auto split: option.splits)
    qed
    with s' True acc show ?thesis by (auto simp: Let_def)
  qed
qed

lemma transfers_distinct_ids:
  assumes inv: "ledger_inv s"
  shows "distinct (map tID (map snd (transfers s)))"
    and "pt \<in> set (map snd (transfers s)) \<Longrightarrow> map_of (transfers s) (tID pt) = Some pt"
proof -
  have ok: "kv_ok (transfers s)" by (rule ledger_invD(2) [OF inv])
  have key: "tID (snd p) = fst p" if "p \<in> set (transfers s)" for p
    using that kv_mem_iff [OF ok, of "fst p" "snd p"] ledger_invD(4) [OF inv, of "fst p" "snd p"]
    by (simp add: sound_record_def)
  then have "map tID (map snd (transfers s)) = map fst (transfers s)" by simp
  then show "distinct (map tID (map snd (transfers s)))"
    using kv_ok_distinct [OF ok] by (simp only:)
  show "map_of (transfers s) (tID pt) = Some pt" if "pt \<in> set (map snd (transfers s))"
    using that key kv_mem_iff [OF ok] by auto
qed

section \<open>Runs of the client\<close>

datatype ledger_op =
    OpHooks bool bool
  | OpSerial u64
  | OpCreate "nat \<Rightarrow> string" "account list"
  | OpTransfer string transfer
  | OpPending string instant transfer
  | OpPost string tbid u64 u16
  | OpPostAs string tbid tbid u64 u16
  | OpVoid string tbid u16
  | OpExpire instant "tbid \<Rightarrow> string"

fun ledger_exec :: "ledger_op \<Rightarrow> dev \<Rightarrow> dev option" where
  "ledger_exec (OpHooks c e) s = Some (SetHooks c e s)"
| "ledger_exec (OpSerial ns) s = Some (snd (NextSerial ns s))"
| "ledger_exec (OpCreate now_s as) s = Some (snd (CreateAccounts now_s as s))"
| "ledger_exec (OpTransfer now_s t) s = Some (snd (Transfer now_s t s))"
| "ledger_exec (OpPending now_s now_t t) s = Some (snd (PendingTransfer now_s now_t t s))"
| "ledger_exec (OpPost now_s pid am code) s = map_option snd (PostPending now_s pid am code s)"
| "ledger_exec (OpPostAs now_s pid i am code) s =
     map_option snd (PostPendingAs now_s pid i am code s)"
| "ledger_exec (OpVoid now_s pid code) s = map_option snd (VoidPending now_s pid code s)"
| "ledger_exec (OpExpire t now_s) s = map_option snd (ExpirePendings t now_s s)"

text \<open>What the HTTP layer passes down: accounts start at zero, transfers are not yet resolved.\<close>

fun admissible :: "ledger_op \<Rightarrow> bool" where
  "admissible (OpCreate now_s as) = list_all zero_balances as"
| "admissible (OpTransfer now_s t) = (\<not> Resolved t)"
| "admissible (OpPending now_s now_t t) = (\<not> Resolved t)"
| "admissible _ = True"

inductive reachable :: "dev \<Rightarrow> bool" where
  start: "reachable NewDevClient"
| step: "reachable s \<Longrightarrow> admissible p \<Longrightarrow> ledger_exec p s = Some s' \<Longrightarrow> reachable s'"

inductive_cases reachable_cases: "reachable s"

lemma post_pending_total:
  assumes inv: "ledger_inv s"
  shows "\<exists>r s'. post_pending_body now_s pid am code s = Some (r, s')"
    and "\<exists>r s'. post_pending_as_body now_s pid i am code s = Some (r, s')"
    and "\<exists>r s'. void_pending_body now_s pid code s = Some (r, s')"
proof -
  show "\<exists>r s'. post_pending_body now_s pid am code s = Some (r, s')"
  proof (cases "map_of (transfers s) pid")
    case None
    then show ?thesis by (simp add: post_pending_body_def)
  next
    case (Some pt)
    from settle_total [OF inv Some, of "if am = 0 then Amount pt else am"] Some
    show ?thesis by (auto simp: post_pending_body_def Let_def)
  qed
  show "\<exists>r s'. post_pending_as_body now_s pid i am code s = Some (r, s')"
  proof (cases "map_of (transfers s) pid")
    case None
    then show ?thesis by (simp add: post_pending_as_body_def)
  next
    case (Some pt)
    from settle_total [OF inv Some, of "if am = 0 then Amount pt else am"] Some
    show ?thesis by (auto simp: post_pending_as_body_def Let_def split: option.split)
  qed
  show "\<exists>r s'. void_pending_body now_s pid code s = Some (r, s')"
  proof (cases "map_of (transfers s) pid")
    case None
    then show ?thesis by (simp add: void_pending_body_def)
  next
    case (Some pt)
    with ledger_invD(4) [OF inv Some] show ?thesis
      by (auto simp: void_pending_body_def sound_record_def Let_def)
  qed
qed

lemma ExpirePendings_total:
  assumes inv: "ledger_inv s"
  shows "\<exists>ex s'. ExpirePendings t now_s s = Some (ex, s') \<and> ledger_inv s'"
proof -
  from expire_loop_spec [OF inv transfers_distinct_ids(2) [OF inv] transfers_distinct_ids(1) [OF inv],
      of t now_s "[]"]
  obtain ex s1 where "expire_loop t now_s (map snd (transfers s)) [] s = Some (ex, s1)" "ledger_inv s1"
    by auto
  then show ?thesis by (auto simp: ExpirePendings_def Let_def ledger_inv_def)
qed

lemma ledger_exec_inv:
  assumes inv: "ledger_inv s" and adm: "admissible p"
  shows "\<exists>s'. ledger_exec p s = Some s' \<and> ledger_inv s'"
proof (cases p)
  case (OpHooks c e)
  then show ?thesis using inv by (simp add: SetHooks_def ledger_inv_def)
next
  case (OpSerial ns)
  then show ?thesis using inv by (simp add: NextSerial_def Let_def ledger_inv_def)
next
  case (OpCreate now_s as)
  then show ?thesis using CreateAccounts_inv [OF inv _ prod.collapse [symmetric]] adm by simp
next
  case (OpTransfer now_s t)
  then show ?thesis using Transfer_inv [OF inv _ prod.collapse [symmetric]] adm by simp
next
  case (OpPending now_s now_t t)
  then show ?thesis using PendingTransfer_inv [OF inv _ prod.collapse [symmetric]] adm by simp
next
  case (OpPost now_s pid am code)
  from post_pending_total(1) [OF inv] obtain r s'
    where "post_pending_body now_s pid am code s = Some (r, s')" by blast
  with post_pending_body_inv [OF inv this] OpPost show ?thesis by (simp add: PostPending_def)
next
  case (OpPostAs now_s pid i am code)
  from post_pending_total(2) [OF inv] obtain r s'
    where "post_pending_as_body now_s pid i am code s = Some (r, s')" by blast
  with post_pending_as_body_inv [OF inv this] OpPostAs show ?thesis by (simp add: PostPendingAs_def)
next
  case (OpVoid now_s pid code)
  from post_pending_total(3) [OF inv] obtain r s'
    where "void_pending_body now_s pid code s = Some (r, s')" by blast
  with void_pending_body_inv [OF inv this] OpVoid show ?thesis by (simp add: VoidPending_def)
next
  case (OpExpire t now_s)
  then show ?thesis using ExpirePendings_total [OF inv] by fastforce
qed

lemma reachable_inv: "reachable s \<Longrightarrow> ledger_inv s"
proof (induction rule: reachable.induct)
  case start
  show ?case by (rule ledger_inv_init)
next
  case (step s p s')
  then show ?case using ledger_exec_inv by fastforce
qed

lemma PostPending_body:
  "PostPending now_s i am code s = Some (r, s1) \<longleftrightarrow>
     (\<exists>s2. post_pending_body now_s i am code s = Some (r, s2) \<and> s1 = runHooks s2)"
  by (auto simp: PostPending_def)

lemma post_pending_refused:
  assumes "ledger_inv s" "post_pending_body now_s i am code s = Some (r, s')" "Code r \<noteq> OK"
  shows "s' = s"
proof (cases "map_of (transfers s) i")
  case None
  with assms(2) show ?thesis by (simp add: post_pending_body_def)
next
  case (Some pt)
  let ?am = "if am = 0 then Amount pt else am"
  show ?thesis
  proof (cases "settle_pending pt ?am s")
    case None
    with assms(2) Some show ?thesis
      by (auto simp: post_pending_body_def Let_def split: if_splits)
  next
    case st: (Some rs)
    obtain r1 s1 where rs: "rs = (r1, s1)" by (cases rs)
    from settle_cases [OF st [unfolded rs] ledger_invD(1) [OF assms(1)]] assms(2,3) Some st rs
    show ?thesis
      by (auto simp: post_pending_body_def record_post_def Let_def split: if_splits)
  qed
qed

lemma post_pending_as_refused:
  assumes "ledger_inv s" "post_pending_as_body now_s pid i am code s = Some (r, s')" "Code r \<noteq> OK"
  shows "s' = s"
proof (cases "map_of (transfers s) pid")
  case None
  with assms(2) show ?thesis by (simp add: post_pending_as_body_def)
next
  case (Some pt)
  let ?am = "if am = 0 then Amount pt else am"
  show ?thesis
  proof (cases "settle_pending pt ?am s")
    case None
    with assms(2) Some show ?thesis
      by (auto simp: post_pending_as_body_def Let_def split: if_splits option.splits)
  next
    case st: (Some rs)
    obtain r1 s1 where rs: "rs = (r1, s1)" by (cases rs)
    from settle_cases [OF st [unfolded rs] ledger_invD(1) [OF assms(1)]] assms(2,3) Some st rs
    show ?thesis
      by (auto simp: post_pending_as_body_def record_post_def Let_def
          split: if_splits option.splits)
  qed
qed

text \<open>A capture under its own post id leaves the pending record resolved and the post on file, so
  repeating it finds the post.\<close>

lemma post_pending_as_replay:
  assumes "post_pending_as_body now_s pid i am code s = Some (r, s')" "Code r = OK" "pid \<noteq> i"
    and "transfers s2 = transfers s'"
  shows "post_pending_as_body now_s' pid i am' code s2 = Some (res OK, s2)"
proof -
  from assms obtain pt where pt: "map_of (transfers s) pid = Some pt"
    by (cases "map_of (transfers s) pid") (auto simp: post_pending_as_body_def)
  have "\<exists>post pt'. map_of (transfers s') i = Some post \<and> PendingID post = pid \<and> \<not> Pending post
      \<and> map_of (transfers s') pid = Some pt' \<and> (open_pending pt' \<longrightarrow> code = 0 \<or> code = tCode pt')"
  proof (cases "map_of (transfers s) i")
    case (Some post)
    with assms pt show ?thesis
      by (auto simp: post_pending_as_body_def open_pending_def split: if_splits)
  next
    case None
    with assms pt show ?thesis
      by (auto simp: post_pending_as_body_def record_post_def post_record_def open_pending_def Let_def
          split: if_splits prod.splits)
  qed
  then obtain post pt' where p: "map_of (transfers s2) i = Some post" "PendingID post = pid"
      "\<not> Pending post" "map_of (transfers s2) pid = Some pt'"
      "open_pending pt' \<longrightarrow> code = 0 \<or> code = tCode pt'"
    using assms(4) by auto
  show ?thesis
  proof (cases "open_pending pt'")
    case True
    with p(5) have "\<not> (code \<noteq> 0 \<and> code \<noteq> tCode pt')" by blast
    with p True show ?thesis unfolding post_pending_as_body_def open_pending_def by simp
  next
    case False
    with p show ?thesis unfolding post_pending_as_body_def open_pending_def by simp
  qed
qed

lemma voided_not_expired: "\<not> expired_at t (voided_record pt c n)"
  by (simp add: expired_at_def voided_record_def)

lemma expire_loop_idle:
  "\<forall>pt \<in> set pts. \<not> expired_at t pt \<Longrightarrow> expire_loop t now_s pts ex s = Some (ex, s)"
  by (induction pts) auto

lemma ExpirePendings_spec:
  assumes inv: "ledger_inv s"
  shows "\<exists>ex s'. ExpirePendings t now_s s = Some (ex, s') \<and> ledger_inv s'
    \<and> (\<forall>i. map_of (transfers s') i = (case map_of (transfers s) i of None \<Rightarrow> None
         | Some pt \<Rightarrow> Some (if expired_at t pt then voided_record pt CodeVoid (now_s (tID pt)) else pt)))
    \<and> set ex = (\<lambda>pt. voided_record pt CodeVoid (now_s (tID pt)))
         ` {pt \<in> set (map snd (transfers s)). expired_at t pt}
    \<and> (\<forall>now_s'. ExpirePendings t now_s' s' = Some ([], runHooks s'))"
proof -
  let ?v = "\<lambda>pt. voided_record pt CodeVoid (now_s (tID pt))"
  let ?ts = "map snd (transfers s)"
  note mem = transfers_distinct_ids(2) [OF inv]
  from expire_loop_spec [OF inv mem transfers_distinct_ids(1) [OF inv], of t now_s "[]"]
  obtain s1 where l: "expire_loop t now_s ?ts [] s = Some (map ?v (filter (expired_at t) ?ts), s1)"
    and inv1: "ledger_inv s1"
    and lk: "\<And>i. map_of (transfers s1) i = (case map_of (transfers s) i of None \<Rightarrow> None
         | Some pt \<Rightarrow> if pt \<in> set ?ts \<and> expired_at t pt then Some (?v pt) else Some pt)" by auto
  obtain ex s' where e: "ExpirePendings t now_s s = Some (ex, s')"
    and ex: "set ex = set (map ?v (filter (expired_at t) ?ts))"
    and s': "transfers s' = transfers s1" "accounts s' = accounts s1"
  proof (cases "filter (expired_at t) ?ts = []")
    case True
    with l show ?thesis by (intro that [of "[]" "runHooks s1"]) (simp_all add: ExpirePendings_def)
  next
    case False
    let ?ex = "sort_key (\<lambda>v. ID_String (tID v)) (map ?v (filter (expired_at t) ?ts))"
    from False l show ?thesis
      by (intro that [of ?ex "runHooks (fold eventLocked ?ex (changedLocked s1))"])
        (simp_all add: ExpirePendings_def Let_def)
  qed
  have lk': "map_of (transfers s') i = (case map_of (transfers s) i of None \<Rightarrow> None
         | Some pt \<Rightarrow> Some (if expired_at t pt then ?v pt else pt))" for i
  proof (cases "map_of (transfers s) i")
    case (Some pt)
    then have "pt \<in> set ?ts" using map_of_SomeD by force
    with Some lk [of i] s' show ?thesis by simp
  qed (use lk [of i] s' in simp)
  have inv': "ledger_inv s'" using inv1 s' by (simp add: ledger_inv_def)
  have "\<not> expired_at t u" if "u \<in> set (map snd (transfers s'))" for u
    using transfers_distinct_ids(2) [OF inv' that] lk' [of "tID u"]
    by (auto simp: voided_not_expired split: option.splits if_splits)
  then have "ExpirePendings t n s' = Some ([], runHooks s')" for n
    by (simp add: ExpirePendings_def expire_loop_idle)
  with e inv' lk' ex show ?thesis by auto
qed

section \<open>Conservation\<close>

text \<open>Summing, over all accounts, the records filed on one side counts every record once.\<close>

lemma sum_over_accounts:
  assumes "kv_ok as" "\<And>t. t \<in> set ts \<Longrightarrow> map_of as (side (snd t)) \<noteq> None"
  shows "sum_list (map (\<lambda>p. kv_sum (w_on P side (fst p)) ts) as)
    = kv_sum (\<lambda>t. if P t then unat (Amount t) else 0) ts"
  using assms(2)
proof (induction ts)
  case Nil
  then show ?case by simp
next
  case (Cons t ts)
  have one: "sum_list (map (\<lambda>p. w_on P side (fst p) u) as)
      = (if P u \<and> map_of as (side u) \<noteq> None then unat (Amount u) else 0)" for u
    using assms(1)
  proof (induction as)
    case Nil
    then show ?case by simp
  next
    case (Cons p as)
    then have "side u = fst p \<Longrightarrow> map_of as (side u) = None"
      by (auto simp: map_of_eq_None_iff)
    with Cons show ?case by (auto simp: w_on_def)
  qed
  from Cons one [of "snd t"] show ?case by (simp add: sum_list_addf)
qed

lemma sound_parties:
  assumes inv: "ledger_inv s" and t: "t \<in> set (transfers s)"
  shows "map_of (accounts s) (DebitAccountID (snd t)) \<noteq> None"
    and "map_of (accounts s) (CreditAccountID (snd t)) \<noteq> None"
proof -
  have "map_of (transfers s) (fst t) = Some (snd t)"
    using t kv_mem_iff [OF ledger_invD(2) [OF inv], of "fst t" "snd t"] by simp
  then have "sound_record (accounts s) (fst t) (snd t)" by (rule ledger_invD(4) [OF inv])
  then show "map_of (accounts s) (DebitAccountID (snd t)) \<noteq> None"
    "map_of (accounts s) (CreditAccountID (snd t)) \<noteq> None" by (auto simp: sound_record_def)
qed

lemma account_sum:
  assumes inv: "ledger_inv s"
    and f: "\<And>i a. books i a (transfers s) \<Longrightarrow> unat (f a) = kv_sum (w_on P side i) (transfers s)"
    and side: "side = DebitAccountID \<or> side = CreditAccountID"
  shows "kv_sum (\<lambda>a. unat (f a)) (accounts s)
    = kv_sum (\<lambda>t. if P t then unat (Amount t) else 0) (transfers s)"
proof -
  have "unat (f (snd p)) = kv_sum (w_on P side (fst p)) (transfers s)"
    if "p \<in> set (accounts s)" for p
    using that f ledger_invD(3) [OF inv, of "fst p" "snd p"]
      kv_mem_iff [OF ledger_invD(1) [OF inv], of "fst p" "snd p"] by simp
  then have "kv_sum (\<lambda>a. unat (f a)) (accounts s)
      = sum_list (map (\<lambda>p. kv_sum (w_on P side (fst p)) (transfers s)) (accounts s))"
    unfolding kv_sum_def [of _ "accounts s"] by (intro arg_cong [where f = sum_list] map_cong refl)
  also have "\<dots> = kv_sum (\<lambda>t. if P t then unat (Amount t) else 0) (transfers s)"
    using sound_parties [OF inv] side
    by (intro sum_over_accounts ledger_invD(1) [OF inv]) auto
  finally show ?thesis .
qed

lemma conservation:
  assumes inv: "ledger_inv s"
  shows "kv_sum (\<lambda>a. unat (DebitsPosted a)) (accounts s)
      = kv_sum (\<lambda>a. unat (CreditsPosted a)) (accounts s)"
    and "kv_sum (\<lambda>a. unat (DebitsPending a)) (accounts s)
      = kv_sum (\<lambda>a. unat (CreditsPending a)) (accounts s)"
  using account_sum [OF inv, of DebitsPosted posted DebitAccountID]
    account_sum [OF inv, of CreditsPosted posted CreditAccountID]
    account_sum [OF inv, of DebitsPending open_pending DebitAccountID]
    account_sum [OF inv, of CreditsPending open_pending CreditAccountID]
  by (simp_all add: books_def)

end
