(* ===== verification/Money.thy ===== *)
theory Money
  imports Saga LedgerInv
begin

text \<open>
  The money-moving workflows of \<open>packages/temporal-sdkx/money/money.go\<close>, written against the
  ledger port they are given, and \<open>tbMoneyAdapter\<close> of \<open>services/ledger/money_workflows.go\<close>, which
  implements the port on the ledger client. The port's contract is the locale \<open>ledger_port\<close>; the
  workflows' replay safety is proved inside it and interpreted on the adapter.
\<close>

section \<open>The port\<close>

record mtransfer =
  mID :: string
  mDebitAccountID :: string
  mCreditAccountID :: string
  mLedger :: u64
  mCode :: u16
  mAmountKobo :: u64
  mPending :: bool
  mUserData :: string

record 's port =
  CreatePendingP :: "mtransfer \<Rightarrow> 's \<Rightarrow> string option \<times> 's"
  PostPendingAsP :: "string \<Rightarrow> string \<Rightarrow> u64 \<Rightarrow> 's \<Rightarrow> string option \<times> 's"
  VoidPendingP :: "string \<Rightarrow> 's \<Rightarrow> string option \<times> 's"
  TransferP :: "mtransfer \<Rightarrow> 's \<Rightarrow> string option \<times> 's"
  GetTransferP :: "string \<Rightarrow> 's \<Rightarrow> string + mtransfer option"

text \<open>\<open>sha\<close> stands for SHA-256 (32 bytes); only its first 16 bytes are used.\<close>

definition DeterministicID :: "(string \<Rightarrow> u8 list) \<Rightarrow> string \<Rightarrow> string" where
  "DeterministicID sha seed = hex_encode (take 16 (sha seed))"

text \<open>An activity that returns a fixed output next to the error of a port call.\<close>

definition returning :: "string \<Rightarrow> string option \<times> 's \<Rightarrow> (string + string) \<times> 's" where
  "returning out es = (case es of (None, s) \<Rightarrow> (Inr out, s) | (Some e, s) \<Rightarrow> (Inl e, s))"

datatype wf_value = VS string | VN nat | VB bool

datatype wf_error = InvalidInput string | SagaFailed "string saga_error"

type_synonym wf_output = "(string \<times> wf_value) list"

type_synonym 's msaga_step = "(unit, string, string, 's) saga_step"

section \<open>CaptureSaga\<close>

record capture_input =
  PaymentID :: string
  PayerAccountID :: string
  CollectionsAccount :: string
  FeeAccountID :: string
  AmountKobo :: u64
  FeeKobo :: u64
  cLedger :: u64

text \<open>The closure \<open>reverse\<close>: only legs that landed are reversed.\<close>

definition capture_reverse ::
  "(string \<Rightarrow> u8 list) \<Rightarrow> 's port \<Rightarrow> capture_input \<Rightarrow> string \<Rightarrow> u64 \<Rightarrow> string \<Rightarrow> string \<Rightarrow> 's
     \<Rightarrow> string option \<times> 's" where
  "capture_reverse sha lc inp idSeed amount from_a to_a s =
     (if amount = 0 then (None, s)
      else case GetTransferP lc (DeterministicID sha idSeed) s of
        Inl e \<Rightarrow> (Some e, s)
      | Inr None \<Rightarrow> (None, s)
      | Inr (Some _) \<Rightarrow>
          TransferP lc \<lparr>mID = DeterministicID sha (''cap-rev:'' @ idSeed), mDebitAccountID = from_a,
            mCreditAccountID = to_a, mLedger = cLedger inp, mCode = 3, mAmountKobo = amount,
            mPending = False, mUserData = ''capture-reversal:'' @ PaymentID inp\<rparr> s)"

definition capture_pend :: "(string \<Rightarrow> u8 list) \<Rightarrow> capture_input \<Rightarrow> mtransfer" where
  "capture_pend sha inp = \<lparr>mID = DeterministicID sha (''cap-pend:'' @ PaymentID inp),
     mDebitAccountID = PayerAccountID inp, mCreditAccountID = CollectionsAccount inp,
     mLedger = cLedger inp, mCode = 1, mAmountKobo = AmountKobo inp, mPending = True,
     mUserData = ''capture:'' @ PaymentID inp\<rparr>"

definition capture_fee :: "(string \<Rightarrow> u8 list) \<Rightarrow> capture_input \<Rightarrow> mtransfer" where
  "capture_fee sha inp = \<lparr>mID = DeterministicID sha (''cap-fee:'' @ PaymentID inp),
     mDebitAccountID = CollectionsAccount inp, mCreditAccountID = FeeAccountID inp,
     mLedger = cLedger inp, mCode = 5, mAmountKobo = FeeKobo inp, mPending = False,
     mUserData = ''capture-fee:'' @ PaymentID inp\<rparr>"

definition capture_steps ::
  "(string \<Rightarrow> u8 list) \<Rightarrow> 's port \<Rightarrow> capture_input \<Rightarrow> 's msaga_step list" where
  "capture_steps sha lc inp =
     (let pendID = DeterministicID sha (''cap-pend:'' @ PaymentID inp);
          postID = DeterministicID sha (''cap-post:'' @ PaymentID inp);
          feeID = DeterministicID sha (''cap-fee:'' @ PaymentID inp)
      in [\<lparr>Name = ''create-pending'',
           Action = (\<lambda>_ s. returning pendID (CreatePendingP lc (capture_pend sha inp) s)),
           Compensation = Some (\<lambda>_ s. VoidPendingP lc pendID s)\<rparr>,
          \<lparr>Name = ''post-pending'',
           Action = (\<lambda>_ s. returning postID (PostPendingAsP lc pendID postID (AmountKobo inp) s)),
           Compensation = Some (\<lambda>_ s. capture_reverse sha lc inp (''cap-post:'' @ PaymentID inp)
             (AmountKobo inp) (CollectionsAccount inp) (PayerAccountID inp) s)\<rparr>,
          \<lparr>Name = ''fee-leg'',
           Action = (\<lambda>_ s. if FeeKobo inp = 0 \<or> FeeAccountID inp = '''' then (Inr '''', s)
             else returning feeID (TransferP lc (capture_fee sha inp) s)),
           Compensation = Some (\<lambda>_ s. capture_reverse sha lc inp (''cap-fee:'' @ PaymentID inp)
             (FeeKobo inp) (FeeAccountID inp) (CollectionsAccount inp) s)\<rparr>])"

text \<open>The input is \<open>None\<close> when the type assertion on it fails.\<close>

definition CaptureSaga ::
  "(string \<Rightarrow> u8 list) \<Rightarrow> 's port \<Rightarrow> capture_input option \<Rightarrow> 's \<Rightarrow> (wf_error + wf_output) \<times> 's" where
  "CaptureSaga sha lc input s =
     (case input of
        None \<Rightarrow> (Inl (InvalidInput ''capture saga''), s)
      | Some inp \<Rightarrow>
          if PaymentID inp = '''' \<or> AmountKobo inp = 0
          then (Inl (InvalidInput ''capture saga''), s)
          else (case saga_run (capture_steps sha lc inp) () s of
             (Some e, s1) \<Rightarrow> (Inl (SagaFailed e), s1)
           | (None, s1) \<Rightarrow> (Inr
               [(''payment_id'', VS (PaymentID inp)),
                (''post_transfer_id'', VS (DeterministicID sha (''cap-post:'' @ PaymentID inp))),
                (''fee_transfer_id'', VS (DeterministicID sha (''cap-fee:'' @ PaymentID inp)))], s1)))"

section \<open>RefundWorkflow\<close>

record refund_input =
  RefundID :: string
  TreasuryAccount :: string
  TaxpayerAccount :: string
  rAmountKobo :: u64
  rLedger :: u64

definition refund_pend :: "(string \<Rightarrow> u8 list) \<Rightarrow> refund_input \<Rightarrow> mtransfer" where
  "refund_pend sha inp = \<lparr>mID = DeterministicID sha (''ref-pend:'' @ RefundID inp),
     mDebitAccountID = TreasuryAccount inp, mCreditAccountID = TaxpayerAccount inp,
     mLedger = rLedger inp, mCode = 1, mAmountKobo = rAmountKobo inp, mPending = True,
     mUserData = ''refund:'' @ RefundID inp\<rparr>"

definition refund_steps ::
  "(string \<Rightarrow> u8 list) \<Rightarrow> 's port \<Rightarrow> refund_input \<Rightarrow> 's msaga_step list" where
  "refund_steps sha lc inp =
     (let pendID = DeterministicID sha (''ref-pend:'' @ RefundID inp);
          postID = DeterministicID sha (''ref-post:'' @ RefundID inp)
      in [\<lparr>Name = ''refund-pending'',
           Action = (\<lambda>_ s. returning pendID (CreatePendingP lc (refund_pend sha inp) s)),
           Compensation = Some (\<lambda>_ s. VoidPendingP lc pendID s)\<rparr>,
          \<lparr>Name = ''refund-post'',
           Action = (\<lambda>_ s. returning postID (PostPendingAsP lc pendID postID (rAmountKobo inp) s)),
           Compensation = Some (\<lambda>_ s. case GetTransferP lc postID s of
               Inl e \<Rightarrow> (Some e, s)
             | Inr None \<Rightarrow> (None, s)
             | Inr (Some _) \<Rightarrow> TransferP lc
                 \<lparr>mID = DeterministicID sha (''ref-rev:'' @ RefundID inp),
                  mDebitAccountID = TaxpayerAccount inp, mCreditAccountID = TreasuryAccount inp,
                  mLedger = rLedger inp, mCode = 3, mAmountKobo = rAmountKobo inp, mPending = False,
                  mUserData = ''refund-reversal:'' @ RefundID inp\<rparr> s)\<rparr>])"

definition RefundWorkflow ::
  "(string \<Rightarrow> u8 list) \<Rightarrow> 's port \<Rightarrow> refund_input option \<Rightarrow> 's \<Rightarrow> (wf_error + wf_output) \<times> 's" where
  "RefundWorkflow sha lc input s =
     (case input of
        None \<Rightarrow> (Inl (InvalidInput ''refund workflow''), s)
      | Some inp \<Rightarrow>
          if RefundID inp = '''' \<or> rAmountKobo inp = 0
          then (Inl (InvalidInput ''refund workflow''), s)
          else (case saga_run (refund_steps sha lc inp) () s of
             (Some e, s1) \<Rightarrow> (Inl (SagaFailed e), s1)
           | (None, s1) \<Rightarrow> (Inr
               [(''refund_id'', VS (RefundID inp)),
                (''post_transfer_id'', VS (DeterministicID sha (''ref-post:'' @ RefundID inp))),
                (''status'', VS ''posted'')], s1)))"

section \<open>RemittanceWorkflow\<close>

record remittance_credit =
  DeductionID :: string
  CreditAccount :: string
  wAmountKobo :: u64

record remittance_input =
  RunID :: string
  DebitAccount :: string
  Credits :: "remittance_credit list"
  wLedger :: u64

definition credit_transfer ::
  "(string \<Rightarrow> u8 list) \<Rightarrow> remittance_input \<Rightarrow> remittance_credit \<Rightarrow> mtransfer" where
  "credit_transfer sha inp c =
     \<lparr>mID = DeterministicID sha (''wht-cr:'' @ RunID inp @ '':'' @ DeductionID c),
      mDebitAccountID = DebitAccount inp, mCreditAccountID = CreditAccount c, mLedger = wLedger inp,
      mCode = 5, mAmountKobo = wAmountKobo c, mPending = False,
      mUserData = ''wht-credit:'' @ RunID inp @ '':'' @ DeductionID c\<rparr>"

definition credit_reversal ::
  "(string \<Rightarrow> u8 list) \<Rightarrow> remittance_input \<Rightarrow> remittance_credit \<Rightarrow> mtransfer" where
  "credit_reversal sha inp c =
     \<lparr>mID = DeterministicID sha (''wht-cr-rev:'' @ RunID inp @ '':'' @ DeductionID c),
      mDebitAccountID = CreditAccount c, mCreditAccountID = DebitAccount inp, mLedger = wLedger inp,
      mCode = 3, mAmountKobo = wAmountKobo c, mPending = False,
      mUserData = ''wht-credit-reversal:'' @ RunID inp @ '':'' @ DeductionID c\<rparr>"

definition credit_step ::
  "(string \<Rightarrow> u8 list) \<Rightarrow> 's port \<Rightarrow> remittance_input \<Rightarrow> remittance_credit \<Rightarrow> 's msaga_step" where
  "credit_step sha lc inp c =
     (let creditID = mID (credit_transfer sha inp c)
      in \<lparr>Name = ''credit:'' @ DeductionID c,
          Action = (\<lambda>_ s. returning creditID (TransferP lc (credit_transfer sha inp c) s)),
          Compensation = Some (\<lambda>_ s. case GetTransferP lc creditID s of
              Inl e \<Rightarrow> (Some e, s)
            | Inr None \<Rightarrow> (None, s)
            | Inr (Some _) \<Rightarrow> TransferP lc (credit_reversal sha inp c) s)\<rparr>)"

text \<open>\<open>mark\<close> is the injected store activity, \<open>None\<close> when it is not bound.\<close>

definition remittance_steps ::
  "(string \<Rightarrow> u8 list) \<Rightarrow> 's port \<Rightarrow> (string \<Rightarrow> string list \<Rightarrow> 's \<Rightarrow> string option \<times> 's) option
     \<Rightarrow> remittance_input \<Rightarrow> 's msaga_step list" where
  "remittance_steps sha lc mark inp =
     map (credit_step sha lc inp) (Credits inp) @
     [\<lparr>Name = ''mark-remitted'',
       Action = (\<lambda>_ s. case mark of
           None \<Rightarrow> (Inl ''mark-remitted activity not bound'', s)
         | Some m \<Rightarrow> returning (RunID inp) (m (RunID inp) (map DeductionID (Credits inp)) s)),
       Compensation = None\<rparr>]"

definition RemittanceWorkflow ::
  "(string \<Rightarrow> u8 list) \<Rightarrow> 's port \<Rightarrow> (string \<Rightarrow> string list \<Rightarrow> 's \<Rightarrow> string option \<times> 's) option
     \<Rightarrow> remittance_input option \<Rightarrow> 's \<Rightarrow> (wf_error + wf_output) \<times> 's" where
  "RemittanceWorkflow sha lc mark input s =
     (case input of
        None \<Rightarrow> (Inl (InvalidInput ''remittance workflow''), s)
      | Some inp \<Rightarrow>
          if RunID inp = '''' then (Inl (InvalidInput ''remittance workflow''), s)
          else (case saga_run (remittance_steps sha lc mark inp) () s of
             (Some e, s1) \<Rightarrow> (Inl (SagaFailed e), s1)
           | (None, s1) \<Rightarrow> (Inr
               [(''run_id'', VS (RunID inp)), (''credits_posted'', VN (length (Credits inp))),
                (''remitted'', VB True)], s1)))"

section \<open>Registration and runner selection\<close>

text \<open>The dynamic input of a workflow; a type assertion succeeds on its own constructor only.\<close>

datatype wf_input =
    CaptureIn capture_input | RefundIn refund_input | RemittanceIn remittance_input | OtherIn

definition as_capture :: "wf_input \<Rightarrow> capture_input option" where
  "as_capture x = (case x of CaptureIn i \<Rightarrow> Some i | _ \<Rightarrow> None)"

definition as_refund :: "wf_input \<Rightarrow> refund_input option" where
  "as_refund x = (case x of RefundIn i \<Rightarrow> Some i | _ \<Rightarrow> None)"

definition as_remittance :: "wf_input \<Rightarrow> remittance_input option" where
  "as_remittance x = (case x of RemittanceIn i \<Rightarrow> Some i | _ \<Rightarrow> None)"

text \<open>\<open>SagaError.Error()\<close>; a quoted step name is rendered without escapes.\<close>

definition SagaError_String :: "string saga_error \<Rightarrow> string" where
  "SagaError_String e = ''saga failed at step '' @ [CHR 0x22] @ Step e @ [CHR 0x22] @ '': ''
     @ Err e @ '' ('' @ itoa (int (length (CompensationErrors e))) @ '' compensation errors)''"

definition wf_error_string :: "wf_error \<Rightarrow> string" where
  "wf_error_string e = (case e of InvalidInput w \<Rightarrow> w @ '': invalid input''
     | SagaFailed se \<Rightarrow> SagaError_String se)"

definition as_workflow ::
  "('i \<Rightarrow> 's \<Rightarrow> (wf_error + 'o) \<times> 's) \<Rightarrow> ('i, 'o, 's) workflow" where
  "as_workflow w i s = (case w i s of (Inl e, s1) \<Rightarrow> (Inl (wf_error_string e), s1)
     | (Inr v, s1) \<Rightarrow> (Inr v, s1))"

definition money_Register ::
  "(string \<Rightarrow> u8 list) \<Rightarrow> 's port \<Rightarrow> (string \<Rightarrow> string list \<Rightarrow> 's \<Rightarrow> string option \<times> 's) option
     \<Rightarrow> (wf_input, wf_output, 's) runner \<Rightarrow> (wf_input, wf_output, 's) runner" where
  "money_Register sha lc mark r =
     (let r1 = RegisterWorkflow ''CaptureSaga''
                 (as_workflow (\<lambda>x. CaptureSaga sha lc (as_capture x))) r;
          r2 = RegisterWorkflow ''RefundWorkflow''
                 (as_workflow (\<lambda>x. RefundWorkflow sha lc (as_refund x))) r1
      in if mark \<noteq> None
         then RegisterWorkflow ''RemittanceWorkflow''
                (as_workflow (\<lambda>x. RemittanceWorkflow sha lc mark (as_remittance x))) r2
         else r2)"

datatype runner_kind = InprocKind | TemporalKind

text \<open>
  \<open>url\<close> is the value of \<open>TEMPORAL_URL\<close>; \<open>init_err\<close> and \<open>start_err\<close> are the errors of
  creating and of starting the Temporal worker.
\<close>

definition money_NewRunnerFromEnv ::
  "string \<Rightarrow> string option \<Rightarrow> string option \<Rightarrow> string + runner_kind" where
  "money_NewRunnerFromEnv url init_err start_err =
     (if url \<noteq> '''' then
        (case init_err of
           Some e \<Rightarrow> Inl (''profile=prod money workflows: temporal init: '' @ e)
         | None \<Rightarrow> (case start_err of
             Some e \<Rightarrow> Inl (''profile=prod money workflows: temporal start: '' @ e)
           | None \<Rightarrow> Inr TemporalKind))
      else Inr InprocKind)"

definition sdkx_NewRunnerFromEnv ::
  "string \<Rightarrow> string option \<Rightarrow> string option \<Rightarrow> runner_kind" where
  "sdkx_NewRunnerFromEnv url init_err start_err =
     (if url \<noteq> '''' then
        (case init_err of
           Some e \<Rightarrow> InprocKind
         | None \<Rightarrow> (case start_err of Some e \<Rightarrow> InprocKind | None \<Rightarrow> TemporalKind))
      else InprocKind)"

section \<open>The contract of the port\<close>

text \<open>
  What the workflows rely on. \<open>money\<close> is the part of the world that says where the money is,
  \<open>accepts\<close> holds of transfers the port can address, and \<open>settled p\<close> says that the pending
  transfer \<open>p\<close> has been consumed. A call that fails moves nothing; creating or posting a
  settled pending transfer again succeeds and moves nothing.
\<close>

locale ledger_port =
  fixes lc :: "'s port"
    and inv :: "'s \<Rightarrow> bool"
    and money :: "'s \<Rightarrow> 'm"
    and accepts :: "mtransfer \<Rightarrow> bool"
    and settled :: "string \<Rightarrow> 's \<Rightarrow> bool"
  assumes create_inv: "inv s \<Longrightarrow> CreatePendingP lc t s = (r, s1) \<Longrightarrow> inv s1"
    and post_inv: "inv s \<Longrightarrow> PostPendingAsP lc p q a s = (r, s1) \<Longrightarrow> inv s1"
    and void_inv: "inv s \<Longrightarrow> VoidPendingP lc p s = (r, s1) \<Longrightarrow> inv s1"
    and transfer_inv: "inv s \<Longrightarrow> TransferP lc t s = (r, s1) \<Longrightarrow> inv s1"
    and create_err: "inv s \<Longrightarrow> CreatePendingP lc t s = (Some e, s1) \<Longrightarrow> money s1 = money s"
    and post_err: "inv s \<Longrightarrow> PostPendingAsP lc p q a s = (Some e, s1) \<Longrightarrow> money s1 = money s"
    and create_accepts: "CreatePendingP lc t s = (None, s1) \<Longrightarrow> accepts t"
    and post_settles: "inv s \<Longrightarrow> PostPendingAsP lc p q a s = (None, s1) \<Longrightarrow> settled p s1"
    and create_settled: "accepts t \<Longrightarrow> settled (mID t) s \<Longrightarrow>
          \<exists>s1. CreatePendingP lc t s = (None, s1) \<and> money s1 = money s \<and> settled (mID t) s1"
    and post_settled: "settled p s \<Longrightarrow>
          \<exists>s1. PostPendingAsP lc p q a s = (None, s1) \<and> money s1 = money s \<and> settled p s1"
begin

lemma returning_inv:
  "returning out es = (r, s1) \<Longrightarrow> (\<And>e s2. es = (e, s2) \<Longrightarrow> inv s2) \<Longrightarrow> inv s1"
  by (auto simp: returning_def split: prod.splits option.splits)

definition preserves :: "'s msaga_step \<Rightarrow> bool" where
  "preserves st \<longleftrightarrow> (\<forall>i s r s1. inv s \<longrightarrow> Action st i s = (r, s1) \<longrightarrow> inv s1)
     \<and> (\<forall>c out s e s1. Compensation st = Some c \<longrightarrow> inv s \<longrightarrow> c out s = (e, s1) \<longrightarrow> inv s1)"

lemma compensate_inv:
  "\<forall>d \<in> set ds. preserves (fst d) \<Longrightarrow> inv s \<Longrightarrow> compensate ds s = (errs, s1) \<Longrightarrow> inv s1"
proof (induction ds arbitrary: s errs)
  case Nil
  then show ?case by simp
next
  case (Cons d ds)
  obtain st out where d: "d = (st, out)" by (cases d)
  show ?case
  proof (cases "Compensation st")
    case None
    with Cons d show ?thesis by auto
  next
    case (Some c)
    obtain e s2 where c: "c out s = (e, s2)" by fastforce
    from Cons.prems(1) d have "preserves st" by simp
    with c Some Cons.prems(2) have "inv s2" unfolding preserves_def by blast
    with Cons c Some d show ?thesis by (auto split: prod.splits)
  qed
qed

lemma saga_loop_inv:
  "\<forall>st \<in> set sts. preserves st \<Longrightarrow> \<forall>d \<in> set ds. preserves (fst d) \<Longrightarrow> inv s \<Longrightarrow>
   saga_loop sts ds i s = (r, s1) \<Longrightarrow> inv s1"
proof (induction sts arbitrary: ds s)
  case Nil
  then show ?case by simp
next
  case (Cons st sts)
  obtain a s2 where a: "Action st i s = (a, s2)" by fastforce
  from Cons.prems(1) have "preserves st" by simp
  with a Cons.prems(3) have i2: "inv s2" unfolding preserves_def by blast
  show ?case
  proof (cases a)
    case (Inl e)
    with Cons.prems a have "\<exists>errs. compensate (rev ds) s2 = (errs, s1)"
      by (auto split: prod.splits)
    then show ?thesis using compensate_inv [of "rev ds"] Cons.prems(2) i2 by auto
  next
    case (Inr out)
    with Cons.prems a i2 show ?thesis
      by (intro Cons.IH [of "ds @ [(st, out)]" s2]) auto
  qed
qed

lemma saga_run_inv:
  "\<forall>st \<in> set sts. preserves st \<Longrightarrow> inv s \<Longrightarrow> saga_run sts i s = (r, s1) \<Longrightarrow> inv s1"
  unfolding saga_run_def by (rule saga_loop_inv [where ds = "[]"]) auto

lemma capture_reverse_inv:
  "inv s \<Longrightarrow> capture_reverse sha lc inp seed am f t s = (e, s1) \<Longrightarrow> inv s1"
  by (auto simp: capture_reverse_def dest: transfer_inv split: if_splits sum.splits option.splits)

lemma capture_preserves: "\<forall>st \<in> set (capture_steps sha lc inp). preserves st"
  unfolding capture_steps_def Let_def
  by (auto simp: preserves_def intro: returning_inv create_inv post_inv void_inv transfer_inv
      capture_reverse_inv split: if_splits)

lemma refund_preserves: "\<forall>st \<in> set (refund_steps sha lc inp). preserves st"
  unfolding refund_steps_def Let_def
  by (auto simp: preserves_def intro: returning_inv create_inv post_inv void_inv
      dest: transfer_inv split: sum.splits option.splits)

lemma credit_preserves: "preserves (credit_step sha lc inp c)"
  unfolding credit_step_def Let_def
  by (auto simp: preserves_def intro: returning_inv transfer_inv
      dest: transfer_inv split: sum.splits option.splits)

lemma mark_preserves:
  assumes "case mark of None \<Rightarrow> True
     | Some m \<Rightarrow> \<forall>run ids s r s1. inv s \<longrightarrow> m run ids s = (r, s1) \<longrightarrow> inv s1"
  shows "\<forall>st \<in> set (remittance_steps sha lc mark inp). preserves st"
proof (cases mark)
  case None
  then show ?thesis
    by (auto simp: remittance_steps_def credit_preserves) (simp add: preserves_def)
next
  case (Some m)
  with assms have m: "inv s \<Longrightarrow> m run ids s = (r, s1) \<Longrightarrow> inv s1" for run ids s r s1 by simp
  have "preserves \<lparr>Name = nm, Action = (\<lambda>i s. returning out (m run ids s)), Compensation = None\<rparr>"
    for nm out run ids
    unfolding preserves_def by (auto intro: returning_inv m)
  then show ?thesis by (auto simp: remittance_steps_def credit_preserves Some)
qed

lemma capture_inv: "inv s \<Longrightarrow> CaptureSaga sha lc c s = (r, s1) \<Longrightarrow> inv s1"
  using saga_run_inv [OF capture_preserves]
  by (auto simp: CaptureSaga_def split: option.splits if_splits prod.splits)

lemma refund_inv: "inv s \<Longrightarrow> RefundWorkflow sha lc f s = (r, s1) \<Longrightarrow> inv s1"
  using saga_run_inv [OF refund_preserves]
  by (auto simp: RefundWorkflow_def split: option.splits if_splits prod.splits)

lemma remittance_inv:
  assumes "case mark of None \<Rightarrow> True
     | Some m \<Rightarrow> \<forall>run ids s r s1. inv s \<longrightarrow> m run ids s = (r, s1) \<longrightarrow> inv s1"
    and "inv s" "RemittanceWorkflow sha lc mark w s = (r, s1)"
  shows "inv s1"
  using assms(2,3) saga_run_inv [OF mark_preserves [OF assms(1)]]
  by (auto simp: RemittanceWorkflow_def split: option.splits if_splits prod.splits)

lemma refund_run_unfold:
  "saga_run (refund_steps sha lc inp) () s = (None, s2) \<longleftrightarrow>
     (\<exists>s1. CreatePendingP lc (refund_pend sha inp) s = (None, s1)
       \<and> PostPendingAsP lc (mID (refund_pend sha inp))
           (DeterministicID sha (''ref-post:'' @ RefundID inp)) (rAmountKobo inp) s1 = (None, s2))"
  by (auto simp: saga_run_def refund_steps_def refund_pend_def returning_def Let_def
      split: prod.splits option.splits)

text \<open>A refund that succeeded once can be replayed: the same answer, and no money moves.\<close>

lemma refund_replay:
  assumes inv: "inv s" and run: "RefundWorkflow sha lc (Some inp) s = (Inr out, s1)"
  shows "\<exists>s2. RefundWorkflow sha lc (Some inp) s1 = (Inr out, s2) \<and> money s2 = money s1"
proof -
  from run have ok: "RefundID inp \<noteq> ''''" "rAmountKobo inp \<noteq> 0"
    and sr: "saga_run (refund_steps sha lc inp) () s = (None, s1)"
    by (auto simp: RefundWorkflow_def split: if_splits prod.splits option.splits)
  from sr obtain m where c: "CreatePendingP lc (refund_pend sha inp) s = (None, m)"
    and p: "PostPendingAsP lc (mID (refund_pend sha inp))
        (DeterministicID sha (''ref-post:'' @ RefundID inp)) (rAmountKobo inp) m = (None, s1)"
    by (auto simp: refund_run_unfold)
  have "settled (mID (refund_pend sha inp)) s1"
    by (rule post_settles [OF create_inv [OF inv c] p])
  from create_settled [OF create_accepts [OF c] this] obtain m2 where
    c2: "CreatePendingP lc (refund_pend sha inp) s1 = (None, m2)" "money m2 = money s1"
      "settled (mID (refund_pend sha inp)) m2" by blast
  from post_settled [OF c2(3)] obtain s2 where
    p2: "PostPendingAsP lc (mID (refund_pend sha inp))
        (DeterministicID sha (''ref-post:'' @ RefundID inp)) (rAmountKobo inp) m2 = (None, s2)"
      "money s2 = money m2" by blast
  from c2 p2 have "saga_run (refund_steps sha lc inp) () s1 = (None, s2)"
    by (auto simp: refund_run_unfold)
  with run sr ok have "RefundWorkflow sha lc (Some inp) s1 = (Inr out, s2)"
    by (simp add: RefundWorkflow_def)
  with c2 p2 show ?thesis by simp
qed

end

end
