(* ===== verification/MoneyAdapter.thy ===== *)
theory MoneyAdapter
  imports Money
begin

text \<open>
  \<open>tbMoneyAdapter\<close> of \<open>services/ledger/money_workflows.go\<close>: the ledger port of the money
  workflows implemented on the ledger client. The world is the client's state and the number of
  clock readings taken so far; \<open>clk\<close> gives the instant of each reading. The client's Go errors
  are always nil, so only its result codes are looked at. A panic of the client is shown as an
  error text here, which the invariant of the ledger rules out.
\<close>

section \<open>Result codes and transfers\<close>

definition rc_string :: "ResultCode \<Rightarrow> string" where
  "rc_string c = (case c of
       OK \<Rightarrow> ''ok'' | Exists \<Rightarrow> ''exists''
     | ExistsWithDifferentAttributes \<Rightarrow> ''exists_with_different_attributes''
     | AccountNotFound \<Rightarrow> ''account_not_found''
     | AccountsMustBeDifferent \<Rightarrow> ''accounts_must_be_different''
     | AmountMustBePositive \<Rightarrow> ''amount_must_be_positive''
     | ExceedsCredits \<Rightarrow> ''exceeds_credits'' | ExceedsDebits \<Rightarrow> ''exceeds_debits''
     | LedgerMustMatch \<Rightarrow> ''accounts_must_have_the_same_ledger''
     | PendingTransferNotFound \<Rightarrow> ''pending_transfer_not_found''
     | PendingTransferNotPending \<Rightarrow> ''pending_transfer_not_pending''
     | ExceedsPendingAmount \<Rightarrow> ''exceeds_pending_amount''
     | PendingTransferHasDifferentAttr \<Rightarrow> ''pending_transfer_has_different_attributes''
     | TransferNotPending \<Rightarrow> ''transfer_not_pending''
     | Overflows \<Rightarrow> ''overflows'')"

definition toTBTransfer :: "mtransfer \<Rightarrow> string + transfer" where
  "toTBTransfer t = (case ParseID (mID t) of
       Inl e \<Rightarrow> Inl (''transfer id: '' @ e)
     | Inr i \<Rightarrow> (case ParseID (mDebitAccountID t) of
         Inl e \<Rightarrow> Inl (''debit account id: '' @ e)
       | Inr dr \<Rightarrow> (case ParseID (mCreditAccountID t) of
           Inl e \<Rightarrow> Inl (''credit account id: '' @ e)
         | Inr cr \<Rightarrow> Inr \<lparr>tID = i, DebitAccountID = dr, CreditAccountID = cr,
             Amount = mAmountKobo t, tLedger = mLedger t, tCode = mCode t, Pending = False,
             PendingID = MkID 0 0, Resolved = False, tUserData = mUserData t, tCreatedAt = '''',
             TimeoutSeconds = 0, ExpiresAt = ''''\<rparr>)))"

definition resultErr :: "string \<Rightarrow> tb_result \<Rightarrow> string" where
  "resultErr op r = ''money '' @ op @ '': '' @ rc_string (Code r) @ '' '' @ Message r"

section \<open>The port\<close>

type_synonym world = "dev \<times> nat"

definition nil_panic :: string where
  "nil_panic = ''panic: nil pointer dereference''"

definition adapter_CreatePending ::
  "(nat \<Rightarrow> instant) \<Rightarrow> mtransfer \<Rightarrow> world \<Rightarrow> string option \<times> world" where
  "adapter_CreatePending clk t w = (case toTBTransfer t of
       Inl e \<Rightarrow> (Some e, w)
     | Inr tr \<Rightarrow>
        (let n = snd w;
             (r, s1) = PendingTransfer (format_rfc3339nano (clk n)) (clk (Suc n)) tr (fst w);
             w1 = (s1, n + 2)
         in if Code r = OK \<or> Code r = Exists then (None, w1)
            else if Code r = ExistsWithDifferentAttributes then
              (case GetTransfer (tID tr) s1 of
                 (Some ex, lres) \<Rightarrow>
                   if Code lres = OK \<and> (Resolved ex \<or> \<not> Pending ex) then (None, w1)
                   else (Some (resultErr ''create-pending'' r), w1)
               | (None, lres) \<Rightarrow> (Some (resultErr ''create-pending'' r), w1))
            else (Some (resultErr ''create-pending'' r), w1)))"

definition adapter_PostPendingAs ::
  "(nat \<Rightarrow> instant) \<Rightarrow> string \<Rightarrow> string \<Rightarrow> u64 \<Rightarrow> world \<Rightarrow> string option \<times> world" where
  "adapter_PostPendingAs clk pendingID postID amountKobo w = (case ParseID pendingID of
       Inl e \<Rightarrow> (Some e, w)
     | Inr i \<Rightarrow> (case GetTransfer i (fst w) of
         (None, r) \<Rightarrow> (Some (resultErr ''post-pending lookup'' r), w)
       | (Some pt, r) \<Rightarrow>
           if Resolved pt \<or> \<not> Pending pt then (None, w)
           else (case PostPending (format_rfc3339nano (clk (snd w))) i amountKobo (tCode pt) (fst w) of
             None \<Rightarrow> (Some nil_panic, w)
           | Some (r1, s1) \<Rightarrow>
              (let w1 = (s1, Suc (snd w))
               in if Code r1 = OK \<or> Code r1 = PendingTransferNotPending then (None, w1)
                  else (Some (resultErr ''post-pending'' r1), w1)))))"

definition adapter_VoidPending ::
  "(nat \<Rightarrow> instant) \<Rightarrow> string \<Rightarrow> world \<Rightarrow> string option \<times> world" where
  "adapter_VoidPending clk pendingID w = (case ParseID pendingID of
       Inl e \<Rightarrow> (Some e, w)
     | Inr i \<Rightarrow> (case VoidPending (format_rfc3339nano (clk (snd w))) i 0 (fst w) of
         None \<Rightarrow> (Some nil_panic, w)
       | Some (r, s1) \<Rightarrow>
          (let w1 = (s1, Suc (snd w))
           in if Code r = OK \<or> Code r = PendingTransferNotFound
                \<or> Code r = PendingTransferNotPending then (None, w1)
              else (Some (resultErr ''void-pending'' r), w1))))"

definition adapter_Transfer ::
  "(nat \<Rightarrow> instant) \<Rightarrow> mtransfer \<Rightarrow> world \<Rightarrow> string option \<times> world" where
  "adapter_Transfer clk t w = (case toTBTransfer t of
       Inl e \<Rightarrow> (Some e, w)
     | Inr tr \<Rightarrow>
        (let (r, s1) = Transfer (format_rfc3339nano (clk (snd w))) tr (fst w);
             w1 = (s1, Suc (snd w))
         in if Code r = OK \<or> Code r = Exists then (None, w1)
            else (Some (resultErr ''transfer'' r), w1)))"

definition adapter_GetTransfer :: "string \<Rightarrow> world \<Rightarrow> string + mtransfer option" where
  "adapter_GetTransfer ids w = (case ParseID ids of
       Inl e \<Rightarrow> Inl e
     | Inr i \<Rightarrow> (case GetTransfer i (fst w) of
         (None, r) \<Rightarrow> Inr None
       | (Some t, r) \<Rightarrow> Inr (Some \<lparr>mID = ID_String (tID t),
           mDebitAccountID = ID_String (DebitAccountID t),
           mCreditAccountID = ID_String (CreditAccountID t), mLedger = tLedger t, mCode = tCode t,
           mAmountKobo = Amount t, mPending = (Pending t \<and> \<not> Resolved t),
           mUserData = tUserData t\<rparr>)))"

definition tbMoneyAdapter :: "(nat \<Rightarrow> instant) \<Rightarrow> world port" where
  "tbMoneyAdapter clk = \<lparr>CreatePendingP = adapter_CreatePending clk,
     PostPendingAsP = adapter_PostPendingAs clk, VoidPendingP = adapter_VoidPending clk,
     TransferP = adapter_Transfer clk, GetTransferP = adapter_GetTransfer\<rparr>"

lemma tbMoneyAdapter_simps [simp]:
  "CreatePendingP (tbMoneyAdapter clk) = adapter_CreatePending clk"
  "PostPendingAsP (tbMoneyAdapter clk) = adapter_PostPendingAs clk"
  "VoidPendingP (tbMoneyAdapter clk) = adapter_VoidPending clk"
  "TransferP (tbMoneyAdapter clk) = adapter_Transfer clk"
  "GetTransferP (tbMoneyAdapter clk) = adapter_GetTransfer"
  by (simp_all add: tbMoneyAdapter_def)

section \<open>Boot\<close>

text \<open>\<open>initMoneyWorkflows\<close>: a runner error is fatal (\<open>Inl\<close>), otherwise the money workflows
  are registered on the adapter, without a remittance store activity.\<close>

definition initMoneyWorkflows ::
  "(string \<Rightarrow> u8 list) \<Rightarrow> (nat \<Rightarrow> instant) \<Rightarrow> string \<Rightarrow> string option \<Rightarrow> string option
     \<Rightarrow> string + (runner_kind \<times> (wf_input, wf_output, world) runner)" where
  "initMoneyWorkflows sha clk url init_err start_err =
     (case money_NewRunnerFromEnv url init_err start_err of
        Inl e \<Rightarrow> Inl (''component=ledger FATAL: money workflows: '' @ e)
      | Inr k \<Rightarrow> Inr (k, money_Register sha (tbMoneyAdapter clk) None NewInprocRunner))"

section \<open>The adapter keeps the contract of the port\<close>

definition w_inv :: "world \<Rightarrow> bool" where
  "w_inv w \<longleftrightarrow> ledger_inv (fst w)"

definition w_money :: "world \<Rightarrow> (tbid, account) kv \<times> (tbid, transfer) kv" where
  "w_money w = (accounts (fst w), transfers (fst w))"

definition port_accepts :: "mtransfer \<Rightarrow> bool" where
  "port_accepts t \<longleftrightarrow> (case toTBTransfer t of Inl e \<Rightarrow> False | Inr tr \<Rightarrow> True)"

definition port_settled :: "string \<Rightarrow> world \<Rightarrow> bool" where
  "port_settled p w \<longleftrightarrow> (case ParseID p of Inl e \<Rightarrow> False
     | Inr i \<Rightarrow> (case map_of (transfers (fst w)) i of None \<Rightarrow> False
        | Some t \<Rightarrow> Resolved t \<or> \<not> Pending t))"

lemma toTBTransfer_fields:
  assumes "toTBTransfer t = Inr tr"
  shows "ParseID (mID t) = Inr (tID tr)" "\<not> Resolved tr" "Amount tr = mAmountKobo t"
    "ParseID (mDebitAccountID t) = Inr (DebitAccountID tr)"
    "ParseID (mCreditAccountID t) = Inr (CreditAccountID tr)"
  using assms by (auto simp: toTBTransfer_def split: sum.splits)

lemma runHooks_money [simp]: "w_money (runHooks s, n) = w_money (s, m)"
  by (simp add: w_money_def)

lemma w_inv_money: "w_money v = w_money w \<Longrightarrow> w_inv v \<longleftrightarrow> w_inv w"
  by (simp add: w_inv_def w_money_def ledger_inv_def)

text \<open>What each call of the adapter does to the ledger.\<close>

lemma adapter_CreatePending_cases:
  assumes "adapter_CreatePending clk t w = (e, w1)"
  obtains (bad) err where "toTBTransfer t = Inl err" "e = Some err" "w1 = w"
  | (refused) tr r where "toTBTransfer t = Inr tr" "Code r \<noteq> OK"
      "pending_body (format_rfc3339nano (clk (snd w))) (clk (Suc (snd w))) tr (fst w) = (r, fst w)"
      "w1 = (runHooks (fst w), snd w + 2)"
  | (applied) tr r s1 where "toTBTransfer t = Inr tr" "Code r = OK" "e = None"
      "pending_body (format_rfc3339nano (clk (snd w))) (clk (Suc (snd w))) tr (fst w) = (r, s1)"
      "w1 = (runHooks s1, snd w + 2)"
proof (cases "toTBTransfer t")
  case (Inl err)
  with assms bad show ?thesis by (simp add: adapter_CreatePending_def)
next
  case (Inr tr)
  obtain r s1 where b: "pending_body (format_rfc3339nano (clk (snd w))) (clk (Suc (snd w))) tr (fst w)
      = (r, s1)" by fastforce
  have w1: "w1 = (runHooks s1, snd w + 2)"
    using assms Inr b
    by (auto simp: adapter_CreatePending_def PendingTransfer_def Let_def GetTransfer_def
        split: if_splits option.splits)
  show ?thesis
  proof (cases "Code r = OK")
    case True
    with assms Inr b have "e = None"
      by (simp add: adapter_CreatePending_def PendingTransfer_def Let_def)
    with applied Inr b w1 True show ?thesis by blast
  next
    case False
    with pending_body_cases [OF b] have "s1 = fst w" by auto
    with refused Inr b w1 False show ?thesis by blast
  qed
qed

lemma adapter_CreatePending_inv:
  assumes "w_inv w" "adapter_CreatePending clk t w = (e, w1)"
  shows "w_inv w1"
  using assms(2)
proof (cases rule: adapter_CreatePending_cases)
  case (applied tr r s1)
  with pending_body_inv [of "fst w" tr, OF _ _ applied(4)] assms(1) toTBTransfer_fields(2) [OF applied(1)]
  show ?thesis by (simp add: w_inv_def)
qed (use assms(1) in \<open>simp_all add: w_inv_def\<close>)

lemma adapter_CreatePending_err:
  assumes "adapter_CreatePending clk t w = (Some e, w1)"
  shows "w_money w1 = w_money w"
  using assms by (cases rule: adapter_CreatePending_cases) (simp_all add: w_money_def)

lemma adapter_CreatePending_settled:
  assumes "port_accepts t" "port_settled (mID t) w"
  shows "\<exists>w1. adapter_CreatePending clk t w = (None, w1) \<and> w_money w1 = w_money w
    \<and> port_settled (mID t) w1"
proof -
  from assms(1) obtain tr where tr: "toTBTransfer t = Inr tr"
    by (auto simp: port_accepts_def split: sum.splits)
  from assms(2) toTBTransfer_fields(1) [OF tr] obtain u where
    u: "map_of (transfers (fst w)) (tID tr) = Some u" "Resolved u \<or> \<not> Pending u"
    by (auto simp: port_settled_def split: option.splits)
  then have "pending_body a b tr (fst w) = (res ExistsWithDifferentAttributes, fst w)" for a b
    by (auto simp: pending_body_def)
  with tr u show ?thesis
    by (auto simp: adapter_CreatePending_def PendingTransfer_def Let_def GetTransfer_def
        w_money_def port_settled_def toTBTransfer_fields(1) [OF tr])
qed

lemma post_pending_posts:
  assumes "post_pending_body now_s i am code s = Some (r, s')" "Code r = OK"
  obtains pt post where "map_of (transfers s) i = Some pt" "open_pending pt"
    "map_of (transfers s') i = Some post" "posted post"
    "Amount post = (if am = 0 then Amount pt else am)" "Amount post \<le> Amount pt"
proof -
  from assms obtain pt where pt: "map_of (transfers s) i = Some pt" "open_pending pt"
    by (auto simp: post_pending_body_def open_pending_def split: option.splits if_splits)
  let ?am = "if am = 0 then Amount pt else am"
  from assms pt obtain r1 s1 where st: "settle_pending pt ?am s = Some (r1, s1)"
    and rp: "record_post i i pt (post_record i i pt ?am now_s) (r1, s1) = (r, s')"
    and le: "?am \<le> Amount pt"
    by (auto simp: post_pending_body_def Let_def open_pending_def split: if_splits)
  from record_post_cases [OF rp] assms(2) have
    "map_of (transfers s') i = Some (post_record i i pt ?am now_s)" by (auto split: if_splits)
  with that [OF pt this] le show ?thesis by (simp add: posted_def post_record_def)
qed

lemma adapter_PostPendingAs_cases:
  assumes "adapter_PostPendingAs clk p q am w = (e, w1)"
  obtains (idle) "w1 = w" "e = None" "port_settled p w"
  | (failed) err where "w1 = w" "e = Some err"
  | (called) i pt r s1 where "ParseID p = Inr i" "map_of (transfers (fst w)) i = Some pt"
      "open_pending pt"
      "post_pending_body (format_rfc3339nano (clk (snd w))) i am (tCode pt) (fst w) = Some (r, s1)"
      "w1 = (runHooks s1, Suc (snd w))"
      "e = None \<longleftrightarrow> Code r = OK \<or> Code r = PendingTransferNotPending"
proof (cases "ParseID p")
  case (Inl err)
  with assms show ?thesis by (intro failed [of err]) (simp_all add: adapter_PostPendingAs_def)
next
  case (Inr i)
  show ?thesis
  proof (cases "map_of (transfers (fst w)) i")
    case None
    let ?m = "resultErr ''post-pending lookup'' (res PendingTransferNotFound)"
    from assms Inr None have "w1 = w \<and> e = Some ?m"
      by (simp add: adapter_PostPendingAs_def GetTransfer_def)
    then show ?thesis by (intro failed [of ?m]) simp_all
  next
    case (Some pt)
    show ?thesis
    proof (cases "open_pending pt")
      case False
      with assms Inr Some show ?thesis
        by (intro idle)
          (auto simp: adapter_PostPendingAs_def GetTransfer_def open_pending_def port_settled_def)
    next
      case True
      let ?b = "post_pending_body (format_rfc3339nano (clk (snd w))) i am (tCode pt) (fst w)"
      show ?thesis
      proof (cases ?b)
        case None
        with assms Inr Some True have "w1 = w \<and> e = Some nil_panic"
          by (simp add: adapter_PostPendingAs_def GetTransfer_def open_pending_def PostPending_def)
        then show ?thesis by (intro failed [of nil_panic]) simp_all
      next
        case b: (Some rs)
        obtain r s1 where rs: "rs = (r, s1)" by (cases rs)
        from assms Inr Some True b rs show ?thesis
          by (intro called [OF Inr Some True b [unfolded rs]])
            (auto simp: adapter_PostPendingAs_def GetTransfer_def open_pending_def PostPending_def
              Let_def split: if_splits)
      qed
    qed
  qed
qed

lemma adapter_PostPendingAs_inv:
  assumes "w_inv w" "adapter_PostPendingAs clk p q am w = (e, w1)"
  shows "w_inv w1"
  using assms(2)
proof (cases rule: adapter_PostPendingAs_cases)
  case (called i pt r s1)
  with post_pending_body_inv [of "fst w", OF _ called(4)] assms(1) show ?thesis
    by (simp add: w_inv_def)
qed (use assms(1) in simp_all)

lemma adapter_PostPendingAs_err:
  assumes "w_inv w" "adapter_PostPendingAs clk p q am w = (Some err, w1)"
  shows "w_money w1 = w_money w"
  using assms(2)
proof (cases rule: adapter_PostPendingAs_cases)
  case (called i pt r s1)
  then have "Code r \<noteq> OK" by simp
  with post_pending_refused [OF _ called(4)] assms(1) have "s1 = fst w" by (simp add: w_inv_def)
  with called show ?thesis by (simp add: w_money_def)
qed simp_all

lemma checkConstraints_codes:
  "checkConstraints a p q r t \<in> {OK, Overflows, ExceedsCredits, ExceedsDebits}"
  by (simp add: checkConstraints_def Let_def)

lemma settle_code:
  assumes "settle_pending pt x s = Some (r1, s1)"
  shows "Code r1 \<noteq> PendingTransferNotPending"
proof -
  have ck: "checkConstraints a b c d f \<noteq> PendingTransferNotPending" for a b c d f
    using checkConstraints_codes [of a b c d f] by auto
  define c1 where
    "c1 = checkConstraints (the (map_of (accounts (release_pending pt s)) (DebitAccountID pt))) 0 x 0 0"
  define c2 where
    "c2 = checkConstraints (the (map_of (accounts (release_pending pt s)) (CreditAccountID pt))) 0 0 0 x"
  from assms have "Code r1 = OK \<or> Code r1 = c1 \<or> Code r1 = c2"
    unfolding settle_pending_def Let_def c1_def [symmetric] c2_def [symmetric]
    by (simp split: if_splits) auto
  then show ?thesis
    unfolding c1_def c2_def using ck by (elim disjE) simp_all
qed

lemma post_pending_not_pending:
  assumes "ledger_inv s" "post_pending_body now_s i am code s = Some (r, s')"
    "map_of (transfers s) i = Some pt" "open_pending pt"
  shows "Code r \<noteq> PendingTransferNotPending"
proof (cases "settle_pending pt (if am = 0 then Amount pt else am) s")
  case None
  with assms(2-) show ?thesis
    by (auto simp: post_pending_body_def open_pending_def Let_def split: if_splits)
next
  case (Some rs)
  obtain r1 s1 where rs: "rs = (r1, s1)" by (cases rs)
  from settle_code [OF Some [unfolded rs]] assms(2-) Some rs show ?thesis
    by (auto simp: post_pending_body_def open_pending_def Let_def record_post_def split: if_splits)
qed

lemma adapter_PostPendingAs_settles:
  assumes "w_inv w" "adapter_PostPendingAs clk p q am w = (None, w1)"
  shows "port_settled p w1"
  using assms(2)
proof (cases rule: adapter_PostPendingAs_cases)
  case (called i pt r s1)
  with assms(1) post_pending_not_pending [OF _ called(4,2,3)] called(6) have "Code r = OK"
    by (auto simp: w_inv_def)
  obtain pt' post where "map_of (transfers s1) i = Some post" "posted post"
    by (rule post_pending_posts [OF called(4) \<open>Code r = OK\<close>])
  with called(1,5) show ?thesis by (simp add: port_settled_def posted_def)
qed simp_all

lemma adapter_PostPendingAs_settled:
  assumes "port_settled p w"
  shows "adapter_PostPendingAs clk p q am w = (None, w)"
  using assms
  by (auto simp: port_settled_def adapter_PostPendingAs_def GetTransfer_def
      split: sum.splits option.splits)

lemma VoidPending_body:
  "VoidPending now_s i code s = Some (r, s1) \<longleftrightarrow>
     (\<exists>s2. void_pending_body now_s i code s = Some (r, s2) \<and> s1 = runHooks s2)"
  by (auto simp: VoidPending_def)

lemma adapter_VoidPending_cases:
  assumes "adapter_VoidPending clk p w = (e, w1)"
  obtains (failed) err where "w1 = w" "e = Some err"
  | (called) i r s1 where "ParseID p = Inr i"
      "void_pending_body (format_rfc3339nano (clk (snd w))) i 0 (fst w) = Some (r, s1)"
      "w1 = (runHooks s1, Suc (snd w))"
      "e = None \<longleftrightarrow> Code r = OK \<or> Code r = PendingTransferNotFound
         \<or> Code r = PendingTransferNotPending"
proof (cases "ParseID p")
  case (Inl err)
  with assms show ?thesis by (intro failed [of err]) (simp_all add: adapter_VoidPending_def)
next
  case (Inr i)
  let ?b = "void_pending_body (format_rfc3339nano (clk (snd w))) i 0 (fst w)"
  show ?thesis
  proof (cases ?b)
    case None
    with assms Inr show ?thesis
      by (intro failed [of nil_panic]) (simp_all add: adapter_VoidPending_def VoidPending_def)
  next
    case (Some rs)
    obtain r s1 where rs: "rs = (r, s1)" by (cases rs)
    from assms Inr Some rs show ?thesis
      by (intro called [OF Inr Some [unfolded rs]])
        (auto simp: adapter_VoidPending_def VoidPending_def Let_def split: if_splits)
  qed
qed

lemma adapter_VoidPending_inv:
  assumes "w_inv w" "adapter_VoidPending clk p w = (e, w1)"
  shows "w_inv w1"
  using assms(2)
proof (cases rule: adapter_VoidPending_cases)
  case (called i r s1)
  with void_pending_body_inv [of "fst w", OF _ called(2)] assms(1) show ?thesis
    by (simp add: w_inv_def)
qed (use assms(1) in simp_all)

lemma adapter_Transfer_inv:
  assumes "w_inv w" "adapter_Transfer clk t w = (e, w1)"
  shows "w_inv w1"
proof (cases "toTBTransfer t")
  case (Inl err)
  with assms show ?thesis by (simp add: adapter_Transfer_def)
next
  case (Inr tr)
  obtain r s1 where b: "transfer_body (format_rfc3339nano (clk (snd w))) tr (fst w) = (r, s1)"
    by fastforce
  with assms(2) Inr have "w1 = (runHooks s1, Suc (snd w))"
    by (auto simp: adapter_Transfer_def Transfer_def Let_def split: if_splits)
  with transfer_body_inv [OF _ toTBTransfer_fields(2) [OF Inr] b] assms(1) show ?thesis
    by (simp add: w_inv_def)
qed

interpretation tb: ledger_port "tbMoneyAdapter clk" w_inv w_money port_accepts port_settled for clk
proof
  fix s s1 :: world and t p q a r e
  show "w_inv s \<Longrightarrow> CreatePendingP (tbMoneyAdapter clk) t s = (r, s1) \<Longrightarrow> w_inv s1"
    by (simp add: adapter_CreatePending_inv)
  show "w_inv s \<Longrightarrow> PostPendingAsP (tbMoneyAdapter clk) p q a s = (r, s1) \<Longrightarrow> w_inv s1"
    by (simp add: adapter_PostPendingAs_inv)
  show "w_inv s \<Longrightarrow> VoidPendingP (tbMoneyAdapter clk) p s = (r, s1) \<Longrightarrow> w_inv s1"
    by (simp add: adapter_VoidPending_inv)
  show "w_inv s \<Longrightarrow> TransferP (tbMoneyAdapter clk) t s = (r, s1) \<Longrightarrow> w_inv s1"
    by (simp add: adapter_Transfer_inv)
  show "w_inv s \<Longrightarrow> CreatePendingP (tbMoneyAdapter clk) t s = (Some e, s1) \<Longrightarrow> w_money s1 = w_money s"
    by (simp add: adapter_CreatePending_err)
  show "w_inv s \<Longrightarrow> PostPendingAsP (tbMoneyAdapter clk) p q a s = (Some e, s1) \<Longrightarrow> w_money s1 = w_money s"
    by (simp add: adapter_PostPendingAs_err)
  show "CreatePendingP (tbMoneyAdapter clk) t s = (None, s1) \<Longrightarrow> port_accepts t"
    by (auto simp: port_accepts_def adapter_CreatePending_def split: sum.splits)
  show "w_inv s \<Longrightarrow> PostPendingAsP (tbMoneyAdapter clk) p q a s = (None, s1) \<Longrightarrow> port_settled p s1"
    by (simp add: adapter_PostPendingAs_settles)
  show "port_accepts t \<Longrightarrow> port_settled (mID t) s \<Longrightarrow>
          \<exists>s1. CreatePendingP (tbMoneyAdapter clk) t s = (None, s1) \<and> w_money s1 = w_money s
            \<and> port_settled (mID t) s1"
    by (simp only: tbMoneyAdapter_simps) (rule adapter_CreatePending_settled)
  show "port_settled p s \<Longrightarrow>
          \<exists>s1. PostPendingAsP (tbMoneyAdapter clk) p q a s = (None, s1) \<and> w_money s1 = w_money s
            \<and> port_settled p s1"
    by (simp add: adapter_PostPendingAs_settled)
qed

section \<open>Undoing a refund\<close>

text \<open>What the ledger still counts: the accounts, and the records that reserve or moved money.\<close>

definition live :: "transfer \<Rightarrow> bool" where
  "live t \<longleftrightarrow> open_pending t \<or> posted t"

definition live_view :: "world \<Rightarrow> (tbid \<Rightarrow> account option) \<times> (tbid \<Rightarrow> transfer option)" where
  "live_view w = (map_of (accounts (fst w)),
     \<lambda>i. case map_of (transfers (fst w)) i of None \<Rightarrow> None | Some t \<Rightarrow> if live t then Some t else None)"

definition fresh_pending :: "(string \<Rightarrow> u8 list) \<Rightarrow> refund_input \<Rightarrow> world \<Rightarrow> bool" where
  "fresh_pending sha inp w \<longleftrightarrow> (case ParseID (mID (refund_pend sha inp)) of
     Inl e \<Rightarrow> True | Inr i \<Rightarrow> map_of (transfers (fst w)) i = None)"

definition refund_clean ::
  "(string \<Rightarrow> u8 list) \<Rightarrow> (nat \<Rightarrow> instant) \<Rightarrow> refund_input \<Rightarrow> world msaga_step \<Rightarrow> unit \<Rightarrow> world \<Rightarrow> bool" where
  "refund_clean sha clk inp st i w \<longleftrightarrow> w_inv w \<and> st \<in> set (refund_steps sha (tbMoneyAdapter clk) inp)"

definition refund_undoable ::
  "(string \<Rightarrow> u8 list) \<Rightarrow> (nat \<Rightarrow> instant) \<Rightarrow> refund_input \<Rightarrow> world msaga_step \<Rightarrow> unit \<Rightarrow> world \<Rightarrow> bool" where
  "refund_undoable sha clk inp st i w \<longleftrightarrow> w_inv w \<and> fresh_pending sha inp w
     \<and> st = hd (refund_steps sha (tbMoneyAdapter clk) inp)"

lemma live_view_money: "w_money v = w_money w \<Longrightarrow> live_view v = live_view w"
  by (simp add: live_view_def w_money_def)

lemma live_view_accounts: "live_view v = live_view w \<Longrightarrow>
   map_of (accounts (fst v)) = map_of (accounts (fst w))"
  by (simp add: live_view_def)

lemma live_view_transfer:
  assumes "live_view v = live_view w" "map_of (transfers (fst w)) i = Some t" "live t"
  shows "map_of (transfers (fst v)) i = Some t"
proof -
  from assms(1) have "snd (live_view v) i = snd (live_view w) i" by simp
  with assms(2,3) show ?thesis
    by (cases "map_of (transfers (fst v)) i") (auto simp: live_view_def split: if_splits)
qed

lemma fresh_pending_code:
  assumes "pending_body a b tr s = (r, s1)" "map_of (transfers s) (tID tr) = None"
  shows "Code r \<noteq> Exists" "Code r \<noteq> ExistsWithDifferentAttributes"
proof -
  have ck: "checkConstraints p q x y z \<noteq> Exists"
    "checkConstraints p q x y z \<noteq> ExistsWithDifferentAttributes" for p q x y z
    using checkConstraints_codes [of p q x y z] by auto
  have "Code e \<noteq> Exists \<and> Code e \<noteq> ExistsWithDifferentAttributes"
    if "validateParties s tr = Inl e" for e
    using that by (auto simp: validateParties_def split: if_splits option.splits)
  with assms ck show "Code r \<noteq> Exists" "Code r \<noteq> ExistsWithDifferentAttributes"
    by (auto simp: pending_body_def Let_def split: sum.splits prod.splits if_splits)
qed

text \<open>A new reservation, and its release at a state that counts the same money.\<close>

lemma adapter_CreatePending_fresh:
  assumes "adapter_CreatePending clk t w = (None, w1)" "toTBTransfer t = Inr tr"
    and "map_of (transfers (fst w)) (tID tr) = None"
  obtains dr cr rt where "map_of (accounts (fst w)) (DebitAccountID tr) = Some dr"
    "map_of (accounts (fst w)) (CreditAccountID tr) = Some cr"
    "DebitAccountID tr \<noteq> CreditAccountID tr"
    "open_pending rt" "DebitAccountID rt = DebitAccountID tr"
    "CreditAccountID rt = CreditAccountID tr" "Amount rt = Amount tr"
    "transfers (fst w1) = kv_put (tID tr) rt (transfers (fst w))"
    "map_of (accounts (fst w1)) = (map_of (accounts (fst w)))
       (DebitAccountID tr \<mapsto> dr\<lparr>DebitsPending := DebitsPending dr + Amount tr\<rparr>,
        CreditAccountID tr \<mapsto> cr\<lparr>CreditsPending := CreditsPending cr + Amount tr\<rparr>)"
  using assms(1)
proof (cases rule: adapter_CreatePending_cases)
  case (refused tr' r)
  with assms(2) have e: "tr' = tr" by simp
  from refused(2) fresh_pending_code [OF refused(3) [unfolded e] assms(3)] assms(1,2) refused(3) e
  have False by (simp add: adapter_CreatePending_def PendingTransfer_def Let_def split: if_splits)
  then show ?thesis ..
next
  case (applied tr' r s1)
  with assms(2) have e: "tr' = tr" by simp
  let ?rt = "reservation (format_rfc3339nano (clk (snd w))) (clk (Suc (snd w))) tr"
  from pending_body_cases [OF applied(4) [unfolded e]] applied(2) obtain dr cr where
    v: "validateParties (fst w) tr = Inr (dr, cr)"
    and s1: "s1 = (let t' = ?rt
               in eventLocked t' (changedLocked (put_transfer (tID tr) t'
                   (upd_account (CreditAccountID tr)
                      (\<lambda>a. a\<lparr>CreditsPending := CreditsPending a + Amount tr\<rparr>)
                      (upd_account (DebitAccountID tr)
                        (\<lambda>a. a\<lparr>DebitsPending := DebitsPending a + Amount tr\<rparr>) (fst w))))))"
    by auto
  note p = validateParties_Inr [OF v]
  have acc: "map_of (accounts (fst w1)) = (map_of (accounts (fst w)))
       (DebitAccountID tr \<mapsto> dr\<lparr>DebitsPending := DebitsPending dr + Amount tr\<rparr>,
        CreditAccountID tr \<mapsto> cr\<lparr>CreditsPending := CreditsPending cr + Amount tr\<rparr>)"
    using p by (intro ext) (simp add: applied(5) s1 Let_def accounts_upd)
  have rt: "open_pending ?rt" "DebitAccountID ?rt = DebitAccountID tr"
    "CreditAccountID ?rt = CreditAccountID tr" "Amount ?rt = Amount tr"
    using toTBTransfer_fields(2) [OF assms(2)]
    by (simp_all add: reservation_def open_pending_def Let_def)
  show ?thesis
    by (rule that [OF p(3,4,2) rt _ acc]) (simp add: applied(5) s1 Let_def)
qed (use assms(2) in simp)

lemma void_undoes_create:
  assumes "adapter_CreatePending clk t w = (None, w1)" "toTBTransfer t = Inr tr"
    and "map_of (transfers (fst w)) (tID tr) = None"
    and "live_view v = live_view w1" "adapter_VoidPending clk (mID t) v = (None, v')"
  shows "live_view v' = live_view w"
proof -
  obtain dr cr rt where a: "map_of (accounts (fst w)) (DebitAccountID tr) = Some dr"
    "map_of (accounts (fst w)) (CreditAccountID tr) = Some cr"
    "DebitAccountID tr \<noteq> CreditAccountID tr"
    and rt: "open_pending rt" "DebitAccountID rt = DebitAccountID tr"
    "CreditAccountID rt = CreditAccountID tr" "Amount rt = Amount tr"
    and tr1: "transfers (fst w1) = kv_put (tID tr) rt (transfers (fst w))"
    and acc1: "map_of (accounts (fst w1)) = (map_of (accounts (fst w)))
       (DebitAccountID tr \<mapsto> dr\<lparr>DebitsPending := DebitsPending dr + Amount tr\<rparr>,
        CreditAccountID tr \<mapsto> cr\<lparr>CreditsPending := CreditsPending cr + Amount tr\<rparr>)"
    by (rule adapter_CreatePending_fresh [OF assms(1-3)])
  have pt: "map_of (transfers (fst v)) (tID tr) = Some rt"
    by (rule live_view_transfer [OF assms(4)]) (simp_all add: tr1 live_def rt)
  note acc = live_view_accounts [OF assms(4), unfolded acc1]
  from assms(5) obtain r s3 where
    vb: "void_pending_body (format_rfc3339nano (clk (snd v))) (tID tr) 0 (fst v) = Some (r, s3)"
    and v': "v' = (runHooks s3, Suc (snd v))"
    by (cases rule: adapter_VoidPending_cases) (auto simp: toTBTransfer_fields(1) [OF assms(2)])
  let ?vr = "voided_record rt (tCode rt) (format_rfc3339nano (clk (snd v)))"
  from vb pt rt(1) have acc3: "accounts s3 = accounts (release_pending rt (fst v))"
    and tr3: "transfers s3 = kv_put (tID tr) ?vr (transfers (fst v))"
    by (auto simp: void_pending_body_def open_pending_def Let_def split: if_splits)
  have "map_of (accounts (fst v')) j = map_of (accounts (fst w)) j" for j
    using a by (simp add: v' acc3 release_accounts acc rt)
  moreover have "\<not> live ?vr" by (simp add: live_def voided_record_def open_pending_def posted_def)
  moreover have "snd (live_view v) j = snd (live_view w1) j" for j using assms(4) by simp
  ultimately show ?thesis
    using assms(3) by (auto simp: live_view_def v' tr3 tr1 fun_eq_iff split: if_splits)
qed

interpretation refund_undo: saga_undo live_view "refund_clean sha clk inp" "refund_undoable sha clk inp"
  for sha clk inp
proof
  fix st and i :: unit and s s1 e out c t t'
  show "refund_clean sha clk inp st i s \<Longrightarrow> Action st i s = (Inl e, s1) \<Longrightarrow>
        live_view s1 = live_view s"
    by (auto simp: refund_clean_def refund_steps_def returning_def Let_def split: option.splits prod.splits
        intro!: live_view_money dest: adapter_CreatePending_err adapter_PostPendingAs_err)
  show "refund_undoable sha clk inp st i s \<Longrightarrow> refund_clean sha clk inp st i s"
    by (auto simp: refund_undoable_def refund_clean_def refund_steps_def Let_def)
  show "refund_undoable sha clk inp st i s \<Longrightarrow> Action st i s = (Inr out, s1) \<Longrightarrow>
        Compensation st = None \<Longrightarrow> live_view s1 = live_view s"
    by (simp add: refund_undoable_def refund_steps_def Let_def)
  assume u: "refund_undoable sha clk inp st i s" and a: "Action st i s = (Inr out, s1)"
    and c: "Compensation st = Some c" and v: "live_view t = live_view s1" and "c out t = (None, t')"
  then have cr: "adapter_CreatePending clk (refund_pend sha inp) s = (None, s1)"
    and vo: "adapter_VoidPending clk (mID (refund_pend sha inp)) t = (None, t')"
    by (auto simp: refund_undoable_def refund_steps_def returning_def refund_pend_def Let_def
        split: option.splits prod.splits)
  from cr obtain tr where tr: "toTBTransfer (refund_pend sha inp) = Inr tr"
    by (auto simp: adapter_CreatePending_def split: sum.splits)
  have "map_of (transfers (fst s)) (tID tr) = None"
    using u by (simp add: refund_undoable_def fresh_pending_def toTBTransfer_fields(1) [OF tr])
  from void_undoes_create [OF cr tr this v vo] show "live_view t' = live_view s" .
qed

lemma refund_failure_restores:
  assumes "w_inv w" "fresh_pending sha inp w" "CompensationErrors e = []"
    and "RefundWorkflow sha (tbMoneyAdapter clk) (Some inp) w = (Inl (SagaFailed e), w1)"
  shows "live_view w1 = live_view w"
proof -
  let ?sts = "refund_steps sha (tbMoneyAdapter clk) inp"
  from assms(4) have run: "saga_run ?sts () w = (Some e, w1)"
    by (auto simp: RefundWorkflow_def split: if_splits prod.splits option.splits)
  obtain s1 s2 where ss: "?sts = [s1, s2]" by (simp add: refund_steps_def Let_def)
  have u: "refund_undoable sha clk inp s1 () w"
    using assms(1,2) ss by (simp add: refund_undoable_def)
  then have c: "refund_clean sha clk inp s1 () w"
    using ss by (simp add: refund_undoable_def refund_clean_def)
  have pr: "tb.preserves s1" using tb.refund_preserves [of sha clk inp] ss by simp
  have c2: "refund_clean sha clk inp s2 () x" if "Action s1 () w = (Inr out, x)" for out x
  proof -
    from pr have "w_inv x" unfolding tb.preserves_def using that assms(1) by blast
    with ss show ?thesis by (simp add: refund_clean_def)
  qed
  have "refund_undo.all_undoable sha clk inp ?sts () w"
    unfolding ss using c u c2 by (auto split: sum.splits prod.splits)
  from refund_undo.failed_saga_restores_view [OF this run assms(3)] show ?thesis .
qed

end
