(* ===== verification/Thresholds.thy ===== *)
theory Thresholds
  imports Ledger
begin

text \<open>
  \<open>services/ledger/thresholds.go\<close>: the bank-threshold checks run on every transfer event.
  \<open>Observe\<close> is one definition; the abstract specification keeps the whole history of
  sub-threshold transfers of an account and reads the 24-hour window off it.
\<close>

section \<open>The tracker\<close>

definition ctrThresholdKobo :: u64 where "ctrThresholdKobo = 1000000000"
definition nearThresholdKobo :: u64 where "nearThresholdKobo = 800000000"
definition structuringWindow :: int where "structuringWindow = 24 * hour_ns"

datatype pval = PS string | PU u64 | PI int | PBool bool | PBand u64 u64

type_synonym payload = "(string, pval) kv"

record threshold_event =
  evType :: string
  evPayload :: payload

record window_entry =
  at :: instant
  wamount :: u64
  wmax :: u64

record tracker =
  windows :: "(string, window_entry list) kv"
  flagged :: "(string, instant) kv"

definition newThresholdTracker :: tracker where
  "newThresholdTracker = \<lparr>windows = [], flagged = []\<rparr>"

text \<open>Copying one map over another, key by key.\<close>

definition overlay :: "payload \<Rightarrow> payload \<Rightarrow> payload" where
  "overlay base p = fold (\<lambda>kv m. kv_put (fst kv) (snd kv) m) base p"

definition base_payload :: "instant \<Rightarrow> transfer \<Rightarrow> payload" where
  "base_payload now t = overlay
     [(''transfer_id'', PS (ID_String (tID t))),
      (''debit_account_id'', PS (ID_String (DebitAccountID t))),
      (''credit_account_id'', PS (ID_String (CreditAccountID t))),
      (''amount_kobo'', PU (Amount t)),
      (''rule_pack'', PS ''rp-bank-thresholds@1.0.0''),
      (''observed_at'', PS (format_rfc3339 now))] []"

definition ctr_event :: "instant \<Rightarrow> transfer \<Rightarrow> threshold_event" where
  "ctr_event now t = \<lparr>evType = ''nrs.aml.ctr.v1'', evPayload = overlay (base_payload now t)
     (overlay [(''decision'', PS ''ctr_reportable''), (''threshold_kobo'', PU ctrThresholdKobo)] [])\<rparr>"

definition review_event :: "instant \<Rightarrow> transfer \<Rightarrow> threshold_event" where
  "review_event now t = \<lparr>evType = ''nrs.aml.threshold_review.v1'',
     evPayload = overlay (base_payload now t)
       (overlay [(''decision'', PS ''review''),
                 (''band_kobo'', PBand nearThresholdKobo ctrThresholdKobo)] [])\<rparr>"

definition structuring_event ::
  "instant \<Rightarrow> transfer \<Rightarrow> nat \<Rightarrow> u64 \<Rightarrow> u64 \<Rightarrow> threshold_event" where
  "structuring_event now t cnt totalAmt maxAmt = \<lparr>evType = ''nrs.aml.structuring.v1'',
     evPayload = overlay (base_payload now t)
       (overlay [(''decision'', PS ''structuring_suspicion''), (''window_hours'', PI 24),
                 (''window_transfer_count'', PI (int cnt)), (''window_total_kobo'', PU totalAmt),
                 (''max_single_kobo'', PU maxAmt)] [])\<rparr>"

definition window_of :: "tracker \<Rightarrow> string \<Rightarrow> window_entry list" where
  "window_of tt key = (case map_of (windows tt) key of None \<Rightarrow> [] | Some es \<Rightarrow> es)"

definition in_window :: "instant \<Rightarrow> window_entry \<Rightarrow> bool" where
  "in_window now e \<longleftrightarrow> now - at e \<le> structuringWindow"

text \<open>The summing loop: the 64-bit total and the largest amount.\<close>

fun window_totals :: "window_entry list \<Rightarrow> u64 \<Rightarrow> u64 \<Rightarrow> u64 \<times> u64" where
  "window_totals [] totalAmt maxAmt = (totalAmt, maxAmt)"
| "window_totals (e # es) totalAmt maxAmt =
     window_totals es (totalAmt + wamount e) (if wamount e > maxAmt then wamount e else maxAmt)"

definition Observe :: "instant \<Rightarrow> transfer \<Rightarrow> tracker \<Rightarrow> threshold_event list \<times> tracker" where
  "Observe now t tt =
     (if Amount t \<ge> ctrThresholdKobo then ([ctr_event now t], tt)
      else
       (let out = (if Amount t \<ge> nearThresholdKobo then [review_event now t] else []);
            key = ID_String (DebitAccountID t);
            kept = filter (in_window now) (window_of tt key)
                   @ [\<lparr>at = now, wamount = Amount t, wmax = Amount t\<rparr>];
            (totalAmt, maxAmt) = window_totals kept 0 0;
            cnt = length kept;
            shouldFlag = (cnt \<ge> 3 \<and> totalAmt \<ge> ctrThresholdKobo \<and> maxAmt < ctrThresholdKobo
              \<and> (case map_of (flagged tt) key of
                   None \<Rightarrow> True | Some lastFlag \<Rightarrow> now - lastFlag > structuringWindow));
            tt1 = tt\<lparr>windows := kv_put key kept (windows tt)\<rparr>;
            tt2 = (if shouldFlag then tt1\<lparr>flagged := kv_put key now (flagged tt1)\<rparr> else tt1)
        in (out @ (if shouldFlag then [structuring_event now t cnt totalAmt maxAmt] else []), tt2)))"

section \<open>Running over a stream of transfers\<close>

fun observe_all ::
  "(instant \<times> transfer) list \<Rightarrow> tracker \<Rightarrow> (instant \<times> threshold_event) list \<times> tracker" where
  "observe_all [] tt = ([], tt)"
| "observe_all ((now, t) # xs) tt =
     (let (evs, tt1) = Observe now t tt; (rest, tt2) = observe_all xs tt1
      in (map (Pair now) evs @ rest, tt2))"

text \<open>The abstract history of an account: its sub-threshold debits, oldest first.\<close>

definition history :: "string \<Rightarrow> (instant \<times> transfer) list \<Rightarrow> window_entry list" where
  "history key xs = map (\<lambda>(now, t). \<lparr>at = now, wamount = Amount t, wmax = Amount t\<rparr>)
     (filter (\<lambda>(now, t). Amount t < ctrThresholdKobo \<and> ID_String (DebitAccountID t) = key) xs)"

lemma history_simps [simp]:
  "history key [] = []"
  "history key (xs @ [(now, t)]) = history key xs @
     (if Amount t < ctrThresholdKobo \<and> ID_String (DebitAccountID t) = key
      then [\<lparr>at = now, wamount = Amount t, wmax = Amount t\<rparr>] else [])"
  by (simp_all add: history_def)

lemma window_totals_acc:
  "fst (window_totals es s0 m) = s0 + sum_list (map wamount es)"
  by (induction es arbitrary: s0 m) (simp_all add: add.assoc)

lemma window_totals_max_bound:
  "(\<forall>e \<in> set es. wamount e < b) \<Longrightarrow> m < b \<Longrightarrow> snd (window_totals es s0 m) < b"
  by (induction es arbitrary: s0 m) auto

lemma Observe_window:
  assumes "Amount t < ctrThresholdKobo" "Observe now t tt = (evs, tt')"
  shows "window_of tt' key = (if key = ID_String (DebitAccountID t)
      then filter (in_window now) (window_of tt key)
        @ [\<lparr>at = now, wamount = Amount t, wmax = Amount t\<rparr>]
      else window_of tt key)"
  using assms by (auto simp: Observe_def Let_def window_of_def split: prod.splits if_splits)

lemma Observe_ctr:
  "ctrThresholdKobo \<le> Amount t \<Longrightarrow> Observe now t tt = ([ctr_event now t], tt)"
  by (simp add: Observe_def)

lemma observe_all_append:
  "observe_all (xs @ ys) tt =
     (let (e1, t1) = observe_all xs tt; (e2, t2) = observe_all ys t1 in (e1 @ e2, t2))"
  by (induction xs arbitrary: tt) (auto simp: Let_def split: prod.splits)

lemma observe_all_snoc:
  assumes "observe_all xs tt = (es, tt1)" "Observe now t tt1 = (evs, tt2)"
  shows "observe_all (xs @ [(now, t)]) tt = (es @ map (Pair now) evs, tt2)"
  using assms by (simp add: observe_all_append)

text \<open>
  Refinement: with a clock that does not run backwards, the stored window of an account holds,
  of its whole history, exactly the entries that were still in the window at the account's last
  sub-threshold transfer; an entry pruned once never belongs to a later window.
\<close>

definition window_refines :: "string \<Rightarrow> tracker \<Rightarrow> (instant \<times> transfer) list \<Rightarrow> bool" where
  "window_refines key tt xs \<longleftrightarrow> (\<forall>now. (\<forall>x \<in> set xs. fst x \<le> now) \<longrightarrow>
     filter (in_window now) (window_of tt key) = filter (in_window now) (history key xs))"

lemma in_window_mono: "in_window now e \<Longrightarrow> now' \<le> now \<Longrightarrow> in_window now' e"
  by (simp add: in_window_def)

lemma filter_in_window_twice:
  "now' \<le> now \<Longrightarrow>
   filter (\<lambda>e. in_window now' e \<and> in_window now e) es = filter (in_window now) es"
  by (induction es) (auto dest: in_window_mono)

lemma observe_all_refines:
  assumes "sorted (map fst xs)" "observe_all xs newThresholdTracker = (es, tt)"
  shows "window_refines key tt xs"
  using assms
proof (induction xs arbitrary: es tt rule: rev_induct)
  case Nil
  then show ?case by (auto simp: window_refines_def window_of_def newThresholdTracker_def)
next
  case (snoc x xs)
  obtain now t where x: "x = (now, t)" by (cases x)
  obtain es1 tt1 where r1: "observe_all xs newThresholdTracker = (es1, tt1)" by fastforce
  obtain evs tt2 where ob: "Observe now t tt1 = (evs, tt2)" by fastforce
  from snoc.prems(2) r1 ob x have tt: "tt = tt2" by (simp add: observe_all_snoc)
  from snoc.prems(1) have "sorted (map fst xs)" and le: "\<forall>y \<in> set xs. fst y \<le> now"
    by (auto simp: sorted_append x)
  with snoc.IH r1 have IH: "window_refines key tt1 xs" by blast
  show ?case
  proof (cases "Amount t < ctrThresholdKobo")
    case False
    then have "tt2 = tt1" using ob Observe_ctr [of t now tt1] by simp
    with IH False show ?thesis by (simp add: window_refines_def tt x)
  next
    case True
    note w = Observe_window [OF True ob, of key]
    show ?thesis
      unfolding window_refines_def
    proof (intro allI impI)
      fix now' assume "\<forall>y \<in> set (xs @ [x]). fst y \<le> now'"
      then have a: "\<forall>y \<in> set xs. fst y \<le> now'" and b: "now \<le> now'" by (auto simp: x)
      from IH a have e: "filter (in_window now') (window_of tt1 key)
          = filter (in_window now') (history key xs)" by (simp add: window_refines_def)
      show "filter (in_window now') (window_of tt key)
          = filter (in_window now') (history key (xs @ [x]))"
        using True e
        unfolding tt w x by (auto simp: filter_in_window_twice [OF b])
    qed
  qed
qed

section \<open>Deduplication of alerts\<close>

abbreviation is_structuring :: "threshold_event \<Rightarrow> bool" where
  "is_structuring e \<equiv> evType e = ''nrs.aml.structuring.v1''"

definition raised_for :: "string \<Rightarrow> instant \<times> threshold_event \<Rightarrow> bool" where
  "raised_for key e \<longleftrightarrow> is_structuring (snd e)
     \<and> map_of (evPayload (snd e)) ''debit_account_id'' = Some (PS key)"

lemma raised_for_simps [simp]:
  "\<not> raised_for key (n, ctr_event now t)"
  "\<not> raised_for key (n, review_event now t)"
  "raised_for key (n, structuring_event now t cnt totalAmt maxAmt)
     \<longleftrightarrow> key = ID_String (DebitAccountID t)"
  by (auto simp: raised_for_def ctr_event_def review_event_def structuring_event_def
      overlay_def base_payload_def)

lemma Observe_structuring:
  assumes "Observe now t tt = (evs, tt')"
  shows "filter (\<lambda>e. raised_for key (now, e)) evs = [] \<and> map_of (flagged tt') key = map_of (flagged tt) key
    \<or> length (filter (\<lambda>e. raised_for key (now, e)) evs) = 1 \<and> map_of (flagged tt') key = Some now
      \<and> (case map_of (flagged tt) key of None \<Rightarrow> True | Some l \<Rightarrow> now - l > structuringWindow)"
proof (cases "Amount t \<ge> ctrThresholdKobo")
  case True
  with assms show ?thesis by (auto simp: Observe_def)
next
  case False
  let ?k = "ID_String (DebitAccountID t)"
  let ?kept = "filter (in_window now) (window_of tt ?k) @ [\<lparr>at = now, wamount = Amount t, wmax = Amount t\<rparr>]"
  obtain a m where am: "window_totals ?kept 0 0 = (a, m)" by fastforce
  let ?flag = "length ?kept \<ge> 3 \<and> a \<ge> ctrThresholdKobo \<and> m < ctrThresholdKobo
      \<and> (case map_of (flagged tt) ?k of None \<Rightarrow> True | Some l \<Rightarrow> now - l > structuringWindow)"
  show ?thesis
  proof (cases ?flag)
    case True
    with False assms am have
      evs: "evs = (if Amount t \<ge> nearThresholdKobo then [review_event now t] else [])
          @ [structuring_event now t (length ?kept) a m]"
      and fl: "flagged tt' = kv_put ?k now (flagged tt)"
      by (auto simp: Observe_def Let_def)
    from True have last: "case map_of (flagged tt) ?k of None \<Rightarrow> True | Some l \<Rightarrow> now - l > structuringWindow"
      by blast
    show ?thesis by (cases "key = ?k") (use last in \<open>simp_all add: evs fl\<close>)
  next
    case flag: False
    with False assms am have
      "evs = (if Amount t \<ge> nearThresholdKobo then [review_event now t] else [])"
      "flagged tt' = flagged tt"
      unfolding Observe_def Let_def by (auto split: if_splits)
    then show ?thesis by simp
  qed
qed

text \<open>Over a whole stream the alerts of one account are more than a window apart, and none
  falls within the window after an alert already on record.\<close>

fun spaced :: "int \<Rightarrow> instant list \<Rightarrow> bool" where
  "spaced w (a # b # xs) = (b - a > w \<and> spaced w (b # xs))"
| "spaced w _ = True"

lemma spaced_Cons: "spaced w (a # xs) \<longleftrightarrow> (case xs of [] \<Rightarrow> True | b # _ \<Rightarrow> b - a > w) \<and> spaced w xs"
  by (cases xs) auto

lemma alerts_spaced:
  assumes "observe_all xs tt = (es, tt')"
  shows "spaced structuringWindow
    ((case map_of (flagged tt) key of None \<Rightarrow> [] | Some l \<Rightarrow> [l])
       @ map fst (filter (raised_for key) es))"
  using assms
proof (induction xs arbitrary: tt es)
  case Nil
  then show ?case by (simp split: option.split)
next
  case (Cons x xs)
  obtain now t where x: "x = (now, t)" by (cases x)
  obtain evs tt1 where ob: "Observe now t tt = (evs, tt1)" by fastforce
  from Cons.prems x ob obtain rest where r: "observe_all xs tt1 = (rest, tt')"
    and es: "es = map (Pair now) evs @ rest" by (auto simp: Let_def split: prod.splits)
  note IH = Cons.IH [OF r]
  have f: "map fst (filter (raised_for key) (map (Pair now) evs))
      = map (\<lambda>_. now) (filter (\<lambda>e. raised_for key (now, e)) evs)"
    by (induction evs) auto
  from Observe_structuring [OF ob, of key] show ?case
  proof (elim disjE conjE)
    assume "filter (\<lambda>e. raised_for key (now, e)) evs = []"
      and "map_of (flagged tt1) key = map_of (flagged tt) key"
    with IH show ?thesis by (simp add: es f)
  next
    assume one: "length (filter (\<lambda>e. raised_for key (now, e)) evs) = 1"
      and now: "map_of (flagged tt1) key = Some now"
      and gap: "case map_of (flagged tt) key of None \<Rightarrow> True | Some l \<Rightarrow> now - l > structuringWindow"
    from one have "map (\<lambda>_. now) (filter (\<lambda>e. raised_for key (now, e)) evs) = [now]"
      by (cases "filter (\<lambda>e. raised_for key (now, e)) evs") auto
    with IH now gap show ?thesis
      by (auto simp: es f spaced_Cons split: option.splits)
  qed
qed

text \<open>The 64-bit total of a window is the exact total while fewer than \<open>2^34\<close> entries are in it.\<close>

lemma window_total_exact:
  assumes "\<forall>e \<in> set es. wamount e < ctrThresholdKobo" "length es \<le> 2 ^ 34"
  shows "unat (sum_list (map wamount es)) = sum_list (map (\<lambda>e. unat (wamount e)) es)"
proof -
  have b: "sum_list (map (\<lambda>e. unat (wamount e)) ys) \<le> length ys * 1000000000"
    if "\<forall>e \<in> set ys. wamount e < ctrThresholdKobo" for ys
    using that
  proof (induction ys)
    case (Cons y ys)
    then have "unat (wamount y) < unat ctrThresholdKobo" by (simp add: word_less_nat_alt)
    with Cons show ?case by (simp add: ctrThresholdKobo_def)
  qed simp
  have "unat (sum_list (map wamount es)) = sum_list (map (\<lambda>e. unat (wamount e)) es)"
    if "sum_list (map (\<lambda>e. unat (wamount e)) es) < 2 ^ 64" for es
    using that
  proof (induction es)
    case (Cons e es)
    then show ?case by (simp add: unat_word_ariths)
  qed simp
  moreover have "sum_list (map (\<lambda>e. unat (wamount e)) es) < 2 ^ 64"
    using b [OF assms(1)] assms(2) by simp
  ultimately show ?thesis .
qed

end
