(* ===== verification/Encoding.thy ===== *)
theory Encoding
  imports GoStd
begin

text \<open>
  The encodings of \<open>encoding/base64\<close> and \<open>encoding/base32\<close> the modelled code uses: base64 with the
  raw URL, the raw standard and the padded standard alphabet, and base32 without padding. Byte
  slices and strings are both byte strings. Each decoder accepts what its encoder produces and
  gives the same bytes back; what else it accepts follows the Go decoders (line breaks skipped,
  trailing bits ignored, and for base32 the group lengths that hold no whole byte read as nothing).
\<close>

section \<open>Base64, raw URL alphabet\<close>

definition b64_digit :: "nat \<Rightarrow> char" where
  "b64_digit n = (if n < 26 then char_of (65 + n) else if n < 52 then char_of (71 + n)
     else if n < 62 then char_of (n - 4) else if n = 62 then CHR ''-'' else CHR ''_'')"

definition b64_value :: "char \<Rightarrow> nat option" where
  "b64_value c = (let n = byte_of c in
     if 65 \<le> n \<and> n \<le> 90 then Some (n - 65)
     else if 97 \<le> n \<and> n \<le> 122 then Some (n - 71)
     else if 48 \<le> n \<and> n \<le> 57 then Some (n + 4)
     else if n = 45 then Some 62 else if n = 95 then Some 63 else None)"

fun b64_sextets :: "nat list \<Rightarrow> nat list" where
  "b64_sextets [] = []"
| "b64_sextets [a] = [a div 4, (a mod 4) * 16]"
| "b64_sextets [a, b] = [a div 4, (a mod 4) * 16 + b div 16, (b mod 16) * 4]"
| "b64_sextets (a # b # c # bs) =
     a div 4 # ((a mod 4) * 16 + b div 16) # ((b mod 16) * 4 + c div 64) # (c mod 64) # b64_sextets bs"

fun b64_octets :: "nat list \<Rightarrow> nat list option" where
  "b64_octets [] = Some []"
| "b64_octets [p] = None"
| "b64_octets [p, q] = Some [p * 4 + q div 16]"
| "b64_octets [p, q, r] = Some [p * 4 + q div 16, (q mod 16) * 16 + r div 4]"
| "b64_octets (p # q # r # s # ps) = map_option
     (\<lambda>os. (p * 4 + q div 16) # ((q mod 16) * 16 + r div 4) # ((r mod 4) * 64 + s) # os) (b64_octets ps)"

definition b64_encode :: "string \<Rightarrow> string" where
  "b64_encode s = map b64_digit (b64_sextets (map byte_of s))"

fun those_values :: "string \<Rightarrow> nat list option" where
  "those_values [] = Some []"
| "those_values (c # cs) = (case b64_value c of None \<Rightarrow> None
     | Some v \<Rightarrow> map_option (Cons v) (those_values cs))"

text \<open>The decoder skips line breaks and, not being strict, ignores trailing padding bits.\<close>

definition b64_decode :: "string \<Rightarrow> string option" where
  "b64_decode s = (case those_values (filter (\<lambda>c. byte_of c \<noteq> 10 \<and> byte_of c \<noteq> 13) s) of
       None \<Rightarrow> None
     | Some vs \<Rightarrow> map_option (map char_of) (b64_octets vs))"

lemma b64_digit_byte:
  "n < 64 \<Longrightarrow> byte_of (b64_digit n) = (if n < 26 then 65 + n else if n < 52 then 71 + n
     else if n < 62 then n - 4 else if n = 62 then 45 else 95)"
  by (simp add: b64_digit_def byte_of_def)

lemma b64_digit_props:
  assumes "n < 64"
  shows "b64_value (b64_digit n) = Some n" "byte_of (b64_digit n) \<noteq> 10" "byte_of (b64_digit n) \<noteq> 13"
    "b64_digit n \<noteq> CHR ''.''"
proof -
  show "b64_value (b64_digit n) = Some n"
    using assms by (auto simp: b64_value_def Let_def b64_digit_byte)
  have "byte_of (b64_digit n) \<noteq> 46" "byte_of (b64_digit n) \<noteq> 10" "byte_of (b64_digit n) \<noteq> 13"
    using assms by (auto simp: b64_digit_byte)
  moreover have "byte_of CHR ''.'' = 46" by (simp add: byte_of_def)
  ultimately show "byte_of (b64_digit n) \<noteq> 10" "byte_of (b64_digit n) \<noteq> 13"
    "b64_digit n \<noteq> CHR ''.''" by auto
qed

lemma b64_sextets_bound: "\<forall>b \<in> set bs. b < 256 \<Longrightarrow> \<forall>x \<in> set (b64_sextets bs). x < 64"
  by (induction bs rule: b64_sextets.induct) auto

lemma b64_join:
  "(a::nat) div 4 * 4 + a mod 4 = a" "b < 256 \<Longrightarrow> ((a mod 4) * 16 + b div 16) div 16 = a mod 4"
  "b < 256 \<Longrightarrow> ((a mod 4) * 16 + b div 16) mod 16 = b div 16" "b div 16 * 16 + b mod 16 = (b::nat)"
  "c < 256 \<Longrightarrow> ((b mod 16) * 4 + c div 64) div 4 = b mod 16"
  "c < 256 \<Longrightarrow> ((b mod 16) * 4 + c div 64) mod 4 = c div 64" "c div 64 * 64 + c mod 64 = (c::nat)"
  by simp_all

lemma b64_octets_sextets: "\<forall>b \<in> set bs. b < 256 \<Longrightarrow> b64_octets (b64_sextets bs) = Some bs"
proof (induction bs rule: b64_sextets.induct)
  case (4 a b c bs)
  then show ?case
    by (simp only: b64_sextets.simps b64_octets.simps list.set insert_iff ball_simps b64_join) simp
next
  case (3 a b)
  then have "b div 16 < 16" by (simp add: div_less_iff_less_mult)
  then have "b div 16 mod 16 = b div 16" "b div 16 div 16 = 0" by simp_all
  then show ?case by (simp add: b64_join)
qed (simp_all add: b64_join)

lemma byte_of_bound [simp]: "byte_of c < 256"
  by (simp add: byte_of_def)

lemma byte_inj: "inj (\<lambda>c. of_nat (byte_of c) :: u8)"
proof (rule injI)
  fix c d :: char
  assume "(of_nat (byte_of c) :: u8) = of_nat (byte_of d)"
  moreover have "unat (of_nat (byte_of x) :: u8) = byte_of x" for x
    using byte_of_bound [of x] by (simp add: unat_of_nat)
  ultimately have "byte_of c = byte_of d" by metis
  then show "c = d" by (simp add: byte_of_def)
qed

lemma those_values_digits:
  "\<forall>x \<in> set xs. x < 64 \<Longrightarrow>
   those_values (filter (\<lambda>c. byte_of c \<noteq> 10 \<and> byte_of c \<noteq> 13) (map b64_digit xs)) = Some xs"
  by (induction xs) (auto simp: b64_digit_props)

lemma b64_decode_encode [simp]: "b64_decode (b64_encode s) = Some s"
proof -
  have "\<forall>b \<in> set (map byte_of s). b < 256" by auto
  then show ?thesis
    unfolding b64_decode_def b64_encode_def
    using those_values_digits [OF b64_sextets_bound, of "map byte_of s"]
      b64_octets_sextets [of "map byte_of s"]
    by (simp add: byte_of_def o_def)
qed

lemma b64_encode_no_dot: "CHR ''.'' \<notin> set (b64_encode s)"
proof -
  have "x < 64" if "x \<in> set (b64_sextets (map byte_of s))" for x
    using that b64_sextets_bound [of "map byte_of s"] by auto
  then have "CHR ''.'' \<noteq> b64_digit x" if "x \<in> set (b64_sextets (map byte_of s))" for x
    using that b64_digit_props(4) [of x] by metis
  then show ?thesis by (auto simp: b64_encode_def)
qed

section \<open>Base64, standard alphabet\<close>

definition std_char :: "char \<Rightarrow> char" where
  "std_char c = (if c = CHR ''-'' then CHR ''+'' else if c = CHR ''_'' then CHR ''/'' else c)"

text \<open>\<open>base64.StdEncoding\<close>: the standard alphabet, padded to a multiple of four.\<close>

definition std_encode :: "string \<Rightarrow> string" where
  "std_encode s = (let b = map std_char (b64_encode s)
     in b @ replicate ((4 - length b mod 4) mod 4) (CHR ''=''))"

definition url_char :: "char \<Rightarrow> char option" where
  "url_char c = (if c = CHR ''+'' then Some (CHR ''-'') else if c = CHR ''/'' then Some (CHR ''_'')
     else if c = CHR ''-'' \<or> c = CHR ''_'' then None else Some c)"

text \<open>Line breaks are skipped; at most two padding characters, and only in the last group.\<close>

definition std_decode :: "string \<Rightarrow> string option" where
  "std_decode s =
     (let t = filter (\<lambda>c. byte_of c \<noteq> 10 \<and> byte_of c \<noteq> 13) s;
          d = rev (dropWhile (\<lambda>c. c = CHR ''='') (rev t))
      in if length t mod 4 \<noteq> 0 \<or> 2 < length t - length d then None
         else (case those (map url_char d) of None \<Rightarrow> None | Some u \<Rightarrow> b64_decode u))"

definition raw_std_encode :: "string \<Rightarrow> string" where
  "raw_std_encode s = map std_char (b64_encode s)"

definition raw_std_decode :: "string \<Rightarrow> string option" where
  "raw_std_decode s =
     (case those (map url_char (filter (\<lambda>c. byte_of c \<noteq> 10 \<and> byte_of c \<noteq> 13) s)) of
        None \<Rightarrow> None | Some u \<Rightarrow> b64_decode u)"

text \<open>What \<open>b64_encode\<close> writes: URL digits, which \<open>std_char\<close> renames one to one.\<close>

lemma byte_of_eq: "c = d \<longleftrightarrow> byte_of c = byte_of d"
  by (simp add: byte_of_def)

lemma byte_of_lits: "byte_of CHR ''-'' = 45" "byte_of CHR ''_'' = 95" "byte_of CHR ''+'' = 43"
    "byte_of CHR ''/'' = 47" "byte_of CHR ''='' = 61"
  by (simp_all add: byte_of_def)

lemma std_digit:
  assumes "n < 64"
  shows "url_char (std_char (b64_digit n)) = Some (b64_digit n)"
    "byte_of (std_char (b64_digit n)) \<noteq> 10" "byte_of (std_char (b64_digit n)) \<noteq> 13"
    "byte_of (std_char (b64_digit n)) \<noteq> 61" "byte_of (std_char (b64_digit n)) \<noteq> 36"
proof -
  have "url_char (std_char (b64_digit n)) = Some (b64_digit n)
     \<and> byte_of (std_char (b64_digit n)) \<notin> {10, 13, 61, 36}"
  proof (cases "n < 62")
    case True
    then have b: "byte_of (b64_digit n) = (if n < 26 then 65 + n else if n < 52 then 71 + n else n - 4)"
      by (simp add: b64_digit_byte)
    with True have "byte_of (b64_digit n) \<notin> {10, 13, 61, 36, 43, 45, 47, 95}" by auto
    then show ?thesis by (auto simp: std_char_def url_char_def byte_of_eq byte_of_lits)
  next
    case False
    with assms have "n = 62 \<or> n = 63" by auto
    then show ?thesis
      by (elim disjE) (simp_all add: std_char_def url_char_def b64_digit_def byte_of_lits)
  qed
  then show "url_char (std_char (b64_digit n)) = Some (b64_digit n)"
    "byte_of (std_char (b64_digit n)) \<noteq> 10" "byte_of (std_char (b64_digit n)) \<noteq> 13"
    "byte_of (std_char (b64_digit n)) \<noteq> 61" "byte_of (std_char (b64_digit n)) \<noteq> 36" by simp_all
qed

lemma b64_encode_digits:
  obtains xs where "b64_encode s = map b64_digit xs" "\<forall>x \<in> set xs. x < 64"
proof
  show "b64_encode s = map b64_digit (b64_sextets (map byte_of s))" by (simp add: b64_encode_def)
  show "\<forall>x \<in> set (b64_sextets (map byte_of s)). x < 64"
    by (rule b64_sextets_bound) auto
qed

lemma those_std_digits:
  assumes "\<forall>x \<in> set xs. x < 64"
  shows "those (map url_char (map std_char (map b64_digit xs))) = Some (map b64_digit xs)"
  using assms by (induction xs) (simp_all add: std_digit)

lemma filter_std_digits:
  assumes "\<forall>x \<in> set xs. x < 64"
  shows "filter (\<lambda>c. byte_of c \<noteq> 10 \<and> byte_of c \<noteq> 13) (map std_char (map b64_digit xs))
     = map std_char (map b64_digit xs)"
  using assms by (induction xs) (simp_all add: std_digit)

lemma raw_std_decode_encode [simp]: "raw_std_decode (raw_std_encode s) = Some s"
proof -
  obtain xs where xs: "b64_encode s = map b64_digit xs" "\<forall>x \<in> set xs. x < 64"
    by (rule b64_encode_digits)
  then show ?thesis
    unfolding raw_std_decode_def raw_std_encode_def
    using b64_decode_encode [of s] by (simp only: filter_std_digits those_std_digits option.case)
qed

lemma raw_std_encode_byte: "c \<in> set (raw_std_encode s) \<Longrightarrow> byte_of c \<noteq> 36"
  by (rule b64_encode_digits [of s]) (auto simp: raw_std_encode_def std_digit)

lemma b64_sextets_length: "length (b64_sextets bs) mod 4 \<noteq> 1"
  by (induction bs rule: b64_sextets.induct) simp_all

lemma dropWhile_replicate_append:
  "(\<And>y. y \<in> set ys \<Longrightarrow> y \<noteq> x) \<Longrightarrow> dropWhile (\<lambda>c. c = x) (replicate n x @ ys) = ys"
  by (induction n) (cases ys, auto)

lemma pad4: "n mod 4 \<noteq> 1 \<Longrightarrow> (4 - n mod 4) mod 4 \<le> (2::nat) \<and> (n + (4 - n mod 4) mod 4) mod 4 = 0"
proof -
  assume "n mod 4 \<noteq> 1"
  moreover have "n mod 4 < 4" by simp
  ultimately consider "n mod 4 = 0" | "n mod 4 = 2" | "n mod 4 = 3" by linarith
  then show ?thesis by cases (simp_all, presburger+)
qed

lemma std_decode_encode [simp]: "std_decode (std_encode s) = Some s"
proof -
  let ?b = "map std_char (b64_encode s)" and ?n = "(4 - length (b64_encode s) mod 4) mod 4"
  obtain xs where xs: "b64_encode s = map b64_digit xs" "\<forall>x \<in> set xs. x < 64"
    by (rule b64_encode_digits)
  have eq: "byte_of CHR ''='' = 61" by (simp add: byte_of_def)
  have enc: "std_encode s = ?b @ replicate ?n (CHR ''='')" by (simp add: std_encode_def Let_def)
  have f: "filter (\<lambda>c. byte_of c \<noteq> 10 \<and> byte_of c \<noteq> 13) (std_encode s) = std_encode s"
    using filter_std_digits [OF xs(2)] by (simp add: enc xs(1) eq)
  have ne: "c \<noteq> CHR ''=''" if "c \<in> set ?b" for c
    using that xs(2) std_digit(4) by (auto simp: xs(1) byte_of_eq eq)
  have d: "rev (dropWhile (\<lambda>c. c = CHR ''='') (rev (std_encode s))) = ?b"
  proof -
    have "dropWhile (\<lambda>c. c = CHR ''='') (replicate ?n (CHR ''='') @ rev ?b) = rev ?b"
      using ne by (intro dropWhile_replicate_append) auto
    then show ?thesis by (simp add: enc)
  qed
  have len: "length (b64_encode s) mod 4 \<noteq> 1"
    using b64_sextets_length by (simp add: b64_encode_def)
  then have "?n \<le> 2 \<and> (length (b64_encode s) + ?n) mod 4 = 0" by (rule pad4)
  moreover have "those (map url_char ?b) = Some (b64_encode s)"
    using those_std_digits [OF xs(2)] xs(1) by simp
  ultimately show ?thesis
    unfolding std_decode_def f d Let_def by (simp add: enc)
qed

section \<open>Base32, no padding\<close>

definition b32_digit :: "nat \<Rightarrow> char" where
  "b32_digit n = (if n < 26 then char_of (65 + n) else char_of (24 + n))"

definition b32_value :: "char \<Rightarrow> nat option" where
  "b32_value c = (let n = byte_of c in
     if 65 \<le> n \<and> n \<le> 90 then Some (n - 65)
     else if 50 \<le> n \<and> n \<le> 55 then Some (n - 24) else None)"

fun b32_quintets :: "nat list \<Rightarrow> nat list" where
  "b32_quintets [] = []"
| "b32_quintets [a] = [a div 8, (a mod 8) * 4]"
| "b32_quintets [a, b] = [a div 8, (a mod 8) * 4 + b div 64, b div 2 mod 32, (b mod 2) * 16]"
| "b32_quintets [a, b, c] = [a div 8, (a mod 8) * 4 + b div 64, b div 2 mod 32,
     (b mod 2) * 16 + c div 16, (c mod 16) * 2]"
| "b32_quintets [a, b, c, d] = [a div 8, (a mod 8) * 4 + b div 64, b div 2 mod 32,
     (b mod 2) * 16 + c div 16, (c mod 16) * 2 + d div 128, d div 4 mod 32, (d mod 4) * 8]"
| "b32_quintets (a # b # c # d # e # bs) = a div 8 # ((a mod 8) * 4 + b div 64) # (b div 2 mod 32)
     # ((b mod 2) * 16 + c div 16) # ((c mod 16) * 2 + d div 128) # (d div 4 mod 32)
     # ((d mod 4) * 8 + e div 32) # (e mod 32) # b32_quintets bs"

text \<open>The bytes of a group of at most eight digits; a byte that is not complete is dropped.\<close>

definition b32_group :: "nat list \<Rightarrow> nat list" where
  "b32_group g =
     (if 2 \<le> length g then [g ! 0 * 8 + g ! 1 div 4] else [])
   @ (if 4 \<le> length g then [(g ! 1 mod 4) * 64 + g ! 2 * 2 + g ! 3 div 16] else [])
   @ (if 5 \<le> length g then [(g ! 3 mod 16) * 16 + g ! 4 div 2] else [])
   @ (if 7 \<le> length g then [(g ! 4 mod 2) * 128 + g ! 5 * 4 + g ! 6 div 8] else [])
   @ (if 8 \<le> length g then [(g ! 6 mod 8) * 32 + g ! 7] else [])"

text \<open>A group of 1, 3 or 6 digits is no encoding of whole bytes; the decoder emits nothing for it.\<close>

definition b32_bytes :: "nat list \<Rightarrow> nat list" where
  "b32_bytes g = (if length g \<in> {2, 4, 5, 7, 8} then b32_group g else [])"

fun b32_octets :: "nat list \<Rightarrow> nat list" where
  "b32_octets (p # q # r # s # t # u # v # w # ps) = b32_bytes [p, q, r, s, t, u, v, w] @ b32_octets ps"
| "b32_octets ps = b32_bytes ps"

definition b32_encode :: "string \<Rightarrow> string" where
  "b32_encode s = map b32_digit (b32_quintets (map byte_of s))"

definition b32_decode :: "string \<Rightarrow> string option" where
  "b32_decode s =
     (case those (map b32_value (filter (\<lambda>c. byte_of c \<noteq> 10 \<and> byte_of c \<noteq> 13) s)) of
        None \<Rightarrow> None | Some vs \<Rightarrow> Some (map char_of (b32_octets vs)))"

lemma b32_digit_props:
  assumes "n < 32"
  shows "b32_value (b32_digit n) = Some n" "byte_of (b32_digit n) \<noteq> 10" "byte_of (b32_digit n) \<noteq> 13"
    "to_upper_char (b32_digit n) = b32_digit n" "\<not> is_space (b32_digit n)"
    "b32_digit n \<noteq> CHR ''=''" "b32_digit n \<noteq> CHR '' ''"
proof -
  have "byte_of CHR ''='' = 61" "byte_of CHR '' '' = 32" by (simp_all add: byte_of_def)
  moreover have "byte_of (b32_digit n) = (if n < 26 then 65 + n else 24 + n)"
    using assms by (simp add: b32_digit_def byte_of_def)
  ultimately show "b32_value (b32_digit n) = Some n" "byte_of (b32_digit n) \<noteq> 10"
    "byte_of (b32_digit n) \<noteq> 13" "to_upper_char (b32_digit n) = b32_digit n"
    "\<not> is_space (b32_digit n)" "b32_digit n \<noteq> CHR ''=''" "b32_digit n \<noteq> CHR '' ''"
    using assms by (auto simp: b32_value_def Let_def to_upper_char_def is_space_def byte_of_eq split: if_splits)
qed

lemma b32_quintets_bound: "\<forall>b \<in> set bs. b < 256 \<Longrightarrow> \<forall>x \<in> set (b32_quintets bs). x < 32"
  by (induction bs rule: b32_quintets.induct) auto

lemma byte_parts:
  assumes "(b::nat) < 256"
  shows "b div 64 div 4 = 0" "b div 64 mod 4 = b div 64" "b div 16 div 16 = 0" "b div 16 mod 16 = b div 16"
    "b div 128 div 2 = 0" "b div 128 mod 2 = b div 128" "b div 32 div 8 = 0" "b div 32 mod 8 = b div 32"
proof -
  have "b div 64 < 4" "b div 16 < 16" "b div 128 < 2" "b div 32 < 8"
    using assms by (simp_all add: less_mult_imp_div_less)
  then show "b div 64 div 4 = 0" "b div 64 mod 4 = b div 64" "b div 16 div 16 = 0" "b div 16 mod 16 = b div 16"
    "b div 128 div 2 = 0" "b div 128 mod 2 = b div 128" "b div 32 div 8 = 0" "b div 32 mod 8 = b div 32"
    by simp_all
qed

lemma byte_join:
  "(b::nat) div 64 * 64 + b div 2 mod 32 * 2 + b mod 2 = b"
  "(d::nat) div 128 * 128 + d div 4 mod 32 * 4 + d mod 4 = d"
proof -
  show "b div 64 * 64 + b div 2 mod 32 * 2 + b mod 2 = b"
  proof -
    have "b mod 64 = 2 * (b div 2 mod 32) + b mod 2" using mod_mult2_eq [of b 2 32] by simp
    with div_mult_mod_eq [of b 64] show ?thesis by linarith
  qed
  show "d div 128 * 128 + d div 4 mod 32 * 4 + d mod 4 = d"
  proof -
    have "d mod 128 = 4 * (d div 4 mod 32) + d mod 4" using mod_mult2_eq [of d 4 32] by simp
    with div_mult_mod_eq [of d 128] show ?thesis by linarith
  qed
qed

lemma b32_octets_quintets: "\<forall>b \<in> set bs. b < 256 \<Longrightarrow> b32_octets (b32_quintets bs) = bs"
  by (induction bs rule: b32_quintets.induct)
     (simp_all add: b32_bytes_def b32_group_def byte_parts byte_join)

lemma those_b32_digits:
  "\<forall>x \<in> set xs. x < 32 \<Longrightarrow>
   those (map b32_value (filter (\<lambda>c. byte_of c \<noteq> 10 \<and> byte_of c \<noteq> 13) (map b32_digit xs))) = Some xs"
  by (induction xs) (simp_all add: b32_digit_props)

lemma b32_encode_digits:
  obtains xs where "b32_encode s = map b32_digit xs" "\<forall>x \<in> set xs. x < 32"
    "b32_octets xs = map byte_of s"
proof
  have "\<forall>b \<in> set (map byte_of s). b < 256" by auto
  then show "\<forall>x \<in> set (b32_quintets (map byte_of s)). x < 32"
    and "b32_octets (b32_quintets (map byte_of s)) = map byte_of s"
    by (rule b32_quintets_bound, rule b32_octets_quintets)
qed (simp add: b32_encode_def)

lemma char_of_byte: "map (char_of \<circ> byte_of) s = s"
  by (induction s) (simp_all add: byte_of_def)

lemma b32_decode_encode [simp]: "b32_decode (b32_encode s) = Some s"
  by (rule b32_encode_digits [of s]) (simp add: b32_decode_def those_b32_digits char_of_byte)

end
