(* ===== verification/Access.thy ===== *)
theory Access
  imports Encoding
begin

text \<open>
  Who may call: the request middleware and role guard of \<open>packages/events/auth/auth.go\<close>, and the
  step-up tickets of \<open>packages/stepup\<close> (\<open>ticket.go\<close>, \<open>store.go\<close>) with the gate of
  \<open>services/ledger/stepup.go\<close>. Byte slices and strings are both byte strings here. HMAC-SHA256
  and SHA-256 are parameters, as are the JSON encodings of the two records that are signed and
  the Keycloak verifier.
\<close>

section \<open>Tokens in parts\<close>

text \<open>\<open>strings.Split(s, ".")\<close>.\<close>

fun split_dot :: "string \<Rightarrow> string list" where
  "split_dot [] = [[]]"
| "split_dot (c # cs) = (if c = CHR ''.'' then [] # split_dot cs
     else case split_dot cs of [] \<Rightarrow> [[c]] | p # ps \<Rightarrow> (c # p) # ps)"

lemma split_dot_plain: "CHR ''.'' \<notin> set a \<Longrightarrow> split_dot a = [a]"
  by (induction a) auto

lemma split_dot_join:
  "CHR ''.'' \<notin> set a \<Longrightarrow> split_dot (a @ CHR ''.'' # rest) = a # split_dot rest"
  by (induction a) auto

section \<open>Step-up tickets\<close>

record ticket =
  JTI :: string
  Actor :: string
  tkAction :: string
  PayloadSHA256 :: string
  Exp :: int

datatype stepup_err =
  ErrTicketMalformed | ErrTicketSignature | ErrTicketExpired | ErrTicketBinding | ErrReplay

definition TicketTTL :: int where "TicketTTL = 300 * second_ns"

text \<open>\<open>Unix()\<close> of an instant, and the instant of a Unix second.\<close>

definition unix :: "instant \<Rightarrow> int" where "unix t = t div second_ns"
definition unix_time :: "int \<Rightarrow> instant" where "unix_time s = s * second_ns"

definition TicketKey :: "string \<Rightarrow> string \<Rightarrow> string \<Rightarrow> string + string" where
  "TicketKey env_key profile fallback =
     (if env_key \<noteq> '''' then Inr env_key
      else if profile = ''prod''
      then Inl ''stepup: PROFILE=prod requires STEPUP_TICKET_KEY (fail-closed)''
      else if fallback = '''' then Inr ''meridian-stepup-dev-ticket-key''
      else Inr fallback)"

text \<open>\<open>jti\<close> is the hexadecimal form of the 16 random bytes drawn.\<close>

definition MintTicket ::
  "(string \<Rightarrow> string \<Rightarrow> string) \<Rightarrow> (ticket \<Rightarrow> string) \<Rightarrow> string \<Rightarrow> string \<Rightarrow> string \<Rightarrow> string \<Rightarrow> string
     \<Rightarrow> instant \<Rightarrow> string" where
  "MintTicket hmac enc key jti actor action payloadHash now =
     (let t = \<lparr>JTI = jti, Actor = actor, tkAction = action, PayloadSHA256 = payloadHash,
               Exp = unix (now + TicketTTL)\<rparr>;
          b64 = b64_encode (enc t)
      in b64 @ ''.'' @ b64_encode (hmac key b64))"

text \<open>The consumed ticket ids of \<open>MemStore\<close>, with their expiries; \<open>now\<close> is the store's own
  clock reading.\<close>

type_synonym tickets = "(string, instant) kv"

definition ConsumeTicket :: "instant \<Rightarrow> string \<Rightarrow> instant \<Rightarrow> tickets \<Rightarrow> stepup_err option \<times> tickets" where
  "ConsumeTicket now jti e m =
     (let m1 = filter (\<lambda>p. \<not> now > snd p) m
      in if (case map_of m1 jti of Some e0 \<Rightarrow> now < e0 | None \<Rightarrow> False) then (Some ErrReplay, m1)
         else (None, kv_put jti e m1))"

definition VerifyTicket ::
  "(string \<Rightarrow> string \<Rightarrow> string) \<Rightarrow> (string \<Rightarrow> ticket option) \<Rightarrow> string \<Rightarrow> instant \<Rightarrow> string \<Rightarrow> string
     \<Rightarrow> string \<Rightarrow> string \<Rightarrow> instant \<Rightarrow> tickets \<Rightarrow> (stepup_err + ticket) \<times> tickets" where
  "VerifyTicket hmac dec key store_now tok actor action payloadHash now m =
     (case split_dot tok of
        [p0, p1] \<Rightarrow>
          (case b64_decode p1 of
             None \<Rightarrow> (Inl ErrTicketSignature, m)
           | Some sig \<Rightarrow>
               if sig \<noteq> hmac key p0 then (Inl ErrTicketSignature, m)
               else (case b64_decode p0 of
                 None \<Rightarrow> (Inl ErrTicketMalformed, m)
               | Some body \<Rightarrow> (case dec body of
                   None \<Rightarrow> (Inl ErrTicketMalformed, m)
                 | Some t \<Rightarrow>
                     if unix now > Exp t \<or> Exp t > unix (now + TicketTTL) + 30
                     then (Inl ErrTicketExpired, m)
                     else if Actor t \<noteq> actor \<or> tkAction t \<noteq> action
                        \<or> PayloadSHA256 t \<noteq> payloadHash
                     then (Inl ErrTicketBinding, m)
                     else (case ConsumeTicket store_now (JTI t) (unix_time (Exp t)) m of
                         (Some e, m1) \<Rightarrow> (Inl e, m1)
                       | (None, m1) \<Rightarrow> (Inr t, m1)))))
      | _ \<Rightarrow> (Inl ErrTicketMalformed, m))"

section \<open>Single use\<close>

lemma map_of_sweep:
  "map_of m j = Some e \<Longrightarrow> (now :: instant) \<le> e \<Longrightarrow> map_of (filter (\<lambda>p. \<not> now > snd p) m) j = Some e"
  by (induction m) (auto split: if_splits)

text \<open>A consumed id stays on record, whatever is consumed after it, up to its expiry.\<close>

lemma ConsumeTicket_keeps:
  assumes "ConsumeTicket now j' e' m = (r, m1)" "map_of m j = Some e" "now < e"
  shows "map_of m1 j = Some e"
proof -
  let ?m = "filter (\<lambda>p. \<not> now > snd p) m"
  have k: "map_of ?m j = Some e" using assms(2,3) by (intro map_of_sweep) simp_all
  with assms(1,3) show ?thesis
    by (cases "j' = j") (auto simp: ConsumeTicket_def Let_def split: if_splits option.splits)
qed

lemma ConsumeTicket_replay:
  "map_of m j = Some e \<Longrightarrow> now < e \<Longrightarrow> fst (ConsumeTicket now j e' m) = Some ErrReplay"
  using map_of_sweep [of m j e now] by (simp add: ConsumeTicket_def Let_def)

lemma ConsumeTicket_records:
  "ConsumeTicket now j e m = (None, m1) \<Longrightarrow> map_of m1 j = Some e"
  by (auto simp: ConsumeTicket_def Let_def split: if_splits)

text \<open>The store after any further calls of \<open>ConsumeTicket\<close>, each with its clock reading.\<close>

definition consume_all :: "(instant \<times> string \<times> instant) list \<Rightarrow> tickets \<Rightarrow> tickets" where
  "consume_all cs m = fold (\<lambda>(t, j, e) m. snd (ConsumeTicket t j e m)) cs m"

lemma consume_all_keeps:
  "map_of m j = Some e \<Longrightarrow> \<forall>c \<in> set cs. fst c < e \<Longrightarrow> map_of (consume_all cs m) j = Some e"
proof (induction cs arbitrary: m)
  case Nil
  then show ?case by (simp add: consume_all_def)
next
  case (Cons c cs)
  obtain t i x where c: "c = (t, i, x)" by (cases c)
  have "map_of (snd (ConsumeTicket t i x m)) j = Some e"
    using ConsumeTicket_keeps [OF prod.collapse [symmetric] Cons.prems(1)] Cons.prems(2) c by simp
  from Cons.IH [OF this] Cons.prems(2) c show ?case by (simp add: consume_all_def)
qed

lemma VerifyTicket_ok:
  assumes "VerifyTicket hmac dec key sn tok actor action ph now m = (Inr t, m1)"
  obtains p0 p1 body where "split_dot tok = [p0, p1]" "b64_decode p1 = Some (hmac key p0)"
    "b64_decode p0 = Some body" "dec body = Some t" "unix now \<le> Exp t"
    "Exp t \<le> unix (now + TicketTTL) + 30" "Actor t = actor" "tkAction t = action"
    "PayloadSHA256 t = ph" "ConsumeTicket sn (JTI t) (unix_time (Exp t)) m = (None, m1)"
  using assms
  by (auto simp: VerifyTicket_def split: list.splits option.splits if_splits prod.splits)

lemma VerifyTicket_again:
  assumes "VerifyTicket hmac dec key sn tok actor action ph now m = (Inr t, m1)"
    and "map_of m2 (JTI t) = Some (unix_time (Exp t))" "sn2 < unix_time (Exp t)"
  shows "is_ok (fst (VerifyTicket hmac dec key sn2 tok actor2 action2 ph2 now2 m2)) = False"
proof -
  obtain p0 p1 body where "split_dot tok = [p0, p1]" "b64_decode p1 = Some (hmac key p0)"
    "b64_decode p0 = Some body" "dec body = Some t" by (rule VerifyTicket_ok [OF assms(1)])
  moreover obtain x where "ConsumeTicket sn2 (JTI t) (unix_time (Exp t)) m2 = (Some ErrReplay, x)"
    using ConsumeTicket_replay [OF assms(2,3), of "unix_time (Exp t)"] by (metis prod.collapse)
  ultimately show ?thesis by (simp add: VerifyTicket_def)
qed

section \<open>Claims and the middleware\<close>

record claims =
  Sub :: string
  Roles :: "string list"
  TenantID :: string
  cExp :: int

definition HasRole :: "claims \<Rightarrow> string \<Rightarrow> bool" where
  "HasRole c role = list_ex (\<lambda>r. r = role) (Roles c)"

record auth_env =
  PROFILE :: string          \<comment> \<open>with the default \<open>dev\<close> applied, as the two below\<close>
  AUTH_MODE :: string
  JWT_SECRET :: string
  MakerTokens :: "string list"  \<comment> \<open>the values of the environment names, in order\<close>
  SettleTokens :: "string list"

record headers =
  hAuthorization :: string
  hDevRole :: string
  hTenantID :: string
  hServiceToken :: string
  hServiceName :: string
  hStepupTicket :: string

type_synonym http_error = "int \<times> string" \<comment> \<open>status and error kind\<close>

definition devSecretDefault :: string where
  "devSecretDefault = ''meridian-dev-secret-change-me''"

definition ProdMisconfigured :: "auth_env \<Rightarrow> bool" where
  "ProdMisconfigured env \<longleftrightarrow>
     (if PROFILE env \<noteq> ''prod'' then False
      else if AUTH_MODE env = ''dev'' then True
      else JWT_SECRET env = '''' \<or> JWT_SECRET env = devSecretDefault)"

definition VerifyHS256 ::
  "(string \<Rightarrow> string \<Rightarrow> string) \<Rightarrow> (string \<Rightarrow> claims option) \<Rightarrow> auth_env \<Rightarrow> instant \<Rightarrow> string
     \<Rightarrow> string + claims" where
  "VerifyHS256 hmac dec env now token =
     (case split_dot token of
        [h, p, sg] \<Rightarrow>
          (case b64_decode sg of
             None \<Rightarrow> Inl ''bad signature encoding''
           | Some got \<Rightarrow>
               if hmac (JWT_SECRET env) (h @ ''.'' @ p) \<noteq> got then Inl ''signature mismatch''
               else (case b64_decode p of
                 None \<Rightarrow> Inl ''bad payload encoding''
               | Some payload \<Rightarrow> (case dec payload of
                   None \<Rightarrow> Inl ''bad claims''
                 | Some c \<Rightarrow> if cExp c \<noteq> 0 \<and> unix now > cExp c then Inl ''token expired''
                     else Inr c)))
      | _ \<Rightarrow> Inl ''malformed token'')"

definition devRoles :: "string list" where
  "devRoles = [''admin'', ''operator'', ''auditor'', ''board'', ''privacy:officer'']"

fun configuredServiceToken :: "string list \<Rightarrow> string" where
  "configuredServiceToken [] = ''''"
| "configuredServiceToken (v # vs) = (if v \<noteq> '''' then v else configuredServiceToken vs)"

definition ServiceClaims :: "auth_env \<Rightarrow> headers \<Rightarrow> claims option" where
  "ServiceClaims env r =
     (let got = hServiceToken r;
          sub = ''service:'' @ hServiceName r;
          maker = configuredServiceToken (MakerTokens env);
          settle = configuredServiceToken (SettleTokens env)
      in if got = '''' then None
         else if maker \<noteq> '''' \<and> got = maker
         then Some \<lparr>Sub = sub, Roles = [''ledger:post''], TenantID = hTenantID r, cExp = 0\<rparr>
         else if settle \<noteq> '''' \<and> got = settle
         then Some \<lparr>Sub = sub, Roles = [''ledger:settle''], TenantID = hTenantID r, cExp = 0\<rparr>
         else None)"

definition strip_bearer :: "string \<Rightarrow> string option" where
  "strip_bearer a = (if take 7 a = ''Bearer '' then Some (drop 7 a) else None)"

text \<open>
  \<open>Middleware\<close> with \<open>KeycloakMiddleware\<close>; \<open>keycloak\<close> is the shared verifier when it could be
  built, \<open>None\<close> otherwise.
\<close>

definition Middleware ::
  "(string \<Rightarrow> string \<Rightarrow> string) \<Rightarrow> (string \<Rightarrow> claims option) \<Rightarrow> (string \<Rightarrow> string + claims) option
     \<Rightarrow> auth_env \<Rightarrow> instant \<Rightarrow> headers \<Rightarrow> http_error + claims" where
  "Middleware hmac dec keycloak env now r =
     (if ProdMisconfigured env then Inl (503, ''auth misconfigured'')
      else if AUTH_MODE env = ''keycloak'' then
        (case keycloak of
           None \<Rightarrow> Inl (503, ''auth misconfigured'')
         | Some verify \<Rightarrow> (case strip_bearer (hAuthorization r) of
             None \<Rightarrow> Inl (401, ''unauthorized'')
           | Some token \<Rightarrow> (case verify token of
               Inl e \<Rightarrow> Inl (401, ''unauthorized'') | Inr c \<Rightarrow> Inr c)))
      else if AUTH_MODE env \<noteq> ''dev'' then Inl (503, ''auth misconfigured'')
      else (case ServiceClaims env r of
          Some c \<Rightarrow> Inr c
        | None \<Rightarrow> (case strip_bearer (hAuthorization r) of
            Some token \<Rightarrow> (case VerifyHS256 hmac dec env now token of
                Inl e \<Rightarrow> Inl (401, ''unauthorized'') | Inr c \<Rightarrow> Inr c)
          | None \<Rightarrow>
              if list_ex (\<lambda>x. x = hDevRole r) devRoles
              then Inr \<lparr>Sub = ''dev-'' @ hDevRole r, Roles = [hDevRole r],
                        TenantID = hTenantID r, cExp = 0\<rparr>
              else Inl (401, ''unauthorized''))))"

text \<open>The handler runs on \<open>Inr\<close>.\<close>

definition RequireRole :: "string \<Rightarrow> claims option \<Rightarrow> http_error + claims" where
  "RequireRole role c = (case c of
       None \<Rightarrow> Inl (403, ''forbidden'')
     | Some cl \<Rightarrow> if HasRole cl role then Inr cl else Inl (403, ''forbidden''))"

text \<open>
  \<open>requireStepUp\<close>: \<open>None\<close> lets the request through. The HMAC, the hash of the body and the two
  clock readings are arguments.
\<close>

definition requireStepUp ::
  "(string \<Rightarrow> string \<Rightarrow> string) \<Rightarrow> (string \<Rightarrow> ticket option) \<Rightarrow> (string \<Rightarrow> string) \<Rightarrow> string \<Rightarrow> string
     \<Rightarrow> instant \<Rightarrow> instant \<Rightarrow> string \<Rightarrow> claims \<Rightarrow> headers \<Rightarrow> string \<Rightarrow> tickets
     \<Rightarrow> http_error option \<times> tickets" where
  "requireStepUp hmac dec hash key profile now store_now action c r body m =
     (if hStepupTicket r = '''' then
        (if profile = ''prod'' then (Some (403, ''step_up_required''), m) else (None, m))
      else (case VerifyTicket hmac dec key store_now (hStepupTicket r) (Sub c) action (hash body) now m of
          (Inl e, m1) \<Rightarrow> (Some (401,
             if e = ErrReplay then ''step_up_ticket_replay'' else ''step_up_invalid''), m1)
        | (Inr t, m1) \<Rightarrow> (None, m1)))"

lemma Middleware_prod:
  assumes "Middleware hmac dec keycloak env now r = Inr c" "PROFILE env = ''prod''"
  shows "AUTH_MODE env = ''keycloak'' \<and>
    (\<exists>verify token. keycloak = Some verify \<and> strip_bearer (hAuthorization r) = Some token
       \<and> verify token = Inr c)"
  using assms
  by (auto simp: Middleware_def ProdMisconfigured_def split: if_splits option.splits sum.splits)

lemma requireStepUp_verified:
  assumes "fst (requireStepUp hmac dec hash key profile now sn action c r body m) = None"
    and "profile = ''prod'' \<or> hStepupTicket r \<noteq> ''''"
  shows "\<exists>t m1. VerifyTicket hmac dec key sn (hStepupTicket r) (Sub c) action (hash body) now m
      = (Inr t, m1) \<and> Actor t = Sub c \<and> tkAction t = action \<and> PayloadSHA256 t = hash body
    \<and> unix now \<le> Exp t \<and> map_of m1 (JTI t) = Some (unix_time (Exp t))"
proof -
  from assms obtain t m1 where
    v: "VerifyTicket hmac dec key sn (hStepupTicket r) (Sub c) action (hash body) now m = (Inr t, m1)"
    by (auto simp: requireStepUp_def split: if_splits sum.splits prod.splits)
  then have "Actor t = Sub c \<and> tkAction t = action \<and> PayloadSHA256 t = hash body
    \<and> unix now \<le> Exp t \<and> map_of m1 (JTI t) = Some (unix_time (Exp t))"
    by (rule VerifyTicket_ok) (simp add: ConsumeTicket_records)
  with v show ?thesis by blast
qed

lemma ConsumeTicket_kv_ok:
  assumes "ConsumeTicket now j e m = (r, m1)" "kv_ok m"
  shows "kv_ok m1"
proof -
  have "kv_ok (filter P m)" for P
    using assms(2) by (simp add: kv_ok_def sorted_wrt_map sorted_wrt_filter)
  with assms(1) show ?thesis by (auto simp: ConsumeTicket_def Let_def split: if_splits)
qed

lemma VerifyTicket_replayed:
  assumes "VerifyTicket hmac dec key sn tok actor action ph now m = (Inr t, m1)"
    and "unix now2 = Exp t" "unix_time (Exp t) \<le> sn2" "kv_ok m"
  shows "fst (VerifyTicket hmac dec key sn2 tok actor action ph now2 m1) = Inr t"
proof -
  obtain p0 p1 body where v: "split_dot tok = [p0, p1]" "b64_decode p1 = Some (hmac key p0)"
    "b64_decode p0 = Some body" "dec body = Some t" "Actor t = actor" "tkAction t = action"
    "PayloadSHA256 t = ph" "ConsumeTicket sn (JTI t) (unix_time (Exp t)) m = (None, m1)"
    by (rule VerifyTicket_ok [OF assms(1)])
  have r: "map_of m1 (JTI t) = Some (unix_time (Exp t))" by (rule ConsumeTicket_records [OF v(8)])
  have ok: "kv_ok m1" by (rule ConsumeTicket_kv_ok [OF v(8) assms(4)])
  have "\<not> sn2 < e0" if "map_of (filter (\<lambda>p. \<not> sn2 > snd p) m1) (JTI t) = Some e0" for e0
  proof -
    from map_of_SomeD [OF that] have "(JTI t, e0) \<in> set m1" by simp
    with r kv_mem_iff [OF ok] assms(3) show ?thesis by simp
  qed
  then have c: "fst (ConsumeTicket sn2 (JTI t) (unix_time (Exp t)) m1) = None"
    by (auto simp: ConsumeTicket_def Let_def split: option.splits)
  have "unix now2 \<le> unix (now2 + TicketTTL) + 30"
    unfolding unix_def TicketTTL_def second_ns_def by simp
  with v c assms(2) show ?thesis
    by (cases "ConsumeTicket sn2 (JTI t) (unix_time (Exp t)) m1") (simp add: VerifyTicket_def)
qed

end
