(* ===== verification/Bus.thy ===== *)
theory Bus
  imports GoStd
begin

text \<open>
  The event envelope (\<open>packages/events/envelope/envelope.go\<close>) and the bus:
  \<open>InprocBus\<close> of \<open>bus.go\<close>, the publish validation of \<open>validate.go\<close> and the selection of a
  bus from the environment. A handler is the code pointer Go compares on cancellation and the
  function run on an envelope and the world the handlers act on; handlers that call the bus
  again are not modelled.
\<close>

section \<open>Envelopes\<close>

record 'd envelope =
  eID :: string
  eType :: string
  eSource :: string
  eTime :: string
  eTenantID :: string
  eTraceID :: string
  eRulePackVersion :: string
  eData :: 'd

text \<open>\<open>New\<close>: the fresh ULID, the clock reading and the trace id are arguments; the data is
  kept as the value it encodes.\<close>

definition envelope_New ::
  "string \<Rightarrow> instant \<Rightarrow> string \<Rightarrow> string \<Rightarrow> string \<Rightarrow> string \<Rightarrow> string \<Rightarrow> 'd \<Rightarrow> 'd envelope" where
  "envelope_New ulid now trace eventType source tenantID rulePackVersion data =
     \<lparr>eID = ulid, eType = eventType, eSource = source, eTime = format_rfc3339 now,
      eTenantID = tenantID, eTraceID = trace, eRulePackVersion = rulePackVersion, eData = data\<rparr>"

definition DLQTopic :: "string \<Rightarrow> string" where
  "DLQTopic topic = topic @ ''.dlq''"

section \<open>The in-process bus\<close>

record ('d, 's) handler =
  codePtr :: nat
  run :: "'d envelope \<Rightarrow> 's \<Rightarrow> string option \<times> 's"

record ('d, 's) bus =
  subs :: "(string, ('d, 's) handler list) kv"
  dlq :: "(string, 'd envelope list) kv"
  closed :: bool

definition NewInproc :: "('d, 's) bus" where
  "NewInproc = \<lparr>subs = [], dlq = [], closed = False\<rparr>"

definition at_key :: "string \<Rightarrow> (string, 'a list) kv \<Rightarrow> 'a list" where
  "at_key k m = (case map_of m k of None \<Rightarrow> [] | Some v \<Rightarrow> v)"

definition dead_letter :: "string \<Rightarrow> 'd envelope \<Rightarrow> ('d, 's) bus \<Rightarrow> ('d, 's) bus" where
  "dead_letter topic env b =
     b\<lparr>dlq := kv_put (DLQTopic topic) (at_key (DLQTopic topic) (dlq b) @ [env]) (dlq b)\<rparr>"

fun deliver ::
  "string \<Rightarrow> 'd envelope \<Rightarrow> ('d, 's) handler list \<Rightarrow> ('d, 's) bus \<Rightarrow> 's \<Rightarrow> ('d, 's) bus \<times> 's" where
  "deliver topic env [] b s = (b, s)"
| "deliver topic env (h # hs) b s =
     (case run h env s of
        (None, s1) \<Rightarrow> deliver topic env hs b s1
      | (Some e, s1) \<Rightarrow> deliver topic env hs (dead_letter topic env b) s1)"

definition Publish ::
  "string \<Rightarrow> 'd envelope \<Rightarrow> ('d, 's) bus \<Rightarrow> 's \<Rightarrow> string option \<times> ('d, 's) bus \<times> 's" where
  "Publish topic env b s =
     (if closed b then (Some ''bus closed'', b, s)
      else (None, deliver topic env (at_key topic (subs b)) b s))"

definition Subscribe ::
  "string \<Rightarrow> ('d, 's) handler \<Rightarrow> ('d, 's) bus \<Rightarrow> string option \<times> ('d, 's) bus" where
  "Subscribe topic h b =
     (if closed b then (Some ''bus closed'', b)
      else (None, b\<lparr>subs := kv_put topic (at_key topic (subs b) @ [h]) (subs b)\<rparr>))"

fun drop_first :: "nat \<Rightarrow> ('d, 's) handler list \<Rightarrow> ('d, 's) handler list" where
  "drop_first p [] = []"
| "drop_first p (h # hs) = (if codePtr h = p then hs else h # drop_first p hs)"

text \<open>The closure \<open>Subscribe\<close> returns. Handlers are told apart by their code pointer only.\<close>

definition cancel_sub :: "string \<Rightarrow> ('d, 's) handler \<Rightarrow> ('d, 's) bus \<Rightarrow> ('d, 's) bus" where
  "cancel_sub topic h b =
     (if list_ex (\<lambda>x. codePtr x = codePtr h) (at_key topic (subs b))
      then b\<lparr>subs := kv_put topic (drop_first (codePtr h) (at_key topic (subs b))) (subs b)\<rparr>
      else b)"

definition DLQ :: "string \<Rightarrow> ('d, 's) bus \<Rightarrow> 'd envelope list" where
  "DLQ topic b = at_key (DLQTopic topic) (dlq b)"

definition Close :: "('d, 's) bus \<Rightarrow> ('d, 's) bus" where
  "Close b = b\<lparr>closed := True\<rparr>"

section \<open>Validation before publishing\<close>

definition ValidateBeforePublish ::
  "(string \<Rightarrow> 'd envelope \<Rightarrow> string option) option \<Rightarrow> string \<Rightarrow> string \<Rightarrow> 'd envelope \<Rightarrow> string option" where
  "ValidateBeforePublish validator profile topic env =
     (case validator of
        None \<Rightarrow> None
      | Some v \<Rightarrow> (case v topic env of
          None \<Rightarrow> None
        | Some e \<Rightarrow> if profile = ''prod'' then Some e else None))"

definition validating_Publish ::
  "(string \<Rightarrow> 'd envelope \<Rightarrow> string option) option \<Rightarrow> string \<Rightarrow> string \<Rightarrow> 'd envelope
     \<Rightarrow> ('d, 's) bus \<Rightarrow> 's \<Rightarrow> string option \<times> ('d, 's) bus \<times> 's" where
  "validating_Publish validator profile topic env b s =
     (case ValidateBeforePublish validator profile topic env of
        Some e \<Rightarrow> (Some e, b, s)
      | None \<Rightarrow> Publish topic env b s)"

datatype bus_choice = KafkaBus | PandaproxyBus string | Inproc

text \<open>\<open>kafka_err\<close> is the error of creating the Kafka client from the environment.\<close>

definition bus_NewFromEnv :: "string \<Rightarrow> string option \<Rightarrow> string \<Rightarrow> string \<Rightarrow> bus_choice" where
  "bus_NewFromEnv brokers kafka_err event_bus proxy_url =
     (if brokers \<noteq> '''' \<and> kafka_err = None then KafkaBus
      else if event_bus = '''' \<or> event_bus = ''inproc'' then Inproc
      else if event_bus = ''kafka'' then
        PandaproxyBus (if proxy_url = '''' then ''http://localhost:8082'' else proxy_url)
      else Inproc)"

section \<open>Delivery\<close>

text \<open>What publishing promises: every handler subscribed at the call runs once, in order, whatever
  the others return, and each failure leaves one dead letter.\<close>

fun run_all :: "('d, 's) handler list \<Rightarrow> 'd envelope \<Rightarrow> 's \<Rightarrow> string option list \<times> 's" where
  "run_all [] env s = ([], s)"
| "run_all (h # hs) env s =
     (let (e, s1) = run h env s; (es, s2) = run_all hs env s1 in (e # es, s2))"

definition failures :: "string option list \<Rightarrow> nat" where
  "failures es = length (filter (\<lambda>e. e \<noteq> None) es)"

lemma at_key_put [simp]:
  "at_key k (kv_put k' v m) = (if k = k' then v else at_key k m)"
  by (simp add: at_key_def)

lemma DLQTopic_inj [simp]: "DLQTopic a = DLQTopic b \<longleftrightarrow> a = b"
  by (simp add: DLQTopic_def)

lemma dead_letter_simps [simp]:
  "subs (dead_letter topic env b) = subs b" "closed (dead_letter topic env b) = closed b"
  "DLQ t (dead_letter topic env b) = DLQ t b @ (if t = topic then [env] else [])"
  by (simp_all add: dead_letter_def DLQ_def)

lemma deliver_spec:
  assumes "deliver topic env hs b s = (b1, s1)"
  shows "subs b1 = subs b \<and> closed b1 = closed b \<and> s1 = snd (run_all hs env s)
    \<and> (\<forall>t. DLQ t b1 = DLQ t b
         @ (if t = topic then replicate (failures (fst (run_all hs env s))) env else []))"
  using assms
proof (induction hs arbitrary: b s)
  case Nil
  then show ?case by (simp add: failures_def)
next
  case (Cons h hs)
  obtain e s2 where h: "run h env s = (e, s2)" by fastforce
  obtain es s3 where r: "run_all hs env s2 = (es, s3)" by fastforce
  show ?case
  proof (cases e)
    case None
    with Cons.prems h have "deliver topic env hs b s2 = (b1, s1)" by simp
    from Cons.IH [OF this] None h r show ?thesis by (simp add: failures_def)
  next
    case (Some x)
    with Cons.prems h have "deliver topic env hs (dead_letter topic env b) s2 = (b1, s1)" by simp
    from Cons.IH [OF this] Some h r show ?thesis
      by (auto simp: failures_def replicate_append_same [symmetric])
  qed
qed

lemma Publish_spec:
  assumes "\<not> closed b" "Publish topic env b s = (r, b1, s1)"
  shows "r = None \<and> subs b1 = subs b \<and> closed b1 = closed b
    \<and> s1 = snd (run_all (at_key topic (subs b)) env s)
    \<and> (\<forall>t. DLQ t b1 = DLQ t b @ (if t = topic
         then replicate (failures (fst (run_all (at_key topic (subs b)) env s))) env else []))"
  using assms deliver_spec [of topic env "at_key topic (subs b)" b s b1 s1]
  by (simp add: Publish_def)

end
