(* ===== verification/Outbox.thy ===== *)
theory Outbox
  imports Bus
begin

text \<open>
  The transactional outbox and its relay, \<open>packages/events/outbox/outbox.go\<close>. The file is the
  list of its lines, \<open>None\<close> for a line that does not parse; the checkpoint file is the number in
  it. Sequence numbers are unbounded integers (the code's \<open>int64\<close> is not expected to wrap).
  The outcomes of the file operations are arguments.
\<close>

section \<open>The file store\<close>

record 'd orec =
  oSeq :: int
  oTopic :: string
  oEnvelope :: "'d envelope"

record 'd file_store =
  fseq :: int
  flines :: "'d orec option list"

datatype write_outcome = Wrote | WriteFailed string | SyncFailed string

definition NewFileStore :: "'d orec option list \<Rightarrow> 'd file_store" where
  "NewFileStore lines = \<lparr>fseq = foldl (\<lambda>m l. case l of None \<Rightarrow> m
       | Some r \<Rightarrow> if oSeq r > m then oSeq r else m) 0 lines, flines = lines\<rparr>"

definition Append ::
  "write_outcome \<Rightarrow> string \<Rightarrow> 'd envelope \<Rightarrow> 'd file_store \<Rightarrow> string option \<times> 'd file_store" where
  "Append w topic env fs =
     (let n = fseq fs + 1;
          line = Some \<lparr>oSeq = n, oTopic = topic, oEnvelope = env\<rparr>
      in case w of
           WriteFailed e \<Rightarrow> (Some e, fs\<lparr>fseq := n\<rparr>)
         | SyncFailed e \<Rightarrow> (Some e, fs\<lparr>fseq := n, flines := flines fs @ [line]\<rparr>)
         | Wrote \<Rightarrow> (None, fs\<lparr>fseq := n, flines := flines fs @ [line]\<rparr>))"

text \<open>The scan of \<open>Pending\<close>: \<open>got\<close> records are already in the result.\<close>

fun pending_scan :: "int \<Rightarrow> int \<Rightarrow> nat \<Rightarrow> 'd orec option list \<Rightarrow> 'd orec list" where
  "pending_scan afterSeq limit got [] = []"
| "pending_scan afterSeq limit got (l # ls) =
     (case l of
        None \<Rightarrow> pending_scan afterSeq limit got ls
      | Some r \<Rightarrow>
          if oSeq r > afterSeq then
            (if limit > 0 \<and> int (Suc got) \<ge> limit then [r]
             else r # pending_scan afterSeq limit (Suc got) ls)
          else pending_scan afterSeq limit got ls)"

definition PendingRecords ::
  "string option \<Rightarrow> int \<Rightarrow> int \<Rightarrow> 'd file_store \<Rightarrow> string + 'd orec list" where
  "PendingRecords read_err afterSeq limit fs =
     (case read_err of Some e \<Rightarrow> Inl e | None \<Rightarrow> Inr (pending_scan afterSeq limit 0 (flines fs)))"

section \<open>The relay\<close>

definition loadCheckpoint :: "int option \<Rightarrow> int" where
  "loadCheckpoint c = (case c of None \<Rightarrow> 0 | Some n \<Rightarrow> n)"

definition saveCheckpoint :: "bool \<Rightarrow> int \<Rightarrow> int option \<Rightarrow> int option" where
  "saveCheckpoint ok n c = (if ok then Some n else c)"

type_synonym ('d, 'b) publish = "string \<Rightarrow> 'd envelope \<Rightarrow> 'b \<Rightarrow> string option \<times> 'b"

text \<open>The publishing loop: \<open>None\<close> as first result is the early return on a failed publish.\<close>

fun relay_loop ::
  "('d, 'b) publish \<Rightarrow> 'd orec list \<Rightarrow> int \<Rightarrow> 'b \<Rightarrow> int option \<times> 'b" where
  "relay_loop pub [] sq b = (Some sq, b)"
| "relay_loop pub (r # rs) sq b =
     (case pub (oTopic r) (oEnvelope r) b of
        (Some e, b1) \<Rightarrow> (None, b1)
      | (None, b1) \<Rightarrow> relay_loop pub rs (oSeq r) b1)"

definition flushOnce ::
  "('d, 'b) publish \<Rightarrow> string option \<Rightarrow> bool \<Rightarrow> 'd file_store \<Rightarrow> int option \<Rightarrow> 'b \<Rightarrow> int option \<times> 'b" where
  "flushOnce pub read_err save_ok fs c b =
     (case PendingRecords read_err (loadCheckpoint c) 200 fs of
        Inl e \<Rightarrow> (c, b)
      | Inr recs \<Rightarrow> (case relay_loop pub recs (loadCheckpoint c) b of
          (None, b1) \<Rightarrow> (c, b1)
        | (Some sq, b1) \<Rightarrow> (if recs \<noteq> [] then saveCheckpoint save_ok sq c else c, b1)))"

section \<open>Records of the file\<close>

definition records :: "'d file_store \<Rightarrow> 'd orec list" where
  "records fs = List.map_filter id (flines fs)"

definition outbox_ok :: "'d file_store \<Rightarrow> bool" where
  "outbox_ok fs \<longleftrightarrow> sorted_wrt (<) (map oSeq (records fs))
     \<and> (\<forall>r \<in> set (records fs). 0 < oSeq r \<and> oSeq r \<le> fseq fs) \<and> 0 \<le> fseq fs"

lemma records_simps [simp]:
  "List.map_filter id [] = []" "List.map_filter id (None # ls) = List.map_filter id ls"
  "List.map_filter id (Some r # ls) = r # List.map_filter id ls"
  "List.map_filter id (ls @ [Some r]) = List.map_filter id ls @ [r]"
  by (simp_all add: List.map_filter_def)

lemma pending_scan_take:
  assumes "limit > 0" "int got < limit"
  shows "pending_scan a limit got ls
    = take (nat limit - got) (filter (\<lambda>r. oSeq r > a) (List.map_filter id ls))"
  using assms(2)
proof (induction ls arbitrary: got)
  case Nil
  then show ?case by simp
next
  case (Cons l ls)
  have "nat limit - got = Suc (nat limit - Suc got)" using Cons.prems by linarith
  moreover have "nat limit - Suc got = 0 \<longleftrightarrow> limit \<le> int (Suc got)" by linarith
  ultimately show ?case
    using Cons assms(1) by (cases l) auto
qed

lemma PendingRecords_spec:
  "PendingRecords None a 200 fs = Inr (take 200 (filter (\<lambda>r. oSeq r > a) (records fs)))"
  by (simp add: PendingRecords_def pending_scan_take records_def)

lemma NewFileStore_seq:
  "foldl (\<lambda>m l. case l of None \<Rightarrow> m | Some r \<Rightarrow> if oSeq r > m then oSeq r else m) m0 ls
     = fold (\<lambda>r m. max m (oSeq r)) (List.map_filter id ls) m0"
  by (induction ls arbitrary: m0) (auto simp: max_def split: option.splits)

lemma fold_max:
  fixes m0 :: int
  shows "m0 \<le> fold (\<lambda>r m. max m (f r)) rs m0
    \<and> (\<forall>r \<in> set rs. f r \<le> fold (\<lambda>r m. max m (f r)) rs m0)"
proof (induction rs arbitrary: m0)
  case Nil
  then show ?case by simp
next
  case (Cons x rs)
  from Cons [of "max m0 (f x)"] show ?case by auto
qed

lemma outbox_ok_new:
  assumes "sorted_wrt (<) (map oSeq (List.map_filter id lines))"
    "\<forall>r \<in> set (List.map_filter id lines). 0 < oSeq r"
  shows "outbox_ok (NewFileStore lines)"
  using assms fold_max [of 0 oSeq "List.map_filter id lines"]
  by (auto simp: outbox_ok_def records_def NewFileStore_def NewFileStore_seq)

lemma outbox_ok_append:
  assumes "outbox_ok fs" "Append w topic env fs = (e, fs1)"
  shows "outbox_ok fs1"
proof -
  have "\<forall>r \<in> set (records fs). oSeq r < fseq fs + 1 \<and> oSeq r \<le> fseq fs + 1"
    using assms(1) by (force simp: outbox_ok_def)
  with assms show ?thesis
    by (cases w) (auto simp: Append_def outbox_ok_def records_def Let_def sorted_wrt_append)
qed

lemma outbox_ok_restart:
  "outbox_ok fs \<Longrightarrow> outbox_ok (NewFileStore (flines fs))"
  by (rule outbox_ok_new) (auto simp: outbox_ok_def records_def)

text \<open>The records the checkpoint has not passed yet.\<close>

definition unsent :: "'d file_store \<Rightarrow> int option \<Rightarrow> 'd orec list" where
  "unsent fs c = filter (\<lambda>r. oSeq r > loadCheckpoint c) (records fs)"

section \<open>Runs of the outbox\<close>

text \<open>Appends by the service, flushes by the relay, and restarts of the process (the file and the
  checkpoint survive).\<close>

datatype 'd outbox_op =
    OAppend write_outcome string "'d envelope"
  | OFlush "string option" bool
  | ORestart

fun outbox_step ::
  "('d, 'b) publish \<Rightarrow> 'd outbox_op \<Rightarrow> 'd file_store \<times> int option \<times> 'b \<Rightarrow> 'd file_store \<times> int option \<times> 'b" where
  "outbox_step pub (OAppend w topic env) (fs, c, b) = (snd (Append w topic env fs), c, b)"
| "outbox_step pub (OFlush re sv) (fs, c, b) = (fs, flushOnce pub re sv fs c b)"
| "outbox_step pub ORestart (fs, c, b) = (NewFileStore (flines fs), c, b)"

section \<open>What the relay needs from the bus\<close>

text \<open>\<open>sent b\<close> lists what the bus has accepted. A refused publish loses nothing of it.\<close>

locale relay_bus =
  fixes pub :: "('d, 'b) publish"
    and sent :: "'b \<Rightarrow> (string \<times> 'd envelope) list"
  assumes accepted: "pub t e b = (None, b1) \<Longrightarrow> sent b1 = sent b @ [(t, e)]"
    and refused: "pub t e b = (Some x, b1) \<Longrightarrow> sent b1 = sent b"
begin

lemma relay_loop_sent:
  assumes "relay_loop pub rs sq b = (r, b1)"
  shows "\<exists>k \<le> length rs. sent b1 = sent b @ map (\<lambda>r. (oTopic r, oEnvelope r)) (take k rs)
    \<and> (r \<noteq> None \<longrightarrow> k = length rs \<and> r = Some (last (sq # map oSeq rs)))"
  using assms
proof (induction rs arbitrary: sq b)
  case Nil
  then show ?case by auto
next
  case (Cons x rs)
  obtain e b2 where p: "pub (oTopic x) (oEnvelope x) b = (e, b2)" by fastforce
  show ?case
  proof (cases e)
    case None
    with Cons.prems p have "relay_loop pub rs (oSeq x) b2 = (r, b1)" by simp
    from Cons.IH [OF this] obtain k where "k \<le> length rs"
      "sent b1 = sent b2 @ map (\<lambda>r. (oTopic r, oEnvelope r)) (take k rs)"
      "r \<noteq> None \<longrightarrow> k = length rs \<and> r = Some (last (oSeq x # map oSeq rs))" by auto
    with accepted p None show ?thesis by (intro exI [of _ "Suc k"]) auto
  next
    case (Some y)
    with Cons.prems p refused [of "oTopic x" "oEnvelope x" b y b2] show ?thesis
      by (intro exI [of _ 0]) auto
  qed
qed

text \<open>Everything up to the checkpoint has been accepted by the bus.\<close>

definition delivered_upto :: "'d file_store \<Rightarrow> int option \<Rightarrow> 'b \<Rightarrow> bool" where
  "delivered_upto fs c b \<longleftrightarrow>
     (\<forall>r \<in> set (records fs). oSeq r \<le> loadCheckpoint c \<longrightarrow> (oTopic r, oEnvelope r) \<in> set (sent b))
     \<and> (loadCheckpoint c = 0 \<or> loadCheckpoint c \<in> oSeq ` set (records fs))"

lemma sorted_take_last:
  assumes "sorted_wrt (<) (map oSeq rs)" "r \<in> set rs" "oSeq r \<le> last (a # map oSeq (take k rs))"
    "oSeq r > (a :: int)"
  shows "r \<in> set (take k rs)"
proof (cases "take k rs = []")
  case True
  with assms(3,4) show ?thesis by simp
next
  case False
  let ?l = "last (take k rs)"
  from False have l: "last (a # map oSeq (take k rs)) = oSeq ?l" by (simp add: last_map)
  have "rs = take k rs @ drop k rs" by simp
  then have "sorted_wrt (<) (map oSeq (take k rs) @ map oSeq (drop k rs))"
    using assms(1) by (metis map_append)
  then have "\<forall>x \<in> set (drop k rs). oSeq ?l < oSeq x"
    using False by (auto simp: sorted_wrt_append)
  with assms(3) l have "r \<notin> set (drop k rs)" by auto
  with assms(2) show ?thesis by (metis Un_iff append_take_drop_id set_append)
qed

lemma flush_delivered:
  assumes ok: "outbox_ok fs" and del: "delivered_upto fs c b"
    and fl: "flushOnce pub re save fs c b = (c1, b1)"
  shows "delivered_upto fs c1 b1 \<and> (\<exists>new. sent b1 = sent b @ new)"
proof (cases re)
  case (Some e)
  with fl have "c1 = c \<and> b1 = b" by (simp add: flushOnce_def PendingRecords_def)
  with del show ?thesis by simp
next
  case None
  let ?all = "filter (\<lambda>r. oSeq r > loadCheckpoint c) (records fs)"
  let ?rs = "take 200 ?all"
  obtain r where lp: "relay_loop pub ?rs (loadCheckpoint c) b = (r, b1)"
    and c1: "c1 = (case r of None \<Rightarrow> c | Some sq \<Rightarrow> if ?rs \<noteq> [] then saveCheckpoint save sq c else c)"
    using fl None by (auto simp: flushOnce_def PendingRecords_spec split: prod.splits option.splits)
  from relay_loop_sent [OF lp] obtain k where
    s1: "sent b1 = sent b @ map (\<lambda>r. (oTopic r, oEnvelope r)) (take k ?rs)"
    and fin: "r \<noteq> None \<Longrightarrow> k = length ?rs \<and> r = Some (last (loadCheckpoint c # map oSeq ?rs))"
    by auto
  have old: "\<forall>r \<in> set (records fs). oSeq r \<le> loadCheckpoint c \<longrightarrow> (oTopic r, oEnvelope r) \<in> set (sent b1)"
    using del s1 by (auto simp: delivered_upto_def)
  show ?thesis
  proof (cases "c1 = c")
    case True
    with old del s1 show ?thesis by (auto simp: delivered_upto_def)
  next
    case False
    with c1 fin obtain save_ok: "c1 = Some (last (loadCheckpoint c # map oSeq ?rs))" "?rs \<noteq> []"
      and k: "k = length ?rs" by (auto simp: saveCheckpoint_def split: option.splits if_splits)
    have srt: "sorted_wrt (<) (map oSeq ?all)"
      using ok by (simp add: outbox_ok_def sorted_wrt_map sorted_wrt_filter)
    have "(oTopic x, oEnvelope x) \<in> set (sent b1)"
      if "x \<in> set (records fs)" "oSeq x \<le> loadCheckpoint c1" for x
    proof (cases "oSeq x \<le> loadCheckpoint c")
      case True
      with old that show ?thesis by blast
    next
      case False
      then have "x \<in> set ?rs"
        using that save_ok by (intro sorted_take_last [OF srt, of _ "loadCheckpoint c"])
          (auto simp: loadCheckpoint_def)
      moreover have "take k ?rs = ?rs" by (rule take_all) (simp only: k order_refl)
      ultimately show ?thesis using s1 by (simp only: set_append set_map) blast
    qed
    moreover have "loadCheckpoint c1 \<in> oSeq ` set (records fs)"
    proof -
      from save_ok have "last (map oSeq ?rs) \<in> oSeq ` set (records fs)"
        by (metis (no_types, lifting) filter_is_subset imageI last_in_set last_map list.set_map
            map_is_Nil_conv set_take_subset subset_iff)
      with save_ok show ?thesis by (simp add: loadCheckpoint_def)
    qed
    ultimately show ?thesis using s1 by (auto simp: delivered_upto_def)
  qed
qed

lemma step_delivered:
  assumes "outbox_ok fs" "delivered_upto fs c b" "outbox_step pub p (fs, c, b) = (fs1, c1, b1)"
  shows "outbox_ok fs1 \<and> delivered_upto fs1 c1 b1"
proof (cases p)
  case (OAppend w topic env)
  obtain e where ap: "Append w topic env fs = (e, fs1)" and eq: "c1 = c" "b1 = b"
    using assms(3) OAppend by (cases "Append w topic env fs") simp
  have sub: "set (records fs1) \<subseteq> insert \<lparr>oSeq = fseq fs + 1, oTopic = topic, oEnvelope = env\<rparr>
        (set (records fs))" and sup: "set (records fs) \<subseteq> set (records fs1)"
    using ap by (cases w; auto simp: Append_def records_def Let_def)+
  have le: "loadCheckpoint c \<le> fseq fs"
    using assms(1,2) by (auto simp: delivered_upto_def outbox_ok_def)
  have "(oTopic r, oEnvelope r) \<in> set (sent b)"
    if r: "r \<in> set (records fs1)" and s: "oSeq r \<le> loadCheckpoint c" for r
  proof -
    from s le have "oSeq r \<noteq> fseq fs + 1" by linarith
    then have "r \<in> set (records fs)" using r sub by auto
    with assms(2) s show ?thesis by (simp add: delivered_upto_def)
  qed
  moreover have "loadCheckpoint c = 0 \<or> loadCheckpoint c \<in> oSeq ` set (records fs1)"
    using assms(2) sup by (auto simp: delivered_upto_def)
  ultimately have "delivered_upto fs1 c b" by (simp add: delivered_upto_def)
  with outbox_ok_append [OF assms(1) ap] eq show ?thesis by simp
next
  case (OFlush re sv)
  with assms(3) have "fs1 = fs" "flushOnce pub re sv fs c b = (c1, b1)" by auto
  with flush_delivered [OF assms(1,2), of re sv c1 b1] assms(1) show ?thesis by simp
next
  case ORestart
  have "records (NewFileStore (flines fs)) = records fs" by (simp add: NewFileStore_def records_def)
  with assms outbox_ok_restart [OF assms(1)] ORestart show ?thesis
    by (auto simp: delivered_upto_def)
qed

text \<open>A flush in which the bus accepts everything and the checkpoint is written takes the first
  200 pending records off. \<open>ready\<close> says that the bus accepts.\<close>

lemma relay_loop_all:
  assumes "\<And>t e b. ready b \<Longrightarrow> \<exists>b1. pub t e b = (None, b1) \<and> ready b1" "ready b"
  shows "\<exists>b1. relay_loop pub rs sq b = (Some (last (sq # map oSeq rs)), b1) \<and> ready b1"
  using assms(2)
proof (induction rs arbitrary: sq b)
  case Nil
  then show ?case by simp
next
  case (Cons x rs)
  obtain b2 where "pub (oTopic x) (oEnvelope x) b = (None, b2)" "ready b2"
    using assms(1) [OF Cons.prems] by blast
  with Cons.IH [OF \<open>ready b2\<close>, of "oSeq x"] show ?case by simp
qed

lemma sorted_filter_drop:
  assumes "sorted_wrt (<) (map f xs)" "n \<le> length xs" "n > 0"
  shows "filter (\<lambda>x. (f x :: int) > last (map f (take n xs))) xs = drop n xs"
proof -
  let ?l = "last (take n xs)"
  have ne: "take n xs \<noteq> []" using assms(2,3) by auto
  have split: "sorted_wrt (<) (map f (take n xs) @ map f (drop n xs))"
    using assms(1) by (metis append_take_drop_id map_append)
  have "\<forall>x \<in> set (drop n xs). f x > f ?l" using split ne by (auto simp: sorted_wrt_append)
  moreover have "\<forall>x \<in> set (take n xs). \<not> f x > f ?l"
  proof -
    have e: "take n xs = butlast (take n xs) @ [?l]" using ne by simp
    have "sorted_wrt (<) (map f (butlast (take n xs)) @ [f ?l])"
      using split e by (metis list.simps(8) list.simps(9) map_append sorted_wrt_append)
    then have "\<forall>x \<in> set (butlast (take n xs)). f x < f ?l" by (simp add: sorted_wrt_append)
    then have "\<forall>x \<in> set (butlast (take n xs) @ [?l]). \<not> f x > f ?l" by auto
    then show ?thesis by (simp only: e [symmetric])
  qed
  ultimately have "filter (\<lambda>x. f x > f ?l) (take n xs @ drop n xs) = drop n xs"
    by (simp only: filter_append) (simp add: filter_empty_conv)
  with ne show ?thesis by (simp add: last_map)
qed

lemma flush_progress:
  assumes "outbox_ok fs" "\<And>t e b. ready b \<Longrightarrow> \<exists>b1. pub t e b = (None, b1) \<and> ready b1" "ready b"
  shows "\<exists>c1 b1. flushOnce pub None True fs c b = (c1, b1) \<and> ready b1
    \<and> unsent fs c1 = drop 200 (unsent fs c)"
proof (cases "unsent fs c = []")
  case True
  with assms(3) show ?thesis by (auto simp: flushOnce_def PendingRecords_spec unsent_def)
next
  case False
  let ?u = "unsent fs c"
  let ?n = "min 200 (length ?u)"
  have srt: "sorted_wrt (<) (map oSeq ?u)"
    using assms(1) by (simp add: outbox_ok_def unsent_def sorted_wrt_map sorted_wrt_filter)
  have n: "take 200 ?u = take ?n ?u" "drop 200 ?u = drop ?n ?u" "?n \<le> length ?u" "?n > 0"
    using False by (auto simp: min_def)
  let ?l = "last (map oSeq (take ?n ?u))"
  obtain b1 where "relay_loop pub (take 200 ?u) (loadCheckpoint c) b = (Some (last (map oSeq (take 200 ?u))), b1)"
    and r1: "ready b1"
    using relay_loop_all [OF assms(2,3), of "take 200 ?u" "loadCheckpoint c"] False by auto
  then have c1: "flushOnce pub None True fs c b = (Some ?l, b1)"
    unfolding flushOnce_def PendingRecords_spec unsent_def [symmetric] n(1) [symmetric]
    using False by (simp add: saveCheckpoint_def)
  have le: "loadCheckpoint c \<le> ?l"
  proof -
    have ne: "take ?n ?u \<noteq> []" using False by simp
    then have "last (take ?n ?u) \<in> set ?u" by (rule in_set_takeD [OF last_in_set])
    with ne show ?thesis by (simp add: last_map unsent_def)
  qed
  have "unsent fs (Some ?l) = filter (\<lambda>r. oSeq r > ?l) ?u"
    using le by (auto simp: unsent_def loadCheckpoint_def filter_filter intro!: filter_cong)
  with sorted_filter_drop [OF srt n(3,4)] c1 r1 n(2) show ?thesis by auto
qed

lemma relay_drains:
  assumes "outbox_ok fs" "\<And>t e b. ready b \<Longrightarrow> \<exists>b1. pub t e b = (None, b1) \<and> ready b1" "ready b"
  shows "unsent fs (fst (((\<lambda>(c, b). flushOnce pub None True fs c b) ^^ k) (c, b))) = drop (200 * k) (unsent fs c)
    \<and> ready (snd (((\<lambda>(c, b). flushOnce pub None True fs c b) ^^ k) (c, b)))"
proof (induction k)
  case 0
  then show ?case using assms(3) by simp
next
  case (Suc k)
  obtain c1 b1 where k: "((\<lambda>(c, b). flushOnce pub None True fs c b) ^^ k) (c, b) = (c1, b1)" by fastforce
  with Suc have "ready b1" by simp
  from flush_progress [OF assms(1,2) this, of c1] k Suc show ?case
    by (auto simp: drop_drop add.commute)
qed

lemma run_delivered:
  assumes "outbox_ok fs" "delivered_upto fs c b" "fold (outbox_step pub) ops (fs, c, b) = (fs1, c1, b1)"
  shows "outbox_ok fs1 \<and> delivered_upto fs1 c1 b1"
  using assms
proof (induction ops arbitrary: fs c b)
  case Nil
  then show ?case by simp
next
  case (Cons p ops)
  obtain fs2 c2 b2 where st: "outbox_step pub p (fs, c, b) = (fs2, c2, b2)" by (metis prod.collapse)
  from step_delivered [OF Cons.prems(1,2) st] Cons.IH [of fs2 c2 b2] Cons.prems(3) st show ?case by simp
qed

end

section \<open>The relay on the in-process bus\<close>

text \<open>Publishing through the validating in-process bus, with the list of what it accepted.\<close>

type_synonym ('d, 's) bus_world = "('d, 's) bus \<times> 's \<times> (string \<times> 'd envelope) list"

definition logged_publish ::
  "(string \<Rightarrow> 'd envelope \<Rightarrow> string option) option \<Rightarrow> string \<Rightarrow> ('d, ('d, 's) bus_world) publish" where
  "logged_publish validator profile t e w =
     (case w of (b, s, l) \<Rightarrow> (case validating_Publish validator profile t e b s of
        (None, b1, s1) \<Rightarrow> (None, (b1, s1, l @ [(t, e)]))
      | (Some x, b1, s1) \<Rightarrow> (Some x, (b1, s1, l))))"

interpretation inproc_relay: relay_bus "logged_publish validator profile" "\<lambda>w. snd (snd w)"
  for validator profile
  by unfold_locales
    (auto simp: logged_publish_def split: prod.splits option.splits)

lemma outbox_ok_empty: "outbox_ok (NewFileStore [])"
  by (rule outbox_ok_new) simp_all

lemma outbox_run_delivered:
  assumes "fold (outbox_step (logged_publish validator profile)) ops (NewFileStore [], None, (b, s, []))
      = (fs, c, w)"
  shows "inproc_relay.delivered_upto fs c w"
  using inproc_relay.run_delivered [OF outbox_ok_empty _ assms]
  by (simp add: inproc_relay.delivered_upto_def NewFileStore_def records_def loadCheckpoint_def)

text \<open>An open bus without a validator accepts every event and stays open.\<close>

lemma open_bus_accepts:
  assumes "\<not> closed (fst w)"
  shows "\<exists>w1. logged_publish None profile t e w = (None, w1) \<and> \<not> closed (fst w1)"
proof -
  obtain b s l where w: "w = (b, s, l)" by (cases w) auto
  obtain r b1 s1 where p: "Publish t e b s = (r, b1, s1)" by (metis prod.collapse)
  from Publish_spec [OF _ p] assms w p show ?thesis
    by (auto simp: logged_publish_def validating_Publish_def ValidateBeforePublish_def)
qed

end
