(* ===== verification/LedgerApi.thy ===== *)
theory LedgerApi
  imports LedgerInv Thresholds Access Outbox
begin

text \<open>
  The HTTP layer of the ledger service, \<open>services/ledger/main.go\<close>, in the dev profile: the
  handlers over the ledger client, the hooks that turn transfer events into outbox records and
  threshold alerts, the expiry sweep, and the routing table with its role and step-up guards.
  Requests arrive decoded (\<open>None\<close> is a body that is not the expected JSON).
\<close>

section \<open>The host and the server\<close>

text \<open>What the process takes from outside: the n-th clock reading, fresh identifiers, the outcome of
  the outbox write of each sequence number, the cryptographic functions, the environment.\<close>

record host =
  hClk :: "nat \<Rightarrow> instant"
  hULID :: "nat \<Rightarrow> string"
  hTrace :: "nat \<Rightarrow> string"
  hRandomID :: "nat \<Rightarrow> tbid"
  hWrite :: "int \<Rightarrow> write_outcome"
  hHmac :: "string \<Rightarrow> string \<Rightarrow> string"
  hHash :: "string \<Rightarrow> string"
  hDecClaims :: "string \<Rightarrow> claims option"
  hDecTicket :: "string \<Rightarrow> ticket option"
  hKeycloak :: "(string \<Rightarrow> string + claims) option"
  hTicketKey :: string
  hEnv :: auth_env

record server =
  sdev :: dev
  sthresh :: tracker
  sout :: "payload file_store"
  sdirty :: bool
  stickets :: tickets
  stick :: nat  \<comment> \<open>clock readings taken so far\<close>

definition service :: string where "service = ''ledger''"

text \<open>\<open>devClientProfileOK\<close>: the boot guard of the in-memory client.\<close>

definition devClientProfileOK :: "string \<Rightarrow> string option" where
  "devClientProfileOK profile =
     (if profile = ''dev'' then None
      else if profile = ''prod'' then
        Some ''profile=prod requires TIGERBEETLE_ADDRESSES; refusing to boot the in-mem DevClient''
      else Some (''TIGERBEETLE_ADDRESSES unset and PROFILE='' @ quoted profile
        @ ''; the in-mem DevClient requires explicit PROFILE=dev''))"

section \<open>Events\<close>

definition append_event :: "host \<Rightarrow> string \<Rightarrow> payload \<Rightarrow> server \<Rightarrow> server" where
  "append_event h topic p sv =
     (let n = stick sv;
          env = envelope_New (hULID h n) (hClk h n) (hTrace h n) topic service '''' '''' p
      in sv\<lparr>sout := snd (Append (hWrite h (fseq (sout sv) + 1)) topic env (sout sv)),
            stick := Suc n\<rparr>)"

definition markDirty :: "server \<Rightarrow> server" where
  "markDirty sv = sv\<lparr>sdirty := True\<rparr>"

definition checkThresholds :: "host \<Rightarrow> transfer \<Rightarrow> server \<Rightarrow> server" where
  "checkThresholds h t sv =
     (let (evs, tt) = Observe (hClk h (stick sv)) t (sthresh sv)
      in fold (\<lambda>ev. append_event h (evType ev) (evPayload ev)) evs
           (sv\<lparr>sthresh := tt, stick := Suc (stick sv)\<rparr>))"

definition transfer_payload :: "transfer \<Rightarrow> payload" where
  "transfer_payload t = overlay
     [(''transfer_id'', PS (ID_String (tID t))),
      (''debit_account_id'', PS (ID_String (DebitAccountID t))),
      (''credit_account_id'', PS (ID_String (CreditAccountID t))),
      (''amount_kobo'', PU (Amount t)), (''ledger'', PU (tLedger t)),
      (''code'', PI (uint (tCode t))), (''pending'', PBool (Pending t))] []"

definition emitTransferEvent :: "host \<Rightarrow> transfer \<Rightarrow> server \<Rightarrow> server" where
  "emitTransferEvent h t sv =
     checkThresholds h t (append_event h ''nrs.ledger.transfers.v1'' (transfer_payload t) sv)"

definition run_hook :: "host \<Rightarrow> hook \<Rightarrow> server \<Rightarrow> server" where
  "run_hook h k sv = (case k of OnChange \<Rightarrow> markDirty sv | OnEvent t \<Rightarrow> emitTransferEvent h t sv)"

text \<open>A client call leaves the state \<open>d\<close>; the hook calls it made run on the server.\<close>

definition after_call :: "host \<Rightarrow> dev \<Rightarrow> server \<Rightarrow> server" where
  "after_call h d sv =
     fold (run_hook h) (drop (length (delivered (sdev sv))) (delivered d)) (sv\<lparr>sdev := d\<rparr>)"

definition expired_payload :: "transfer \<Rightarrow> payload" where
  "expired_payload t = overlay
     [(''transfer_id'', PS (ID_String (tID t))),
      (''debit_account_id'', PS (ID_String (DebitAccountID t))),
      (''credit_account_id'', PS (ID_String (CreditAccountID t))),
      (''amount_kobo'', PU (Amount t)), (''ledger'', PU (tLedger t)),
      (''expired_at'', PS (ExpiresAt t))] []"

definition sweepExpiredPendings :: "host \<Rightarrow> (tbid \<Rightarrow> string) \<Rightarrow> server \<Rightarrow> server option" where
  "sweepExpiredPendings h now_s sv =
     (case ExpirePendings (hClk h (stick sv)) now_s (sdev sv) of
        None \<Rightarrow> None
      | Some (expired, d) \<Rightarrow> Some (fold (\<lambda>t. append_event h ''nrs.ledger.pending_expired.v1''
            (expired_payload t)) expired (after_call h d (sv\<lparr>stick := Suc (stick sv)\<rparr>))))"

section \<open>Responses\<close>

datatype api_body =
    Problem string
  | AccountBody tb_result "account option"
  | AccountsBody "account list"
  | BalanceBody "balance option"
  | ResultBody tb_result tbid
  | TransferBody "transfer option"
  | TransfersBody "transfer list"
  | CountBody nat
  | Aborted  \<comment> \<open>the handler panicked\<close>

type_synonym response = "int \<times> api_body"

definition writeTransferResult :: "tbid \<Rightarrow> tb_result \<Rightarrow> response" where
  "writeTransferResult i r =
     ((case Code r of OK \<Rightarrow> 201 | Exists \<Rightarrow> 200 | AccountNotFound \<Rightarrow> 404 | _ \<Rightarrow> 422), ResultBody r i)"

section \<open>Handlers\<close>

record createAccountReq =
  caNamespace :: u64
  caSerial :: u64
  caID :: string
  caFlags :: u16
  caUserData :: string
  caCode :: u16

record transferReq =
  trID :: string
  trDebitAccountID :: string
  trCreditAccountID :: string
  trAmountKobo :: u64
  trLedger :: u64
  trCode :: u16
  trUserData :: string
  trTimeoutSeconds :: u32

record postReq =
  poAmountKobo :: u64
  poCode :: u16
  poPostID :: string

definition now_str :: "host \<Rightarrow> server \<Rightarrow> string" where
  "now_str h sv = format_rfc3339nano (hClk h (stick sv))"

definition tick :: "nat \<Rightarrow> server \<Rightarrow> server" where
  "tick k sv = sv\<lparr>stick := stick sv + k\<rparr>"

text \<open>The id of the account to create, and the server after a serial was allocated for it.\<close>

definition account_id :: "createAccountReq \<Rightarrow> server \<Rightarrow> string + tbid \<times> server" where
  "account_id req sv =
     (if caID req \<noteq> '''' then
        (case ParseID (caID req) of Inl e \<Rightarrow> Inl e | Inr i \<Rightarrow> Inr (i, sv))
      else if caSerial req = 0 then
        (let (n, d) = NextSerial (caNamespace req) (sdev sv)
         in Inr (MakeID (caNamespace req) n, sv\<lparr>sdev := d\<rparr>))
      else Inr (MakeID (caNamespace req) (caSerial req), sv))"

definition createAccounts :: "host \<Rightarrow> createAccountReq option \<Rightarrow> server \<Rightarrow> response \<times> server" where
  "createAccounts h req sv = (case req of
       None \<Rightarrow> ((400, Problem ''invalid JSON''), sv)
     | Some q \<Rightarrow> (case account_id q sv of
         Inl e \<Rightarrow> ((400, Problem e), sv)
       | Inr (i, sv1) \<Rightarrow>
          (let a = \<lparr>aID = i, aLedger = caNamespace q,
                    aCode = (if caCode q = 0 then 1 else caCode q), aFlags = caFlags q,
                    aUserData = caUserData q, DebitsPending = 0, DebitsPosted = 0,
                    CreditsPending = 0, CreditsPosted = 0, aCreatedAt = ''''\<rparr>;
               (rs, d) = CreateAccounts (\<lambda>_. now_str h sv1) [a] (sdev sv1);
               r = hd rs;
               sv2 = after_call h d (tick 1 sv1);
               status = (if Code r \<noteq> OK \<and> Code r \<noteq> Exists then 422
                         else if Code r = Exists then 200 else 201)
           in ((status, AccountBody r (fst (GetAccount i (sdev sv2)))), sv2))))"

definition buildTransfer :: "host \<Rightarrow> transferReq \<Rightarrow> server \<Rightarrow> (string + transfer) \<times> server" where
  "buildTransfer h q sv =
     (let (idr, sv1) = (if trID q \<noteq> '''' then (ParseID (trID q), sv)
                        else (Inr (hRandomID h (stick sv)), tick 1 sv))
      in ((case idr of Inl e \<Rightarrow> Inl e
         | Inr i \<Rightarrow> (case ParseID (trDebitAccountID q) of Inl e \<Rightarrow> Inl e
           | Inr dr \<Rightarrow> (case ParseID (trCreditAccountID q) of Inl e \<Rightarrow> Inl e
             | Inr cr \<Rightarrow> Inr \<lparr>tID = i, DebitAccountID = dr, CreditAccountID = cr,
                 Amount = trAmountKobo q, tLedger = trLedger q, tCode = trCode q, Pending = False,
                 PendingID = MkID 0 0, Resolved = False, tUserData = trUserData q, tCreatedAt = '''',
                 TimeoutSeconds = trTimeoutSeconds q, ExpiresAt = ''''\<rparr>))), sv1))"

definition createTransfer :: "host \<Rightarrow> transferReq option \<Rightarrow> server \<Rightarrow> response \<times> server" where
  "createTransfer h req sv = (case req of
       None \<Rightarrow> ((400, Problem ''invalid JSON''), sv)
     | Some q \<Rightarrow> (case buildTransfer h q sv of
         (Inl e, sv1) \<Rightarrow> ((400, Problem e), sv1)
       | (Inr t, sv1) \<Rightarrow>
          (let (r, d) = Transfer (now_str h sv1) t (sdev sv1)
           in (writeTransferResult (tID t) r, after_call h d (tick 1 sv1)))))"

definition createPending :: "host \<Rightarrow> transferReq option \<Rightarrow> server \<Rightarrow> response \<times> server" where
  "createPending h req sv = (case req of
       None \<Rightarrow> ((400, Problem ''invalid JSON''), sv)
     | Some q0 \<Rightarrow>
        (let q = (if trCode q0 = 0 then q0\<lparr>trCode := CodeAuthorise\<rparr> else q0)
         in case buildTransfer h q sv of
              (Inl e, sv1) \<Rightarrow> ((400, Problem e), sv1)
            | (Inr t, sv1) \<Rightarrow>
               (let (r, d) = PendingTransfer (now_str h sv1) (hClk h (Suc (stick sv1))) t (sdev sv1)
                in (writeTransferResult (tID t) r, after_call h d (tick 2 sv1)))))"

text \<open>The outcome of a two-phase call of the client.\<close>

definition resolve_response ::
  "host \<Rightarrow> tbid \<Rightarrow> (tb_result \<times> dev) option \<Rightarrow> server \<Rightarrow> response \<times> server" where
  "resolve_response h i rd sv = (case rd of
       None \<Rightarrow> ((0, Aborted), sv)
     | Some (r, d) \<Rightarrow> (writeTransferResult i r, after_call h d (tick 1 sv)))"

text \<open>A missing or malformed body is an empty request.\<close>

definition postPending :: "host \<Rightarrow> string \<Rightarrow> postReq option \<Rightarrow> server \<Rightarrow> response \<times> server" where
  "postPending h ids req sv = (case ParseID ids of
       Inl e \<Rightarrow> ((400, Problem e), sv)
     | Inr i \<Rightarrow>
        (let q = (case req of None \<Rightarrow> \<lparr>poAmountKobo = 0, poCode = 0, poPostID = ''''\<rparr> | Some q \<Rightarrow> q)
         in if poPostID q \<noteq> '''' then
              (case ParseID (poPostID q) of
                 Inl e \<Rightarrow> ((400, Problem (''invalid post_id: '' @ e)), sv)
               | Inr p \<Rightarrow> resolve_response h i
                   (PostPendingAs (now_str h sv) i p (poAmountKobo q) (poCode q) (sdev sv)) sv)
            else resolve_response h i
                   (PostPending (now_str h sv) i (poAmountKobo q) (poCode q) (sdev sv)) sv))"

definition voidPending :: "host \<Rightarrow> string \<Rightarrow> server \<Rightarrow> response \<times> server" where
  "voidPending h ids sv = (case ParseID ids of
       Inl e \<Rightarrow> ((400, Problem e), sv)
     | Inr i \<Rightarrow> resolve_response h i (VoidPending (now_str h sv) i 0 (sdev sv)) sv)"

definition getTransfer :: "string \<Rightarrow> server \<Rightarrow> response" where
  "getTransfer ids sv = (case ParseID ids of
       Inl e \<Rightarrow> (400, Problem e)
     | Inr i \<Rightarrow> (case GetTransfer i (sdev sv) of
         (t, r) \<Rightarrow> if Code r \<noteq> OK then (404, Problem ''transfer not found'') else (200, TransferBody t)))"

definition getBalance :: "string \<Rightarrow> server \<Rightarrow> response" where
  "getBalance ids sv = (case ParseID ids of
       Inl e \<Rightarrow> (400, Problem e)
     | Inr i \<Rightarrow> (case Balance i (sdev sv) of
         (b, r) \<Rightarrow> if Code r \<noteq> OK then (404, Problem (''account '' @ ID_String i))
           else (200, BalanceBody b)))"

definition listAccounts :: "server \<Rightarrow> response" where
  "listAccounts sv = (200, AccountsBody (ListAccounts (sdev sv)))"

definition listTransfers :: "string \<Rightarrow> server \<Rightarrow> response" where
  "listTransfers q sv =
     (if q = '''' then (200, TransfersBody (ListTransfers (MkID 0 0) (sdev sv)))
      else (case ParseID (trim_space q) of
          Inl e \<Rightarrow> (400, Problem e)
        | Inr i \<Rightarrow> (200, TransfersBody (ListTransfers i (sdev sv)))))"

definition countTransfers :: "server \<Rightarrow> response" where
  "countTransfers sv = (200, CountBody (CountTransfers (sdev sv)))"

section \<open>Routes\<close>

datatype route =
    RCreateAccount "createAccountReq option" | RListAccounts | RBalance string
  | RTransfer "transferReq option" | RPending "transferReq option"
  | RPost string "postReq option" | RVoid string
  | RListTransfers string | RCount | RGetTransfer string

text \<open>The role a route requires, and the step-up action that guards it.\<close>

definition route_role :: "route \<Rightarrow> string option" where
  "route_role r = (case r of
       RCreateAccount _ \<Rightarrow> Some ''ledger:admin''
     | RTransfer _ \<Rightarrow> Some ''ledger:post'' | RPending _ \<Rightarrow> Some ''ledger:post''
     | RPost _ _ \<Rightarrow> Some ''ledger:settle'' | RVoid _ \<Rightarrow> Some ''ledger:settle''
     | _ \<Rightarrow> None)"

definition route_action :: "route \<Rightarrow> string option" where
  "route_action r = (case r of
       RTransfer _ \<Rightarrow> Some ''ledger.transfer.create''
     | RPending _ \<Rightarrow> Some ''ledger.transfer.pending''
     | RPost _ _ \<Rightarrow> Some ''ledger.transfer.post''
     | RVoid _ \<Rightarrow> Some ''ledger.transfer.void''
     | _ \<Rightarrow> None)"

definition run_route :: "host \<Rightarrow> route \<Rightarrow> server \<Rightarrow> response \<times> server" where
  "run_route h r sv = (case r of
       RCreateAccount q \<Rightarrow> createAccounts h q sv
     | RListAccounts \<Rightarrow> (listAccounts sv, sv)
     | RBalance i \<Rightarrow> (getBalance i sv, sv)
     | RTransfer q \<Rightarrow> createTransfer h q sv
     | RPending q \<Rightarrow> createPending h q sv
     | RPost i q \<Rightarrow> postPending h i q sv
     | RVoid i \<Rightarrow> voidPending h i sv
     | RListTransfers q \<Rightarrow> (listTransfers q sv, sv)
     | RCount \<Rightarrow> (countTransfers sv, sv)
     | RGetTransfer i \<Rightarrow> (getTransfer i sv, sv))"

definition gated :: "host \<Rightarrow> headers \<Rightarrow> string \<Rightarrow> claims \<Rightarrow> route \<Rightarrow> server \<Rightarrow> response \<times> server" where
  "gated h hdr body c r sv = (case route_action r of
       None \<Rightarrow> run_route h r sv
     | Some act \<Rightarrow>
        (let (e, tk) = requireStepUp (hHmac h) (hDecTicket h) (hHash h) (hTicketKey h)
               (PROFILE (hEnv h)) (hClk h (stick sv)) (hClk h (Suc (stick sv))) act c hdr body
               (stickets sv);
             sv1 = tick 2 (sv\<lparr>stickets := tk\<rparr>)
         in case e of Some (st, kind) \<Rightarrow> ((st, Problem kind), sv1) | None \<Rightarrow> run_route h r sv1))"

text \<open>A request: its headers, its raw body (what the ticket binds), and the matched route.\<close>

definition serve :: "host \<Rightarrow> headers \<Rightarrow> string \<Rightarrow> route \<Rightarrow> server \<Rightarrow> response \<times> server" where
  "serve h hdr body r sv =
     (case Middleware (hHmac h) (hDecClaims h) (hKeycloak h) (hEnv h) (hClk h (stick sv)) hdr of
        Inl (st, kind) \<Rightarrow> ((st, Problem kind), tick 1 sv)
      | Inr c \<Rightarrow>
         (case route_role r of
            None \<Rightarrow> gated h hdr body c r (tick 1 sv)
          | Some role \<Rightarrow> (case RequireRole role (Some c) of
              Inl (st, kind) \<Rightarrow> ((st, Problem kind), tick 1 sv)
            | Inr _ \<Rightarrow> gated h hdr body c r (tick 1 sv))))"

section \<open>Events reach the outbox\<close>

definition outbox_of :: "server \<Rightarrow> (string \<times> payload) list" where
  "outbox_of sv = map (\<lambda>r. (oTopic r, eData (oEnvelope r))) (records (sout sv))"

lemma append_event_frame [simp]:
  "sdev (append_event h t p sv) = sdev sv" "sthresh (append_event h t p sv) = sthresh sv"
  "stickets (append_event h t p sv) = stickets sv"
  "stick (append_event h t p sv) = Suc (stick sv)"
  by (simp_all add: append_event_def Let_def)

lemma append_events_frame [simp]:
  "sdev (fold (\<lambda>ev. append_event h (f ev) (g ev)) evs sv) = sdev sv"
  "stickets (fold (\<lambda>ev. append_event h (f ev) (g ev)) evs sv) = stickets sv"
  by (induction evs arbitrary: sv) simp_all

lemma run_hook_frame [simp]:
  "sdev (run_hook h k sv) = sdev sv" "stickets (run_hook h k sv) = stickets sv"
  by (simp_all add: run_hook_def markDirty_def emitTransferEvent_def checkThresholds_def
      split: hook.split prod.split)

lemma run_hooks_frame [simp]:
  "sdev (fold (run_hook h) ks sv) = sdev sv" "stickets (fold (run_hook h) ks sv) = stickets sv"
  by (induction ks arbitrary: sv) simp_all

lemma after_call_frame [simp]:
  "sdev (after_call h d sv) = d" "stickets (after_call h d sv) = stickets sv"
  by (simp_all add: after_call_def)

lemma tick_frame [simp]:
  "sdev (tick k sv) = sdev sv" "stickets (tick k sv) = stickets sv" "sout (tick k sv) = sout sv"
  "sthresh (tick k sv) = sthresh sv" "stick (tick k sv) = stick sv + k"
  by (simp_all add: tick_def)

lemma outbox_append:
  assumes "\<And>n. hWrite h n = Wrote"
  shows "outbox_of (append_event h t p sv) = outbox_of sv @ [(t, p)]"
  by (simp add: outbox_of_def append_event_def Let_def Append_def assms records_def envelope_New_def)

lemma outbox_append_events:
  assumes "\<And>n. hWrite h n = Wrote"
  shows "outbox_of (fold (\<lambda>ev. append_event h (f ev) (g ev)) evs sv)
    = outbox_of sv @ map (\<lambda>ev. (f ev, g ev)) evs"
  by (induction evs arbitrary: sv) (simp_all add: outbox_append [OF assms])

lemma outbox_frame [simp]:
  "outbox_of (sv\<lparr>sdev := d\<rparr>) = outbox_of sv" "outbox_of (sv\<lparr>sthresh := tt, stick := n\<rparr>) = outbox_of sv"
  "outbox_of (markDirty sv) = outbox_of sv" "outbox_of (tick k sv) = outbox_of sv"
  by (simp_all add: outbox_of_def markDirty_def tick_def)

definition alerts_of :: "threshold_event list \<Rightarrow> (string \<times> payload) list" where
  "alerts_of evs = map (\<lambda>ev. (evType ev, evPayload ev)) evs"

lemma outbox_emit:
  assumes "\<And>n. hWrite h n = Wrote"
  shows "outbox_of (emitTransferEvent h t sv) = outbox_of sv
    @ (''nrs.ledger.transfers.v1'', transfer_payload t)
      # alerts_of (fst (Observe (hClk h (Suc (stick sv))) t (sthresh sv)))"
  by (simp add: emitTransferEvent_def checkThresholds_def outbox_append_events [OF assms]
      outbox_append [OF assms] alerts_of_def split: prod.split)

text \<open>The hook calls of a call that left one event, from a state without left-over notifications.\<close>

definition quiet :: "dev \<Rightarrow> bool" where
  "quiet s \<longleftrightarrow> pendingEvents s = [] \<and> hasOnEvent s"

lemma outbox_after_one_event:
  assumes "\<And>n. hWrite h n = Wrote" "hasOnEvent d" "pendingEvents d = [t]"
    "delivered d = delivered (sdev sv)"
  shows "\<exists>now. outbox_of (after_call h (runHooks d) sv) = outbox_of sv
    @ (''nrs.ledger.transfers.v1'', transfer_payload t) # alerts_of (fst (Observe now t (sthresh sv)))"
proof -
  have hooks: "drop (length (delivered (sdev sv))) (delivered (runHooks d))
      = (if pendingChange d \<and> hasOnChange d then [OnChange] else []) @ [OnEvent t]"
    using assms(2-4) by (simp add: runHooks_def)
  have "sthresh (markDirty sv) = sthresh sv" for sv by (simp add: markDirty_def)
  then show ?thesis
    unfolding after_call_def hooks
    using outbox_emit [OF assms(1)] by (auto simp: run_hook_def)
qed

lemma createTransfer_event:
  assumes w: "\<And>n. hWrite h n = Wrote" and q: "quiet (sdev sv)"
    and ok: "createTransfer h (Some req) sv = ((201, b), sv')"
  obtains t now where "DebitAccountID t \<noteq> CreditAccountID t" "Amount t = trAmountKobo req"
    "map_of (transfers (sdev sv')) (tID t) = Some t" "\<not> Pending t"
    "map_of (transfers (sdev sv)) (tID t) = None"
    "outbox_of sv' = outbox_of sv @ (''nrs.ledger.transfers.v1'', transfer_payload t)
       # alerts_of (fst (Observe now t (sthresh sv)))"
proof -
  from ok obtain t0 sv1 where bt: "buildTransfer h req sv = (Inr t0, sv1)"
    by (auto simp: createTransfer_def split: prod.splits sum.splits)
  have sv1: "sdev sv1 = sdev sv" "outbox_of sv1 = outbox_of sv" "sthresh sv1 = sthresh sv"
    using bt by (auto simp: buildTransfer_def Let_def split: if_splits)
  have am: "Amount t0 = trAmountKobo req"
    using bt by (auto simp: buildTransfer_def Let_def split: if_splits sum.splits)
  obtain r d where tb: "transfer_body (now_str h sv1) t0 (sdev sv1) = (r, d)" by fastforce
  from ok bt tb have res: "writeTransferResult (tID t0) r = (201, b)"
    and sv': "sv' = after_call h (runHooks d) (tick 1 sv1)"
    by (auto simp: createTransfer_def Transfer_def)
  from res have "Code r = OK" by (auto simp: writeTransferResult_def split: ResultCode.splits)
  with transfer_body_cases [OF tb] obtain dr cr where
    v: "validateParties (sdev sv1) t0 = Inr (dr, cr)" "map_of (transfers (sdev sv1)) (tID t0) = None"
    and d: "d = (let t' = t0\<lparr>tCreatedAt := now_str h sv1, Pending := False\<rparr>
               in eventLocked t' (changedLocked (put_transfer (tID t0) t'
                   (upd_account (CreditAccountID t0)
                      (\<lambda>a. a\<lparr>CreditsPosted := CreditsPosted a + Amount t0\<rparr>)
                      (upd_account (DebitAccountID t0)
                        (\<lambda>a. a\<lparr>DebitsPosted := DebitsPosted a + Amount t0\<rparr>) (sdev sv1))))))"
    by auto
  let ?t = "t0\<lparr>tCreatedAt := now_str h sv1, Pending := False\<rparr>"
  have d_props: "hasOnEvent d" "pendingEvents d = [?t]" "delivered d = delivered (sdev (tick 1 sv1))"
    "transfers d = kv_put (tID t0) ?t (transfers (sdev sv1))"
    using q sv1 by (simp_all add: d quiet_def eventLocked_def changedLocked_def put_transfer_def Let_def)
  from outbox_after_one_event [OF w d_props(1-3)] obtain now where
    "outbox_of sv' = outbox_of sv @ (''nrs.ledger.transfers.v1'', transfer_payload ?t)
       # alerts_of (fst (Observe now ?t (sthresh sv)))"
    by (auto simp: sv' sv1)
  then show ?thesis
    using that [of ?t now] validateParties_Inr(2) [OF v(1)] am v(2) sv1 d_props(4) by (simp add: sv')
qed

section \<open>Safety of the interface\<close>

lemma resolve_safe:
  assumes "ledger_inv (sdev sv)" "\<exists>r d. rd = Some (r, d) \<and> ledger_inv d"
    and "resolve_response h i rd sv = ((st, b), sv')"
  shows "ledger_inv (sdev sv') \<and> b \<noteq> Aborted"
  using assms by (auto simp: resolve_response_def writeTransferResult_def)

lemma two_phase_total:
  assumes inv: "ledger_inv s"
  shows "\<exists>r d. PostPending now_s i am code s = Some (r, d) \<and> ledger_inv d"
    and "\<exists>r d. PostPendingAs now_s i p am code s = Some (r, d) \<and> ledger_inv d"
    and "\<exists>r d. VoidPending now_s i code s = Some (r, d) \<and> ledger_inv d"
proof -
  from post_pending_total(1) [OF inv] obtain r d where
    "post_pending_body now_s i am code s = Some (r, d)" by blast
  with post_pending_body_inv [OF inv this]
  show "\<exists>r d. PostPending now_s i am code s = Some (r, d) \<and> ledger_inv d"
    by (simp add: PostPending_def)
  from post_pending_total(2) [OF inv] obtain r d where
    "post_pending_as_body now_s i p am code s = Some (r, d)" by blast
  with post_pending_as_body_inv [OF inv this]
  show "\<exists>r d. PostPendingAs now_s i p am code s = Some (r, d) \<and> ledger_inv d"
    by (simp add: PostPendingAs_def)
  from post_pending_total(3) [OF inv] obtain r d where
    "void_pending_body now_s i code s = Some (r, d)" by blast
  with void_pending_body_inv [OF inv this]
  show "\<exists>r d. VoidPending now_s i code s = Some (r, d) \<and> ledger_inv d"
    by (simp add: VoidPending_def)
qed

lemma buildTransfer_frame:
  assumes "buildTransfer h q sv = (r, sv1)"
  shows "sdev sv1 = sdev sv" "r = Inr t \<Longrightarrow> \<not> Resolved t"
  using assms by (auto simp: buildTransfer_def Let_def split: if_splits sum.splits)

lemma createAccounts_safe:
  assumes inv: "ledger_inv (sdev sv)" and run: "createAccounts h q sv = ((st, b), sv')"
  shows "ledger_inv (sdev sv') \<and> b \<noteq> Aborted"
proof (cases q)
  case None
  with assms show ?thesis by (auto simp: createAccounts_def)
next
  case (Some req)
  show ?thesis
  proof (cases "account_id req sv")
    case (Inl e)
    with assms Some show ?thesis by (auto simp: createAccounts_def)
  next
    case (Inr isv)
    obtain i sv1 where isv: "isv = (i, sv1)" by (cases isv)
    have inv1: "ledger_inv (sdev sv1)"
      using Inr inv isv by (auto simp: account_id_def NextSerial_def Let_def ledger_inv_def
          split: if_splits sum.splits)
    let ?a = "\<lparr>aID = i, aLedger = caNamespace req,
                    aCode = (if caCode req = 0 then 1 else caCode req), aFlags = caFlags req,
                    aUserData = caUserData req, DebitsPending = 0, DebitsPosted = 0,
                    CreditsPending = 0, CreditsPosted = 0, aCreatedAt = ''''\<rparr>"
    obtain rs d where c: "CreateAccounts (\<lambda>_. now_str h sv1) [?a] (sdev sv1) = (rs, d)" by fastforce
    have "ledger_inv d"
      by (rule CreateAccounts_inv [OF inv1 _ c]) (simp add: zero_balances_def)
    moreover from run Some Inr isv c have "sdev sv' = d" "b \<noteq> Aborted"
      by (auto simp: createAccounts_def Let_def)
    ultimately show ?thesis by simp
  qed
qed

lemma createTransfer_safe:
  assumes inv: "ledger_inv (sdev sv)" and run: "createTransfer h q sv = ((st, b), sv')"
  shows "ledger_inv (sdev sv') \<and> b \<noteq> Aborted"
proof (cases q)
  case None
  with inv run show ?thesis by (auto simp: createTransfer_def)
next
  case (Some req)
  obtain tr sv1 where bt: "buildTransfer h req sv = (tr, sv1)" by fastforce
  note fr = buildTransfer_frame [OF bt]
  show ?thesis
  proof (cases tr)
    case (Inl e)
    with inv run Some bt fr show ?thesis by (auto simp: createTransfer_def)
  next
    case (Inr t)
    obtain r1 d where t: "Transfer (now_str h sv1) t (sdev sv1) = (r1, d)" by fastforce
    have "ledger_inv d" using Transfer_inv [OF _ fr(2) [OF Inr] t] inv fr(1) by simp
    with run Some bt Inr t show ?thesis
      by (auto simp: createTransfer_def writeTransferResult_def)
  qed
qed

lemma createPending_safe:
  assumes inv: "ledger_inv (sdev sv)" and run: "createPending h q sv = ((st, b), sv')"
  shows "ledger_inv (sdev sv') \<and> b \<noteq> Aborted"
proof (cases q)
  case None
  with inv run show ?thesis by (auto simp: createPending_def)
next
  case (Some q0)
  let ?req = "if trCode q0 = 0 then q0\<lparr>trCode := CodeAuthorise\<rparr> else q0"
  obtain tr sv1 where bt: "buildTransfer h ?req sv = (tr, sv1)" by fastforce
  note fr = buildTransfer_frame [OF bt]
  show ?thesis
  proof (cases tr)
    case (Inl e)
    with inv run Some bt fr show ?thesis unfolding createPending_def Let_def by auto
  next
    case (Inr t)
    obtain r1 d where t: "PendingTransfer (now_str h sv1) (hClk h (Suc (stick sv1))) t (sdev sv1)
        = (r1, d)" by fastforce
    have "ledger_inv d" using PendingTransfer_inv [OF _ fr(2) [OF Inr] t] inv fr(1) by simp
    with run Some bt Inr t show ?thesis
      unfolding createPending_def Let_def writeTransferResult_def by auto
  qed
qed

lemma run_route_safe:
  assumes inv: "ledger_inv (sdev sv)" and run: "run_route h r sv = ((st, b), sv')"
  shows "ledger_inv (sdev sv') \<and> b \<noteq> Aborted"
proof (cases r)
  case (RCreateAccount q)
  with createAccounts_safe [OF inv] run show ?thesis by (simp add: run_route_def)
next
  case (RTransfer q)
  with createTransfer_safe [OF inv] run show ?thesis by (simp add: run_route_def)
next
  case (RPending q)
  with createPending_safe [OF inv] run show ?thesis by (simp add: run_route_def)
next
  case (RPost i q)
  with inv run resolve_safe [OF inv two_phase_total(1) [OF inv]]
    resolve_safe [OF inv two_phase_total(2) [OF inv]] show ?thesis
    by (auto simp: run_route_def postPending_def Let_def split: sum.splits if_splits)
next
  case (RVoid i)
  with inv run resolve_safe [OF inv two_phase_total(3) [OF inv]] show ?thesis
    by (auto simp: run_route_def voidPending_def split: sum.splits)
qed (use inv run in \<open>auto simp: run_route_def listAccounts_def getBalance_def listTransfers_def
      countTransfers_def getTransfer_def split: sum.splits prod.splits if_splits\<close>)

text \<open>What a request went through when it reached its handler.\<close>

definition cleared :: "host \<Rightarrow> headers \<Rightarrow> string \<Rightarrow> route \<Rightarrow> server \<Rightarrow> bool" where
  "cleared h hdr body r sv \<longleftrightarrow>
     (\<exists>c. Middleware (hHmac h) (hDecClaims h) (hKeycloak h) (hEnv h) (hClk h (stick sv)) hdr = Inr c
       \<and> (\<forall>role. route_role r = Some role \<longrightarrow> HasRole c role)
       \<and> (\<forall>act. route_action r = Some act \<longrightarrow>
           fst (requireStepUp (hHmac h) (hDecTicket h) (hHash h) (hTicketKey h)
               (PROFILE (hEnv h)) (hClk h (Suc (stick sv))) (hClk h (Suc (Suc (stick sv)))) act c
               hdr body (stickets sv)) = None))"

lemma gated_cases:
  assumes "gated h hdr body c r sv = (resp, sv')"
  shows "sdev sv' = sdev sv \<and> snd resp \<noteq> Aborted \<or>
    (\<exists>sv1. run_route h r sv1 = (resp, sv') \<and> sdev sv1 = sdev sv
      \<and> (\<forall>act. route_action r = Some act \<longrightarrow>
           fst (requireStepUp (hHmac h) (hDecTicket h) (hHash h) (hTicketKey h)
               (PROFILE (hEnv h)) (hClk h (stick sv)) (hClk h (Suc (stick sv))) act c
               hdr body (stickets sv)) = None))"
proof (cases "route_action r")
  case None
  with assms show ?thesis by (auto simp: gated_def)
next
  case (Some act)
  obtain e tk where g: "requireStepUp (hHmac h) (hDecTicket h) (hHash h) (hTicketKey h)
      (PROFILE (hEnv h)) (hClk h (stick sv)) (hClk h (Suc (stick sv))) act c hdr body (stickets sv)
      = (e, tk)" by fastforce
  let ?sv = "tick 2 (sv\<lparr>stickets := tk\<rparr>)"
  show ?thesis
  proof (cases e)
    case None
    with assms Some g have "run_route h r ?sv = (resp, sv')" by (simp add: gated_def)
    with None Some g show ?thesis by (intro disjI2 exI [of _ ?sv]) simp
  next
    case (Some err)
    with assms \<open>route_action r = Some act\<close> g show ?thesis
      by (cases err) (auto simp: gated_def)
  qed
qed

lemma serve_cases:
  assumes "serve h hdr body r sv = (resp, sv')"
  shows "sdev sv' = sdev sv \<and> snd resp \<noteq> Aborted \<or>
    (\<exists>sv1. run_route h r sv1 = (resp, sv') \<and> sdev sv1 = sdev sv) \<and> cleared h hdr body r sv"
proof (cases "Middleware (hHmac h) (hDecClaims h) (hKeycloak h) (hEnv h) (hClk h (stick sv)) hdr")
  case (Inl e)
  with assms show ?thesis by (cases e) (auto simp: serve_def)
next
  case (Inr c)
  show ?thesis
  proof (cases "\<forall>role. route_role r = Some role \<longrightarrow> HasRole c role")
    case True
    with assms Inr have "gated h hdr body c r (tick 1 sv) = (resp, sv')"
      by (cases "route_role r") (auto simp: serve_def RequireRole_def)
    from gated_cases [OF this] Inr True show ?thesis by (auto simp: cleared_def)
  next
    case False
    then obtain role where role: "route_role r = Some role" "\<not> HasRole c role" by blast
    with assms Inr have "(403, Problem ''forbidden'') = resp" "tick 1 sv = sv'"
      by (simp_all add: serve_def RequireRole_def)
    then show ?thesis by auto
  qed
qed

lemma serve_safe:
  assumes "ledger_inv (sdev sv)" "serve h hdr body r sv = (resp, sv')"
  shows "ledger_inv (sdev sv') \<and> snd resp \<noteq> Aborted"
  using serve_cases [OF assms(2)]
proof (elim disjE conjE exE)
  fix sv1 assume "run_route h r sv1 = (resp, sv')" "sdev sv1 = sdev sv"
  with assms(1) run_route_safe [of sv1 h r "fst resp" "snd resp" sv'] show ?thesis by simp
qed (use assms(1) in simp)

lemma read_routes:
  assumes "route_role r = None"
  shows "snd (run_route h r sv) = sv"
  using assms by (cases r) (auto simp: route_role_def run_route_def)

lemma serve_guarded:
  assumes "serve h hdr body r sv = (resp, sv')" "sdev sv' \<noteq> sdev sv"
  shows "cleared h hdr body r sv \<and> route_role r \<noteq> None"
proof -
  from serve_cases [OF assms(1)] assms(2) obtain sv1 where
    sv1: "run_route h r sv1 = (resp, sv')" "sdev sv1 = sdev sv" and c: "cleared h hdr body r sv"
    by auto
  with assms(2) read_routes [of r h sv1] show ?thesis by auto
qed

end
