(* ===== verification/Dedup.thy ===== *)
theory Dedup
  imports Bus
begin

text \<open>
  Consumer-side deduplication, \<open>packages/events/bus/dedup.go\<close>. \<open>HandleKey\<close> is written against
  the \<open>ProcessedStore\<close> interface (a record of its operations); the locale \<open>processed_store\<close>
  states what an implementation promises and is interpreted on \<open>InprocProcessedStore\<close>.
\<close>

section \<open>The store of processed messages\<close>

record 'p processed_ops =
  ClaimOp :: "string \<Rightarrow> 'p \<Rightarrow> (string + bool) \<times> 'p"
  CompleteOp :: "string \<Rightarrow> 'p \<Rightarrow> string option \<times> 'p"
  ReleaseOp :: "string \<Rightarrow> 'p \<Rightarrow> string option \<times> 'p"
  SeenOp :: "string \<Rightarrow> 'p \<Rightarrow> string + bool"

record claim_rec =
  claimedAt :: instant
  completed :: bool
  completeAt :: instant

type_synonym inproc_store = "(string, claim_rec) kv"

definition NewInprocProcessedStore :: inproc_store where
  "NewInprocProcessedStore = []"

definition inproc_Claim :: "instant \<Rightarrow> string \<Rightarrow> inproc_store \<Rightarrow> (string + bool) \<times> inproc_store" where
  "inproc_Claim now key m = (case map_of m key of
       Some r \<Rightarrow> (Inr False, m)
     | None \<Rightarrow> (Inr True, kv_put key \<lparr>claimedAt = now, completed = False, completeAt = 0\<rparr> m))"

definition inproc_Complete :: "instant \<Rightarrow> string \<Rightarrow> inproc_store \<Rightarrow> string option \<times> inproc_store" where
  "inproc_Complete now key m = (case map_of m key of
       None \<Rightarrow> (None, m)
     | Some r \<Rightarrow> (None, kv_put key (r\<lparr>completed := True, completeAt := now\<rparr>) m))"

definition inproc_Release :: "string \<Rightarrow> inproc_store \<Rightarrow> string option \<times> inproc_store" where
  "inproc_Release key m = (None, kv_del key m)"

definition inproc_Seen :: "string \<Rightarrow> inproc_store \<Rightarrow> string + bool" where
  "inproc_Seen key m = Inr (map_of m key \<noteq> None)"

definition ReclaimStale :: "instant \<Rightarrow> inproc_store \<Rightarrow> nat \<times> inproc_store" where
  "ReclaimStale before m =
     (let stale = (\<lambda>p. \<not> completed (snd p) \<and> claimedAt (snd p) < before)
      in (length (filter stale m), filter (\<lambda>p. \<not> stale p) m))"

text \<open>The operations at a given clock reading.\<close>

definition inproc_ops :: "instant \<Rightarrow> inproc_store processed_ops" where
  "inproc_ops now = \<lparr>ClaimOp = inproc_Claim now, CompleteOp = inproc_Complete now,
     ReleaseOp = inproc_Release, SeenOp = inproc_Seen\<rparr>"

section \<open>The consumer\<close>

definition EventKey :: "string \<Rightarrow> 'd envelope \<Rightarrow> string" where
  "EventKey topic env = topic @ ''|'' @ eID env"

definition OffsetKey :: "string \<Rightarrow> int \<Rightarrow> int \<Rightarrow> string" where
  "OffsetKey topic part offset = topic @ ''|'' @ itoa part @ ''|'' @ itoa offset"

definition HandleKey ::
  "'p processed_ops \<Rightarrow> string \<Rightarrow> 'd envelope \<Rightarrow> ('d envelope \<Rightarrow> 's \<Rightarrow> string option \<times> 's)
     \<Rightarrow> 'p \<Rightarrow> 's \<Rightarrow> string option \<times> 'p \<times> 's" where
  "HandleKey st key env fn p s =
     (case SeenOp st key p of
        Inl e \<Rightarrow> (Some e, p, s)
      | Inr True \<Rightarrow> (None, p, s)
      | Inr False \<Rightarrow> (case ClaimOp st key p of
          (Inl e, p1) \<Rightarrow> (Some e, p1, s)
        | (Inr False, p1) \<Rightarrow> (None, p1, s)
        | (Inr True, p1) \<Rightarrow> (case fn env s of
            (Some e, s1) \<Rightarrow> (Some e, snd (ReleaseOp st key p1), s1)
          | (None, s1) \<Rightarrow> (let (r, p2) = CompleteOp st key p1 in (r, p2, s1)))))"

definition Handle ::
  "'p processed_ops \<Rightarrow> string \<Rightarrow> 'd envelope \<Rightarrow> ('d envelope \<Rightarrow> 's \<Rightarrow> string option \<times> 's)
     \<Rightarrow> 'p \<Rightarrow> 's \<Rightarrow> string option \<times> 'p \<times> 's" where
  "Handle st topic env fn p s = HandleKey st (EventKey topic env) env fn p s"

text \<open>\<open>Wrap\<close>: the handler it returns acts on the store and the world together.\<close>

definition Wrap ::
  "'p processed_ops \<Rightarrow> nat \<Rightarrow> string \<Rightarrow> ('d, 's) handler \<Rightarrow> ('d, 'p \<times> 's) handler" where
  "Wrap st wrap_code topic h = \<lparr>codePtr = wrap_code,
     run = (\<lambda>env ps. Handle st topic env (run h) (fst ps) (snd ps))\<rparr>"

section \<open>The contract of a processed store\<close>

text \<open>\<open>known p k\<close>: the key is claimed or completed; \<open>finished p k\<close>: it is completed.\<close>

locale processed_store =
  fixes st :: "'p processed_ops"
    and known :: "'p \<Rightarrow> string \<Rightarrow> bool"
    and finished :: "'p \<Rightarrow> string \<Rightarrow> bool"
  assumes seen: "SeenOp st k p = Inr b \<Longrightarrow> b \<longleftrightarrow> known p k"
    and claim_new: "ClaimOp st k p = (Inr True, p1) \<Longrightarrow>
          \<not> known p k \<and> known p1 k \<and> (\<forall>j. finished p1 j \<longleftrightarrow> finished p j)
          \<and> (\<forall>j. j \<noteq> k \<longrightarrow> (known p1 j \<longleftrightarrow> known p j))"
    and claim_dup: "ClaimOp st k p = (Inr False, p1) \<Longrightarrow> p1 = p"
    and claim_err: "ClaimOp st k p = (Inl e, p1) \<Longrightarrow> p1 = p"
    and complete: "CompleteOp st k p = (r, p1) \<Longrightarrow> known p k \<Longrightarrow>
          (\<forall>j. known p1 j \<longleftrightarrow> known p j) \<and> (\<forall>j. j \<noteq> k \<longrightarrow> (finished p1 j \<longleftrightarrow> finished p j))
          \<and> (r = None \<longrightarrow> finished p1 k)"
    and release: "ReleaseOp st k p = (r, p1) \<Longrightarrow> (\<forall>j. j \<noteq> k \<longrightarrow> (known p1 j \<longleftrightarrow> known p j)
          \<and> (finished p1 j \<longleftrightarrow> finished p j))"
    and finished_known: "finished p k \<Longrightarrow> known p k"
begin

text \<open>A known key is never handled again, and handling one never forgets a known key.\<close>

lemma handle_known:
  assumes "known p k" "HandleKey st k env fn p s = (r, p1, s1)"
  shows "s1 = s \<and> p1 = p"
  using assms seen [of k p]
  by (auto simp: HandleKey_def split: sum.splits bool.splits)

lemma handle_outcome:
  assumes "HandleKey st k env fn p s = (r, p1, s1)"
  obtains (idle) "s1 = s" "p1 = p"
  | (failed) e where "\<not> known p k" "fn env s = (Some e, s1)" "r = Some e"
      "\<forall>j. j \<noteq> k \<longrightarrow> (known p1 j \<longleftrightarrow> known p j) \<and> (finished p1 j \<longleftrightarrow> finished p j)"
  | (handled) "\<not> known p k" "fn env s = (None, s1)" "known p1 k"
      "\<forall>j. j \<noteq> k \<longrightarrow> (known p1 j \<longleftrightarrow> known p j) \<and> (finished p1 j \<longleftrightarrow> finished p j)"
proof (cases "SeenOp st k p = Inr False \<and> fst (ClaimOp st k p) = Inr True")
  case False
  with assms have "s1 = s \<and> p1 = p"
    by (auto simp: HandleKey_def dest: claim_dup claim_err split: sum.splits bool.splits prod.splits)
  with idle show ?thesis by blast
next
  case True
  then obtain p2 where c: "ClaimOp st k p = (Inr True, p2)" by (metis prod.collapse)
  note new = claim_new [OF c]
  show ?thesis
  proof (cases "fst (fn env s)")
    case None
    then obtain s2 where f: "fn env s = (None, s2)" by (metis prod.collapse)
    obtain r2 p3 where co: "CompleteOp st k p2 = (r2, p3)" by fastforce
    from assms True c f co have "s2 = s1" "p1 = p3" by (auto simp: HandleKey_def)
    with handled new f complete [OF co] show ?thesis by metis
  next
    case (Some e)
    then obtain s2 where f: "fn env s = (Some e, s2)" by (metis prod.collapse)
    from assms True c f have "s2 = s1" "r = Some e" "p1 = snd (ReleaseOp st k p2)"
      by (auto simp: HandleKey_def)
    with failed new f release [OF prod.collapse [symmetric], of k p2] show ?thesis by metis
  qed
qed

end

interpretation inproc: processed_store "inproc_ops now" "\<lambda>m k. map_of m k \<noteq> None"
  "\<lambda>m k. case map_of m k of None \<Rightarrow> False | Some r \<Rightarrow> completed r" for now
  by unfold_locales
    (auto simp: inproc_ops_def inproc_Seen_def inproc_Claim_def inproc_Complete_def
      inproc_Release_def split: option.splits if_splits)

section \<open>Runs of a consumer\<close>

text \<open>
  One delivery, a process that dies between claim and completion (its handler having run or
  not), and the sweep of stale claims. The world is the list of keys whose handler has taken
  effect.
\<close>

datatype consumer_op =
    Deliver instant string bool
  | Crash instant string bool
  | Reclaim instant

definition effect_fn :: "string \<Rightarrow> bool \<Rightarrow> 'd envelope \<Rightarrow> string list \<Rightarrow> string option \<times> string list" where
  "effect_fn key ok env effects =
     (if ok then (None, effects @ [key]) else (Some ''handler failed'', effects))"

fun consumer_step ::
  "'d envelope \<Rightarrow> consumer_op \<Rightarrow> inproc_store \<times> string list \<Rightarrow> inproc_store \<times> string list" where
  "consumer_step env (Deliver now key ok) (m, l) =
     snd (HandleKey (inproc_ops now) key env (effect_fn key ok) m l)"
| "consumer_step env (Crash now key took) (m, l) =
     (case inproc_Claim now key m of
        (Inr True, m1) \<Rightarrow> (m1, if took then l @ [key] else l)
      | (_, m1) \<Rightarrow> (m1, l))"
| "consumer_step env (Reclaim before) (m, l) = (snd (ReclaimStale before m), l)"

definition consumer_run ::
  "'d envelope \<Rightarrow> consumer_op list \<Rightarrow> inproc_store \<times> string list \<Rightarrow> inproc_store \<times> string list" where
  "consumer_run env ops ml = fold (consumer_step env) ops ml"

definition is_crash :: "consumer_op \<Rightarrow> bool" where
  "is_crash p = (case p of Crash t k r \<Rightarrow> True | _ \<Rightarrow> False)"

definition is_reclaim :: "consumer_op \<Rightarrow> bool" where
  "is_reclaim p = (case p of Reclaim t \<Rightarrow> True | _ \<Rightarrow> False)"

lemma kv_put_twice: "kv_put k v (kv_put k u m) = kv_put k v m"
  by (induction k u m rule: kv_put.induct) auto

lemma HandleKey_inproc:
  "HandleKey (inproc_ops now) key env (effect_fn key ok) m l =
     (if map_of m key \<noteq> None then (None, m, l)
      else if ok then (None, kv_put key \<lparr>claimedAt = now, completed = True, completeAt = now\<rparr> m, l @ [key])
      else (Some ''handler failed'', kv_del key (kv_put key
              \<lparr>claimedAt = now, completed = False, completeAt = 0\<rparr> m), l))"
  by (auto simp: HandleKey_def inproc_ops_def inproc_Seen_def inproc_Claim_def inproc_Complete_def
      inproc_Release_def effect_fn_def kv_put_twice Let_def split: option.split)

definition claims_hold :: "inproc_store \<times> string list \<Rightarrow> bool" where
  "claims_hold ml \<longleftrightarrow> distinct (snd ml) \<and> (\<forall>k \<in> set (snd ml). map_of (fst ml) k \<noteq> None)"

definition completions_hold :: "inproc_store \<times> string list \<Rightarrow> bool" where
  "completions_hold ml \<longleftrightarrow> distinct (snd ml)
     \<and> (\<forall>k \<in> set (snd ml). \<exists>r. map_of (fst ml) k = Some r \<and> completed r)"

lemma step_claims:
  "claims_hold ml \<Longrightarrow> \<not> is_reclaim p \<Longrightarrow> claims_hold (consumer_step env p ml)"
proof (cases p)
  case (Deliver t k ok)
  assume "claims_hold ml"
  then show ?thesis
    using Deliver by (cases ml) (auto simp: HandleKey_inproc claims_hold_def)
next
  case (Crash t k took)
  assume "claims_hold ml"
  then show ?thesis
    using Crash by (cases ml) (auto simp: inproc_Claim_def claims_hold_def split: option.splits)
qed (simp add: is_reclaim_def)

lemma map_of_unstale:
  "map_of m k = Some r \<Longrightarrow> completed r \<Longrightarrow> map_of (snd (ReclaimStale t m)) k = Some r"
  by (induction m) (auto simp: ReclaimStale_def Let_def split: if_splits)

lemma step_completions:
  "completions_hold ml \<Longrightarrow> \<not> is_crash p \<Longrightarrow> completions_hold (consumer_step env p ml)"
proof (cases p)
  case (Deliver t k ok)
  assume "completions_hold ml"
  then show ?thesis
    using Deliver by (cases ml) (auto simp: HandleKey_inproc completions_hold_def)
next
  case (Reclaim t)
  assume "completions_hold ml"
  moreover obtain m l where ml: "ml = (m, l)" by (cases ml)
  ultimately have "distinct l" and "\<forall>k \<in> set l. \<exists>r. map_of m k = Some r \<and> completed r"
    by (simp_all add: completions_hold_def)
  then have "\<forall>k \<in> set l. \<exists>r. map_of (snd (ReclaimStale t m)) k = Some r \<and> completed r"
    by (meson map_of_unstale)
  with \<open>distinct l\<close> Reclaim ml show ?thesis by (simp add: completions_hold_def)
qed (simp add: is_crash_def)

lemma run_distinct:
  assumes "list_all (\<lambda>p. \<not> is_reclaim p) ops \<or> list_all (\<lambda>p. \<not> is_crash p) ops"
  shows "distinct (snd (consumer_run env ops ([], [])))"
proof -
  have "list_all (\<lambda>p. \<not> is_reclaim p) ops \<Longrightarrow> claims_hold ml \<Longrightarrow> claims_hold (consumer_run env ops ml)"
    for ml
    unfolding consumer_run_def by (induction ops arbitrary: ml) (auto simp: step_claims)
  moreover have "list_all (\<lambda>p. \<not> is_crash p) ops \<Longrightarrow> completions_hold ml \<Longrightarrow>
      completions_hold (consumer_run env ops ml)" for ml
    unfolding consumer_run_def by (induction ops arbitrary: ml) (auto simp: step_completions)
  ultimately show ?thesis
    using assms by (auto simp: claims_hold_def completions_hold_def)
qed

end
