(* ===== verification/DocStore.thy ===== *)
theory DocStore
  imports Prelude
begin

text \<open>
  The embedded document store and append-only log of \<open>packages/events/store/store.go\<close>. A document
  is a value of the type \<open>'j\<close> that stands for its JSON text; a collection is the map from id to
  document, in memory and, once persisted, on disk. Which of the store's file writes fail is
  given by the fault plan carried in the state (the n-th write fails when the plan says so).
\<close>

section \<open>State\<close>

type_synonym 'j coll = "(string, 'j) kv"

datatype fault = NoFault | WriteFault string | RenameFault string

record 'j docstore =
  hasDir :: bool
  cols :: "(string, 'j coll) kv"
  disk :: "(string, 'j coll) kv"
  writes :: nat
  plan :: "nat \<Rightarrow> fault"

definition ErrNotFound :: string where "ErrNotFound = ''not found''"

text \<open>\<open>Open\<close> on a directory whose files all load; without a directory the store is empty.\<close>

definition Open :: "bool \<Rightarrow> (string, 'j coll) kv \<Rightarrow> (nat \<Rightarrow> fault) \<Rightarrow> 'j docstore" where
  "Open has files p = \<lparr>hasDir = has, cols = (if has then files else []), disk = files,
     writes = 0, plan = p\<rparr>"

definition coll_of :: "string \<Rightarrow> 'j docstore \<Rightarrow> 'j coll" where
  "coll_of c s = (case map_of (cols s) c of None \<Rightarrow> [] | Some m \<Rightarrow> m)"

definition set_coll :: "string \<Rightarrow> 'j coll \<Rightarrow> 'j docstore \<Rightarrow> 'j docstore" where
  "set_coll c m s = s\<lparr>cols := kv_put c m (cols s)\<rparr>"

definition persistLocked :: "string \<Rightarrow> 'j docstore \<Rightarrow> string option \<times> 'j docstore" where
  "persistLocked c s =
     (if \<not> hasDir s then (None, s)
      else
       (let s1 = s\<lparr>writes := Suc (writes s)\<rparr>
        in case plan s (writes s) of
             WriteFault e \<Rightarrow> (Some e, s1)
           | RenameFault e \<Rightarrow> (Some e, s1)
           | NoFault \<Rightarrow> (None, s1\<lparr>disk := kv_put c (coll_of c s) (disk s)\<rparr>)))"

section \<open>Operations\<close>

definition Put :: "string \<Rightarrow> string \<Rightarrow> 'j \<Rightarrow> 'j docstore \<Rightarrow> string option \<times> 'j docstore" where
  "Put c i v s = persistLocked c (set_coll c (kv_put i v (coll_of c s)) s)"

definition PutIfAbsent ::
  "string \<Rightarrow> string \<Rightarrow> 'j \<Rightarrow> 'j docstore \<Rightarrow> (bool \<times> string option) \<times> 'j docstore" where
  "PutIfAbsent c i v s =
     (if map_of (coll_of c s) i \<noteq> None then ((False, None), set_coll c (coll_of c s) s)
      else (let (e, s1) = persistLocked c (set_coll c (kv_put i v (coll_of c s)) s)
            in ((True, e), s1)))"

definition GetRaw :: "string \<Rightarrow> string \<Rightarrow> 'j docstore \<Rightarrow> string + 'j" where
  "GetRaw c i s = (case map_of (coll_of c s) i of None \<Rightarrow> Inl ErrNotFound | Some v \<Rightarrow> Inr v)"

text \<open>\<open>Get\<close> decodes into the caller's type: \<open>dec\<close> is \<open>json.Unmarshal\<close> there.\<close>

definition Get :: "('j \<Rightarrow> string + 'v) \<Rightarrow> string \<Rightarrow> string \<Rightarrow> 'j docstore \<Rightarrow> string + 'v" where
  "Get dec c i s = (case map_of (coll_of c s) i of None \<Rightarrow> Inl ErrNotFound | Some v \<Rightarrow> dec v)"

definition Delete :: "string \<Rightarrow> string \<Rightarrow> 'j docstore \<Rightarrow> string option \<times> 'j docstore" where
  "Delete c i s =
     (if map_of (coll_of c s) i = None then (Some ErrNotFound, s)
      else persistLocked c (set_coll c (kv_del i (coll_of c s)) s))"

definition ListDocs :: "string \<Rightarrow> 'j docstore \<Rightarrow> 'j list" where
  "ListDocs c s = map snd (coll_of c s)"

text \<open>\<open>ListInto\<close>: one document that does not decode makes the whole call fail.\<close>

fun decode_all :: "('j \<Rightarrow> string + 'v) \<Rightarrow> 'j list \<Rightarrow> string + 'v list" where
  "decode_all dec [] = Inr []"
| "decode_all dec (j # js) = (case dec j of Inl e \<Rightarrow> Inl e
     | Inr v \<Rightarrow> (case decode_all dec js of Inl e \<Rightarrow> Inl e | Inr vs \<Rightarrow> Inr (v # vs)))"

definition ListInto :: "('j \<Rightarrow> string + 'v) \<Rightarrow> string \<Rightarrow> 'j docstore \<Rightarrow> string + 'v list" where
  "ListInto dec c s = decode_all dec (ListDocs c s)"

definition Update ::
  "string \<Rightarrow> string \<Rightarrow> ('j option \<Rightarrow> string + 'j) \<Rightarrow> 'j docstore \<Rightarrow> string option \<times> 'j docstore" where
  "Update c i fn s = (case fn (map_of (coll_of c s) i) of
       Inl e \<Rightarrow> (Some e, s)
     | Inr next \<Rightarrow> persistLocked c (set_coll c (kv_put i next (coll_of c s)) s))"

section \<open>The append-only log\<close>

text \<open>A line is \<open>None\<close> when it does not parse as a record with a sequence number.\<close>

record 'j log_line =
  lSeq :: int
  lBody :: 'j

record 'j append_log =
  lseq :: int
  llines :: "'j log_line option list"

datatype append_fault = AppendOK | OpenFault string | AppendWriteFault string | SyncFault string

definition OpenAppendLog :: "'j log_line option list \<Rightarrow> 'j append_log" where
  "OpenAppendLog ls = \<lparr>lseq = foldl (\<lambda>m l. case l of None \<Rightarrow> m
       | Some r \<Rightarrow> if lSeq r > m then lSeq r else m) 0 ls, llines = ls\<rparr>"

text \<open>The record's own \<open>seq\<close> field is overwritten by the log's next number.\<close>

definition Log_Append ::
  "append_fault \<Rightarrow> 'j \<Rightarrow> 'j append_log \<Rightarrow> (int \<times> string option) \<times> 'j append_log" where
  "Log_Append f v l =
     (let n = lseq l + 1;
          l1 = l\<lparr>lseq := n\<rparr>;
          l2 = l1\<lparr>llines := llines l @ [Some \<lparr>lSeq = n, lBody = v\<rparr>]\<rparr>
      in case f of
           OpenFault e \<Rightarrow> ((0, Some e), l1)
         | AppendWriteFault e \<Rightarrow> ((0, Some e), l1)
         | SyncFault e \<Rightarrow> ((n, Some e), l2)
         | AppendOK \<Rightarrow> ((n, None), l2))"

definition ReadAll :: "'j append_log \<Rightarrow> 'j log_line option list" where
  "ReadAll l = llines l"

section \<open>What the operations do\<close>

lemma coll_of_set [simp]: "coll_of c (set_coll c' m s) = (if c = c' then m else coll_of c s)"
  by (simp add: coll_of_def set_coll_def)

lemma persist_frame:
  assumes "persistLocked c s = (e, s1)"
  shows "cols s1 = cols s" "coll_of c' s1 = coll_of c' s" "hasDir s1 = hasDir s" "plan s1 = plan s"
  using assms by (auto simp: persistLocked_def Let_def coll_of_def split: if_splits fault.splits)

text \<open>An accepted write is on disk.\<close>

lemma persist_ok:
  assumes "persistLocked c s = (None, s1)" "hasDir s"
  shows "disk s1 = kv_put c (coll_of c s) (disk s)"
  using assms by (auto simp: persistLocked_def Let_def split: fault.splits)

lemma persist_err:
  assumes "persistLocked c s = (Some e, s1)"
  shows "disk s1 = disk s"
  using assms by (auto simp: persistLocked_def Let_def split: if_splits fault.splits)

definition lookup :: "string \<Rightarrow> string \<Rightarrow> 'j docstore \<Rightarrow> 'j option" where
  "lookup c i s = map_of (coll_of c s) i"

lemma Put_lookup:
  "Put c i v s = (e, s1) \<Longrightarrow>
   lookup c' i' s1 = (if c' = c \<and> i' = i then Some v else lookup c' i' s)"
  using persist_frame(2) by (fastforce simp: Put_def lookup_def)

lemma Delete_lookup:
  "Delete c i s = (e, s1) \<Longrightarrow> lookup c' i' s1 = (if c' = c \<and> i' = i then None else lookup c' i' s)"
  using persist_frame(2)
  by (fastforce simp: Delete_def lookup_def split: if_splits)

lemma PutIfAbsent_lookup:
  "PutIfAbsent c i v s = ((ins, e), s1) \<Longrightarrow>
   (ins \<longleftrightarrow> lookup c i s = None) \<and>
   lookup c' i' s1 = (if ins \<and> c' = c \<and> i' = i then Some v else lookup c' i' s)"
  using persist_frame(2) [of c "set_coll c (kv_put i v (coll_of c s)) s"]
  by (cases "map_of (coll_of c s) i")
    (auto simp: PutIfAbsent_def lookup_def Let_def split: prod.splits)

text \<open>The disk agrees with memory on every collection: true after opening, kept by every write
  that reports success.\<close>

definition synced :: "'j docstore \<Rightarrow> bool" where
  "synced s \<longleftrightarrow> hasDir s \<and> (\<forall>c. coll_of c s = (case map_of (disk s) c of None \<Rightarrow> [] | Some m \<Rightarrow> m))"

lemma synced_open: "synced (Open True files p)"
  by (simp add: synced_def Open_def coll_of_def)

lemma synced_persist:
  assumes "synced s" "persistLocked c (set_coll c m s) = (None, s1)"
  shows "synced s1"
proof -
  have d: "hasDir (set_coll c m s)" using assms(1) by (simp add: synced_def set_coll_def)
  have "disk s1 = kv_put c m (disk s)"
    using persist_ok [OF assms(2) d] by (simp add: set_coll_def coll_of_def)
  moreover have "coll_of c' s1 = (if c' = c then m else coll_of c' s)" for c'
    using persist_frame(2) [OF assms(2)] by simp
  moreover have "hasDir s1" using persist_frame(3) [OF assms(2)] d by simp
  ultimately show ?thesis using assms(1) by (simp add: synced_def)
qed

lemma synced_Put: "synced s \<Longrightarrow> Put c i v s = (None, s1) \<Longrightarrow> synced s1"
  unfolding Put_def by (rule synced_persist)

lemma synced_reopen:
  "synced s \<Longrightarrow> lookup c i (Open True (disk s) p) = lookup c i s"
  by (simp add: synced_def lookup_def Open_def coll_of_def)

section \<open>The interface its clients use\<close>

locale doc_store =
  fixes put :: "string \<Rightarrow> string \<Rightarrow> 'j \<Rightarrow> 's \<Rightarrow> string option \<times> 's"
    and look :: "string \<Rightarrow> string \<Rightarrow> 's \<Rightarrow> 'j option"
  assumes look_put: "put c i v s = (e, s1) \<Longrightarrow>
    look c' i' s1 = (if c' = c \<and> i' = i then Some v else look c' i' s)"
begin

text \<open>Writing a list of documents, as far as the first failing write.\<close>

fun put_list :: "string \<Rightarrow> (string \<times> 'j) list \<Rightarrow> 's \<Rightarrow> string option \<times> 's" where
  "put_list c [] s = (None, s)"
| "put_list c ((i, v) # ps) s =
     (case put c i v s of (Some e, s1) \<Rightarrow> (Some e, s1) | (None, s1) \<Rightarrow> put_list c ps s1)"

lemma put_list_look:
  "put_list c ps s = (None, s1) \<Longrightarrow> distinct (map fst ps) \<Longrightarrow>
   look c' i' s1 = (if c' = c then (case map_of ps i' of Some v \<Rightarrow> Some v | None \<Rightarrow> look c i' s)
                    else look c' i' s)"
proof (induction ps arbitrary: s)
  case Nil
  then show ?case by simp
next
  case (Cons p ps)
  obtain i v where p: "p = (i, v)" by (cases p)
  obtain e s2 where u: "put c i v s = (e, s2)" by fastforce
  from Cons.prems p u have "e = None" and r: "put_list c ps s2 = (None, s1)"
    by (auto split: option.splits)
  have n: "map_of ps i = None" using Cons.prems(2) p by (simp add: map_of_eq_None_iff)
  have d: "distinct (map fst ps)" using Cons.prems(2) by simp
  show ?case
    using Cons.IH [OF r d] look_put [OF u, of c' i'] look_put [OF u, of c i'] p n
    by (cases "map_of ps i'") auto
qed

text \<open>How the documents of a collection change: \<open>K\<close> says which change of one document is allowed.\<close>

definition evolves :: "('j \<Rightarrow> 'j \<Rightarrow> bool) \<Rightarrow> string \<Rightarrow> 's \<Rightarrow> 's \<Rightarrow> bool" where
  "evolves K c s t \<longleftrightarrow> (\<forall>i d. look c i s = Some d \<longrightarrow> (\<exists>d'. look c i t = Some d' \<and> K d d'))"

lemma evolves_refl: "reflp K \<Longrightarrow> evolves K c s s"
  by (auto simp: evolves_def reflp_def)

lemma evolves_trans: "transp K \<Longrightarrow> evolves K c s t \<Longrightarrow> evolves K c t u \<Longrightarrow> evolves K c s u"
  unfolding evolves_def transp_def by meson

lemma evolves_other: "reflp K \<Longrightarrow> put c' i v s = (e, t) \<Longrightarrow> c' \<noteq> c \<Longrightarrow> evolves K c s t"
  by (auto simp: evolves_def look_put reflp_def)

lemma evolves_put:
  "reflp K \<Longrightarrow> put c i v s = (e, t) \<Longrightarrow> (\<And>d. look c i s = Some d \<Longrightarrow> K d v) \<Longrightarrow> evolves K c s t"
  by (auto simp: evolves_def look_put reflp_def)

end

interpretation ds: doc_store Put lookup
  by unfold_locales (rule Put_lookup)

section \<open>A store whose writes succeed\<close>

definition fault_free :: "'j docstore \<Rightarrow> bool" where
  "fault_free s \<longleftrightarrow> (\<forall>n. plan s n = NoFault)"

definition written :: "string \<Rightarrow> string \<Rightarrow> 'j \<Rightarrow> 'j docstore \<Rightarrow> 'j docstore" where
  "written c i v s = snd (Put c i v s)"

lemma Put_fault_free: "fault_free s \<Longrightarrow> Put c i v s = (None, written c i v s)"
  by (simp add: fault_free_def written_def Put_def persistLocked_def set_coll_def Let_def)

lemma fault_free_written [simp]: "fault_free (written c i v s) \<longleftrightarrow> fault_free s"
proof -
  obtain e s1 where p: "Put c i v s = (e, s1)" by fastforce
  then have "plan s1 = plan s"
    using persist_frame(4) [of c "set_coll c (kv_put i v (coll_of c s)) s"]
    by (simp add: Put_def set_coll_def)
  with p show ?thesis by (simp add: fault_free_def written_def)
qed

lemma coll_of_written [simp]:
  "coll_of c' (written c i v s) = (if c = c' then kv_put i v (coll_of c s) else coll_of c' s)"
proof -
  obtain e s1 where p: "Put c i v s = (e, s1)" by fastforce
  then show ?thesis
    using persist_frame(2) [of c "set_coll c (kv_put i v (coll_of c s)) s" e s1 c']
    by (simp add: written_def Put_def)
qed

lemma lookup_written [simp]:
  "lookup c' i' (written c i v s) = (if c' = c \<and> i' = i then Some v else lookup c' i' s)"
  by (auto simp: lookup_def)

lemma decode_all_ok:
  "(\<And>j. j \<in> set js \<Longrightarrow> dec j = Inr (f j)) \<Longrightarrow> decode_all dec js = Inr (map f js)"
  by (induction js) auto

lemma decode_all_mem:
  "decode_all dec js = Inr vs \<Longrightarrow> v \<in> set vs \<longleftrightarrow> (\<exists>j \<in> set js. dec j = Inr v)"
  by (induction js arbitrary: vs) (auto split: sum.splits)

definition colls_ok :: "'j docstore \<Rightarrow> bool" where
  "colls_ok s \<longleftrightarrow> (\<forall>c. kv_ok (coll_of c s))"

lemma colls_ok_written [simp, intro]: "colls_ok s \<Longrightarrow> colls_ok (written c i v s)"
  by (simp add: colls_ok_def)

lemma mem_ListDocs: "colls_ok s \<Longrightarrow> d \<in> set (ListDocs c s) \<longleftrightarrow> (\<exists>i. lookup c i s = Some d)"
  using kv_vals_iff [of "coll_of c s" d] by (simp add: colls_ok_def ListDocs_def lookup_def)

end
