(* ===== verification/Demo.thy ===== *)
theory Demo
  imports MoneyAdapter LedgerApi Dedup DocStore
begin

text \<open>Concrete accounts, transfers and reachable ledger states on which the properties are
  instantiated.\<close>

definition d_acct :: "u64 \<Rightarrow> u16 \<Rightarrow> account" where
  "d_acct n fl = \<lparr>aID = MkID 100 n, aLedger = 100, aCode = 1, aFlags = fl, aUserData = '''',
     DebitsPending = 0, DebitsPosted = 0, CreditsPending = 0, CreditsPosted = 0, aCreatedAt = ''''\<rparr>"

definition d_tr :: "u64 \<Rightarrow> u64 \<Rightarrow> u64 \<Rightarrow> u64 \<Rightarrow> transfer" where
  "d_tr n d c am = \<lparr>tID = MkID 0 n, DebitAccountID = MkID 100 d, CreditAccountID = MkID 100 c,
     Amount = am, tLedger = 100, tCode = 1, Pending = False, PendingID = MkID 0 0, Resolved = False,
     tUserData = '''', tCreatedAt = '''', TimeoutSeconds = 60, ExpiresAt = ''''\<rparr>"

text \<open>Two accounts; then a pending transfer of 500 kobo between them; then its capture of 300.\<close>

definition d_s1 :: dev where
  "d_s1 = snd (CreateAccounts (\<lambda>_. ''t0'') [d_acct 1 0, d_acct 2 0] NewDevClient)"

definition d_s2 :: dev where
  "d_s2 = snd (PendingTransfer ''t1'' 0 (d_tr 7 1 2 500) d_s1)"

definition d_s3 :: dev where
  "d_s3 = snd (the (PostPending ''t2'' (MkID 0 7) 300 0 d_s2))"

text \<open>Their values, used when a later example is evaluated.\<close>

definition d_bal :: "u64 \<Rightarrow> u16 \<Rightarrow> u64 \<Rightarrow> u64 \<Rightarrow> u64 \<Rightarrow> u64 \<Rightarrow> tbid \<times> account" where
  "d_bal n fl dp dd cp cc = (MkID 100 n, (d_acct n fl)\<lparr>aCreatedAt := ''t0'', DebitsPending := dp, DebitsPosted := dd,
     CreditsPending := cp, CreditsPosted := cc\<rparr>)"

definition d_dev :: "(tbid \<times> account) list \<Rightarrow> transfer list \<Rightarrow> u64 \<Rightarrow> dev" where
  "d_dev bs ts n = \<lparr>accounts = bs, transfers = map (\<lambda>t. (tID t, t)) ts, nextSer = [(100, n)], hasOnChange = False,
     hasOnEvent = False, pendingChange = False, pendingEvents = [], delivered = []\<rparr>"

lemma d_s1_value [code]: "d_s1 = d_dev [d_bal 1 0 0 0 0 0, d_bal 2 0 0 0 0 0] [] 2"
  by code_simp

lemma d_s2_value [code]: "d_s2 = d_dev [d_bal 1 0 500 0 0 0, d_bal 2 0 0 0 500 0]
    [(d_tr 7 1 2 500)\<lparr>Pending := True, tCreatedAt := ''t1'', ExpiresAt := ''1970-01-01T00:01:00Z''\<rparr>] 2"
  by code_simp

lemma d_s3_value [code]: "d_s3 = d_dev [d_bal 1 0 0 300 0 0, d_bal 2 0 0 0 0 300]
    [(d_tr 7 1 2 300)\<lparr>PendingID := MkID 0 7, tCreatedAt := ''t2'', TimeoutSeconds := 0\<rparr>] 2"
  by code_simp

lemma d_s1_reachable: "reachable d_s1"
  unfolding d_s1_def
  by (rule reachable.step [OF reachable.start, where p = "OpCreate (\<lambda>_. ''t0'') [d_acct 1 0, d_acct 2 0]"])
    (simp_all add: zero_balances_def d_acct_def)

lemma d_s2_reachable: "reachable d_s2"
  unfolding d_s2_def
  by (rule reachable.step [OF d_s1_reachable, where p = "OpPending ''t1'' 0 (d_tr 7 1 2 500)"])
    (simp_all add: d_tr_def)

lemma d_eval:
  "fst (the (PostPending ''t2'' (MkID 0 7) 300 0 d_s2)) = res OK"
  "PostPending ''t2'' (MkID 0 7) 300 0 d_s2 \<noteq> None"
  by code_simp+

lemma d_s3_reachable: "reachable d_s3"
  unfolding d_s3_def
  by (rule reachable.step [OF d_s2_reachable, where p = "OpPost ''t2'' (MkID 0 7) 300 0"])
    (use d_eval(2) in auto)

text \<open>A third account that must not spend more than it has: it receives 100 kobo, then spends
  them; and one that spends 100 kobo against a reserved credit.\<close>

definition d_f0 :: dev where
  "d_f0 = snd (CreateAccounts (\<lambda>_. ''t0'') [d_acct 1 0, d_acct 2 0, d_acct 3 1] NewDevClient)"

definition d_f1 :: dev where "d_f1 = snd (Transfer ''t1'' (d_tr 20 1 3 100) d_f0)"
definition d_f2 :: dev where "d_f2 = snd (Transfer ''t2'' (d_tr 22 3 2 100) d_f1)"
definition d_v2 :: dev where "d_v2 = snd (PendingTransfer ''t1'' 0 (d_tr 21 1 3 100) d_f0)"
definition d_v3 :: dev where "d_v3 = snd (Transfer ''t2'' (d_tr 22 3 2 100) d_v2)"

lemma d_f0_value [code]: "d_f0 = d_dev [d_bal 1 0 0 0 0 0, d_bal 2 0 0 0 0 0, d_bal 3 1 0 0 0 0] [] 3"
  by code_simp

lemma d_f1_value [code]: "d_f1 = d_dev [d_bal 1 0 0 100 0 0, d_bal 2 0 0 0 0 0, d_bal 3 1 0 0 0 100]
    [(d_tr 20 1 3 100)\<lparr>tCreatedAt := ''t1''\<rparr>] 3"
  by code_simp

lemma d_f2_value [code]: "d_f2 = d_dev [d_bal 1 0 0 100 0 0, d_bal 2 0 0 0 0 100, d_bal 3 1 0 100 0 100]
    [(d_tr 20 1 3 100)\<lparr>tCreatedAt := ''t1''\<rparr>, (d_tr 22 3 2 100)\<lparr>tCreatedAt := ''t2''\<rparr>] 3"
  by code_simp

lemma d_v2_value [code]: "d_v2 = d_dev [d_bal 1 0 100 0 0 0, d_bal 2 0 0 0 0 0, d_bal 3 1 0 0 100 0]
    [(d_tr 21 1 3 100)\<lparr>Pending := True, tCreatedAt := ''t1'', ExpiresAt := ''1970-01-01T00:01:00Z''\<rparr>] 3"
  by code_simp

lemma d_v3_value [code]: "d_v3 = d_dev [d_bal 1 0 100 0 0 0, d_bal 2 0 0 0 0 100, d_bal 3 1 0 100 100 0]
    [(d_tr 21 1 3 100)\<lparr>Pending := True, tCreatedAt := ''t1'', ExpiresAt := ''1970-01-01T00:01:00Z''\<rparr>,
     (d_tr 22 3 2 100)\<lparr>tCreatedAt := ''t2''\<rparr>] 3"
  by code_simp

lemma d_f0_reachable: "reachable d_f0"
  unfolding d_f0_def
  by (rule reachable.step [OF reachable.start,
        where p = "OpCreate (\<lambda>_. ''t0'') [d_acct 1 0, d_acct 2 0, d_acct 3 1]"])
    (simp_all add: zero_balances_def d_acct_def)

lemma reachable_transfer:
  "reachable s \<Longrightarrow> \<not> Resolved t \<Longrightarrow> reachable (snd (Transfer now_s t s))"
  by (rule reachable.step [where p = "OpTransfer now_s t"]) simp_all

lemma reachable_pending:
  "reachable s \<Longrightarrow> \<not> Resolved t \<Longrightarrow> reachable (snd (PendingTransfer now_s now_t t s))"
  by (rule reachable.step [where p = "OpPending now_s now_t t"]) simp_all

lemma d_f1_reachable: "reachable d_f1"
  unfolding d_f1_def by (rule reachable_transfer [OF d_f0_reachable]) (simp add: d_tr_def)

lemma d_f2_reachable: "reachable d_f2"
  unfolding d_f2_def by (rule reachable_transfer [OF d_f1_reachable]) (simp add: d_tr_def)

lemma d_v3_reachable: "reachable d_v3"
  unfolding d_v3_def d_v2_def
  by (intro reachable_transfer reachable_pending d_f0_reachable) (simp_all add: d_tr_def)

text \<open>A stand-in for SHA-256 that tells the seeds of the examples apart, a ticking clock, and the
  inputs of the money workflows.\<close>

definition d_sha :: "string \<Rightarrow> u8 list" where
  "d_sha seed = replicate 16 (if take 8 seed = ''cap-pend'' \<or> take 8 seed = ''ref-pend'' then 1
     else if take 7 seed = ''cap-fee'' then 2 else 3)"

definition d_clk :: "nat \<Rightarrow> instant" where "d_clk n = int n"

definition d_capture :: capture_input where
  "d_capture = \<lparr>PaymentID = ''P1'', PayerAccountID = ''00000000000000640000000000000001'',
     CollectionsAccount = ''00000000000000640000000000000002'', FeeAccountID = ''00000000000000640000000000000009'',
     AmountKobo = 500, FeeKobo = 5, cLedger = 100\<rparr>"

definition d_refund :: refund_input where
  "d_refund = \<lparr>RefundID = ''R1'', TreasuryAccount = ''00000000000000640000000000000001'',
     TaxpayerAccount = ''00000000000000640000000000000002'', rAmountKobo = 70, rLedger = 100\<rparr>"

definition d_refund_bad :: refund_input where
  "d_refund_bad = d_refund\<lparr>TreasuryAccount := ''00000000000000640000000000000009''\<rparr>"

text \<open>Three activities over a counter: two that add and can be undone, one that fails.\<close>

definition d_add :: "string \<Rightarrow> int \<Rightarrow> (unit, int, string, int) saga_step" where
  "d_add n k = \<lparr>Name = n, Action = (\<lambda>_ s. (Inr k, s + k)),
     Compensation = Some (\<lambda>out s. (None, s - out))\<rparr>"

definition d_fail :: "(unit, int, string, int) saga_step" where
  "d_fail = \<lparr>Name = ''fail'', Action = (\<lambda>_ s. (Inl ''no'', s)), Compensation = None\<rparr>"

text \<open>A ledger server in development mode, and a caller with the settle service token.\<close>

definition d_env :: auth_env where
  "d_env = \<lparr>PROFILE = ''dev'', AUTH_MODE = ''dev'', JWT_SECRET = '''', MakerTokens = ['''', ''m3''],
     SettleTokens = [''s3'']\<rparr>"

definition d_host :: host where
  "d_host = \<lparr>hClk = d_clk, hULID = (\<lambda>n. ''u''), hTrace = (\<lambda>n. ''t''), hRandomID = (\<lambda>n. MkID 1 1),
     hWrite = (\<lambda>n. Wrote), hHmac = (\<lambda>k s. s), hHash = (\<lambda>s. s), hDecClaims = (\<lambda>s. None),
     hDecTicket = (\<lambda>s. None), hKeycloak = None, hTicketKey = ''k'', hEnv = d_env\<rparr>"

definition d_settle_hdr :: headers where
  "d_settle_hdr = \<lparr>hAuthorization = '''', hDevRole = '''', hTenantID = '''', hServiceToken = ''s3'',
     hServiceName = ''settlement'', hStepupTicket = ''''\<rparr>"

definition d_server :: server where
  "d_server = \<lparr>sdev = d_s2, sthresh = newThresholdTracker, sout = NewFileStore [], sdirty = False,
     stickets = [], stick = 0\<rparr>"

definition d_server2 :: server where
  "d_server2 = d_server\<lparr>sdev := SetHooks True True d_s1\<rparr>"

definition d_treq :: transferReq where
  "d_treq = \<lparr>trID = ''00000000000000000000000000000031'',
     trDebitAccountID = ''00000000000000640000000000000001'',
     trCreditAccountID = ''00000000000000640000000000000002'', trAmountKobo = 50, trLedger = 100,
     trCode = 5, trUserData = '''', trTimeoutSeconds = 0\<rparr>"

text \<open>A step-up ticket and an encoding that is right about it.\<close>

definition d_tk :: ticket where
  "d_tk = \<lparr>JTI = ''j'', Actor = ''a'', tkAction = ''x'', PayloadSHA256 = ''p'', Exp = 300\<rparr>"

definition d_tok :: string where
  "d_tok = MintTicket (\<lambda>k s. k @ s) (\<lambda>t. ''T'') ''k'' ''j'' ''a'' ''x'' ''p'' 0"

text \<open>An event, and handlers that append their number to the world and may fail.\<close>

definition d_ev :: "unit envelope" where
  "d_ev = \<lparr>eID = ''e1'', eType = ''t'', eSource = ''s'', eTime = '''', eTenantID = '''',
     eTraceID = '''', eRulePackVersion = '''', eData = ()\<rparr>"

definition d_h :: "nat \<Rightarrow> bool \<Rightarrow> (unit, nat list) handler" where
  "d_h n fails = \<lparr>codePtr = n, run = (\<lambda>env s. (if fails then Some ''e'' else None, s @ [n]))\<rparr>"

text \<open>The server settles the pending transfer of \<open>d_server\<close>, and posts a transfer on \<open>d_server2\<close>.\<close>

lemma d_server_settles:
  "map_of (transfers (sdev (snd (serve d_host d_settle_hdr '''' (RPost ''00000000000000000000000000000007'' None) d_server))))
     (MkID 0 7) \<noteq> map_of (transfers (sdev d_server)) (MkID 0 7)"
  by code_simp

lemma d_server2_transfers:
  "fst (fst (createTransfer d_host (Some d_treq) d_server2)) = 201 \<and> quiet (sdev d_server2)
   \<and> length (outbox_of (snd (createTransfer d_host (Some d_treq) d_server2))) = 1 \<and> outbox_of d_server2 = []"
proof -
  have "case createTransfer d_host (Some d_treq) d_server2 of ((st, b), sv) \<Rightarrow> st = 201 \<and> length (outbox_of sv) = 1"
    and "quiet (sdev d_server2) \<and> outbox_of d_server2 = []" by code_simp+
  then show ?thesis by (auto split: prod.splits)
qed

end
