(* ===== verification/Lifecycle.thy ===== *)
theory Lifecycle
  imports DocStore GoStd
begin

text \<open>
  The TIN lifecycle of \<open>services/tin-graph/internal/graph/lifecycle.go\<close>: the status machine, the
  reversible merge of two TINs and its undo, and their HTTP mapping in \<open>merge.go\<close>. The documents
  live in the collections \<open>entities\<close>, \<open>registrations\<close>, \<open>lifecycle\<close>, \<open>merges\<close> and \<open>tin_audit\<close> of the
  document store; a document is kept as the value it was marshalled from, and decoding a document
  of another shape is an error. The clock (\<open>at\<close>), the new ULID and the audit stamp are arguments.
\<close>

section \<open>The status machine\<close>

type_synonym LifecycleStatus = string

abbreviation "StatusActive \<equiv> ''active''"
abbreviation "StatusSuspended \<equiv> ''suspended''"
abbreviation "StatusMergedInto \<equiv> ''merged_into''"
abbreviation "StatusDeceased \<equiv> ''deceased''"
abbreviation "StatusBusinessClosed \<equiv> ''business_closed''"
abbreviation "StatusDeregistered \<equiv> ''deregistered''"

definition transitions :: "(LifecycleStatus \<times> LifecycleStatus list) list" where
  "transitions =
     [(StatusActive, [StatusSuspended, StatusMergedInto, StatusDeceased, StatusBusinessClosed,
         StatusDeregistered]),
      (StatusSuspended, [StatusActive, StatusMergedInto, StatusDeceased, StatusBusinessClosed,
         StatusDeregistered])]"

definition CanTransition :: "LifecycleStatus \<Rightarrow> LifecycleStatus \<Rightarrow> bool" where
  "CanTransition f t = (case map_of transitions f of None \<Rightarrow> False
     | Some ts \<Rightarrow> list_ex (\<lambda>x. x = t) ts)"

definition ParseStatus :: "string \<Rightarrow> string + LifecycleStatus" where
  "ParseStatus s = (let l = to_lower (trim_space s)
     in if l \<in> set [StatusActive, StatusSuspended, StatusMergedInto, StatusDeceased,
          StatusBusinessClosed, StatusDeregistered]
        then Inr l else Inl (''unknown lifecycle status '' @ s))"

definition FilingAllowed :: "LifecycleStatus \<Rightarrow> bool \<times> string" where
  "FilingAllowed s =
     (if s = StatusActive \<or> s = StatusSuspended then (True, '''')
      else if s = StatusMergedInto
        then (False, ''TIN was merged into a surviving TIN; file under the surviving TIN'')
      else if s = StatusDeceased then (False, ''TIN belongs to a deceased taxpayer; estate filings only'')
      else if s = StatusBusinessClosed then (False, ''business is closed; new filings blocked'')
      else if s = StatusDeregistered then (False, ''TIN is deregistered; new filings blocked'')
      else (False, ''unknown lifecycle status''))"

section \<open>Documents\<close>

text \<open>A director, shareholder or owner is its JSON text; an absent map of attributes is the empty one,
  which is what it is after one write and read.\<close>

record entity =
  nID :: string
  nTIN :: string
  nTINHash :: string
  NINHash :: string
  CACRC :: string
  EntityType :: string
  nName :: string
  Phone :: string
  Email :: string
  Address :: string
  Attrs :: "(string, string) kv"
  Directors :: "string list"
  Shareholders :: "string list"
  UBOs :: "string list"
  RegistryCrossCheck :: string
  nCreatedAt :: string

record LifecycleEvent =
  From :: LifecycleStatus
  To :: LifecycleStatus
  evEffectiveDate :: string
  evReason :: string
  evActor :: string
  evAt :: string

record LifecycleRecord =
  lTINHash :: string
  lStatus :: LifecycleStatus
  lEffectiveDate :: string
  lMergedInto :: string
  lUpdatedAt :: string
  History :: "LifecycleEvent list"

record MergeRecord =
  mID :: string
  SurvivingTINHash :: string
  MergedTINHash :: string
  mReason :: string
  mEvidenceRef :: string
  mOfficer :: string
  MergedAt :: string
  UndoneAt :: string
  UndoneBy :: string
  MovedRegistration :: "string list"
  SurvivingSnapshot :: entity
  MergedSnapshot :: entity
  PrevStatus :: LifecycleStatus

text \<open>A registration is an untyped JSON object: only its string fields are looked at.\<close>

datatype jval = JStr string | JOther nat

datatype tin_doc =
    DEntity entity
  | DLife LifecycleRecord
  | DMerge MergeRecord
  | DReg "(string, jval) kv"
  | DBad

type_synonym tin_store = "tin_doc docstore"

datatype tin_err =
    IllegalTransition string
  | NotFound string
  | WindowExpired string
  | TerminalMerge string
  | Refused string
  | StoreErr string
  | Panics \<comment> \<open>a slice out of range or a nil dereference\<close>

definition bad_json :: string where "bad_json = ''json: cannot unmarshal''"

definition dec_entity :: "tin_doc \<Rightarrow> string + entity" where
  "dec_entity d = (case d of DEntity e \<Rightarrow> Inr e | _ \<Rightarrow> Inl bad_json)"

definition dec_life :: "tin_doc \<Rightarrow> string + LifecycleRecord" where
  "dec_life d = (case d of DLife r \<Rightarrow> Inr r | _ \<Rightarrow> Inl bad_json)"

definition dec_merge :: "tin_doc \<Rightarrow> string + MergeRecord" where
  "dec_merge d = (case d of DMerge m \<Rightarrow> Inr m | _ \<Rightarrow> Inl bad_json)"

text \<open>Running on only when a step succeeded: \<open>if err != nil { return nil, err }\<close>.\<close>

definition and_then ::
  "(tin_err + 'a) \<times> tin_store \<Rightarrow> ('a \<Rightarrow> tin_store \<Rightarrow> (tin_err + 'b) \<times> tin_store)
     \<Rightarrow> (tin_err + 'b) \<times> tin_store" where
  "and_then r f = (case r of (Inl e, s) \<Rightarrow> (Inl e, s) | (Inr a, s) \<Rightarrow> f a s)"

definition put_doc :: "string \<Rightarrow> string \<Rightarrow> tin_doc \<Rightarrow> tin_store \<Rightarrow> (tin_err + unit) \<times> tin_store" where
  "put_doc c i d s = (case Put c i d s of (None, s1) \<Rightarrow> (Inr (), s1) | (Some e, s1) \<Rightarrow> (Inl (StoreErr e), s1))"

section \<open>Lifecycle records\<close>

definition new_life :: "string \<Rightarrow> LifecycleRecord" where
  "new_life h = \<lparr>lTINHash = h, lStatus = StatusActive, lEffectiveDate = '''', lMergedInto = '''',
     lUpdatedAt = '''', History = []\<rparr>"

definition LoadLifecycle :: "tin_store \<Rightarrow> string \<Rightarrow> tin_err + LifecycleRecord" where
  "LoadLifecycle s h = (case Get dec_life ''lifecycle'' h s of
       Inr r \<Rightarrow> Inr r
     | Inl e \<Rightarrow> (if e = ErrNotFound then Inr (new_life h) else Inl (StoreErr e)))"

definition applyTransition ::
  "LifecycleRecord \<Rightarrow> LifecycleStatus \<Rightarrow> string \<Rightarrow> string \<Rightarrow> string \<Rightarrow> string \<Rightarrow> tin_store
     \<Rightarrow> (tin_err + LifecycleRecord) \<times> tin_store" where
  "applyTransition r to effectiveDate reason actor at s =
     (if effectiveDate = '''' \<and> length at < 10 then (Inl Panics, s)
      else
       (let ed = (if effectiveDate = '''' then take 10 at else effectiveDate);
            r1 = r\<lparr>History := History r @ [\<lparr>From = lStatus r, To = to, evEffectiveDate = ed,
                     evReason = reason, evActor = actor, evAt = at\<rparr>],
                   lStatus := to, lEffectiveDate := ed, lUpdatedAt := at,
                   lMergedInto := (if to \<noteq> StatusMergedInto then '''' else lMergedInto r)\<rparr>
        in and_then (put_doc ''lifecycle'' (lTINHash r1) (DLife r1) s) (\<lambda>_ s1. (Inr r1, s1))))"

definition Transition ::
  "tin_store \<Rightarrow> string \<Rightarrow> LifecycleStatus \<Rightarrow> string \<Rightarrow> string \<Rightarrow> string \<Rightarrow> string
     \<Rightarrow> (tin_err + LifecycleRecord) \<times> tin_store" where
  "Transition s h to effectiveDate reason actor at = (case LoadLifecycle s h of
       Inl e \<Rightarrow> (Inl e, s)
     | Inr r \<Rightarrow> (if \<not> CanTransition (lStatus r) to
         then (Inl (IllegalTransition (lStatus r @ '' -> '' @ to)), s)
         else applyTransition r to effectiveDate reason actor at s))"

definition appendAudit :: "string \<Rightarrow> string \<Rightarrow> tin_doc \<Rightarrow> tin_store \<Rightarrow> (tin_err + unit) \<times> tin_store" where
  "appendAudit kind stamp d s = put_doc ''tin_audit'' (kind @ ''-'' @ stamp) d s"

section \<open>Merging two TINs\<close>

definition findEntityByTINHash :: "tin_store \<Rightarrow> string \<Rightarrow> tin_err + entity" where
  "findEntityByTINHash s h = (case ListInto dec_entity ''entities'' s of
       Inl e \<Rightarrow> Inl (StoreErr e)
     | Inr es \<Rightarrow> (case List.find (\<lambda>e. nTINHash e = h) es of
         Some e \<Rightarrow> Inr e
       | None \<Rightarrow> Inl (NotFound (''entity with tin_hash '' @ h))))"

text \<open>The string at \<open>id\<close> of an object, empty when it is absent or not a string.\<close>

definition reg_id :: "(string, jval) kv \<Rightarrow> string" where
  "reg_id m = (case map_of m ''id'' of Some (JStr i) \<Rightarrow> i | _ \<Rightarrow> '''')"

definition repointed :: "string \<Rightarrow> string \<Rightarrow> (string, jval) kv \<Rightarrow> (string, jval) kv" where
  "repointed surviving merged m =
     kv_put ''merged_from_tin_hash'' (JStr merged) (kv_put ''tin_hash'' (JStr surviving) m)"

fun move_registrations ::
  "string \<Rightarrow> string \<Rightarrow> tin_doc list \<Rightarrow> tin_store \<Rightarrow> (tin_err + string list) \<times> tin_store" where
  "move_registrations surviving merged [] s = (Inr [], s)"
| "move_registrations surviving merged (d # ds) s = (case d of
     DReg m \<Rightarrow>
       (if map_of m ''tin_hash'' \<noteq> Some (JStr merged) \<or> reg_id m = ''''
        then move_registrations surviving merged ds s
        else and_then (put_doc ''registrations'' (reg_id m) (DReg (repointed surviving merged m)) s)
          (\<lambda>_ s1. and_then (move_registrations surviving merged ds s1)
            (\<lambda>ids s2. (Inr (reg_id m # ids), s2))))
   | _ \<Rightarrow> move_registrations surviving merged ds s)"

text \<open>The attributes the surviving entity lacks.\<close>

definition moved_attrs :: "entity \<Rightarrow> entity \<Rightarrow> entity" where
  "moved_attrs surv merged = surv\<lparr>
     Directors := (if Directors surv = [] then Directors merged else Directors surv),
     Shareholders := (if Shareholders surv = [] then Shareholders merged else Shareholders surv),
     UBOs := (if UBOs surv = [] then UBOs merged else UBOs surv),
     Attrs := foldl (\<lambda>as (k, v). if map_of as k = None then kv_put k v as else as)
       (Attrs surv) (Attrs merged)\<rparr>"

definition merge_record ::
  "string \<Rightarrow> string \<Rightarrow> string \<Rightarrow> string \<Rightarrow> string \<Rightarrow> string \<Rightarrow> string \<Rightarrow> string list \<Rightarrow> entity \<Rightarrow> entity
     \<Rightarrow> LifecycleStatus \<Rightarrow> MergeRecord" where
  "merge_record ulid surviving merged reason evidence officer at moved survSnap mergedSnap prev =
     \<lparr>mID = ''merge-'' @ ulid, SurvivingTINHash = surviving, MergedTINHash = merged,
      mReason = reason, mEvidenceRef = evidence, mOfficer = officer, MergedAt = at,
      UndoneAt = '''', UndoneBy = '''', MovedRegistration = moved,
      SurvivingSnapshot = survSnap, MergedSnapshot = mergedSnap, PrevStatus = prev\<rparr>"

text \<open>The writes of \<open>MergeTINs\<close>, after its checks.\<close>

definition merge_writes ::
  "entity \<Rightarrow> entity \<Rightarrow> LifecycleRecord \<Rightarrow> string \<Rightarrow> string \<Rightarrow> string \<Rightarrow> string \<Rightarrow> string \<Rightarrow> string \<Rightarrow> string \<Rightarrow> string
     \<Rightarrow> tin_store \<Rightarrow> (tin_err + MergeRecord) \<times> tin_store" where
  "merge_writes surv merged mergedLC survivingHash mergedHash reason evidence officer at ulid stamp s =
     and_then (move_registrations survivingHash mergedHash (ListDocs ''registrations'' s) s) (\<lambda>ids s1.
     and_then (put_doc ''entities'' (nID surv) (DEntity (moved_attrs surv merged)) s1) (\<lambda>_ s2.
       (let mr = merge_record ulid survivingHash mergedHash reason evidence officer at (sort ids)
                   surv merged (lStatus mergedLC)
        in and_then (put_doc ''merges'' (mID mr) (DMerge mr) s2) (\<lambda>_ s3.
           (if length at < 10 then (Inl Panics, s3)
            else and_then (applyTransition mergedLC StatusMergedInto (take 10 at) reason officer at s3)
              (\<lambda>_ s4. case LoadLifecycle s4 mergedHash of
                 Inl _ \<Rightarrow> (Inl Panics, s4)
               | Inr lc \<Rightarrow> and_then (put_doc ''lifecycle'' mergedHash
                     (DLife (lc\<lparr>lMergedInto := survivingHash\<rparr>)) s4)
                   (\<lambda>_ s5. (Inr mr, snd (appendAudit ''merge'' stamp (DMerge mr) s5)))))))))"

definition MergeTINs ::
  "tin_store \<Rightarrow> string \<Rightarrow> string \<Rightarrow> string \<Rightarrow> string \<Rightarrow> string \<Rightarrow> string \<Rightarrow> string \<Rightarrow> string
     \<Rightarrow> (tin_err + MergeRecord) \<times> tin_store" where
  "MergeTINs s survivingHash mergedHash reason evidence officer at ulid stamp =
     (if survivingHash = mergedHash then (Inl (Refused ''surviving_tin and merged_tin must differ''), s)
      else if reason = '''' \<or> evidence = '''' \<or> officer = ''''
        then (Inl (Refused ''reason, evidence_ref and officer are required (audit trail)''), s)
      else case findEntityByTINHash s survivingHash of Inl e \<Rightarrow> (Inl e, s) | Inr surv \<Rightarrow>
      case findEntityByTINHash s mergedHash of Inl e \<Rightarrow> (Inl e, s) | Inr merged \<Rightarrow>
      case LoadLifecycle s survivingHash of Inl e \<Rightarrow> (Inl e, s) | Inr survLC \<Rightarrow>
      if \<not> fst (FilingAllowed (lStatus survLC)) \<or> lStatus survLC = StatusSuspended
        then (Inl (TerminalMerge (''surviving status is '' @ lStatus survLC)), s)
      else case LoadLifecycle s mergedHash of Inl e \<Rightarrow> (Inl e, s) | Inr mergedLC \<Rightarrow>
      if \<not> CanTransition (lStatus mergedLC) StatusMergedInto
        then (Inl (IllegalTransition (lStatus mergedLC @ '' -> merged_into'')), s)
      else merge_writes surv merged mergedLC survivingHash mergedHash reason evidence officer at ulid
             stamp s)"

section \<open>Undoing a merge\<close>

definition duration_sub :: "instant \<Rightarrow> instant \<Rightarrow> int" where
  "duration_sub a b = max (- (2 ^ 63)) (min (2 ^ 63 - 1) (a - b))"

text \<open>The open merge with the latest timestamp, the first of them on a tie.\<close>

definition open_step :: "string \<Rightarrow> MergeRecord option \<Rightarrow> MergeRecord \<Rightarrow> MergeRecord option" where
  "open_step h op m = (if MergedTINHash m = h \<and> UndoneAt m = '''' then
       (case op of None \<Rightarrow> Some m | Some o1 \<Rightarrow> if MergedAt o1 < MergedAt m then Some m else op)
     else op)"

definition latest_open :: "string \<Rightarrow> MergeRecord list \<Rightarrow> MergeRecord option" where
  "latest_open h ms = foldl (open_step h) None ms"

definition pointed_back :: "string \<Rightarrow> (string, jval) kv \<Rightarrow> (string, jval) kv" where
  "pointed_back merged m = kv_del ''merged_from_tin_hash'' (kv_put ''tin_hash'' (JStr merged) m)"

fun restore_registrations :: "string \<Rightarrow> string list \<Rightarrow> tin_store \<Rightarrow> (tin_err + unit) \<times> tin_store" where
  "restore_registrations merged [] s = (Inr (), s)"
| "restore_registrations merged (i # ids) s = (case GetRaw ''registrations'' i s of
     Inr (DReg m) \<Rightarrow> and_then (put_doc ''registrations'' i (DReg (pointed_back merged m)) s)
       (\<lambda>_ s1. restore_registrations merged ids s1)
   | _ \<Rightarrow> restore_registrations merged ids s)"

definition unmerge_writes ::
  "MergeRecord \<Rightarrow> string \<Rightarrow> string \<Rightarrow> string \<Rightarrow> string \<Rightarrow> tin_store \<Rightarrow> (tin_err + MergeRecord) \<times> tin_store" where
  "unmerge_writes op mergedHash officer at stamp s =
     (let surv = SurvivingSnapshot op; merged = MergedSnapshot op
      in and_then (put_doc ''entities'' (nID surv) (DEntity surv) s) (\<lambda>_ s1.
         and_then (put_doc ''entities'' (nID merged) (DEntity merged) s1) (\<lambda>_ s2.
         and_then (restore_registrations mergedHash (MovedRegistration op) s2) (\<lambda>_ s3.
         case LoadLifecycle s3 mergedHash of Inl e \<Rightarrow> (Inl e, s3) | Inr lc \<Rightarrow>
         if length at < 10 then (Inl Panics, s3)
         else
          (let lc1 = lc\<lparr>History := History lc @ [\<lparr>From = StatusMergedInto, To = PrevStatus op,
                        evEffectiveDate = take 10 at, evReason = ''unmerge: '' @ mID op,
                        evActor = officer, evAt = at\<rparr>],
                      lStatus := PrevStatus op, lEffectiveDate := take 10 at,
                      lMergedInto := '''', lUpdatedAt := at\<rparr>
           in and_then (put_doc ''lifecycle'' mergedHash (DLife lc1) s3) (\<lambda>_ s4.
             (let op1 = op\<lparr>UndoneAt := at, UndoneBy := officer\<rparr>
              in and_then (put_doc ''merges'' (mID op) (DMerge op1) s4)
                (\<lambda>_ s5. (Inr op1, snd (appendAudit ''unmerge'' stamp (DMerge op1) s5)))))))))
     )"

definition UnmergeTINs ::
  "tin_store \<Rightarrow> string \<Rightarrow> string \<Rightarrow> string \<Rightarrow> int \<Rightarrow> string \<Rightarrow> (tin_err + MergeRecord) \<times> tin_store" where
  "UnmergeTINs s mergedHash officer at window stamp =
     (case ListInto dec_merge ''merges'' s of Inl e \<Rightarrow> (Inl (StoreErr e), s) | Inr ms \<Rightarrow>
      case latest_open mergedHash ms of
        None \<Rightarrow> (Inl (NotFound (''no open merge for tin_hash '' @ mergedHash)), s)
      | Some op \<Rightarrow>
      case parse_rfc3339 (MergedAt op) of
        None \<Rightarrow> (Inl (Refused ''corrupt merge record timestamp''), s)
      | Some mergedAt \<Rightarrow>
      case parse_rfc3339 at of
        None \<Rightarrow> (Inl (Refused ''bad at timestamp''), s)
      | Some now \<Rightarrow>
      if window < duration_sub now mergedAt
        then (Inl (WindowExpired (''merged at '' @ MergedAt op)), s)
      else unmerge_writes op mergedHash officer at stamp s)"

definition MergedIntoSet :: "tin_store \<Rightarrow> string list" where
  "MergedIntoSet s = (case ListInto dec_life ''lifecycle'' s of Inl _ \<Rightarrow> []
     | Inr rs \<Rightarrow> map lTINHash (filter (\<lambda>r. lStatus r = StatusMergedInto) rs))"

section \<open>Runs on a store whose writes succeed\<close>

lemma and_then_simps [simp]:
  "and_then (Inl e, s) f = (Inl e, s)"
  "and_then (Inr a, s) f = f a s"
  by (simp_all add: and_then_def)

lemma put_doc_ok: "fault_free s \<Longrightarrow> put_doc c i d s = (Inr (), written c i d s)"
  by (simp add: put_doc_def Put_fault_free)

lemma appendAudit_ok:
  "fault_free s \<Longrightarrow> appendAudit k stamp d s = (Inr (), written ''tin_audit'' (k @ ''-'' @ stamp) d s)"
  by (simp add: appendAudit_def put_doc_ok)

lemma LoadLifecycle_lookup:
  "LoadLifecycle s h = (case lookup ''lifecycle'' h s of None \<Rightarrow> Inr (new_life h)
     | Some d \<Rightarrow> (case dec_life d of Inr r \<Rightarrow> Inr r | Inl e \<Rightarrow> Inl (StoreErr e)))"
proof (cases "lookup ''lifecycle'' h s")
  case None
  then show ?thesis by (simp add: LoadLifecycle_def Get_def lookup_def)
next
  case (Some d)
  moreover have "bad_json \<noteq> ErrNotFound" by (simp add: bad_json_def ErrNotFound_def)
  ultimately show ?thesis by (cases d) (simp_all add: LoadLifecycle_def Get_def lookup_def dec_life_def)
qed

text \<open>The moved registrations, as the documents written.\<close>

fun moved_docs :: "string \<Rightarrow> string \<Rightarrow> tin_doc list \<Rightarrow> (string \<times> tin_doc) list" where
  "moved_docs sh mh [] = []"
| "moved_docs sh mh (d # ds) = (case d of
     DReg m \<Rightarrow> (if map_of m ''tin_hash'' \<noteq> Some (JStr mh) \<or> reg_id m = '''' then moved_docs sh mh ds
        else (reg_id m, DReg (repointed sh mh m)) # moved_docs sh mh ds)
   | _ \<Rightarrow> moved_docs sh mh ds)"

definition written_all :: "string \<Rightarrow> (string \<times> 'j) list \<Rightarrow> 'j docstore \<Rightarrow> 'j docstore" where
  "written_all c ps s = snd (ds.put_list c ps s)"

lemma put_list_ok: "fault_free s \<Longrightarrow> ds.put_list c ps s = (None, written_all c ps s)"
proof -
  assume "fault_free s"
  then have "fst (ds.put_list c ps s) = None"
  proof (induction ps arbitrary: s)
    case (Cons p ps)
    then show ?case by (cases p) (simp add: Put_fault_free)
  qed simp
  then show ?thesis by (simp add: written_all_def prod_eq_iff)
qed

lemma written_all_simps [simp]:
  "written_all c [] s = s"
  "fault_free s \<Longrightarrow> written_all c ((i, d) # ps) s = written_all c ps (written c i d s)"
  by (simp_all add: written_all_def Put_fault_free)

lemma written_all_keeps:
  "fault_free s \<Longrightarrow> fault_free (written_all c ps s) \<and> (colls_ok s \<longrightarrow> colls_ok (written_all c ps s))
     \<and> (c' \<noteq> c \<longrightarrow> coll_of c' (written_all c ps s) = coll_of c' s)"
proof (induction ps arbitrary: s)
  case (Cons p ps)
  then show ?case by (cases p) auto
qed simp

lemma written_all_lookup:
  "fault_free s \<Longrightarrow> distinct (map fst ps) \<Longrightarrow>
   lookup c' i (written_all c ps s) = (if c' = c then (case map_of ps i of Some v \<Rightarrow> Some v
     | None \<Rightarrow> lookup c i s) else lookup c' i s)"
  by (rule ds.put_list_look [OF put_list_ok])

lemma move_registrations_ok:
  "fault_free s \<Longrightarrow> move_registrations sh mh ds s =
     (Inr (map fst (moved_docs sh mh ds)), written_all ''registrations'' (moved_docs sh mh ds) s)"
proof (induction ds arbitrary: s)
  case (Cons d ds)
  then show ?case by (cases d) (auto simp: put_doc_ok)
qed simp

section \<open>Histories\<close>

text \<open>A history replays when every event starts at the status the one before left, and is either a
  legal transition or the undoing of a merge.\<close>

definition legal_event :: "LifecycleEvent \<Rightarrow> bool" where
  "legal_event e \<longleftrightarrow> CanTransition (From e) (To e)
     \<or> From e = StatusMergedInto \<and> CanTransition (To e) StatusMergedInto"

fun replays :: "LifecycleStatus \<Rightarrow> LifecycleEvent list \<Rightarrow> LifecycleStatus option" where
  "replays st [] = Some st"
| "replays st (e # es) = (if From e = st \<and> legal_event e then replays (To e) es else None)"

lemma replays_snoc [simp]:
  "replays st (es @ [e]) = (case replays st es of None \<Rightarrow> None
     | Some t \<Rightarrow> if From e = t \<and> legal_event e then Some (To e) else None)"
  by (induction es arbitrary: st) auto

lemma CanTransition_simps:
  "CanTransition f t \<longleftrightarrow>
     f = StatusActive \<and> t \<in> {StatusSuspended, StatusMergedInto, StatusDeceased,
         StatusBusinessClosed, StatusDeregistered}
     \<or> f = StatusSuspended \<and> t \<in> {StatusActive, StatusMergedInto, StatusDeceased,
         StatusBusinessClosed, StatusDeregistered}"
  by (auto simp: CanTransition_def transitions_def)

definition life_of :: "tin_store \<Rightarrow> string \<Rightarrow> LifecycleRecord" where
  "life_of s h = (case lookup ''lifecycle'' h s of Some (DLife r) \<Rightarrow> r | _ \<Rightarrow> new_life h)"

definition good_life :: "string \<Rightarrow> LifecycleRecord \<Rightarrow> bool" where
  "good_life h r \<longleftrightarrow> lTINHash r = h \<and> replays StatusActive (History r) = Some (lStatus r)"

definition life_ok :: "tin_store \<Rightarrow> bool" where
  "life_ok s \<longleftrightarrow> (\<forall>h d. lookup ''lifecycle'' h s = Some d \<longrightarrow> (\<exists>r. d = DLife r \<and> good_life h r))"

definition merges_ok :: "tin_store \<Rightarrow> bool" where
  "merges_ok s \<longleftrightarrow> (\<forall>i d. lookup ''merges'' i s = Some d \<longrightarrow> (\<exists>m. d = DMerge m \<and> mID m = i))"

definition opens :: "tin_store \<Rightarrow> string \<Rightarrow> MergeRecord \<Rightarrow> bool" where
  "opens s i m \<longleftrightarrow> lookup ''merges'' i s = Some (DMerge m) \<and> UndoneAt m = ''''"

definition open_ok :: "tin_store \<Rightarrow> bool" where
  "open_ok s \<longleftrightarrow> (\<forall>i m. opens s i m \<longrightarrow> lStatus (life_of s (MergedTINHash m)) = StatusMergedInto
     \<and> CanTransition (PrevStatus m) StatusMergedInto)"

definition open_unique :: "tin_store \<Rightarrow> bool" where
  "open_unique s \<longleftrightarrow> (\<forall>i j m n. opens s i m \<longrightarrow> opens s j n \<longrightarrow> MergedTINHash m = MergedTINHash n
     \<longrightarrow> i = j)"

definition tin_inv :: "tin_store \<Rightarrow> bool" where
  "tin_inv s \<longleftrightarrow> fault_free s \<and> colls_ok s \<and> life_ok s \<and> merges_ok s \<and> open_ok s \<and> open_unique s"

lemma good_new_life [simp]: "good_life h (new_life h)"
  by (simp add: good_life_def new_life_def)

lemma life_of_good: "life_ok s \<Longrightarrow> good_life h (life_of s h)"
  unfolding life_of_def life_ok_def by (cases "lookup ''lifecycle'' h s") fastforce+

lemma LoadLifecycle_ok: "life_ok s \<Longrightarrow> LoadLifecycle s h = Inr (life_of s h)"
  unfolding life_of_def life_ok_def LoadLifecycle_lookup dec_life_def
  by (cases "lookup ''lifecycle'' h s") fastforce+

lemma life_of_written [simp]:
  "life_of (written ''lifecycle'' h (DLife r) s) h' = (if h' = h then r else life_of s h')"
  "c \<noteq> ''lifecycle'' \<Longrightarrow> life_of (written c i d s) h' = life_of s h'"
  by (simp_all add: life_of_def)

lemma opens_written [simp]:
  "opens (written ''merges'' k (DMerge n) s) i m \<longleftrightarrow>
     (if i = k then m = n \<and> UndoneAt n = '''' else opens s i m)"
  "c \<noteq> ''merges'' \<Longrightarrow> opens (written c k d s) i m \<longleftrightarrow> opens s i m"
  by (auto simp: opens_def)

text \<open>Writes outside the two collections of the state machine keep the invariant.\<close>

lemma tin_inv_other:
  assumes "tin_inv s" "c \<noteq> ''lifecycle''" "c \<noteq> ''merges''"
  shows "tin_inv (written c i d s)"
  using assms unfolding tin_inv_def life_ok_def merges_ok_def open_ok_def open_unique_def by simp

lemma tin_inv_written_all:
  "tin_inv s \<Longrightarrow> c \<noteq> ''lifecycle'' \<Longrightarrow> c \<noteq> ''merges'' \<Longrightarrow> tin_inv (written_all c ps s)"
proof (induction ps arbitrary: s)
  case (Cons p ps)
  then show ?case by (cases p) (simp add: tin_inv_other tin_inv_def [of s])
qed simp

text \<open>A lifecycle record may be written when it is good and, for a TIN with an open merge, still
  says that it was merged.\<close>

lemma tin_inv_life:
  assumes "tin_inv s" "good_life h r"
    "\<And>i m. opens s i m \<Longrightarrow> MergedTINHash m = h \<Longrightarrow> lStatus r = StatusMergedInto"
  shows "tin_inv (written ''lifecycle'' h (DLife r) s)"
  using assms unfolding tin_inv_def life_ok_def merges_ok_def open_ok_def open_unique_def by auto

section \<open>What each operation does\<close>

definition transitioned ::
  "LifecycleRecord \<Rightarrow> LifecycleStatus \<Rightarrow> string \<Rightarrow> string \<Rightarrow> string \<Rightarrow> string \<Rightarrow> LifecycleRecord" where
  "transitioned r to ed reason actor at =
     r\<lparr>History := History r @ [\<lparr>From = lStatus r, To = to, evEffectiveDate = ed,
         evReason = reason, evActor = actor, evAt = at\<rparr>],
       lStatus := to, lEffectiveDate := ed, lUpdatedAt := at,
       lMergedInto := (if to \<noteq> StatusMergedInto then '''' else lMergedInto r)\<rparr>"

lemma transitioned_simps [simp]:
  "lTINHash (transitioned r to ed reason actor at) = lTINHash r"
  "lStatus (transitioned r to ed reason actor at) = to"
  by (simp_all add: transitioned_def)

lemma good_transitioned:
  "good_life h r \<Longrightarrow> CanTransition (lStatus r) to \<Longrightarrow> good_life h (transitioned r to ed reason actor at)"
  by (simp add: good_life_def transitioned_def legal_event_def)

lemma applyTransition_ok:
  assumes "fault_free s" "ed \<noteq> ''''"
  shows "applyTransition r to ed reason actor at s = (Inr (transitioned r to ed reason actor at),
     written ''lifecycle'' (lTINHash r) (DLife (transitioned r to ed reason actor at)) s)"
  using assms by (simp add: applyTransition_def transitioned_def put_doc_ok Let_def)

lemma Transition_ok:
  assumes "tin_inv s" "ed \<noteq> ''''"
  shows "Transition s h to ed reason actor at = (if CanTransition (lStatus (life_of s h)) to
     then (Inr (transitioned (life_of s h) to ed reason actor at),
       written ''lifecycle'' h (DLife (transitioned (life_of s h) to ed reason actor at)) s)
     else (Inl (IllegalTransition (lStatus (life_of s h) @ '' -> '' @ to)), s))"
proof -
  have f: "fault_free s" and l: "life_ok s" using assms(1) by (simp_all add: tin_inv_def)
  have "lTINHash (life_of s h) = h" using life_of_good [OF l] by (simp add: good_life_def)
  then show ?thesis by (simp add: Transition_def LoadLifecycle_ok [OF l] applyTransition_ok [OF f assms(2)])
qed

text \<open>The store after the writes of a merge.\<close>

definition merged_store ::
  "entity \<Rightarrow> entity \<Rightarrow> LifecycleRecord \<Rightarrow> MergeRecord \<Rightarrow> string \<Rightarrow> LifecycleRecord \<Rightarrow> string
     \<Rightarrow> tin_store \<Rightarrow> tin_store" where
  "merged_store surv merged lc mr mh lc2 stamp s =
     written ''tin_audit'' (''merge-'' @ stamp) (DMerge mr)
     (written ''lifecycle'' mh (DLife lc2)
     (written ''lifecycle'' mh (DLife lc)
     (written ''merges'' (mID mr) (DMerge mr)
     (written ''entities'' (nID surv) (DEntity (moved_attrs surv merged))
     (written_all ''registrations''
        (moved_docs (SurvivingTINHash mr) mh (ListDocs ''registrations'' s)) s)))))"

definition merge_receipt where
  "merge_receipt surv merged lc sh mh reason ev off at ulid s = merge_record ulid sh mh reason ev off at
     (sort (map fst (moved_docs sh mh (ListDocs ''registrations'' s)))) surv merged (lStatus lc)"

lemma merge_writes_ok:
  assumes "fault_free s" "10 \<le> length at" "lTINHash lc = mh"
  shows "\<exists>lc1. lc1 = transitioned lc StatusMergedInto (take 10 at) reason off at \<and>
    merge_writes surv merged lc sh mh reason ev off at ulid stamp s =
     (Inr (merge_receipt surv merged lc sh mh reason ev off at ulid s),
      merged_store surv merged lc1 (merge_receipt surv merged lc sh mh reason ev off at ulid s) mh
        (lc1\<lparr>lMergedInto := sh\<rparr>) stamp s)"
proof -
  have f: "fault_free (written_all ''registrations'' ps s)" for ps
    using written_all_keeps [OF assms(1)] by blast
  have t: "take 10 at \<noteq> ''''" using assms(2) by (cases at) auto
  have m: "SurvivingTINHash (merge_receipt surv merged lc sh mh reason ev off at ulid s) = sh"
    by (simp add: merge_receipt_def merge_record_def)
  have l: "\<not> length at < 10" using assms(2) by simp
  show ?thesis
    unfolding merge_writes_def move_registrations_ok [OF assms(1)] and_then_simps
    by (simp add: put_doc_ok f applyTransition_ok [OF _ t] l assms(3) LoadLifecycle_lookup dec_life_def
        appendAudit_ok Let_def merged_store_def m merge_receipt_def [symmetric])
qed

lemma MergeTINs_cases:
  assumes "tin_inv s" "10 \<le> length at" "MergeTINs s sh mh reason ev off at ulid stamp = (r, s1)"
  obtains (refused) e where "r = Inl e" "s1 = s"
  | (merged) surv mgd lc1 mr where "sh \<noteq> mh" "findEntityByTINHash s sh = Inr surv"
      "findEntityByTINHash s mh = Inr mgd" "lStatus (life_of s sh) = StatusActive"
      "CanTransition (lStatus (life_of s mh)) StatusMergedInto"
      "lc1 = transitioned (life_of s mh) StatusMergedInto (take 10 at) reason off at"
      "mr = merge_receipt surv mgd (life_of s mh) sh mh reason ev off at ulid s"
      "r = Inr mr" "s1 = merged_store surv mgd lc1 mr mh (lc1\<lparr>lMergedInto := sh\<rparr>) stamp s"
proof -
  have f: "fault_free s" and l: "life_ok s" using assms(1) by (simp_all add: tin_inv_def)
  have h: "lTINHash (life_of s mh) = mh" using life_of_good [OF l] by (simp add: good_life_def)
  note L = LoadLifecycle_ok [OF l]
  show ?thesis
  proof (cases "\<exists>e. r = Inl e \<and> s1 = s")
    case True
    then show ?thesis using refused by blast
  next
    case False
    obtain surv where e1: "findEntityByTINHash s sh = Inr surv"
      using assms(3) False by (auto simp: MergeTINs_def split: if_splits sum.splits)
    obtain mgd where e2: "findEntityByTINHash s mh = Inr mgd"
      using assms(3) False e1 by (auto simp: MergeTINs_def split: if_splits sum.splits)
    have d: "sh \<noteq> mh" and a: "fst (FilingAllowed (lStatus (life_of s sh)))"
        "lStatus (life_of s sh) \<noteq> StatusSuspended"
      and c: "CanTransition (lStatus (life_of s mh)) StatusMergedInto"
      and w: "merge_writes surv mgd (life_of s mh) sh mh reason ev off at ulid stamp s = (r, s1)"
      using assms(3) False e1 e2 by (auto simp: MergeTINs_def L split: if_splits)
    have "lStatus (life_of s sh) = StatusActive" using a by (simp add: FilingAllowed_def split: if_splits)
    with merge_writes_ok [OF f assms(2) h, where surv = surv and merged = mgd and sh = sh
        and reason = reason and off = off and ev = ev and ulid = ulid and stamp = stamp] w d e1 e2 c
    show ?thesis using merged by simp
  qed
qed

lemma open_step_cases:
  "open_step h acc x = acc \<and> (acc = None \<longrightarrow> \<not> (MergedTINHash x = h \<and> UndoneAt x = ''''))
   \<or> open_step h acc x = Some x \<and> MergedTINHash x = h \<and> UndoneAt x = ''''"
  by (cases acc) (auto simp: open_step_def)

lemma find_open_None:
  "foldl (open_step h) acc ms = None \<longleftrightarrow>
     acc = None \<and> (\<forall>m \<in> set ms. \<not> (MergedTINHash m = h \<and> UndoneAt m = ''''))"
proof (induction ms arbitrary: acc)
  case (Cons x ms)
  then show ?case using open_step_cases [of h acc x] by (auto simp: open_step_def)
qed simp

lemma find_open_Some:
  "foldl (open_step h) acc ms = Some m \<Longrightarrow>
     acc = Some m \<or> m \<in> set ms \<and> MergedTINHash m = h \<and> UndoneAt m = ''''"
proof (induction ms arbitrary: acc)
  case (Cons x ms)
  from Cons.prems have "foldl (open_step h) (open_step h acc x) ms = Some m" by simp
  from Cons.IH [OF this] open_step_cases [of h acc x] show ?case by fastforce
qed simp

lemma merges_listed:
  assumes "merges_ok s" "colls_ok s"
  shows "\<exists>ms. ListInto dec_merge ''merges'' s = Inr ms
    \<and> (\<forall>m. m \<in> set ms \<longleftrightarrow> lookup ''merges'' (mID m) s = Some (DMerge m))"
proof -
  let ?f = "\<lambda>d. case d of DMerge m \<Rightarrow> m"
  have D: "\<exists>m. d = DMerge m \<and> lookup ''merges'' (mID m) s = Some (DMerge m)"
    if "d \<in> set (ListDocs ''merges'' s)" for d
    using that mem_ListDocs [OF assms(2)] assms(1) by (fastforce simp: merges_ok_def)
  then have r: "ListInto dec_merge ''merges'' s = Inr (map ?f (ListDocs ''merges'' s))"
    unfolding ListInto_def by (intro decode_all_ok) (force simp: dec_merge_def)
  moreover have "m \<in> set (map ?f (ListDocs ''merges'' s)) \<longleftrightarrow> lookup ''merges'' (mID m) s = Some (DMerge m)" for m
  proof
    assume "m \<in> set (map ?f (ListDocs ''merges'' s))"
    then show "lookup ''merges'' (mID m) s = Some (DMerge m)" using D by fastforce
  next
    assume "lookup ''merges'' (mID m) s = Some (DMerge m)"
    then have "DMerge m \<in> set (ListDocs ''merges'' s)" using mem_ListDocs [OF assms(2)] by blast
    then show "m \<in> set (map ?f (ListDocs ''merges'' s))" by force
  qed
  ultimately show ?thesis by blast
qed

text \<open>Among the documents the open merge of a TIN is found, and it is the only one.\<close>

lemma open_merge_found:
  assumes "tin_inv s" "ListInto dec_merge ''merges'' s = Inr ms"
  shows "latest_open h ms = Some m \<longleftrightarrow> opens s (mID m) m \<and> MergedTINHash m = h"
    and "latest_open h ms = None \<longleftrightarrow> \<not> (\<exists>i m. opens s i m \<and> MergedTINHash m = h)"
proof -
  have inv: "merges_ok s" "colls_ok s" "open_unique s" using assms(1) by (simp_all add: tin_inv_def)
  have mem: "m \<in> set ms \<longleftrightarrow> lookup ''merges'' (mID m) s = Some (DMerge m)" for m
    using merges_listed [OF inv(1,2)] assms(2) by auto
  have id: "i = mID m" if "opens s i m" for i m using that inv(1) by (auto simp: merges_ok_def opens_def)
  have o: "opens s (mID m) m \<longleftrightarrow> m \<in> set ms \<and> UndoneAt m = ''''" for m by (simp add: opens_def mem)
  have F1: "latest_open h ms = None \<longleftrightarrow> (\<forall>m \<in> set ms. \<not> (MergedTINHash m = h \<and> UndoneAt m = ''''))"
    by (simp add: latest_open_def find_open_None)
  have F2: "m \<in> set ms \<and> MergedTINHash m = h \<and> UndoneAt m = ''''" if "latest_open h ms = Some m" for m
    using that find_open_Some [of h None ms m] by (simp add: latest_open_def)
  have "(\<exists>i m. opens s i m \<and> MergedTINHash m = h)
      \<longleftrightarrow> (\<exists>m \<in> set ms. MergedTINHash m = h \<and> UndoneAt m = '''')"
  proof
    assume "\<exists>i m. opens s i m \<and> MergedTINHash m = h"
    then obtain m where "opens s (mID m) m" "MergedTINHash m = h" using id by blast
    with o show "\<exists>m \<in> set ms. MergedTINHash m = h \<and> UndoneAt m = ''''" by blast
  qed (use o in blast)
  then show n: "latest_open h ms = None \<longleftrightarrow> \<not> (\<exists>i m. opens s i m \<and> MergedTINHash m = h)"
    using F1 by blast
  show "latest_open h ms = Some m \<longleftrightarrow> opens s (mID m) m \<and> MergedTINHash m = h"
  proof
    assume "latest_open h ms = Some m"
    then show "opens s (mID m) m \<and> MergedTINHash m = h" using F2 o by blast
  next
    assume a: "opens s (mID m) m \<and> MergedTINHash m = h"
    then obtain n where n1: "latest_open h ms = Some n" using n by fastforce
    then have "opens s (mID n) n" "MergedTINHash n = h" using F2 o by blast+
    with a inv(3) have "mID n = mID m" unfolding open_unique_def by metis
    with a \<open>opens s (mID n) n\<close> have "n = m" by (simp add: opens_def)
    with n1 show "latest_open h ms = Some m" by simp
  qed
qed

definition restored_doc :: "string list \<Rightarrow> string \<Rightarrow> string \<Rightarrow> tin_doc option \<Rightarrow> tin_doc option" where
  "restored_doc ids mh i d = (case d of
     Some (DReg m) \<Rightarrow> Some (DReg (if i \<in> set ids then pointed_back mh m else m)) | r \<Rightarrow> r)"

lemma restore_registrations_ok:
  "fault_free s \<Longrightarrow> \<exists>s1. restore_registrations mh ids s = (Inr (), s1) \<and> fault_free s1
      \<and> (colls_ok s \<longrightarrow> colls_ok s1) \<and> (\<forall>c. c \<noteq> ''registrations'' \<longrightarrow> coll_of c s1 = coll_of c s)
      \<and> (distinct ids \<longrightarrow> (\<forall>i. lookup ''registrations'' i s1 =
        restored_doc ids mh i (lookup ''registrations'' i s)))"
proof (induction ids arbitrary: s)
  case Nil
  then show ?case by (auto simp: restored_doc_def split: option.splits tin_doc.splits)
next
  case (Cons k ids)
  show ?case
  proof (cases "\<exists>m. lookup ''registrations'' k s = Some (DReg m)")
    case True
    then obtain m where m: "lookup ''registrations'' k s = Some (DReg m)" ..
    let ?s = "written ''registrations'' k (DReg (pointed_back mh m)) s"
    have "restore_registrations mh (k # ids) s = restore_registrations mh ids ?s"
      using m Cons.prems by (simp add: GetRaw_def lookup_def put_doc_ok)
    with Cons.IH [of ?s] Cons.prems m show ?thesis
      by (fastforce simp: restored_doc_def split: option.splits tin_doc.splits if_splits)
  next
    case False
    then have "restore_registrations mh (k # ids) s = restore_registrations mh ids s"
      by (auto simp: GetRaw_def lookup_def split: option.splits tin_doc.splits)
    with Cons.IH [OF Cons.prems] False show ?thesis
      by (fastforce simp: restored_doc_def split: option.splits tin_doc.splits if_splits)
  qed
qed

definition unmerged :: "MergeRecord \<Rightarrow> string \<Rightarrow> string \<Rightarrow> LifecycleRecord \<Rightarrow> LifecycleRecord" where
  "unmerged op officer at lc =
     lc\<lparr>History := History lc @ [\<lparr>From = StatusMergedInto, To = PrevStatus op,
          evEffectiveDate = take 10 at, evReason = ''unmerge: '' @ mID op, evActor = officer, evAt = at\<rparr>],
        lStatus := PrevStatus op, lEffectiveDate := take 10 at, lMergedInto := '''', lUpdatedAt := at\<rparr>"

lemma unmerged_simps [simp]:
  "lTINHash (unmerged op officer at lc) = lTINHash lc"
  "lStatus (unmerged op officer at lc) = PrevStatus op"
  "lMergedInto (unmerged op officer at lc) = ''''"
  by (simp_all add: unmerged_def)

lemma good_unmerged:
  "good_life h lc \<Longrightarrow> lStatus lc = StatusMergedInto \<Longrightarrow> CanTransition (PrevStatus op) StatusMergedInto \<Longrightarrow>
   good_life h (unmerged op officer at lc)"
  by (simp add: good_life_def unmerged_def legal_event_def)

lemma life_of_cong: "coll_of ''lifecycle'' s = coll_of ''lifecycle'' t \<Longrightarrow> life_of s h = life_of t h"
  by (simp add: life_of_def lookup_def)

lemma unmerge_writes_ok:
  assumes "fault_free s" "life_ok s" "10 \<le> length at"
  shows "\<exists>s3. unmerge_writes op h officer at stamp s = (Inr (op\<lparr>UndoneAt := at, UndoneBy := officer\<rparr>),
       written ''tin_audit'' (''unmerge-'' @ stamp) (DMerge (op\<lparr>UndoneAt := at, UndoneBy := officer\<rparr>))
      (written ''merges'' (mID op) (DMerge (op\<lparr>UndoneAt := at, UndoneBy := officer\<rparr>))
      (written ''lifecycle'' h (DLife (unmerged op officer at (life_of s h))) s3)))
    \<and> restore_registrations h (MovedRegistration op)
       (written ''entities'' (nID (MergedSnapshot op)) (DEntity (MergedSnapshot op))
       (written ''entities'' (nID (SurvivingSnapshot op)) (DEntity (SurvivingSnapshot op)) s))
      = (Inr (), s3)
    \<and> fault_free s3 \<and> (\<forall>c. c \<noteq> ''registrations'' \<longrightarrow> c \<noteq> ''entities'' \<longrightarrow> coll_of c s3 = coll_of c s)
    \<and> (colls_ok s \<longrightarrow> colls_ok s3)"
proof -
  let ?s2 = "written ''entities'' (nID (MergedSnapshot op)) (DEntity (MergedSnapshot op))
       (written ''entities'' (nID (SurvivingSnapshot op)) (DEntity (SurvivingSnapshot op)) s)"
  have f: "fault_free ?s2" using assms(1) by simp
  obtain s3 where "restore_registrations h (MovedRegistration op) ?s2 = (Inr (), s3) \<and> fault_free s3
      \<and> (colls_ok ?s2 \<longrightarrow> colls_ok s3) \<and> (\<forall>c. c \<noteq> ''registrations'' \<longrightarrow> coll_of c s3 = coll_of c ?s2)"
    using restore_registrations_ok [OF f, of h "MovedRegistration op"] by blast
  then have r: "restore_registrations h (MovedRegistration op) ?s2 = (Inr (), s3)" "fault_free s3"
    "colls_ok ?s2 \<Longrightarrow> colls_ok s3" "\<And>c. c \<noteq> ''registrations'' \<Longrightarrow> coll_of c s3 = coll_of c ?s2"
    by blast+
  have e: "coll_of ''lifecycle'' s3 = coll_of ''lifecycle'' s" using r(4) by simp
  then have lo: "life_ok s3" using assms(2) by (simp add: life_ok_def lookup_def)
  have "LoadLifecycle s3 h = Inr (life_of s h)"
    using LoadLifecycle_ok [OF lo] life_of_cong [OF e] by simp
  then have "unmerge_writes op h officer at stamp s = (Inr (op\<lparr>UndoneAt := at, UndoneBy := officer\<rparr>),
       written ''tin_audit'' (''unmerge-'' @ stamp) (DMerge (op\<lparr>UndoneAt := at, UndoneBy := officer\<rparr>))
      (written ''merges'' (mID op) (DMerge (op\<lparr>UndoneAt := at, UndoneBy := officer\<rparr>))
      (written ''lifecycle'' h (DLife (unmerged op officer at (life_of s h))) s3)))"
    using assms(1,3) r(1,2)
    by (simp add: unmerge_writes_def put_doc_ok appendAudit_ok unmerged_def Let_def)
  then show ?thesis using r(1-4) by (intro exI [of _ s3] conjI) simp_all
qed

section \<open>Runs of the service\<close>

datatype tin_op =
    SetStatus string LifecycleStatus string string string string
  | DoMerge string string string string string string string string
  | DoUnmerge string string string int string
  | PutDoc string string tin_doc

fun tin_exec :: "tin_op \<Rightarrow> tin_store \<Rightarrow> tin_store" where
  "tin_exec (SetStatus h to ed reason actor at) s = snd (Transition s h to ed reason actor at)"
| "tin_exec (DoMerge sh mh reason ev off at ulid stamp) s = snd (MergeTINs s sh mh reason ev off at ulid stamp)"
| "tin_exec (DoUnmerge mh off at window stamp) s = snd (UnmergeTINs s mh off at window stamp)"
| "tin_exec (PutDoc c i d) s = snd (put_doc c i d s)"

text \<open>The handlers pass a full timestamp, new merges get a fresh id, and the other endpoints write
  only the other collections.\<close>

fun tin_admissible :: "tin_op \<Rightarrow> tin_store \<Rightarrow> bool" where
  "tin_admissible (SetStatus h to ed reason actor at) s \<longleftrightarrow> 10 \<le> length at"
| "tin_admissible (DoMerge sh mh reason ev off at ulid stamp) s \<longleftrightarrow>
     10 \<le> length at \<and> lookup ''merges'' (''merge-'' @ ulid) s = None"
| "tin_admissible (DoUnmerge mh off at window stamp) s \<longleftrightarrow> 10 \<le> length at"
| "tin_admissible (PutDoc c i d) s \<longleftrightarrow> c \<noteq> ''lifecycle'' \<and> c \<noteq> ''merges''"

inductive tin_path :: "tin_store \<Rightarrow> tin_store \<Rightarrow> bool" where
  stay: "tin_path s s"
| step: "tin_path s t \<Longrightarrow> tin_admissible p t \<Longrightarrow> tin_path s (tin_exec p t)"

lemma Transition_date:
  "10 \<le> length at \<Longrightarrow> Transition s h to '''' reason actor at = Transition s h to (take 10 at) reason actor at"
  by (cases at) (auto simp: Transition_def applyTransition_def Let_def split: sum.splits)

lemma Transition_cases:
  assumes "tin_inv s" "10 \<le> length at" "Transition s h to ed reason actor at = (r, s1)"
  obtains (refused) e where "r = Inl e" "s1 = s" "\<not> CanTransition (lStatus (life_of s h)) to"
  | (moved) r1 ed1 where "CanTransition (lStatus (life_of s h)) to" "r = Inr r1"
      "r1 = transitioned (life_of s h) to ed1 reason actor at"
      "s1 = written ''lifecycle'' h (DLife r1) s"
proof -
  let ?ed = "if ed = '''' then take 10 at else ed"
  have "?ed \<noteq> ''''" using assms(2) by (cases at) auto
  moreover have "Transition s h to ed reason actor at = Transition s h to ?ed reason actor at"
    using Transition_date [OF assms(2)] by auto
  ultimately show ?thesis
    using Transition_ok [OF assms(1), of ?ed h to reason actor at] assms(3) refused moved
    by (auto split: if_splits)
qed

lemma tin_inv_Transition:
  assumes "tin_inv s" "10 \<le> length at" "Transition s h to ed reason actor at = (r, s1)"
  shows "tin_inv s1"
proof (cases rule: Transition_cases [OF assms])
  case (1 e)
  then show ?thesis using assms(1) by simp
next
  case (2 r1 ed1)
  have l: "life_ok s" and o: "open_ok s" using assms(1) by (simp_all add: tin_inv_def)
  have g: "good_life h r1" using good_transitioned [OF life_of_good [OF l] 2(1)] 2(3) by simp
  have "\<not> opens s i m" if "MergedTINHash m = h" for i m
    using o 2(1) that by (auto simp: open_ok_def CanTransition_simps)
  then show ?thesis using tin_inv_life [OF assms(1) g] 2(4) by blast
qed

lemma tin_inv_merged_store:
  assumes "tin_inv s" "good_life mh lc2" "lStatus lc2 = StatusMergedInto"
    "CanTransition (lStatus (life_of s mh)) StatusMergedInto"
    "lookup ''merges'' (mID mr) s = None" "MergedTINHash mr = mh" "PrevStatus mr = lStatus (life_of s mh)"
  shows "tin_inv (merged_store surv mgd lc1 mr mh lc2 stamp s)"
proof -
  let ?s1 = "written_all ''registrations'' (moved_docs (SurvivingTINHash mr) mh (ListDocs ''registrations'' s)) s"
  let ?s2 = "written ''entities'' (nID surv) (DEntity (moved_attrs surv mgd)) ?s1"
  have f: "fault_free s" using assms(1) by (simp add: tin_inv_def)
  have i2: "tin_inv ?s2" by (intro tin_inv_other tin_inv_written_all assms(1)) simp_all
  have c: "coll_of c ?s2 = coll_of c s" if "c \<in> {''lifecycle'', ''merges''}" for c
    using that written_all_keeps [OF f] by auto
  have L: "life_of ?s2 h = life_of s h" for h by (rule life_of_cong [OF c]) simp
  have M: "lookup ''merges'' i ?s2 = lookup ''merges'' i s" for i using c [of "''merges''"] by (simp only: lookup_def insert_iff simp_thms)
  have no: "\<not> opens ?s2 i m" if "MergedTINHash m = mh" for i m
  proof
    assume "opens ?s2 i m"
    then have "lStatus (life_of s (MergedTINHash m)) = StatusMergedInto"
      using i2 L unfolding tin_inv_def open_ok_def by metis
    with assms(4) that show False by (auto simp: CanTransition_simps)
  qed
  have "tin_inv (written ''lifecycle'' mh (DLife lc2) (written ''lifecycle'' mh (DLife lc1)
      (written ''merges'' (mID mr) (DMerge mr) ?s2)))"
    using i2 assms(2-7) no
    unfolding tin_inv_def life_ok_def merges_ok_def open_ok_def open_unique_def
    by (simp add: L M) blast
  then show ?thesis unfolding merged_store_def by (rule tin_inv_other) simp_all
qed

lemma merge_receipt_simps [simp]:
  "mID (merge_receipt surv mgd lc sh mh reason ev off at ulid s) = ''merge-'' @ ulid"
  "SurvivingTINHash (merge_receipt surv mgd lc sh mh reason ev off at ulid s) = sh"
  "MergedTINHash (merge_receipt surv mgd lc sh mh reason ev off at ulid s) = mh"
  "PrevStatus (merge_receipt surv mgd lc sh mh reason ev off at ulid s) = lStatus lc"
  "UndoneAt (merge_receipt surv mgd lc sh mh reason ev off at ulid s) = ''''"
  "MergedAt (merge_receipt surv mgd lc sh mh reason ev off at ulid s) = at"
  "SurvivingSnapshot (merge_receipt surv mgd lc sh mh reason ev off at ulid s) = surv"
  "MergedSnapshot (merge_receipt surv mgd lc sh mh reason ev off at ulid s) = mgd"
  "MovedRegistration (merge_receipt surv mgd lc sh mh reason ev off at ulid s) =
     sort (map fst (moved_docs sh mh (ListDocs ''registrations'' s)))"
  by (simp_all add: merge_receipt_def merge_record_def)

lemma tin_inv_MergeTINs:
  assumes "tin_inv s" "10 \<le> length at" "lookup ''merges'' (''merge-'' @ ulid) s = None"
    "MergeTINs s sh mh reason ev off at ulid stamp = (r, s1)"
  shows "tin_inv s1"
proof (cases rule: MergeTINs_cases [OF assms(1,2,4)])
  case (1 e)
  then show ?thesis using assms(1) by simp
next
  case (2 surv mgd lc1 mr)
  have l: "life_ok s" using assms(1) by (simp add: tin_inv_def)
  have "good_life mh lc1" using good_transitioned [OF life_of_good [OF l] 2(5)] 2(6) by simp
  then have "good_life mh (lc1\<lparr>lMergedInto := sh\<rparr>)" by (simp add: good_life_def)
  then show ?thesis unfolding 2(9)
    by (rule tin_inv_merged_store [OF assms(1)]) (use 2 assms(3) in simp_all)
qed

text \<open>An undo either changes nothing or ends in the state \<open>unmerge_writes_ok\<close> gives.\<close>

lemma UnmergeTINs_cases:
  assumes "tin_inv s" "UnmergeTINs s mh off at window stamp = (r, s1)"
  shows "(\<exists>e. r = Inl e) \<and> s1 = s \<or>
    (\<exists>op. opens s (mID op) op \<and> MergedTINHash op = mh
      \<and> unmerge_writes op mh off at stamp s = (r, s1))"
proof -
  have inv: "merges_ok s" "colls_ok s" using assms(1) by (simp_all add: tin_inv_def)
  obtain ms where ms: "ListInto dec_merge ''merges'' s = Inr ms" using merges_listed [OF inv] by blast
  show ?thesis
  proof (cases "latest_open mh ms")
    case None
    then show ?thesis using assms(2) ms by (auto simp: UnmergeTINs_def)
  next
    case (Some op)
    then have "opens s (mID op) op" "MergedTINHash op = mh"
      using open_merge_found(1) [OF assms(1) ms, of mh op] by simp_all
    then show ?thesis using assms(2) ms Some
      by (auto simp: UnmergeTINs_def split: option.splits if_splits)
  qed
qed

lemma tin_inv_closed:
  assumes "tin_inv s" "opens s (mID op) op" "MergedTINHash op = h" "at \<noteq> ''''"
    "coll_of ''lifecycle'' s3 = coll_of ''lifecycle'' s" "coll_of ''merges'' s3 = coll_of ''merges'' s"
    "fault_free s3" "colls_ok s3"
  shows "tin_inv (written ''merges'' (mID op) (DMerge (op\<lparr>UndoneAt := at, UndoneBy := off\<rparr>))
     (written ''lifecycle'' h (DLife (unmerged op off at (life_of s h))) s3))"
proof -
  have inv: "life_ok s" "merges_ok s" "open_ok s" "open_unique s"
    using assms(1) by (simp_all add: tin_inv_def)
  have L: "life_of s3 k = life_of s k" for k by (rule life_of_cong [OF assms(5)])
  have lk: "lookup ''lifecycle'' k s3 = lookup ''lifecycle'' k s" for k by (simp add: lookup_def assms(5))
  have mk: "lookup ''merges'' i s3 = lookup ''merges'' i s" for i by (simp add: lookup_def assms(6))
  have o3: "opens s3 i m \<longleftrightarrow> opens s i m" for i m by (simp add: opens_def mk)
  have g: "good_life h (unmerged op off at (life_of s h))"
    using good_unmerged life_of_good [OF inv(1)] inv(3) assms(2,3) unfolding open_ok_def by blast
  have other: "MergedTINHash m \<noteq> h" if "opens s i m" "i \<noteq> mID op" for i m
    using inv(4) assms(2,3) that unfolding open_unique_def by blast
  show ?thesis
    using inv g other assms(4,7,8) unfolding tin_inv_def life_ok_def merges_ok_def open_ok_def open_unique_def
    by (simp add: L lk mk o3)
qed

lemma tin_inv_UnmergeTINs:
  assumes "tin_inv s" "10 \<le> length at" "UnmergeTINs s mh off at window stamp = (r, s1)"
  shows "tin_inv s1"
proof (cases "s1 = s")
  case True
  then show ?thesis using assms(1) by simp
next
  case False
  with UnmergeTINs_cases [OF assms(1,3)] obtain op where
    op: "opens s (mID op) op" "MergedTINHash op = mh" "unmerge_writes op mh off at stamp s = (r, s1)" by blast
  have f: "fault_free s" "life_ok s" "colls_ok s" using assms(1) by (simp_all add: tin_inv_def)
  have n: "at \<noteq> ''''" using assms(2) by auto
  obtain s3 where s3: "unmerge_writes op mh off at stamp s = (Inr (op\<lparr>UndoneAt := at, UndoneBy := off\<rparr>),
       written ''tin_audit'' (''unmerge-'' @ stamp) (DMerge (op\<lparr>UndoneAt := at, UndoneBy := off\<rparr>))
      (written ''merges'' (mID op) (DMerge (op\<lparr>UndoneAt := at, UndoneBy := off\<rparr>))
      (written ''lifecycle'' mh (DLife (unmerged op off at (life_of s mh))) s3)))"
    "fault_free s3" "\<forall>c. c \<noteq> ''registrations'' \<longrightarrow> c \<noteq> ''entities'' \<longrightarrow> coll_of c s3 = coll_of c s"
    "colls_ok s \<longrightarrow> colls_ok s3"
    using unmerge_writes_ok [OF f(1,2) assms(2), of op mh off stamp] by blast
  then have s1: "s1 = written ''tin_audit'' (''unmerge-'' @ stamp) (DMerge (op\<lparr>UndoneAt := at, UndoneBy := off\<rparr>))
      (written ''merges'' (mID op) (DMerge (op\<lparr>UndoneAt := at, UndoneBy := off\<rparr>))
      (written ''lifecycle'' mh (DLife (unmerged op off at (life_of s mh))) s3))"
    using op(3) by (simp only: prod.inject)
  show ?thesis unfolding s1
    by (intro tin_inv_other tin_inv_closed [OF assms(1) op(1,2) n]) (use s3 f(3) in simp_all)
qed

lemma tin_inv_exec:
  assumes "tin_inv s" "tin_admissible p s"
  shows "tin_inv (tin_exec p s)"
proof (cases p)
  case (SetStatus h to ed reason actor at)
  then show ?thesis using tin_inv_Transition [OF assms(1) _ prod.collapse [symmetric]] assms(2) by simp
next
  case (DoMerge sh mh reason ev off at ulid stamp)
  then show ?thesis using tin_inv_MergeTINs [OF assms(1) _ _ prod.collapse [symmetric]] assms(2) by simp
next
  case (DoUnmerge mh off at window stamp)
  then show ?thesis using tin_inv_UnmergeTINs [OF assms(1) _ prod.collapse [symmetric]] assms(2) by simp
next
  case (PutDoc c i d)
  have "fault_free s" using assms(1) by (simp add: tin_inv_def)
  then show ?thesis using PutDoc assms tin_inv_other by (simp add: put_doc_ok)
qed

lemma tin_inv_path: "tin_path s t \<Longrightarrow> tin_inv s \<Longrightarrow> tin_inv t"
  by (induction rule: tin_path.induct) (simp_all add: tin_inv_exec)

lemma tin_inv_empty: "tin_inv (Open True [] (\<lambda>_. NoFault))"
  by (simp add: tin_inv_def fault_free_def Open_def colls_ok_def coll_of_def life_ok_def merges_ok_def
      open_ok_def open_unique_def opens_def lookup_def)

section \<open>A merge that was never made\<close>

text \<open>A TIN that is marked as merged without an open merge of it.\<close>

definition stranded :: "string \<Rightarrow> tin_store \<Rightarrow> bool" where
  "stranded h s \<longleftrightarrow> lStatus (life_of s h) = StatusMergedInto
     \<and> \<not> (\<exists>i m. opens s i m \<and> MergedTINHash m = h)"

lemma stranded_other:
  "stranded h s \<Longrightarrow> c \<noteq> ''lifecycle'' \<Longrightarrow> c \<noteq> ''merges'' \<Longrightarrow> stranded h (written c i d s)"
  by (simp add: stranded_def)

lemma stranded_cong:
  "coll_of ''lifecycle'' s = coll_of ''lifecycle'' t \<Longrightarrow> coll_of ''merges'' s = coll_of ''merges'' t \<Longrightarrow>
   stranded h s = stranded h t"
  using life_of_cong [of s t h] by (simp add: stranded_def opens_def lookup_def)

lemma stranded_written_all:
  "fault_free s \<Longrightarrow> stranded h s \<Longrightarrow> c \<noteq> ''lifecycle'' \<Longrightarrow> c \<noteq> ''merges'' \<Longrightarrow> stranded h (written_all c ps s)"
proof (induction ps arbitrary: s)
  case (Cons p ps)
  then show ?case by (cases p) (simp add: stranded_other)
qed simp

lemma stranded_Transition:
  assumes "tin_inv s" "stranded h s" "10 \<le> length at" "Transition s k to ed reason actor at = (r, s1)"
  shows "stranded h s1"
proof (cases rule: Transition_cases [OF assms(1,3,4)])
  case (2 r1 ed1)
  then have "k \<noteq> h" using assms(2) by (auto simp: stranded_def CanTransition_simps)
  then show ?thesis using 2 assms(2) by (simp add: stranded_def)
qed (use assms(2) in simp)

lemma stranded_MergeTINs:
  assumes "tin_inv s" "stranded h s" "10 \<le> length at"
    "MergeTINs s sh mh reason ev off at ulid stamp = (r, s1)"
  shows "stranded h s1"
proof (cases rule: MergeTINs_cases [OF assms(1,3,4)])
  case (2 surv mgd lc1 mr)
  have f: "fault_free s" using assms(1) by (simp add: tin_inv_def)
  have n: "mh \<noteq> h" using 2(5) assms(2) by (auto simp: stranded_def CanTransition_simps)
  have "stranded h (written_all ''registrations'' (moved_docs sh mh (ListDocs ''registrations'' s)) s)"
    by (rule stranded_written_all [OF f assms(2)]) simp_all
  then show ?thesis unfolding 2(9) merged_store_def 2(7)
    using n by (simp add: stranded_def)
qed (use assms(2) in simp)

lemma stranded_UnmergeTINs:
  assumes "tin_inv s" "stranded h s" "10 \<le> length at" "UnmergeTINs s mh off at window stamp = (r, s1)"
  shows "stranded h s1"
proof (cases "s1 = s")
  case False
  have f: "fault_free s" "life_ok s" using assms(1) by (simp_all add: tin_inv_def)
  from False UnmergeTINs_cases [OF assms(1,4)] obtain op where
    op: "opens s (mID op) op" "MergedTINHash op = mh" "unmerge_writes op mh off at stamp s = (r, s1)" by blast
  obtain s3 where s3: "unmerge_writes op mh off at stamp s = (Inr (op\<lparr>UndoneAt := at, UndoneBy := off\<rparr>),
       written ''tin_audit'' (''unmerge-'' @ stamp) (DMerge (op\<lparr>UndoneAt := at, UndoneBy := off\<rparr>))
      (written ''merges'' (mID op) (DMerge (op\<lparr>UndoneAt := at, UndoneBy := off\<rparr>))
      (written ''lifecycle'' mh (DLife (unmerged op off at (life_of s mh))) s3)))"
    "\<forall>c. c \<noteq> ''registrations'' \<longrightarrow> c \<noteq> ''entities'' \<longrightarrow> coll_of c s3 = coll_of c s"
    using unmerge_writes_ok [OF f assms(3), of op mh off stamp] by blast
  have "stranded h s3" using s3(2) stranded_cong [of s3 s h] assms(2) by simp
  moreover have "mh \<noteq> h" using op(1,2) assms(2) by (auto simp: stranded_def)
  moreover have "UndoneAt (op\<lparr>UndoneAt := at, UndoneBy := off\<rparr>) \<noteq> ''''" using assms(3) by auto
  moreover have "s1 = written ''tin_audit'' (''unmerge-'' @ stamp) (DMerge (op\<lparr>UndoneAt := at, UndoneBy := off\<rparr>))
      (written ''merges'' (mID op) (DMerge (op\<lparr>UndoneAt := at, UndoneBy := off\<rparr>))
      (written ''lifecycle'' mh (DLife (unmerged op off at (life_of s mh))) s3))"
    using op(3) s3(1) by (simp only: prod.inject)
  ultimately show ?thesis by (simp add: stranded_def)
qed (use assms(2) in simp)

lemma stranded_exec:
  assumes "tin_inv s" "stranded h s" "tin_admissible p s"
  shows "stranded h (tin_exec p s)"
proof (cases p)
  case (SetStatus k to ed reason actor at)
  then show ?thesis using stranded_Transition [OF assms(1,2) _ prod.collapse [symmetric]] assms(3) by simp
next
  case (DoMerge sh mh reason ev off at ulid stamp)
  then show ?thesis using stranded_MergeTINs [OF assms(1,2) _ prod.collapse [symmetric]] assms(3) by simp
next
  case (DoUnmerge mh off at window stamp)
  then show ?thesis using stranded_UnmergeTINs [OF assms(1,2) _ prod.collapse [symmetric]] assms(3) by simp
next
  case (PutDoc c i d)
  have "fault_free s" using assms(1) by (simp add: tin_inv_def)
  then show ?thesis using PutDoc assms stranded_other by (simp add: put_doc_ok)
qed

lemma stranded_path: "tin_path s t \<Longrightarrow> tin_inv s \<Longrightarrow> stranded h s \<Longrightarrow> stranded h t"
  by (induction rule: tin_path.induct) (simp_all add: stranded_exec tin_inv_path)

lemma stranded_by_transition:
  assumes "tin_inv s" "10 \<le> length at" "Transition s h StatusMergedInto ed reason actor at = (Inr rec, s1)"
  shows "stranded h s1 \<and> tin_inv s1"
proof (cases rule: Transition_cases [OF assms])
  case (2 r1 ed1)
  have "open_ok s" using assms(1) by (simp add: tin_inv_def)
  then have "\<not> (\<exists>i m. opens s i m \<and> MergedTINHash m = h)"
    using 2(1) by (auto simp: open_ok_def CanTransition_simps)
  then show ?thesis using 2 tin_inv_Transition [OF assms] by (simp add: stranded_def)
qed simp

section \<open>A merge and its undo\<close>

definition ents_ok :: "tin_store \<Rightarrow> bool" where
  "ents_ok s \<longleftrightarrow> (\<forall>i d. lookup ''entities'' i s = Some d \<longrightarrow> (\<exists>e. d = DEntity e \<and> nID e = i))"

text \<open>The registrations of a TIN that a merge moves: objects stored under their own id, without a
  mark of an earlier merge.\<close>

definition moves :: "string \<Rightarrow> (string, jval) kv \<Rightarrow> bool" where
  "moves mh m \<longleftrightarrow> map_of m ''tin_hash'' = Some (JStr mh) \<and> reg_id m \<noteq> ''''"

definition reg_ok :: "string \<Rightarrow> string \<Rightarrow> tin_doc \<Rightarrow> bool" where
  "reg_ok mh i d = (case d of DReg m \<Rightarrow> moves mh m \<longrightarrow>
     kv_ok m \<and> reg_id m = i \<and> map_of m ''merged_from_tin_hash'' = None | _ \<Rightarrow> True)"

definition regs_ok :: "string \<Rightarrow> tin_store \<Rightarrow> bool" where
  "regs_ok mh s \<longleftrightarrow> (\<forall>i d. lookup ''registrations'' i s = Some d \<longrightarrow> reg_ok mh i d)"

definition moved_doc :: "string \<Rightarrow> string \<Rightarrow> tin_doc option \<Rightarrow> tin_doc option" where
  "moved_doc sh mh d = (case d of
     Some (DReg m) \<Rightarrow> if moves mh m then Some (DReg (repointed sh mh m)) else None | _ \<Rightarrow> None)"

lemma moved_docs_Cons:
  "moved_docs sh mh (d # ds) = (case moved_doc sh mh (Some d) of
     None \<Rightarrow> moved_docs sh mh ds
   | Some d1 \<Rightarrow> ((case d of DReg m \<Rightarrow> reg_id m | _ \<Rightarrow> ''''), d1) # moved_docs sh mh ds)"
  by (cases d) (auto simp: moved_doc_def moves_def)

declare moved_docs.simps(2) [simp del]

lemma moved_docs_of:
  assumes "distinct (map fst xs)" "\<And>i d. (i, d) \<in> set xs \<Longrightarrow> reg_ok mh i d"
  shows "map_of (moved_docs sh mh (map snd xs)) i = moved_doc sh mh (map_of xs i)
    \<and> distinct (map fst (moved_docs sh mh (map snd xs)))
    \<and> fst ` set (moved_docs sh mh (map snd xs)) \<subseteq> fst ` set xs"
  using assms
proof (induction xs)
  case Nil
  then show ?case by (simp add: moved_doc_def)
next
  case (Cons p xs)
  obtain k d where p: "p = (k, d)" by (cases p)
  from Cons have IH: "map_of (moved_docs sh mh (map snd xs)) i = moved_doc sh mh (map_of xs i)"
    "distinct (map fst (moved_docs sh mh (map snd xs)))"
    "fst ` set (moved_docs sh mh (map snd xs)) \<subseteq> fst ` set xs" by simp_all
  have n: "map_of xs k = None" "k \<notin> fst ` set xs" using Cons.prems(1) p by (auto simp: map_of_eq_None_iff)
  show ?case
  proof (cases "moved_doc sh mh (Some d)")
    case None
    then show ?thesis using IH p n by (auto simp: moved_docs_Cons moved_doc_def)
  next
    case (Some d1)
    then obtain m where m: "d = DReg m" "moves mh m"
      by (auto simp: moved_doc_def split: tin_doc.splits if_splits)
    then have "reg_id m = k" using Cons.prems(2) [of k d] p by (simp add: reg_ok_def)
    then show ?thesis using IH p n m Some by (auto simp: moved_docs_Cons)
  qed
qed

lemma pointed_back_repointed:
  assumes "kv_ok m" "moves mh m" "map_of m ''merged_from_tin_hash'' = None"
  shows "pointed_back mh (repointed sh mh m) = m"
proof (rule kv_eqI)
  show "kv_ok (pointed_back mh (repointed sh mh m))" using assms(1) by (simp add: pointed_back_def repointed_def)
  show "map_of (pointed_back mh (repointed sh mh m)) = map_of m"
    using assms by (auto simp: pointed_back_def repointed_def moves_def fun_eq_iff)
qed (rule assms(1))

text \<open>Moving registrations away and back.\<close>

lemma registrations_restored:
  assumes "colls_ok s" "fault_free s" "regs_ok mh s"
    "ids = sort (map fst (moved_docs sh mh (ListDocs ''registrations'' s)))"
  shows "distinct ids" "restored_doc ids mh i (lookup ''registrations'' i
     (written_all ''registrations'' (moved_docs sh mh (ListDocs ''registrations'' s)) s))
     = lookup ''registrations'' i s"
proof -
  let ?xs = "coll_of ''registrations'' s"
  have k: "kv_ok ?xs" using assms(1) by (simp add: colls_ok_def)
  have "reg_ok mh j d" if "(j, d) \<in> set ?xs" for j d
    using that assms(3) kv_mem_iff [OF k] by (simp add: regs_ok_def lookup_def)
  note M = moved_docs_of [OF kv_ok_distinct [OF k] this, of sh]
  have md: "map_of (moved_docs sh mh (ListDocs ''registrations'' s)) j
      = moved_doc sh mh (lookup ''registrations'' j s)" for j
    using M [of j] by (simp add: ListDocs_def lookup_def)
  have dist: "distinct (map fst (moved_docs sh mh (ListDocs ''registrations'' s)))"
    using M by (simp add: ListDocs_def)
  then show "distinct ids" by (simp add: assms(4))
  have ids: "i \<in> set ids \<longleftrightarrow> moved_doc sh mh (lookup ''registrations'' i s) \<noteq> None"
    unfolding assms(4) md [symmetric] by (simp add: map_of_eq_None_iff)
  show "restored_doc ids mh i (lookup ''registrations'' i
     (written_all ''registrations'' (moved_docs sh mh (ListDocs ''registrations'' s)) s))
     = lookup ''registrations'' i s"
  proof (cases "moved_doc sh mh (lookup ''registrations'' i s)")
    case None
    then show ?thesis using ids written_all_lookup [OF assms(2) dist] md [of i]
      by (auto simp: restored_doc_def split: option.splits tin_doc.splits)
  next
    case (Some d)
    then obtain m where m: "lookup ''registrations'' i s = Some (DReg m)" "moves mh m"
        "d = DReg (repointed sh mh m)"
      by (auto simp: moved_doc_def split: option.splits tin_doc.splits if_splits)
    moreover have "kv_ok m" "map_of m ''merged_from_tin_hash'' = None"
      using assms(3) [unfolded regs_ok_def, rule_format, OF m(1)] m(2) by (simp_all add: reg_ok_def)
    ultimately show ?thesis
      using Some ids md [of i] pointed_back_repointed
      by (simp add: restored_doc_def written_all_lookup [OF assms(2) dist])
  qed
qed

lemma findEntity_stored:
  assumes "ents_ok s" "colls_ok s" "findEntityByTINHash s h = Inr e"
  shows "lookup ''entities'' (nID e) s = Some (DEntity e) \<and> nTINHash e = h"
proof -
  obtain es where es: "ListInto dec_entity ''entities'' s = Inr es"
    using assms(3) by (cases "ListInto dec_entity ''entities'' s") (simp_all add: findEntityByTINHash_def)
  then have "List.find (\<lambda>e. nTINHash e = h) es = Some e"
    using assms(3) by (cases "List.find (\<lambda>e. nTINHash e = h) es") (simp_all add: findEntityByTINHash_def)
  then have e: "e \<in> set es" "nTINHash e = h" by (auto simp: find_Some_iff)
  then obtain d where "d \<in> set (ListDocs ''entities'' s)" "dec_entity d = Inr e"
    using decode_all_mem [of dec_entity "ListDocs ''entities'' s" es e] es unfolding ListInto_def by blast
  then obtain i where "lookup ''entities'' i s = Some (DEntity e)"
    using mem_ListDocs [OF assms(2)] by (auto simp: dec_entity_def split: tin_doc.splits)
  with assms(1) e(2) show ?thesis by (auto simp: ents_ok_def)
qed

lemma merge_then_unmerge:
  assumes "tin_inv s" "ents_ok s" "regs_ok mh s" "10 \<le> length at" "10 \<le> length at2"
    "lookup ''merges'' (''merge-'' @ ulid) s = None"
    "MergeTINs s sh mh reason ev off at ulid stamp = (Inr mr, s1)"
    "parse_rfc3339 at = Some t1" "parse_rfc3339 at2 = Some t2" "duration_sub t2 t1 \<le> window"
  shows "\<exists>mr2 s2. UnmergeTINs s1 mh off2 at2 window stamp2 = (Inr mr2, s2)
    \<and> (\<forall>i. lookup ''entities'' i s2 = lookup ''entities'' i s)
    \<and> (\<forall>i. lookup ''registrations'' i s2 = lookup ''registrations'' i s)
    \<and> lStatus (life_of s2 mh) = lStatus (life_of s mh) \<and> lMergedInto (life_of s2 mh) = ''''"
proof (cases rule: MergeTINs_cases [OF assms(1,4,7)])
  case (2 surv mgd lc1 mr')
  then have mr: "mr' = mr" by simp
  let ?ps = "moved_docs sh mh (ListDocs ''registrations'' s)"
  have f: "fault_free s" "colls_ok s" using assms(1) by (simp_all add: tin_inv_def)
  have i1: "tin_inv s1" by (rule tin_inv_MergeTINs [OF assms(1,4,6,7)])
  have f1: "fault_free s1" "life_ok s1" "merges_ok s1" "colls_ok s1" using i1 by (simp_all add: tin_inv_def)
  have R: "mID mr = ''merge-'' @ ulid" "SurvivingTINHash mr = sh" "MergedTINHash mr = mh" "UndoneAt mr = ''''"
    "PrevStatus mr = lStatus (life_of s mh)" "MergedAt mr = at" "SurvivingSnapshot mr = surv"
    "MergedSnapshot mr = mgd" "MovedRegistration mr = sort (map fst ?ps)"
    unfolding mr [symmetric] 2(7) by simp_all
  have "opens s1 (mID mr) mr" unfolding 2(9) mr merged_store_def using R by simp
  then obtain ms where ms: "ListInto dec_merge ''merges'' s1 = Inr ms" "latest_open mh ms = Some mr"
    using merges_listed [OF f1(3,4)] open_merge_found(1) [OF i1] R(3) by blast
  have u: "UnmergeTINs s1 mh off2 at2 window stamp2 = unmerge_writes mr mh off2 at2 stamp2 s1"
    using ms assms(8-10) R(6) by (simp add: UnmergeTINs_def)
  have e1: "lookup ''entities'' i s1 = (if i = nID surv then Some (DEntity (moved_attrs surv mgd))
      else lookup ''entities'' i s)" for i
    unfolding 2(9) mr merged_store_def using written_all_keeps [OF f(1)] by (simp add: lookup_def)
  have r1: "lookup ''registrations'' i s1 = lookup ''registrations'' i (written_all ''registrations'' ?ps s)" for i
    unfolding 2(9) mr merged_store_def by (simp add: R(2))
  note E = findEntity_stored [OF assms(2) f(2)]
  obtain s3 where s3: "unmerge_writes mr mh off2 at2 stamp2 s1 = (Inr (mr\<lparr>UndoneAt := at2, UndoneBy := off2\<rparr>),
       written ''tin_audit'' (''unmerge-'' @ stamp2) (DMerge (mr\<lparr>UndoneAt := at2, UndoneBy := off2\<rparr>))
      (written ''merges'' (mID mr) (DMerge (mr\<lparr>UndoneAt := at2, UndoneBy := off2\<rparr>))
      (written ''lifecycle'' mh (DLife (unmerged mr off2 at2 (life_of s1 mh))) s3)))"
    "restore_registrations mh (MovedRegistration mr)
       (written ''entities'' (nID mgd) (DEntity mgd) (written ''entities'' (nID surv) (DEntity surv) s1))
      = (Inr (), s3)"
    using unmerge_writes_ok [OF f1(1,2) assms(5), of mr mh off2 stamp2] R(7,8) by auto
  note RR = registrations_restored [OF f(2,1) assms(3) R(9)]
  have B: "coll_of ''entities'' s3 = coll_of ''entities''
      (written ''entities'' (nID mgd) (DEntity mgd) (written ''entities'' (nID surv) (DEntity surv) s1))"
    "lookup ''registrations'' i s3 = restored_doc (MovedRegistration mr) mh i (lookup ''registrations'' i s1)" for i
    using restore_registrations_ok [of "written ''entities'' (nID mgd) (DEntity mgd)
       (written ''entities'' (nID surv) (DEntity surv) s1)" mh "MovedRegistration mr"] f1(1) s3(2) RR(1) by auto
  let ?s2 = "written ''tin_audit'' (''unmerge-'' @ stamp2) (DMerge (mr\<lparr>UndoneAt := at2, UndoneBy := off2\<rparr>))
      (written ''merges'' (mID mr) (DMerge (mr\<lparr>UndoneAt := at2, UndoneBy := off2\<rparr>))
      (written ''lifecycle'' mh (DLife (unmerged mr off2 at2 (life_of s1 mh))) s3))"
  have "lookup ''entities'' i ?s2 = lookup ''entities'' i s3" for i by simp
  moreover have "lookup ''entities'' i s3 = lookup ''entities'' i s" for i
    using E [OF 2(2)] E [OF 2(3)] e1 [of i] unfolding lookup_def B(1) by (simp add: lookup_def)
  ultimately have e2: "lookup ''entities'' i ?s2 = lookup ''entities'' i s" for i by simp
  have r2: "lookup ''registrations'' i ?s2 = lookup ''registrations'' i s" for i
    using B(2) RR(2) r1 by simp
  show ?thesis using u [unfolded s3(1)] e2 r2 R(5) by (intro exI [of _ ?s2] exI) auto
qed simp

end
