(* ===== verification/DemoTin.thy ===== *)
theory DemoTin
  imports Lifecycle
begin

text \<open>The store of two entities and one registration on which the lifecycle properties are shown to
  apply.\<close>

definition d_ent :: "string \<Rightarrow> string \<Rightarrow> entity" where
  "d_ent i h = \<lparr>nID = i, nTIN = '''', nTINHash = h, NINHash = '''', CACRC = '''',
     EntityType = ''individual'', nName = ''Ada'', Phone = '''', Email = '''', Address = '''',
     Attrs = [], Directors = [], Shareholders = [], UBOs = [], RegistryCrossCheck = '''', nCreatedAt = ''''\<rparr>"

definition d_reg :: "(string, jval) kv" where
  "d_reg = [(''id'', JStr ''r1''), (''tin_hash'', JStr ''hb'')]"

definition d_at :: string where "d_at = ''2025-06-01T12:00:00Z''"
definition d_at2 :: string where "d_at2 = ''2025-06-02T12:00:00Z''"

definition d_tin :: tin_store where
  "d_tin = fold tin_exec [PutDoc ''entities'' ''a'' (DEntity (d_ent ''a'' ''ha'')),
     PutDoc ''entities'' ''b'' (DEntity (d_ent ''b'' ''hb'')),
     PutDoc ''registrations'' ''r1'' (DReg d_reg)] (Open True [] (\<lambda>_. NoFault))"

definition d_tin_merged :: tin_store where
  "d_tin_merged = tin_exec (DoMerge ''ha'' ''hb'' ''dup'' ''case'' ''o1'' d_at ''1'' ''y'') d_tin"

definition d_tin_undone :: tin_store where
  "d_tin_undone = tin_exec (DoUnmerge ''hb'' ''o2'' d_at2 (72 * hour_ns) ''z'') d_tin_merged"

definition d_tin_hand :: tin_store where
  "d_tin_hand = tin_exec (SetStatus ''hb'' StatusMergedInto '''' ''dup'' ''o'' d_at) d_tin"

lemma d_at_facts:
  "10 \<le> length d_at" "10 \<le> length d_at2" "parse_rfc3339 d_at = Some 1748779200000000000"
  "parse_rfc3339 d_at2 = Some 1748865600000000000"
  "duration_sub 1748865600000000000 1748779200000000000 \<le> 72 * hour_ns"
  by code_simp+

lemma tin_path_fold:
  "tin_path s0 s \<Longrightarrow> list_all (\<lambda>p. case p of PutDoc c i d \<Rightarrow> c \<noteq> ''lifecycle'' \<and> c \<noteq> ''merges'' | _ \<Rightarrow> False) ps \<Longrightarrow>
   tin_path s0 (fold tin_exec ps s)"
proof (induction ps arbitrary: s)
  case (Cons p ps)
  then have "tin_admissible p s" by (cases p) auto
  from tin_path.step [OF Cons.prems(1) this] Cons.IH [of "tin_exec p s"] Cons.prems(2) show ?case by simp
qed simp

lemma d_tin_path: "tin_path (Open True [] (\<lambda>_. NoFault)) d_tin"
  unfolding d_tin_def by (rule tin_path_fold [OF tin_path.stay]) simp

lemma d_tin_inv: "tin_inv d_tin"
  by (rule tin_inv_path [OF d_tin_path tin_inv_empty])

lemma d_tin_lookups:
  "lookup ''entities'' i d_tin = (if i = ''a'' then Some (DEntity (d_ent ''a'' ''ha''))
     else if i = ''b'' then Some (DEntity (d_ent ''b'' ''hb'')) else None)"
  "lookup ''registrations'' i d_tin = (if i = ''r1'' then Some (DReg d_reg) else None)"
  "lookup ''merges'' i d_tin = None"
  by (simp_all add: d_tin_def put_doc_ok fault_free_def Open_def lookup_def coll_of_def
      written_def Put_def persistLocked_def set_coll_def Let_def)

lemma d_tin_fresh: "lookup ''merges'' (''merge-'' @ ''1'') d_tin = None"
  by (simp add: d_tin_lookups)

lemma d_tin_docs: "ents_ok d_tin" "regs_ok ''hb'' d_tin"
  by (simp_all add: ents_ok_def regs_ok_def d_tin_lookups reg_ok_def moves_def reg_id_def d_reg_def
      d_ent_def kv_ok_def)

lemma d_tin_merges:
  "\<exists>mr. MergeTINs d_tin ''ha'' ''hb'' ''dup'' ''case'' ''o1'' d_at ''1'' ''y'' = (Inr mr, d_tin_merged)"
proof -
  have "is_ok (fst (MergeTINs d_tin ''ha'' ''hb'' ''dup'' ''case'' ''o1'' d_at ''1'' ''y''))"
    by code_simp
  then obtain mr where "fst (MergeTINs d_tin ''ha'' ''hb'' ''dup'' ''case'' ''o1'' d_at ''1'' ''y'') = Inr mr"
    by (auto simp: is_ok_def split: sum.splits)
  then show ?thesis unfolding d_tin_merged_def by (auto simp: prod_eq_iff)
qed

lemma d_tin_moved: "lookup ''registrations'' ''r1'' d_tin_merged \<noteq> lookup ''registrations'' ''r1'' d_tin"
  by code_simp

lemma d_tin_undone_path: "tin_path (Open True [] (\<lambda>_. NoFault)) d_tin_undone"
  unfolding d_tin_undone_def d_tin_merged_def
  by (intro tin_path.step d_tin_path) (simp_all add: d_at_facts d_tin_lookups)

lemma d_tin_undone_life: "map (\<lambda>e. (From e, To e)) (History (life_of d_tin_undone ''hb'')) =
    [(''active'', ''merged_into''), (''merged_into'', ''active'')] \<and> lStatus (life_of d_tin_undone ''hb'') = ''active''"
  by code_simp

lemma d_tin_by_hand: "\<exists>r. Transition d_tin ''hb'' StatusMergedInto '''' ''dup'' ''o'' d_at = (Inr r, d_tin_hand)"
proof -
  have "is_ok (fst (Transition d_tin ''hb'' StatusMergedInto '''' ''dup'' ''o'' d_at))" by code_simp
  then obtain r where "fst (Transition d_tin ''hb'' StatusMergedInto '''' ''dup'' ''o'' d_at) = Inr r"
    by (auto simp: is_ok_def split: sum.splits)
  then show ?thesis unfolding d_tin_hand_def by (auto simp: prod_eq_iff)
qed

end
