(* ===== verification/TinApi.thy ===== *)
theory TinApi
  imports Lifecycle Access
begin

text \<open>
  The HTTP side of the TIN service (\<open>services/tin-graph\<close>): who may administer TINs
  (\<open>permify_gate.go\<close>), the TIN format and its issuance (\<open>graph.go\<close>), the entity index
  (\<open>entity_index.go\<close>), the consent gate of the verification endpoints (\<open>consent_gate.go\<close>,
  \<open>main.go\<close>) and the lifecycle handlers (\<open>merge.go\<close>). The Permify server, the consent service, the
  keyed hash of a TIN, the clock and fresh identifiers are arguments; a request body is \<open>None\<close> when
  it does not decode.
\<close>

section \<open>Who may administer TINs\<close>

type_synonym perm_check = "string \<Rightarrow> string \<Rightarrow> string \<Rightarrow> string + bool"

definition permifyFromEnv :: "string \<Rightarrow> perm_check option \<Rightarrow> string + perm_check option" where
  "permifyFromEnv profile live = (case live of
       Some c \<Rightarrow> Inr (Some c)
     | None \<Rightarrow> (if profile = ''prod''
         then Inl ''profile=prod FATAL: PERMIFY_URL is required'' else Inr None))"

definition canAdministerTIN :: "perm_check option \<Rightarrow> claims option \<Rightarrow> bool" where
  "canAdministerTIN pc c = (case c of
       None \<Rightarrow> False
     | Some cl \<Rightarrow> (case pc of
         None \<Rightarrow> HasRole cl ''nrs:officer'' \<or> HasRole cl ''admin''
       | Some check \<Rightarrow>
           if Sub cl = '''' then False
           else (let tenant = (if TenantID cl = '''' then ''core'' else TenantID cl)
                 in case check (''tenant:'' @ tenant) ''operate'' (''user:'' @ Sub cl) of
                      Inl e \<Rightarrow> False | Inr allowed \<Rightarrow> allowed)))"

section \<open>The TIN format and issuance\<close>

definition matches_TINRe :: "string \<Rightarrow> bool" where
  "matches_TINRe s \<longleftrightarrow> length s = 13 \<and> list_all is_digit (take 8 s) \<and> s ! 8 = CHR ''-''
     \<and> list_all is_digit (drop 9 s)"

definition ValidateTIN :: "string \<Rightarrow> bool" where
  "ValidateTIN tin \<longleftrightarrow> matches_TINRe (trim_space tin)"

definition matches_ninRe :: "string \<Rightarrow> bool" where
  "matches_ninRe s \<longleftrightarrow> length s = 11 \<and> list_all is_digit s"

definition strip_rc :: "string \<Rightarrow> string" where
  "strip_rc s = (if take 2 s = ''RC'' \<or> take 2 s = ''BN'' then drop 2 s else s)"

definition matches_rcRe :: "string \<Rightarrow> bool" where
  "matches_rcRe s \<longleftrightarrow> 5 \<le> length (strip_rc s) \<and> length (strip_rc s) \<le> 8 \<and> list_all is_digit (strip_rc s)"

text \<open>\<open>sum8\<close> gives the first eight bytes of the SHA-256 sum as a big-endian number.\<close>

definition format_tin :: "int \<Rightarrow> string" where
  "format_tin n = pad 8 (n div 10000) @ ''-'' @ pad 4 (n mod 10000)"

definition ProvisionTIN :: "(string \<Rightarrow> u64) \<Rightarrow> string \<Rightarrow> string \<Rightarrow> string + string" where
  "ProvisionTIN sum8 nin cacRC =
     (let issue = (\<lambda>seed. Inr (format_tin (uint (sum8 seed mod 100000000000))))
      in if nin \<noteq> '''' then
           (if \<not> matches_ninRe nin then Inl ''NIN must be 11 digits'' else issue (''nin:'' @ nin))
         else if cacRC \<noteq> '''' then
           (let norm = map to_upper_char (trim_space cacRC)
            in if \<not> matches_rcRe norm then Inl ''CAC RC must match RC or BN and 5 to 8 digits''
               else issue (''cac:'' @ norm))
         else Inl ''nin or cac_rc required'')"

section \<open>The entity index\<close>

record entity_index =
  loaded :: bool
  xlist :: "entity list"
  byID :: "(string, nat) kv"
  byTIN :: "(string, nat) kv"

definition new_index :: entity_index where
  "new_index = \<lparr>loaded = False, xlist = [], byID = [], byTIN = []\<rparr>"

definition invalidate :: "entity_index \<Rightarrow> entity_index" where
  "invalidate x = x\<lparr>loaded := False\<rparr>"

definition stored_entities :: "tin_store \<Rightarrow> entity list" where
  "stored_entities s = (case ListInto dec_entity ''entities'' s of Inl _ \<Rightarrow> [] | Inr es \<Rightarrow> es)"

fun index_loop :: "nat \<Rightarrow> entity list \<Rightarrow> (string, nat) kv \<Rightarrow> (string, nat) kv
    \<Rightarrow> (string, nat) kv \<times> (string, nat) kv" where
  "index_loop i [] bi bt = (bi, bt)"
| "index_loop i (e # es) bi bt = index_loop (Suc i) es (kv_put (nID e) i bi)
     (if nTINHash e \<noteq> '''' \<and> map_of bt (nTINHash e) = None then kv_put (nTINHash e) i bt else bt)"

definition ensure :: "tin_store \<Rightarrow> entity_index \<Rightarrow> entity_index" where
  "ensure s x = (if loaded x then x
     else (let es = stored_entities s; (bi, bt) = index_loop 0 es [] []
           in \<lparr>loaded = True, xlist = es, byID = bi, byTIN = bt\<rparr>))"

definition index_all :: "tin_store \<Rightarrow> entity_index \<Rightarrow> entity list \<times> entity_index" where
  "index_all s x = (let x1 = ensure s x in (xlist x1, x1))"

definition findByID :: "tin_store \<Rightarrow> string \<Rightarrow> entity_index \<Rightarrow> entity option \<times> entity_index" where
  "findByID s i x = (let x1 = ensure s x
     in (map_option (\<lambda>k. xlist x1 ! k) (map_of (byID x1) i), x1))"

definition findByTINHash :: "tin_store \<Rightarrow> string \<Rightarrow> entity_index \<Rightarrow> entity option \<times> entity_index" where
  "findByTINHash s h x = (let x1 = ensure s x
     in (map_option (\<lambda>k. xlist x1 ! k) (map_of (byTIN x1) h), x1))"

text \<open>The wrapped store: a write to the entities invalidates the index.\<close>

definition entityStore_Put ::
  "string \<Rightarrow> string \<Rightarrow> tin_doc \<Rightarrow> tin_store \<times> entity_index \<Rightarrow> string option \<times> tin_store \<times> entity_index" where
  "entityStore_Put c i d w = (case w of (s, x) \<Rightarrow> (case Put c i d s of
     (e, s1) \<Rightarrow> (e, s1, if c = ''entities'' then invalidate x else x)))"

definition entityStore_Delete ::
  "string \<Rightarrow> string \<Rightarrow> tin_store \<times> entity_index \<Rightarrow> string option \<times> tin_store \<times> entity_index" where
  "entityStore_Delete c i w = (case w of (s, x) \<Rightarrow> (case Delete c i s of
     (e, s1) \<Rightarrow> (e, s1, if c = ''entities'' then invalidate x else x)))"

definition entityStore_Update ::
  "string \<Rightarrow> string \<Rightarrow> (tin_doc option \<Rightarrow> string + tin_doc) \<Rightarrow> tin_store \<times> entity_index
     \<Rightarrow> string option \<times> tin_store \<times> entity_index" where
  "entityStore_Update c i fn w = (case w of (s, x) \<Rightarrow> (case Update c i fn s of
     (e, s1) \<Rightarrow> (e, s1, if c = ''entities'' then invalidate x else x)))"

text \<open>The direct reads the server falls back to without an index.\<close>

definition entityByTINHash :: "tin_store \<Rightarrow> string \<Rightarrow> entity option" where
  "entityByTINHash s h = List.find (\<lambda>e. nTINHash e = h) (stored_entities s)"

definition findEntity :: "tin_store \<Rightarrow> string \<Rightarrow> entity option" where
  "findEntity s i = List.find (\<lambda>e. nID e = i) (stored_entities s)"

section \<open>Responses\<close>

datatype tin_body =
    Problem string
  | MergeBody MergeRecord
  | LifeBody LifecycleRecord bool string
  | Eligibility string LifecycleStatus bool string
  | VerifiedTIN bool string "(string \<times> string) option"

type_synonym tin_response = "int \<times> tin_body"

definition lifecycleErr :: "tin_err \<Rightarrow> tin_response" where
  "lifecycleErr e = (case e of
       NotFound m \<Rightarrow> (404, Problem ''not_found'')
     | IllegalTransition m \<Rightarrow> (409, Problem ''conflict'')
     | WindowExpired m \<Rightarrow> (409, Problem ''conflict'')
     | TerminalMerge m \<Rightarrow> (409, Problem ''conflict'')
     | _ \<Rightarrow> (500, Problem ''internal_error''))"

section \<open>The consent gate\<close>

type_synonym consent_check = "string \<Rightarrow> string \<Rightarrow> string \<Rightarrow> string + bool"

definition gateLawfulBases :: "string list" where
  "gateLawfulBases = [''consent'', ''contract'', ''legal_obligation'', ''vital_interest'',
     ''public_task'', ''legitimate_interest'']"

definition noopConsentChecker :: consent_check where
  "noopConsentChecker subject purpose basis = Inr True"

definition consentCheckerFromEnv ::
  "string \<Rightarrow> string \<Rightarrow> (string \<Rightarrow> consent_check) \<Rightarrow> string + consent_check" where
  "consentCheckerFromEnv profile url http =
     (if url = '''' then
        (if profile = ''prod'' then Inl ''profile=prod FATAL: CONSENT_URL is required (consent gate fail-closed)''
         else Inr noopConsentChecker)
      else Inr (http url))"

text \<open>\<open>None\<close> lets the request through.\<close>

definition gateVerification :: "consent_check \<Rightarrow> string \<Rightarrow> string \<Rightarrow> string \<Rightarrow> tin_response option" where
  "gateVerification check subjectHash purpose basis =
     (if basis = '''' then Some (400, Problem ''bad request'')
      else if basis \<notin> set gateLawfulBases then Some (400, Problem ''bad request'')
      else (case check subjectHash purpose basis of
          Inl e \<Rightarrow> Some (503, Problem ''consent unavailable'')
        | Inr allowed \<Rightarrow> if allowed then None else Some (403, Problem ''consent required'')))"

record verifyTINReq =
  vTIN :: string
  vLawfulBasis :: string

definition verifyTIN ::
  "(string \<Rightarrow> string) \<Rightarrow> consent_check \<Rightarrow> verifyTINReq option \<Rightarrow> tin_store \<Rightarrow> tin_response" where
  "verifyTIN hashTIN check body s = (case body of
       None \<Rightarrow> (400, Problem ''bad_request'')
     | Some req \<Rightarrow>
         if vTIN req = '''' then (400, Problem ''bad_request'')
         else if \<not> ValidateTIN (vTIN req) then (400, Problem ''bad_request'')
         else (case gateVerification check (hashTIN (vTIN req)) ''tin_verification'' (vLawfulBasis req) of
             Some r \<Rightarrow> r
           | None \<Rightarrow> (case entityByTINHash s (hashTIN (vTIN req)) of
               Some e \<Rightarrow> (200, VerifiedTIN True (hashTIN (vTIN req)) (Some (nID e, EntityType e)))
             | None \<Rightarrow> (200, VerifiedTIN False (hashTIN (vTIN req)) None))))"

section \<open>The lifecycle handlers\<close>

definition actorOf :: "claims option \<Rightarrow> string" where
  "actorOf c = (case c of None \<Rightarrow> '''' | Some cl \<Rightarrow> Sub cl)"

definition unmergeWindow :: "string \<Rightarrow> int" where
  "unmergeWindow v = (case parse_int64 v of
       Some n \<Rightarrow> if v \<noteq> '''' \<and> 0 < n then sint (word_of_int (n * hour_ns) :: 64 word) else 72 * hour_ns
     | None \<Rightarrow> 72 * hour_ns)"

record mergeReq =
  qSurviving :: string
  qMerged :: string
  qReason :: string
  qEvidence :: string

record tin_host =
  tHash :: "string \<Rightarrow> string"
  tNow :: string      \<comment> \<open>\<open>NowRFC3339()\<close> at the request\<close>
  tULID :: string
  tStamp :: string
  tWindow :: string   \<comment> \<open>\<open>TIN_UNMERGE_WINDOW_HOURS\<close>\<close>
  tPerm :: "perm_check option"

definition mergeTINs ::
  "tin_host \<Rightarrow> claims option \<Rightarrow> mergeReq option \<Rightarrow> tin_store \<Rightarrow> tin_response \<times> tin_store" where
  "mergeTINs h c body s =
     (if \<not> canAdministerTIN (tPerm h) c then ((403, Problem ''forbidden''), s)
      else case body of
        None \<Rightarrow> ((400, Problem ''bad_request''), s)
      | Some req \<Rightarrow>
          if qSurviving req = '''' \<or> qMerged req = '''' then ((400, Problem ''bad_request''), s)
          else if \<not> ValidateTIN (qSurviving req) \<or> \<not> ValidateTIN (qMerged req)
            then ((400, Problem ''bad_request''), s)
          else (case MergeTINs s (tHash h (qSurviving req)) (tHash h (qMerged req)) (qReason req)
                   (qEvidence req) (actorOf c) (tNow h) (tULID h) (tStamp h) of
              (Inl e, s1) \<Rightarrow> (lifecycleErr e, s1)
            | (Inr mr, s1) \<Rightarrow> ((200, MergeBody mr), s1)))"

definition unmergeTINs ::
  "tin_host \<Rightarrow> claims option \<Rightarrow> string option \<Rightarrow> tin_store \<Rightarrow> tin_response \<times> tin_store" where
  "unmergeTINs h c body s =
     (if \<not> canAdministerTIN (tPerm h) c then ((403, Problem ''forbidden''), s)
      else case body of
        None \<Rightarrow> ((400, Problem ''bad_request''), s)
      | Some tin \<Rightarrow>
          if tin = '''' then ((400, Problem ''bad_request''), s)
          else if \<not> ValidateTIN tin then ((400, Problem ''bad_request''), s)
          else (case UnmergeTINs s (tHash h tin) (actorOf c) (tNow h) (unmergeWindow (tWindow h)) (tStamp h) of
              (Inl e, s1) \<Rightarrow> (lifecycleErr e, s1)
            | (Inr mr, s1) \<Rightarrow> ((200, MergeBody mr), s1)))"

record statusReq =
  qStatus :: string
  qEffective :: string
  qWhy :: string

definition life_body :: "LifecycleRecord \<Rightarrow> tin_body" where
  "life_body r = LifeBody r (fst (FilingAllowed (lStatus r))) (snd (FilingAllowed (lStatus r)))"

definition setLifecycle ::
  "tin_host \<Rightarrow> claims option \<Rightarrow> string \<Rightarrow> statusReq option \<Rightarrow> tin_store \<Rightarrow> tin_response \<times> tin_store" where
  "setLifecycle h c tin body s =
     (if \<not> canAdministerTIN (tPerm h) c then ((403, Problem ''forbidden''), s)
      else case body of
        None \<Rightarrow> ((400, Problem ''bad_request''), s)
      | Some req \<Rightarrow> (case ParseStatus (qStatus req) of
            Inl e \<Rightarrow> ((400, Problem ''bad_request''), s)
          | Inr to \<Rightarrow> (case Transition s (tHash h tin) to (qEffective req) (qWhy req) (actorOf c) (tNow h) of
                (Inl e, s1) \<Rightarrow> (lifecycleErr e, s1)
              | (Inr r, s1) \<Rightarrow> ((200, life_body r), s1))))"

definition getLifecycle :: "tin_host \<Rightarrow> string \<Rightarrow> tin_store \<Rightarrow> tin_response" where
  "getLifecycle h tin s = (case LoadLifecycle s (tHash h tin) of
       Inl e \<Rightarrow> (500, Problem ''internal_error'')
     | Inr r \<Rightarrow> (200, life_body r))"

definition filingEligibility :: "tin_host \<Rightarrow> string \<Rightarrow> tin_store \<Rightarrow> tin_response" where
  "filingEligibility h tin s = (case LoadLifecycle s (tHash h tin) of
       Inl e \<Rightarrow> (500, Problem ''internal_error'')
     | Inr r \<Rightarrow> (if fst (FilingAllowed (lStatus r)) then 200 else 409,
         Eligibility (lTINHash r) (lStatus r) (fst (FilingAllowed (lStatus r))) (snd (FilingAllowed (lStatus r)))))"

section \<open>Issued numbers\<close>

lemma dec_digits_Nil [simp]: "dec_digits w n = [] \<longleftrightarrow> w = 0"
  using length_dec_digits [of w n] by (cases w) auto

lemma digit_chars: "list_all (\<lambda>k. is_digit (char_of (48 + k :: int))) [0, 1, 2, 3, 4, 5, 6, 7, 8, 9]"
  by code_simp

lemma digits_of_dec_digits: "list_all is_digit (dec_digits w n)"
proof (induction w n rule: dec_digits.induct)
  case (2 w n)
  have "n mod 10 \<in> set [0, 1, 2, 3, 4, 5, 6, 7, 8, 9]" by simp presburger
  then have "is_digit (char_of (48 + n mod 10))" using digit_chars unfolding list_all_iff by blast
  with 2 show ?case by (simp add: list_all_append)
qed simp

lemma trim_space_digits:
  assumes "s \<noteq> ''''" "is_digit (hd s)" "is_digit (last s)"
  shows "trim_space s = s"
proof -
  have n: "\<not> is_space c" if "is_digit c" for c
    using that by (auto simp: is_digit_def is_space_def byte_of_def)
  have "dropWhile is_space s = s" using assms n by (cases s) auto
  moreover have "dropWhile is_space (rev s) = rev s"
    using assms n by (cases "rev s") (auto simp: hd_rev [symmetric])
  ultimately show ?thesis by (simp add: trim_space_def)
qed

lemma format_tin_valid: "ValidateTIN (format_tin n)"
proof -
  let ?s = "format_tin n"
  have m: "matches_TINRe ?s"
    by (simp add: matches_TINRe_def format_tin_def pad_def digits_of_dec_digits nth_append)
  have "?s \<noteq> ''''" "is_digit (hd ?s)" "is_digit (last ?s)"
    using digits_of_dec_digits [of 8 "n div 10000"] digits_of_dec_digits [of 4 "n mod 10000"]
    by (auto simp: format_tin_def pad_def list_all_iff hd_append simp del: dec_digits.simps
        dest: hd_in_set last_in_set)
  then show ?thesis using m trim_space_digits by (simp add: ValidateTIN_def)
qed

lemma ProvisionTIN_valid: "ProvisionTIN sum8 nin rc = Inr tin \<Longrightarrow> ValidateTIN tin"
  using format_tin_valid by (auto simp: ProvisionTIN_def Let_def split: if_splits)

section \<open>The index and the scan\<close>

lemma find_snoc: "List.find P (ys @ [e]) = (case List.find P ys of Some x \<Rightarrow> Some x
   | None \<Rightarrow> if P e then Some e else None)"
  by (induction ys) auto

definition indexes :: "entity list \<Rightarrow> entity list \<Rightarrow> (string, nat) kv \<Rightarrow> (string, nat) kv \<Rightarrow> bool" where
  "indexes es ys bi bt \<longleftrightarrow>
     (\<forall>i. map_option ((!) es) (map_of bi i) = List.find (\<lambda>e. nID e = i) (rev ys)) \<and>
     (\<forall>h. h \<noteq> '''' \<longrightarrow> map_option ((!) es) (map_of bt h) = List.find (\<lambda>e. nTINHash e = h) ys)"

lemma index_loop_indexes:
  "indexes (ys @ es) ys bi bt \<Longrightarrow> index_loop (length ys) es bi bt = (bi1, bt1) \<Longrightarrow>
   indexes (ys @ es) (ys @ es) bi1 bt1"
proof (induction es arbitrary: ys bi bt)
  case (Cons e es)
  let ?bi = "kv_put (nID e) (length ys) bi"
  let ?bt = "if nTINHash e \<noteq> '''' \<and> map_of bt (nTINHash e) = None
    then kv_put (nTINHash e) (length ys) bt else bt"
  have h: "map_of bt h = None \<longleftrightarrow> List.find (\<lambda>e. nTINHash e = h) ys = None" if "h \<noteq> ''''" for h
    using Cons.prems(1) that unfolding indexes_def by (metis option.map_disc_iff)
  have "indexes ((ys @ [e]) @ es) (ys @ [e]) ?bi ?bt"
    using Cons.prems(1) h by (auto simp: indexes_def find_snoc split: option.splits)
  moreover have "index_loop (length (ys @ [e])) es ?bi ?bt = (bi1, bt1)" using Cons.prems(2) by simp
  ultimately show ?case using Cons.IH [of "ys @ [e]" ?bi ?bt] by simp
qed simp

lemma ensure_indexes:
  assumes "\<not> loaded x"
  shows "xlist (ensure s x) = stored_entities s \<and> loaded (ensure s x)
    \<and> indexes (stored_entities s) (stored_entities s) (byID (ensure s x)) (byTIN (ensure s x))"
proof -
  obtain bi bt where l: "index_loop 0 (stored_entities s) [] [] = (bi, bt)" by fastforce
  have "indexes ([] @ stored_entities s) [] [] []" by (simp add: indexes_def)
  from index_loop_indexes [OF this] l assms show ?thesis by (simp add: ensure_def)
qed

text \<open>A loaded index describes the store as it is.\<close>

definition index_ok :: "tin_store \<times> entity_index \<Rightarrow> bool" where
  "index_ok w \<longleftrightarrow> (case w of (s, x) \<Rightarrow> loaded x \<longrightarrow> xlist x = stored_entities s
     \<and> indexes (stored_entities s) (stored_entities s) (byID x) (byTIN x))"

lemma index_ok_new: "index_ok (s, new_index)"
  by (simp add: index_ok_def new_index_def)

lemma index_ok_ensure: "index_ok (s, x) \<Longrightarrow> index_ok (s, ensure s x) \<and> loaded (ensure s x)"
  using ensure_indexes [of x s] by (cases "loaded x") (auto simp: index_ok_def ensure_def)

lemma stored_entities_cong:
  "coll_of ''entities'' s = coll_of ''entities'' t \<Longrightarrow> stored_entities s = stored_entities t"
  by (simp add: stored_entities_def ListInto_def ListDocs_def)

datatype index_op =
    IPut string string tin_doc
  | IDelete string string
  | IUpdate string string "tin_doc option \<Rightarrow> string + tin_doc"
  | IFindTIN string
  | IFindID string

fun index_step :: "index_op \<Rightarrow> tin_store \<times> entity_index \<Rightarrow> tin_store \<times> entity_index" where
  "index_step (IPut c i d) w = snd (entityStore_Put c i d w)"
| "index_step (IDelete c i) w = snd (entityStore_Delete c i w)"
| "index_step (IUpdate c i fn) w = snd (entityStore_Update c i fn w)"
| "index_step (IFindTIN h) (s, x) = (s, snd (findByTINHash s h x))"
| "index_step (IFindID i) (s, x) = (s, snd (findByID s i x))"

lemma index_ok_write:
  assumes "index_ok (s, x)" "\<And>c'. c' \<noteq> c \<Longrightarrow> coll_of c' s1 = coll_of c' s"
  shows "index_ok (s1, if c = ''entities'' then invalidate x else x)"
proof (cases "c = ''entities''")
  case False
  then show ?thesis using assms stored_entities_cong [of s1 s] by (simp add: index_ok_def)
qed (simp add: index_ok_def invalidate_def)

lemma persist_other:
  "persistLocked c (set_coll c m s) = (e, s1) \<Longrightarrow> c' \<noteq> c \<Longrightarrow> coll_of c' s1 = coll_of c' s"
  using persist_frame(2) by fastforce

lemma index_ok_step: "index_ok w \<Longrightarrow> index_ok (index_step p w)"
proof (induction p w rule: index_step.induct)
  case (1 c i d w)
  obtain s x where w: "w = (s, x)" by (cases w)
  obtain e s1 where p: "Put c i d s = (e, s1)" by fastforce
  have "coll_of c' s1 = coll_of c' s" if "c' \<noteq> c" for c' using persist_other p that unfolding Put_def by blast
  from index_ok_write [OF 1 [unfolded w] this] w p show ?case by (simp add: entityStore_Put_def)
next
  case (2 c i w)
  obtain s x where w: "w = (s, x)" by (cases w)
  obtain e s1 where p: "Delete c i s = (e, s1)" by fastforce
  have "coll_of c' s1 = coll_of c' s" if "c' \<noteq> c" for c'
    using persist_other p that by (auto simp: Delete_def split: if_splits)
  from index_ok_write [OF 2 [unfolded w] this] w p show ?case by (simp add: entityStore_Delete_def)
next
  case (3 c i fn w)
  obtain s x where w: "w = (s, x)" by (cases w)
  obtain e s1 where p: "Update c i fn s = (e, s1)" by fastforce
  have "coll_of c' s1 = coll_of c' s" if "c' \<noteq> c" for c'
    using persist_other p that by (auto simp: Update_def split: sum.splits)
  from index_ok_write [OF 3 [unfolded w] this] w p show ?case by (simp add: entityStore_Update_def)
qed (simp_all add: findByTINHash_def findByID_def Let_def index_ok_ensure)

lemma index_ok_run: "index_ok w \<Longrightarrow> index_ok (fold index_step ps w)"
  by (induction ps arbitrary: w) (simp_all add: index_ok_step)

lemma find_rev:
  assumes "distinct (map f xs)"
  shows "List.find (\<lambda>e. f e = k) (rev xs) = List.find (\<lambda>e. f e = k) xs"
  using assms
proof (induction xs)
  case (Cons x xs)
  show ?case
  proof (cases "f x = k")
    case True
    then have "k \<notin> f ` set xs" using Cons.prems by simp
    then have "List.find (\<lambda>e. f e = k) xs = None" unfolding find_None_iff by blast
    with True Cons show ?thesis by (simp add: find_snoc)
  next
    case False
    with Cons show ?thesis by (simp add: find_snoc split: option.splits)
  qed
qed simp

lemma find_by_index:
  assumes "index_ok (s, x)"
  shows "fst (index_all s x) = stored_entities s"
    and "h \<noteq> '''' \<Longrightarrow> fst (findByTINHash s h x) = entityByTINHash s h"
    and "distinct (map nID (stored_entities s)) \<Longrightarrow> fst (findByID s i x) = findEntity s i"
  using index_ok_ensure [OF assms]
  by (simp_all add: index_ok_def index_all_def indexes_def findByTINHash_def findByID_def entityByTINHash_def
      findEntity_def find_rev)

end
