(* ===== verification/Consent.thy ===== *)
theory Consent
  imports DocStore GoStd Access
begin

text \<open>
  The consent service, \<open>services/consent/main.go\<close> and \<open>check.go\<close>: consent records with their
  receipts, and the check every processing service makes. Documents of all its collections have
  the type \<open>privacy_doc\<close>; free-form metadata is its JSON text. A request brings its clock readings
  and fresh identifiers in a \<open>request\<close>; the hash of a record and the keyed HMAC are functions of
  the \<open>consent_crypto\<close>.
\<close>

section \<open>Documents\<close>

record consent =
  cID :: string
  cSubject :: string
  cPurpose :: string
  cLawfulBasis :: string
  cGranted :: bool
  cChannel :: string
  cMetadata :: string
  cGrantedAt :: string
  cExpiresAt :: string
  cRevokedAt :: string
  cStatus :: string

record receipt =
  ReceiptID :: string
  ConsentID :: string
  rSubject :: string
  rAction :: string
  rTime :: string
  rActor :: string
  rSHA256 :: string
  rHMAC :: string

record breach_transition =
  btFrom :: string
  btTo :: string
  btAt :: string
  btBy :: string

record breach =
  bID :: string
  bTitle :: string
  bDescription :: string
  AffectedSubjects :: "string list"
  Severity :: string
  DetectedAt :: string
  NotifyDeadline :: string
  bStatus :: string
  NotifiedAt :: string
  LateNotification :: bool
  bHistory :: "breach_transition list"
  CreatedBy :: string
  bCreatedAt :: string
  UpdatedAt :: string

record legal_hold =
  lhSubject :: string
  lhActive :: bool
  lhReason :: string

record access_entry =
  alSubject :: string
  alAction :: string
  alActor :: string
  alTime :: string

record erasure_audit =
  eaSubject :: string
  eaAnonymised :: string
  eaRecords :: nat
  eaActor :: string
  eaTime :: string

datatype privacy_doc =
    DConsent consent
  | DReceipt receipt
  | DBreach breach
  | DAlert breach string
  | DHold legal_hold
  | DAccess access_entry
  | DErasure erasure_audit
  | DOther

type_synonym privacy_store = "privacy_doc docstore"

definition not_json :: string where "not_json = ''json: cannot unmarshal''"

definition dec_consent :: "privacy_doc \<Rightarrow> string + consent" where
  "dec_consent d = (case d of DConsent c \<Rightarrow> Inr c | _ \<Rightarrow> Inl not_json)"

definition dec_receipt :: "privacy_doc \<Rightarrow> string + receipt" where
  "dec_receipt d = (case d of DReceipt r \<Rightarrow> Inr r | _ \<Rightarrow> Inl not_json)"

definition dec_breach :: "privacy_doc \<Rightarrow> string + breach" where
  "dec_breach d = (case d of DBreach b \<Rightarrow> Inr b | _ \<Rightarrow> Inl not_json)"

definition dec_hold :: "privacy_doc \<Rightarrow> string + legal_hold" where
  "dec_hold d = (case d of DHold h \<Rightarrow> Inr h | _ \<Rightarrow> Inl not_json)"

definition dec_access :: "privacy_doc \<Rightarrow> string + access_entry" where
  "dec_access d = (case d of DAccess a \<Rightarrow> Inr a | _ \<Rightarrow> Inl not_json)"

definition lawfulBases :: "string list" where
  "lawfulBases = [''consent'', ''contract'', ''legal_obligation'', ''vital_interest'',
     ''public_task'', ''legitimate_interest'']"

section \<open>Requests and receipts\<close>

record request =
  qNow :: "nat \<Rightarrow> instant"   \<comment> \<open>the n-th clock reading of the request\<close>
  qULID :: "nat \<Rightarrow> string"
  qClaims :: "claims option"

record consent_crypto =
  hash_consent :: "consent \<Rightarrow> string"
  hex_hmac :: "string \<Rightarrow> string \<Rightarrow> string"
  receiptKey :: string

text \<open>\<open>claims, _ := auth.FromContext(...)\<close>: without a principal the claims are empty.\<close>

definition the_claims :: "request \<Rightarrow> claims" where
  "the_claims q = (case qClaims q of Some c \<Rightarrow> c
     | None \<Rightarrow> \<lparr>Sub = '''', Roles = [], TenantID = '''', cExp = 0\<rparr>)"

definition join_bar :: "string list \<Rightarrow> string" where
  "join_bar ss = (case ss of [] \<Rightarrow> '''' | x # xs \<Rightarrow> x @ concat (map (\<lambda>s. ''|'' @ s) xs))"

definition receiptHMAC :: "consent_crypto \<Rightarrow> receipt \<Rightarrow> string" where
  "receiptHMAC k r = hex_hmac k (receiptKey k)
     (join_bar [ReceiptID r, ConsentID r, rSubject r, rAction r, rTime r, rActor r, rSHA256 r])"

definition VerifyReceipt :: "consent_crypto \<Rightarrow> receipt \<Rightarrow> bool" where
  "VerifyReceipt k r \<longleftrightarrow> receiptHMAC k r = rHMAC r"

definition issueReceipt ::
  "consent_crypto \<Rightarrow> string \<Rightarrow> instant \<Rightarrow> consent \<Rightarrow> string \<Rightarrow> string \<Rightarrow> privacy_store
     \<Rightarrow> receipt \<times> privacy_store" where
  "issueReceipt k ulid now c action actor s =
     (let r = \<lparr>ReceiptID = ''rcpt-'' @ ulid, ConsentID = cID c, rSubject = cSubject c,
                rAction = action, rTime = format_rfc3339 now, rActor = actor,
                rSHA256 = hash_consent k c, rHMAC = ''''\<rparr>;
          r1 = r\<lparr>rHMAC := receiptHMAC k r\<rparr>
      in (r1, snd (Put ''receipts'' (ReceiptID r1) (DReceipt r1) s)))"

definition ownsConsent :: "claims \<Rightarrow> consent \<Rightarrow> bool" where
  "ownsConsent cl c \<longleftrightarrow> Sub cl = cSubject c \<or> HasRole cl ''admin''"

datatype privacy_body =
    PProblem string
  | PConsent consent receipt
  | PConsents string "consent list"
  | PReceipt receipt
  | PCheck bool string string "(string \<times> string \<times> string) option"
  | PBreach breach
  | PBreaches "breach list"
  | PExport string "consent list" "receipt list" "string list"
  | PErased string string nat
  | PAccess string "access_entry list"

type_synonym privacy_response = "int \<times> privacy_body"

section \<open>Consent records\<close>

record createReq =
  crSubject :: string
  crPurpose :: string
  crLawfulBasis :: string
  crGranted :: "bool option"
  crChannel :: string
  crMetadata :: string
  crExpiresAt :: string

definition new_consent :: "request \<Rightarrow> createReq \<Rightarrow> consent" where
  "new_consent q req =
     (let granted = (case crGranted req of None \<Rightarrow> True | Some g \<Rightarrow> g);
          at0 = format_rfc3339 (qNow q 0)
      in \<lparr>cID = ''con-'' @ qULID q 0, cSubject = crSubject req, cPurpose = crPurpose req,
          cLawfulBasis = (if crLawfulBasis req = '''' then ''consent'' else crLawfulBasis req),
          cGranted = granted, cChannel = crChannel req, cMetadata = crMetadata req,
          cGrantedAt = at0, cExpiresAt = crExpiresAt req,
          cRevokedAt = (if granted then '''' else at0),
          cStatus = (if granted then ''active'' else ''revoked'')\<rparr>)"

definition consent_create ::
  "consent_crypto \<Rightarrow> request \<Rightarrow> createReq option \<Rightarrow> privacy_store \<Rightarrow> privacy_response \<times> privacy_store" where
  "consent_create k q body s = (case body of
       None \<Rightarrow> ((400, PProblem ''bad_request''), s)
     | Some req \<Rightarrow>
         if crSubject req = '''' \<or> crPurpose req = '''' then ((400, PProblem ''bad_request''), s)
         else if crLawfulBasis req \<noteq> '''' \<and> crLawfulBasis req \<notin> set lawfulBases
           then ((400, PProblem ''bad_request''), s)
         else if crSubject req \<noteq> Sub (the_claims q) \<and> \<not> HasRole (the_claims q) ''admin''
           then ((403, PProblem ''forbidden''), s)
         else
          (let c = new_consent q req
           in case Put ''consents'' (cID c) (DConsent c) s of
                (Some e, s1) \<Rightarrow> ((500, PProblem ''internal_error''), s1)
              | (None, s1) \<Rightarrow>
                  (let (r, s2) = issueReceipt k (qULID q 1) (qNow q 1) c
                        (if cGranted c then ''granted'' else ''denied'') (Sub (the_claims q)) s1
                   in ((201, PConsent c r), s2))))"

definition lapsed :: "string \<Rightarrow> consent \<Rightarrow> bool" where
  "lapsed now c \<longleftrightarrow> cStatus c = ''active'' \<and> cExpiresAt c \<noteq> '''' \<and> cExpiresAt c < now"

definition expire_consent :: "string \<Rightarrow> consent \<Rightarrow> privacy_store \<Rightarrow> consent \<times> privacy_store" where
  "expire_consent now c s =
     (if lapsed now c then
        (let c1 = c\<lparr>cStatus := ''expired''\<rparr> in (c1, snd (Put ''consents'' (cID c1) (DConsent c1) s)))
      else (c, s))"

fun list_loop :: "string \<Rightarrow> string \<Rightarrow> consent list \<Rightarrow> privacy_store \<Rightarrow> consent list \<times> privacy_store" where
  "list_loop now subject [] s = ([], s)"
| "list_loop now subject (c # cs) s =
     (if cSubject c \<noteq> subject then list_loop now subject cs s
      else (let (c1, s1) = expire_consent now c s; (out, s2) = list_loop now subject cs s1
            in (c1 # out, s2)))"

definition listBySubject :: "request \<Rightarrow> string \<Rightarrow> privacy_store \<Rightarrow> privacy_response \<times> privacy_store" where
  "listBySubject q subject s =
     (if subject \<noteq> Sub (the_claims q) \<and> \<not> HasRole (the_claims q) ''admin''
      then ((403, PProblem ''forbidden''), s)
      else case ListInto dec_consent ''consents'' s of
        Inl e \<Rightarrow> ((500, PProblem ''internal_error''), s)
      | Inr all \<Rightarrow> (let (out, s1) = list_loop (format_rfc3339 (qNow q 0)) subject all s
          in ((200, PConsents subject out), s1)))"

definition consent_revoke ::
  "consent_crypto \<Rightarrow> request \<Rightarrow> string \<Rightarrow> privacy_store \<Rightarrow> privacy_response \<times> privacy_store" where
  "consent_revoke k q i s = (case DocStore.Get dec_consent ''consents'' i s of
       Inl e \<Rightarrow> ((404, PProblem ''not_found''), s)
     | Inr c \<Rightarrow>
         if cStatus c = ''revoked'' then ((409, PProblem ''conflict''), s)
         else if \<not> ownsConsent (the_claims q) c then ((403, PProblem ''forbidden''), s)
         else
          (let c1 = c\<lparr>cStatus := ''revoked'', cGranted := False, cRevokedAt := format_rfc3339 (qNow q 0)\<rparr>
           in case Put ''consents'' i (DConsent c1) s of
                (Some e, s1) \<Rightarrow> ((500, PProblem ''internal_error''), s1)
              | (None, s1) \<Rightarrow>
                  (let (r, s2) = issueReceipt k (qULID q 0) (qNow q 1) c1 ''revoked'' (Sub (the_claims q)) s1
                   in ((200, PConsent c1 r), s2))))"

definition consent_renew ::
  "consent_crypto \<Rightarrow> request \<Rightarrow> string option \<Rightarrow> string \<Rightarrow> privacy_store
     \<Rightarrow> privacy_response \<times> privacy_store" where
  "consent_renew k q body i s = (case body of
       None \<Rightarrow> ((400, PProblem ''bad request''), s)
     | Some expires \<Rightarrow> (case DocStore.Get dec_consent ''consents'' i s of
         Inl e \<Rightarrow> ((404, PProblem ''not_found''), s)
       | Inr c \<Rightarrow>
           if \<not> ownsConsent (the_claims q) c then ((403, PProblem ''forbidden''), s)
           else if cStatus c = ''revoked'' then ((409, PProblem ''conflict''), s)
           else
            (let c1 = c\<lparr>cStatus := ''active'', cGranted := True, cRevokedAt := '''', cExpiresAt := expires\<rparr>
             in case Put ''consents'' i (DConsent c1) s of
                  (Some e, s1) \<Rightarrow> ((500, PProblem ''internal_error''), s1)
                | (None, s1) \<Rightarrow>
                    (let (r, s2) = issueReceipt k (qULID q 0) (qNow q 0) c1 ''renewed'' (Sub (the_claims q)) s1
                     in ((200, PConsent c1 r), s2)))))"

definition getReceipt :: "request \<Rightarrow> string \<Rightarrow> privacy_store \<Rightarrow> privacy_response" where
  "getReceipt q i s = (case DocStore.Get dec_receipt ''receipts'' i s of
       Inl e \<Rightarrow> (404, PProblem ''not_found'')
     | Inr r \<Rightarrow> (case qClaims q of
         None \<Rightarrow> (403, PProblem ''forbidden'')
       | Some cl \<Rightarrow> if Sub cl \<noteq> rSubject r \<and> \<not> HasRole cl ''admin'' then (403, PProblem ''forbidden'')
           else (200, PReceipt r)))"

section \<open>The consent check\<close>

record checkReq =
  ckSubject :: string
  ckPurpose :: string
  ckLawfulBasis :: string

fun check_loop :: "string \<Rightarrow> string \<Rightarrow> string \<Rightarrow> consent list \<Rightarrow> privacy_store
    \<Rightarrow> consent option \<times> privacy_store" where
  "check_loop now subject purpose [] s = (None, s)"
| "check_loop now subject purpose (c # cs) s =
     (if cSubject c \<noteq> subject \<or> cPurpose c \<noteq> purpose then check_loop now subject purpose cs s
      else (let (c1, s1) = expire_consent now c s
            in if cStatus c1 = ''active'' \<and> cGranted c1 then (Some c1, s1)
               else check_loop now subject purpose cs s1))"

definition findValidConsent :: "string \<Rightarrow> string \<Rightarrow> instant \<Rightarrow> privacy_store
    \<Rightarrow> consent option \<times> privacy_store" where
  "findValidConsent subject purpose now s = (case ListInto dec_consent ''consents'' s of
       Inl e \<Rightarrow> (None, s)
     | Inr all \<Rightarrow> check_loop (format_rfc3339 now) subject purpose all s)"

definition consent_check :: "request \<Rightarrow> checkReq option \<Rightarrow> privacy_store
    \<Rightarrow> privacy_response \<times> privacy_store" where
  "consent_check q body s = (case body of
       None \<Rightarrow> ((400, PProblem ''bad_request''), s)
     | Some req \<Rightarrow>
         if ckSubject req = '''' \<or> ckPurpose req = '''' then ((400, PProblem ''bad_request''), s)
         else if ckLawfulBasis req \<noteq> '''' \<and> ckLawfulBasis req \<notin> set lawfulBases
           then ((400, PProblem ''bad_request''), s)
         else (case findValidConsent (ckSubject req) (ckPurpose req) (qNow q 0) s of
             (None, s1) \<Rightarrow> ((200, PCheck False (ckSubject req) (ckPurpose req) None), s1)
           | (Some c, s1) \<Rightarrow>
               if ckLawfulBasis req \<noteq> '''' \<and> cLawfulBasis c \<noteq> ckLawfulBasis req
               then ((200, PCheck False (ckSubject req) (ckPurpose req) None), s1)
               else ((200, PCheck True (ckSubject req) (ckPurpose req)
                        (Some (cID c, cLawfulBasis c, cExpiresAt c))), s1)))"

end
