(* ===== verification/Privacy.thy ===== *)
theory Privacy
  imports Consent
begin

text \<open>
  The breach register (\<open>services/consent/breach.go\<close>) and the data-subject-rights endpoints
  (\<open>dsr.go\<close>) of the consent service. \<open>has_bus\<close> tells whether the service was given an event bus
  (\<open>main\<close> gives it none); the events handed to it are returned, since the outcome of publishing
  one is only logged.
\<close>

section \<open>The breach register\<close>

definition ndpcNotifyWindow :: int where "ndpcNotifyWindow = 72 * hour_ns"

definition breachSeverities :: "string list" where
  "breachSeverities = [''low'', ''medium'', ''high'', ''critical'']"

definition breachWorkflow :: "(string \<times> string) list" where
  "breachWorkflow = [(''detected'', ''assessed''), (''assessed'', ''notified''), (''notified'', ''closed'')]"

text \<open>\<open>requireAnyRole\<close>: \<open>None\<close> lets the request through.\<close>

definition requireAnyRole :: "string list \<Rightarrow> request \<Rightarrow> privacy_response option" where
  "requireAnyRole roles q = (case qClaims q of
       None \<Rightarrow> Some (401, PProblem ''unauthorized'')
     | Some c \<Rightarrow> if list_ex (\<lambda>role. HasRole c role) roles then None
         else Some (403, PProblem ''forbidden''))"

record breachCreateReq =
  brTitle :: string
  brDescription :: string
  brAffected :: "string list"
  brSeverity :: string
  brDetectedAt :: string

definition BreachEventType :: string where "BreachEventType = ''nrs.privacy.breach.v1''"

type_synonym alert = "string \<times> string \<times> breach" \<comment> \<open>topic, tenant, payload\<close>

definition emitBreachAlert ::
  "bool \<Rightarrow> request \<Rightarrow> breach \<Rightarrow> privacy_store \<Rightarrow> privacy_store \<times> alert list" where
  "emitBreachAlert has_bus q b s =
     (snd (Put ''breach_alerts'' (''alert-'' @ qULID q 1) (DAlert b (format_rfc3339 (qNow q 2))) s),
      if has_bus then [(BreachEventType, TenantID (the_claims q), b)] else [])"

definition new_breach :: "request \<Rightarrow> breachCreateReq \<Rightarrow> instant \<Rightarrow> breach" where
  "new_breach q req detected =
     (let now = format_rfc3339 (qNow q 1); actor = Sub (the_claims q)
      in \<lparr>bID = ''brc-'' @ qULID q 0, bTitle = brTitle req, bDescription = brDescription req,
          AffectedSubjects = brAffected req, Severity = brSeverity req,
          DetectedAt = format_rfc3339 detected,
          NotifyDeadline = format_rfc3339 (detected + ndpcNotifyWindow),
          bStatus = ''detected'', NotifiedAt = '''', LateNotification = False,
          bHistory = [\<lparr>btFrom = '''', btTo = ''detected'', btAt = now, btBy = actor\<rparr>],
          CreatedBy = actor, bCreatedAt = now, UpdatedAt = now\<rparr>)"

definition breachCreate ::
  "bool \<Rightarrow> request \<Rightarrow> breachCreateReq option \<Rightarrow> privacy_store
     \<Rightarrow> privacy_response \<times> privacy_store \<times> alert list" where
  "breachCreate has_bus q body s = (case body of
       None \<Rightarrow> ((400, PProblem ''bad_request''), s, [])
     | Some req \<Rightarrow>
         if brTitle req = '''' \<or> brAffected req = [] then ((400, PProblem ''bad_request''), s, [])
         else if brSeverity req \<notin> set breachSeverities then ((400, PProblem ''bad_request''), s, [])
         else (case (if brDetectedAt req \<noteq> '''' then parse_rfc3339 (brDetectedAt req) else Some (qNow q 0)) of
             None \<Rightarrow> ((400, PProblem ''bad_request''), s, [])
           | Some detected \<Rightarrow>
              (let b = new_breach q req detected
               in case Put ''breaches'' (bID b) (DBreach b) s of
                    (Some e, s1) \<Rightarrow> ((500, PProblem ''internal_error''), s1, [])
                  | (None, s1) \<Rightarrow> ((201, PBreach b), emitBreachAlert has_bus q b s1))))"

definition breachList :: "privacy_store \<Rightarrow> privacy_response" where
  "breachList s = (case ListInto dec_breach ''breaches'' s of
       Inl e \<Rightarrow> (500, PProblem ''internal_error'') | Inr bs \<Rightarrow> (200, PBreaches bs))"

definition breachGet :: "string \<Rightarrow> privacy_store \<Rightarrow> privacy_response" where
  "breachGet i s = (case DocStore.Get dec_breach ''breaches'' i s of
       Inl e \<Rightarrow> (404, PProblem ''not_found'') | Inr b \<Rightarrow> (200, PBreach b))"

text \<open>A deadline that does not parse is the zero time, year 1, before every clock reading.\<close>

definition zero_time :: instant where "zero_time = days_from_civil 1 1 1 * 86400 * second_ns"

definition advanced :: "request \<Rightarrow> string \<Rightarrow> breach \<Rightarrow> breach" where
  "advanced q to b =
     (let now = qNow q 0; at0 = format_rfc3339 now;
          deadline = (case parse_rfc3339 (NotifyDeadline b) of Some d \<Rightarrow> d | None \<Rightarrow> zero_time);
          b1 = (if to = ''notified'' then b\<lparr>NotifiedAt := at0, LateNotification := deadline < now\<rparr> else b)
      in b1\<lparr>bHistory := bHistory b1 @ [\<lparr>btFrom = bStatus b1, btTo = to, btAt = at0,
                btBy = Sub (the_claims q)\<rparr>],
            bStatus := to, UpdatedAt := at0\<rparr>)"

definition breachTransition ::
  "request \<Rightarrow> string option \<Rightarrow> string \<Rightarrow> privacy_store \<Rightarrow> privacy_response \<times> privacy_store" where
  "breachTransition q body i s = (case body of
       None \<Rightarrow> ((400, PProblem ''bad_request''), s)
     | Some to \<Rightarrow> (case DocStore.Get dec_breach ''breaches'' i s of
         Inl e \<Rightarrow> ((404, PProblem ''not_found''), s)
       | Inr b \<Rightarrow> (case map_of breachWorkflow (bStatus b) of
           None \<Rightarrow> ((409, PProblem ''conflict''), s)
         | Some next \<Rightarrow>
             if to \<noteq> next then ((409, PProblem ''conflict''), s)
             else (case Put ''breaches'' i (DBreach (advanced q to b)) s of
                 (Some e, s1) \<Rightarrow> ((500, PProblem ''internal_error''), s1)
               | (None, s1) \<Rightarrow> ((200, PBreach (advanced q to b)), s1)))))"

section \<open>Data-subject rights\<close>

definition dsrAuthorize :: "claims \<Rightarrow> string \<Rightarrow> bool" where
  "dsrAuthorize c subject \<longleftrightarrow> Sub c = subject \<or> HasRole c ''admin'' \<or> HasRole c ''privacy:officer''"

definition logAccess :: "string \<Rightarrow> string \<Rightarrow> string \<Rightarrow> string \<Rightarrow> instant \<Rightarrow> privacy_store \<Rightarrow> privacy_store" where
  "logAccess subject action actor ulid now s =
     snd (Put ''dsr_access_log'' (''dsl-'' @ ulid)
       (DAccess \<lparr>alSubject = subject, alAction = action, alActor = actor, alTime = format_rfc3339 now\<rparr>) s)"

text \<open>One id per occurrence of the subject among the affected ones.\<close>

definition exposed_in :: "string \<Rightarrow> breach list \<Rightarrow> string list" where
  "exposed_in subject bs = concat (map (\<lambda>b. map (\<lambda>_. bID b)
     (filter (\<lambda>x. x = subject) (AffectedSubjects b))) bs)"

definition dsrExport :: "request \<Rightarrow> string \<Rightarrow> privacy_store \<Rightarrow> privacy_response \<times> privacy_store" where
  "dsrExport q subject s =
     (if \<not> dsrAuthorize (the_claims q) subject then ((403, PProblem ''forbidden''), s)
      else case ListInto dec_consent ''consents'' s of
        Inl e \<Rightarrow> ((500, PProblem ''internal_error''), s)
      | Inr cs \<Rightarrow> (case ListInto dec_receipt ''receipts'' s of
          Inl e \<Rightarrow> ((500, PProblem ''internal_error''), s)
        | Inr rs \<Rightarrow> (case ListInto dec_breach ''breaches'' s of
            Inl e \<Rightarrow> ((500, PProblem ''internal_error''), s)
          | Inr bs \<Rightarrow> ((200, PExport subject (filter (\<lambda>c. cSubject c = subject) cs)
                (filter (\<lambda>r. rSubject r = subject) rs) (exposed_in subject bs)),
              logAccess subject ''export'' (Sub (the_claims q)) (qULID q 0) (qNow q 0) s))))"

definition underLegalHold :: "string \<Rightarrow> privacy_store \<Rightarrow> bool" where
  "underLegalHold subject s = (case ListInto dec_hold ''legal_holds'' s of
       Inl e \<Rightarrow> False
     | Inr hs \<Rightarrow> list_ex (\<lambda>h. lhSubject h = subject \<and> lhActive h) hs)"

text \<open>\<open>sha\<close> is the SHA-256 sum as 64 hex digits.\<close>

definition anonymisedSubject :: "(string \<Rightarrow> string) \<Rightarrow> string \<Rightarrow> string" where
  "anonymisedSubject sha subject = ''anon-'' @ take 24 (sha (''dsr-erasure|'' @ subject))"

definition anonymised :: "string \<Rightarrow> string \<Rightarrow> consent \<Rightarrow> consent" where
  "anonymised anon now c =
     (let c1 = c\<lparr>cSubject := anon, cMetadata := '''', cChannel := ''''\<rparr>
      in if cStatus c1 = ''active'' then c1\<lparr>cStatus := ''revoked'', cGranted := False, cRevokedAt := now\<rparr>
         else c1)"

fun erase_loop :: "string \<Rightarrow> string \<Rightarrow> string \<Rightarrow> consent list \<Rightarrow> nat \<Rightarrow> privacy_store
    \<Rightarrow> (string + nat) \<times> privacy_store" where
  "erase_loop subject anon now [] n s = (Inr n, s)"
| "erase_loop subject anon now (c # cs) n s =
     (if cSubject c \<noteq> subject then erase_loop subject anon now cs n s
      else (case Put ''consents'' (cID c) (DConsent (anonymised anon now c)) s of
          (Some e, s1) \<Rightarrow> (Inl e, s1)
        | (None, s1) \<Rightarrow> erase_loop subject anon now cs (Suc n) s1))"

definition dsrErasure ::
  "(string \<Rightarrow> string) \<Rightarrow> request \<Rightarrow> string \<Rightarrow> privacy_store \<Rightarrow> privacy_response \<times> privacy_store" where
  "dsrErasure sha q subject s =
     (if \<not> dsrAuthorize (the_claims q) subject then ((403, PProblem ''forbidden''), s)
      else if underLegalHold subject s then
        ((409, PProblem ''conflict''),
         logAccess subject ''erasure_refused_legal_hold'' (Sub (the_claims q)) (qULID q 0) (qNow q 0) s)
      else case ListInto dec_consent ''consents'' s of
        Inl e \<Rightarrow> ((500, PProblem ''internal_error''), s)
      | Inr cs \<Rightarrow>
         (let anon = anonymisedSubject sha subject; now = format_rfc3339 (qNow q 0)
          in case erase_loop subject anon now cs 0 s of
               (Inl e, s1) \<Rightarrow> ((500, PProblem ''internal_error''), s1)
             | (Inr n, s1) \<Rightarrow> (case Put ''dsr_audit'' (''aud-'' @ qULID q 0)
                   (DErasure \<lparr>eaSubject = subject, eaAnonymised = anon, eaRecords = n,
                      eaActor = Sub (the_claims q), eaTime = now\<rparr>) s1 of
                 (Some e, s2) \<Rightarrow> ((500, PProblem ''internal_error''), s2)
               | (None, s2) \<Rightarrow> ((200, PErased subject anon n),
                   logAccess subject ''erasure'' (Sub (the_claims q)) (qULID q 1) (qNow q 1) s2))))"

definition dsrAccessLog :: "request \<Rightarrow> string \<Rightarrow> privacy_store \<Rightarrow> privacy_response" where
  "dsrAccessLog q subject s =
     (if \<not> HasRole (the_claims q) ''admin'' \<and> \<not> HasRole (the_claims q) ''privacy:officer''
      then (403, PProblem ''forbidden'')
      else case ListInto dec_access ''dsr_access_log'' s of
        Inl e \<Rightarrow> (500, PProblem ''internal_error'')
      | Inr es \<Rightarrow> (200, PAccess subject (filter (\<lambda>e. alSubject e = subject) es)))"

section \<open>The routes\<close>

datatype privacy_req =
    RCreate "createReq option"
  | RCheck "checkReq option"
  | RList string
  | RRevoke string
  | RRenew string "string option"
  | RReceipt string
  | RBreachCreate "breachCreateReq option"
  | RBreachList
  | RBreachGet string
  | RBreachTransition string "string option"
  | RExport string
  | RErasure string
  | RAccessLog string

definition privacy_roles :: "string list" where
  "privacy_roles = [''privacy:officer'', ''admin'']"

definition gated_breach ::
  "request \<Rightarrow> privacy_response \<times> privacy_store \<Rightarrow> privacy_store \<Rightarrow> privacy_response \<times> privacy_store" where
  "gated_breach q r s = (case requireAnyRole privacy_roles q of Some e \<Rightarrow> (e, s) | None \<Rightarrow> r)"

fun privacy_serve ::
  "consent_crypto \<Rightarrow> (string \<Rightarrow> string) \<Rightarrow> request \<Rightarrow> privacy_req \<Rightarrow> privacy_store
     \<Rightarrow> privacy_response \<times> privacy_store" where
  "privacy_serve k sha q (RCreate b) s = consent_create k q b s"
| "privacy_serve k sha q (RCheck b) s = consent_check q b s"
| "privacy_serve k sha q (RList subject) s = listBySubject q subject s"
| "privacy_serve k sha q (RRevoke i) s = consent_revoke k q i s"
| "privacy_serve k sha q (RRenew i b) s = consent_renew k q b i s"
| "privacy_serve k sha q (RReceipt i) s = (getReceipt q i s, s)"
| "privacy_serve k sha q (RBreachCreate b) s =
     gated_breach q (case breachCreate False q b s of (r, s1, _) \<Rightarrow> (r, s1)) s"
| "privacy_serve k sha q RBreachList s = gated_breach q (breachList s, s) s"
| "privacy_serve k sha q (RBreachGet i) s = gated_breach q (breachGet i s, s) s"
| "privacy_serve k sha q (RBreachTransition i b) s = gated_breach q (breachTransition q b i s) s"
| "privacy_serve k sha q (RExport subject) s = dsrExport q subject s"
| "privacy_serve k sha q (RErasure subject) s = dsrErasure sha q subject s"
| "privacy_serve k sha q (RAccessLog subject) s = (dsrAccessLog q subject s, s)"

end
