(* ===== verification/PrivacyInv.thy ===== *)
theory PrivacyInv
  imports Privacy
begin

text \<open>
  What holds of the consent service over whole runs: how a consent record may change, that the
  check answers exactly what the stored records say, what an erasure leaves, and the life of a
  breach.
\<close>

section \<open>Well-formed stores\<close>

text \<open>Consents and breaches are stored under their own ids.\<close>

definition consents_ok :: "privacy_store \<Rightarrow> bool" where
  "consents_ok s \<longleftrightarrow> colls_ok s
     \<and> (\<forall>i d. lookup ''consents'' i s = Some d \<longrightarrow> (\<exists>c. d = DConsent c \<and> cID c = i))"

definition consents_of :: "privacy_store \<Rightarrow> consent list" where
  "consents_of s = map (\<lambda>d. case d of DConsent c \<Rightarrow> c) (ListDocs ''consents'' s)"

lemma consents_listed:
  assumes "consents_ok s"
  shows "ListInto dec_consent ''consents'' s = Inr (consents_of s)"
    and "distinct (map cID (consents_of s))"
    and "c \<in> set (consents_of s) \<longleftrightarrow> lookup ''consents'' (cID c) s = Some (DConsent c)"
proof -
  let ?f = "\<lambda>d. case d of DConsent c \<Rightarrow> c"
  have k: "kv_ok (coll_of ''consents'' s)" and co: "colls_ok s"
    using assms by (simp_all add: consents_ok_def colls_ok_def)
  have D: "\<exists>c. p = (cID c, DConsent c)" if "p \<in> set (coll_of ''consents'' s)" for p
  proof -
    have "lookup ''consents'' (fst p) s = Some (snd p)"
      using that kv_mem_iff [OF k, of "fst p" "snd p"] by (simp add: lookup_def)
    with assms show ?thesis unfolding consents_ok_def by (metis prod.collapse)
  qed
  show "ListInto dec_consent ''consents'' s = Inr (consents_of s)"
    unfolding ListInto_def consents_of_def
    by (rule decode_all_ok) (use D in \<open>force simp: ListDocs_def dec_consent_def\<close>)
  have "map cID (consents_of s) = map fst (coll_of ''consents'' s)"
    unfolding consents_of_def ListDocs_def using D by (force simp: comp_def)
  then show "distinct (map cID (consents_of s))" using kv_ok_distinct [OF k] by simp
  show "c \<in> set (consents_of s) \<longleftrightarrow> lookup ''consents'' (cID c) s = Some (DConsent c)"
  proof
    assume "c \<in> set (consents_of s)"
    then obtain p where p: "p \<in> set (coll_of ''consents'' s)" "c = ?f (snd p)"
      by (auto simp: consents_of_def ListDocs_def)
    with D [OF p(1)] kv_mem_iff [OF k] show "lookup ''consents'' (cID c) s = Some (DConsent c)"
      by (auto simp: lookup_def)
  next
    assume "lookup ''consents'' (cID c) s = Some (DConsent c)"
    then have "DConsent c \<in> set (ListDocs ''consents'' s)" using mem_ListDocs [OF co] by blast
    then show "c \<in> set (consents_of s)" unfolding consents_of_def by force
  qed
qed

section \<open>The check\<close>

text \<open>The first consent, in id order, that covers the subject and purpose now.\<close>

definition covers :: "string \<Rightarrow> string \<Rightarrow> string \<Rightarrow> consent \<Rightarrow> bool" where
  "covers now subject purpose c \<longleftrightarrow> cSubject c = subject \<and> cPurpose c = purpose
     \<and> cStatus c = ''active'' \<and> cGranted c \<and> \<not> (cExpiresAt c \<noteq> '''' \<and> cExpiresAt c < now)"

lemma check_loop_finds:
  "fst (check_loop now subject purpose cs s) = List.find (covers now subject purpose) cs"
proof (induction cs arbitrary: s)
  case (Cons c cs)
  show ?case
  proof (cases "lapsed now c")
    case True
    then have "\<not> covers now subject purpose c" by (auto simp: covers_def lapsed_def)
    with True Cons show ?thesis by (simp add: expire_consent_def Let_def)
  next
    case False
    then show ?thesis using Cons by (auto simp: expire_consent_def covers_def lapsed_def)
  qed
qed simp

lemma findValidConsent_finds:
  "consents_ok s \<Longrightarrow> fst (findValidConsent subject purpose now s)
     = List.find (covers (format_rfc3339 now) subject purpose) (consents_of s)"
  by (simp add: findValidConsent_def consents_listed(1) check_loop_finds)

section \<open>How a consent may change\<close>

text \<open>Id, purpose, basis and grant time are fixed; a revoked consent keeps its status, its withdrawal
  time and the fact that it is not granted.\<close>

definition keeps :: "privacy_doc \<Rightarrow> privacy_doc \<Rightarrow> bool" where
  "keeps d d' \<longleftrightarrow> d' = d \<or> (\<exists>c c'. d = DConsent c \<and> d' = DConsent c' \<and> cID c' = cID c \<and> cPurpose c' = cPurpose c
     \<and> cLawfulBasis c' = cLawfulBasis c \<and> cGrantedAt c' = cGrantedAt c
     \<and> (cStatus c = ''revoked'' \<longrightarrow> cStatus c' = ''revoked'' \<and> cGranted c' = cGranted c
          \<and> cRevokedAt c' = cRevokedAt c))"

lemma keeps_reflp [simp]: "reflp keeps"
  by (simp add: reflp_def keeps_def)

lemma keeps_transp [simp]: "transp keeps"
  by (rule transpI) (auto simp: keeps_def)

abbreviation consents_evolve :: "privacy_store \<Rightarrow> privacy_store \<Rightarrow> bool" where
  "consents_evolve \<equiv> ds.evolves keeps ''consents''"

lemma evolve_refl [simp]: "consents_evolve s s"
  by (rule ds.evolves_refl) simp

lemma evolve_trans: "consents_evolve s t \<Longrightarrow> consents_evolve t u \<Longrightarrow> consents_evolve s u"
  by (rule ds.evolves_trans) simp_all

text \<open>An operation keeps the consents well formed and only changes them as allowed.\<close>

definition consent_safe :: "privacy_store \<Rightarrow> privacy_store \<Rightarrow> bool" where
  "consent_safe s t \<longleftrightarrow> (consents_ok s \<longrightarrow> consents_ok t \<and> consents_evolve s t)"

lemma safe_refl [simp]: "consent_safe s s"
  by (simp add: consent_safe_def)

lemma safe_trans: "consent_safe s t \<Longrightarrow> consent_safe t u \<Longrightarrow> consent_safe s u"
  using evolve_trans by (auto simp: consent_safe_def)

lemma colls_ok_Put: "colls_ok s \<Longrightarrow> Put c i v s = (e, t) \<Longrightarrow> colls_ok t"
  using colls_ok_written [of s c i v] by (simp add: written_def)

lemma safe_other:
  assumes "Put c i v s = (e, t)" "c \<noteq> ''consents''"
  shows "consent_safe s t"
proof -
  have "lookup ''consents'' k t = lookup ''consents'' k s" for k
    using Put_lookup [OF assms(1), of "''consents''" k] assms(2) by simp
  then show ?thesis
    using colls_ok_Put [OF _ assms(1)] ds.evolves_other [OF keeps_reflp assms]
    by (simp add: consent_safe_def consents_ok_def)
qed

lemma safe_put:
  assumes "Put ''consents'' i (DConsent c) s = (e, t)" "cID c = i"
    "\<And>d. consents_ok s \<Longrightarrow> lookup ''consents'' i s = Some d \<Longrightarrow> keeps d (DConsent c)"
  shows "consent_safe s t"
  unfolding consent_safe_def consents_ok_def
  using colls_ok_Put [OF _ assms(1)] Put_lookup [OF assms(1)] assms(2)
    ds.evolves_put [OF keeps_reflp assms(1)] assms(3) [unfolded consents_ok_def] by auto

lemma safe_receipt: "consent_safe s (snd (issueReceipt k u now c a act s))"
  unfolding issueReceipt_def Let_def snd_conv
  by (rule safe_other [OF prod.collapse [symmetric]]) simp

text \<open>One step of a loop over the stored consents: the record is still the one that was read.\<close>

definition still :: "consent list \<Rightarrow> privacy_store \<Rightarrow> bool" where
  "still cs s \<longleftrightarrow> distinct (map cID cs) \<and> (\<forall>c \<in> set cs. lookup ''consents'' (cID c) s = Some (DConsent c))"

lemma still_Cons: "still (c # cs) s \<Longrightarrow> still cs s"
  by (simp add: still_def)

lemma still_put:
  assumes "still (c # cs) s" "Put ''consents'' (cID c) d s = (e, t)"
  shows "still cs t"
proof -
  have "lookup ''consents'' (cID x) t = Some (DConsent x)" if "x \<in> set cs" for x
  proof -
    have "cID c \<notin> cID ` set cs" using assms(1) by (simp add: still_def)
    then have "cID x \<noteq> cID c" using that by (metis imageI)
    then show ?thesis using assms(1) that Put_lookup [OF assms(2), of "''consents''" "cID x"]
      by (simp add: still_def)
  qed
  then show ?thesis using assms(1) by (simp add: still_def)
qed

lemma still_listed: "consents_ok s \<Longrightarrow> still (consents_of s) s"
  using consents_listed(2,3) by (simp add: still_def)

lemma safe_change:
  assumes "still (c # cs) s" "Put ''consents'' (cID c) (DConsent c') s = (e, t)"
    "keeps (DConsent c) (DConsent c')"
  shows "consent_safe s t"
proof (rule safe_put [OF assms(2)])
  show "cID c' = cID c" using assms(3) by (auto simp: keeps_def)
  show "keeps d (DConsent c')" if "lookup ''consents'' (cID c) s = Some d" for d
    using that assms(1,3) by (simp add: still_def)
qed

lemma keeps_expired: "lapsed now c \<Longrightarrow> keeps (DConsent c) (DConsent (c\<lparr>cStatus := ''expired''\<rparr>))"
  by (simp add: keeps_def lapsed_def)

lemma expire_safe:
  assumes "still (c # cs) s" "expire_consent now c s = (c1, t)"
  shows "consent_safe s t \<and> still cs t"
proof (cases "lapsed now c")
  case True
  obtain e u where p: "Put ''consents'' (cID c) (DConsent (c\<lparr>cStatus := ''expired''\<rparr>)) s = (e, u)" by fastforce
  with True assms(2) have "t = u" by (simp add: expire_consent_def Let_def)
  with safe_change [OF assms(1) p keeps_expired [OF True]] still_put [OF assms(1) p] show ?thesis by simp
next
  case False
  with assms still_Cons show ?thesis by (auto simp: expire_consent_def)
qed

lemma list_loop_safe: "still cs s \<Longrightarrow> consent_safe s (snd (list_loop now subject cs s))"
proof (induction cs arbitrary: s)
  case (Cons c cs)
  obtain c1 t where e: "expire_consent now c s = (c1, t)" by fastforce
  note x = expire_safe [OF Cons.prems e]
  from Cons.IH [of t] x Cons.IH [OF still_Cons [OF Cons.prems]] e show ?case
    by (auto simp: split_beta intro: safe_trans)
qed simp

lemma check_loop_safe: "still cs s \<Longrightarrow> consent_safe s (snd (check_loop now subject purpose cs s))"
proof (induction cs arbitrary: s)
  case (Cons c cs)
  obtain c1 t where e: "expire_consent now c s = (c1, t)" by fastforce
  note x = expire_safe [OF Cons.prems e]
  from Cons.IH [of t] x Cons.IH [OF still_Cons [OF Cons.prems]] e show ?case
    by (auto intro: safe_trans)
qed simp

lemma keeps_anonymised: "keeps (DConsent c) (DConsent (anonymised anon now c))"
  by (auto simp: keeps_def anonymised_def Let_def)

lemma erase_loop_safe: "still cs s \<Longrightarrow> consent_safe s (snd (erase_loop subject anon now cs n s))"
proof (induction cs arbitrary: s n)
  case (Cons c cs)
  obtain e t where p: "Put ''consents'' (cID c) (DConsent (anonymised anon now c)) s = (e, t)" by fastforce
  note x = safe_change [OF Cons.prems p keeps_anonymised] still_put [OF Cons.prems p]
  from Cons.IH [OF x(2)] x(1) Cons.IH [OF still_Cons [OF Cons.prems]] p show ?case
    by (auto split: option.splits intro: safe_trans)
qed simp

section \<open>The handlers\<close>

lemma Get_consent:
  "DocStore.Get dec_consent ''consents'' i s = Inr c \<Longrightarrow> lookup ''consents'' i s = Some (DConsent c)"
  by (auto simp: DocStore.Get_def lookup_def dec_consent_def split: option.splits privacy_doc.splits)

lemma stored_id: "consents_ok s \<Longrightarrow> lookup ''consents'' i s = Some (DConsent c) \<Longrightarrow> cID c = i"
  by (auto simp: consents_ok_def)

lemma safeI: "(consents_ok s \<Longrightarrow> consent_safe s t) \<Longrightarrow> consent_safe s t"
  by (auto simp: consent_safe_def)

lemma create_safe:
  assumes "lookup ''consents'' (''con-'' @ qULID q 0) s = None"
  shows "consent_safe s (snd (consent_create k q body s))"
proof (cases "\<exists>req. body = Some req \<and> fst (fst (consent_create k q body s)) \<notin> {400, 403}")
  case False
  then have "snd (consent_create k q body s) = s"
    by (cases body) (auto simp: consent_create_def Let_def split: option.splits prod.splits if_splits)
  then show ?thesis by simp
next
  case True
  then obtain req where b: "body = Some req" by blast
  let ?c = "new_consent q req"
  obtain e t where p: "Put ''consents'' (cID ?c) (DConsent ?c) s = (e, t)" by fastforce
  have i: "cID ?c = ''con-'' @ qULID q 0" by (simp add: new_consent_def Let_def)
  have "consent_safe s t" by (rule safe_put [OF p refl]) (use assms i in simp)
  moreover have "snd (consent_create k q body s) = t
      \<or> (\<exists>u now act a. snd (consent_create k q body s) = snd (issueReceipt k u now ?c act a t))"
    using True b p by (cases e) (auto simp: consent_create_def Let_def split_beta split: if_splits)
  ultimately show ?thesis using safe_trans [OF _ safe_receipt] by auto
qed

text \<open>A handler that reads one consent and writes a changed copy with a receipt.\<close>

lemma rewrite_safe:
  assumes "DocStore.Get dec_consent ''consents'' i s = Inr c" "keeps (DConsent c) (DConsent c1)"
    "Put ''consents'' i (DConsent c1) s = (e, t)"
  shows "consent_safe s t \<and> consent_safe s (snd (issueReceipt k u now c1 act a t))"
proof -
  note L = Get_consent [OF assms(1)]
  have "consent_safe s t"
  proof (rule safeI)
    assume ok: "consents_ok s"
    have "cID c1 = i" using stored_id [OF ok L] assms(2) by (auto simp: keeps_def)
    then show "consent_safe s t" by (rule safe_put [OF assms(3)]) (use L assms(2) in simp)
  qed
  then show ?thesis using safe_trans [OF _ safe_receipt] by blast
qed

lemma revoke_safe: "consent_safe s (snd (consent_revoke k q i s))"
proof (cases "DocStore.Get dec_consent ''consents'' i s")
  case (Inr c)
  let ?c = "c\<lparr>cStatus := ''revoked'', cGranted := False, cRevokedAt := format_rfc3339 (qNow q 0)\<rparr>"
  obtain e t where p: "Put ''consents'' i (DConsent ?c) s = (e, t)" by fastforce
  show ?thesis
  proof (cases "cStatus c = ''revoked''")
    case False
    then have "keeps (DConsent c) (DConsent ?c)" by (simp add: keeps_def)
    from rewrite_safe [OF Inr this p] p Inr False show ?thesis
      by (cases e) (simp_all add: consent_revoke_def Let_def split_beta)
  qed (simp add: consent_revoke_def Inr)
qed (simp add: consent_revoke_def)

lemma renew_safe: "consent_safe s (snd (consent_renew k q body i s))"
proof (cases body)
  case (Some expires)
  show ?thesis
  proof (cases "DocStore.Get dec_consent ''consents'' i s")
    case (Inr c)
    let ?c = "c\<lparr>cStatus := ''active'', cGranted := True, cRevokedAt := '''', cExpiresAt := expires\<rparr>"
    obtain e t where p: "Put ''consents'' i (DConsent ?c) s = (e, t)" by fastforce
    show ?thesis
    proof (cases "cStatus c = ''revoked''")
      case False
      then have "keeps (DConsent c) (DConsent ?c)" by (simp add: keeps_def)
      from rewrite_safe [OF Inr this p] p Inr False Some show ?thesis
        by (cases e) (simp_all add: consent_renew_def Let_def split_beta)
    qed (simp add: consent_renew_def Inr Some)
  qed (simp add: consent_renew_def Some)
qed (simp add: consent_renew_def)

lemma list_safe: "consent_safe s (snd (listBySubject q subject s))"
  by (rule safeI) (simp add: listBySubject_def consents_listed(1) split_beta list_loop_safe still_listed)

lemma find_safe: "consent_safe s (snd (findValidConsent subject purpose now s))"
  by (rule safeI) (simp add: findValidConsent_def consents_listed(1) check_loop_safe still_listed)

lemma check_store: "snd (consent_check q body s) = s
  \<or> (\<exists>a b. snd (consent_check q body s) = snd (findValidConsent a b (qNow q 0) s))"
proof (cases body)
  case (Some req)
  obtain r t where f: "findValidConsent (ckSubject req) (ckPurpose req) (qNow q 0) s = (r, t)" by fastforce
  have "snd (consent_check q body s) = s \<or> snd (consent_check q body s) = t"
    using Some f by (cases r) (simp_all add: consent_check_def)
  then show ?thesis using f by (metis snd_conv)
qed (simp add: consent_check_def)

lemma check_safe: "consent_safe s (snd (consent_check q body s))"
  using check_store [of q body s] find_safe safe_refl by metis

lemma logAccess_safe: "consent_safe s (logAccess subject act a u now s)"
  unfolding logAccess_def by (rule safe_other [OF prod.collapse [symmetric]]) simp

lemma erasure_safe: "consent_safe s (snd (dsrErasure sha q subject s))"
proof (rule safeI)
  assume ok: "consents_ok s"
  obtain r t where e: "erase_loop subject (anonymisedSubject sha subject) (format_rfc3339 (qNow q 0))
      (consents_of s) 0 s = (r, t)" by fastforce
  then have st: "consent_safe s t" using erase_loop_safe [OF still_listed [OF ok]] by (metis snd_conv)
  have w: "consent_safe s u" if "Put ''dsr_audit'' i d t = (x, u)" for i d x u
    using safe_trans [OF st safe_other [OF that]] by simp
  have l: "consent_safe s (logAccess subject b a v now u)" if "Put ''dsr_audit'' i d t = (x, u)" for i d x u b a v now
    using safe_trans [OF w [OF that] logAccess_safe] .
  show "consent_safe s (snd (dsrErasure sha q subject s))"
    using logAccess_safe st w l e
    by (simp add: dsrErasure_def consents_listed(1) [OF ok] Let_def split: sum.split option.split prod.split)
qed

lemma export_safe: "consent_safe s (snd (dsrExport q subject s))"
  using logAccess_safe by (simp add: dsrExport_def split: sum.split)

lemma alert_safe: "consent_safe s (fst (emitBreachAlert b q x s))"
  unfolding emitBreachAlert_def fst_conv by (rule safe_other [OF prod.collapse [symmetric]]) simp

lemma breachCreate_safe: "consent_safe s (fst (snd (breachCreate b q body s)))"
proof (cases body)
  case (Some req)
  have w: "consent_safe s (fst (snd (case Put ''breaches'' i d s of
      (Some e, s1) \<Rightarrow> (r, s1, []) | (None, s1) \<Rightarrow> (r', emitBreachAlert b q x s1))))" for i d r r' x
  proof -
    obtain e t where p: "Put ''breaches'' i d s = (e, t)" by fastforce
    have "consent_safe s t" by (rule safe_other [OF p]) simp
    with p show ?thesis using safe_trans alert_safe by (cases e) simp_all
  qed
  show ?thesis
    using Some by (simp add: breachCreate_def Let_def w split: option.split)
qed (simp add: breachCreate_def)

lemma breachTransition_safe: "consent_safe s (snd (breachTransition q body i s))"
  by (auto simp: breachTransition_def split: option.splits sum.splits if_splits prod.splits
      intro: safe_other)

section \<open>Whole runs\<close>

text \<open>New records get fresh identifiers.\<close>

fun fresh_ids :: "request \<Rightarrow> privacy_req \<Rightarrow> privacy_store \<Rightarrow> bool" where
  "fresh_ids q (RCreate b) s \<longleftrightarrow> lookup ''consents'' (''con-'' @ qULID q 0) s = None"
| "fresh_ids q (RBreachCreate b) s \<longleftrightarrow> lookup ''breaches'' (''brc-'' @ qULID q 0) s = None"
| "fresh_ids q _ s \<longleftrightarrow> True"

inductive privacy_path ::
  "consent_crypto \<Rightarrow> (string \<Rightarrow> string) \<Rightarrow> privacy_store \<Rightarrow> privacy_store \<Rightarrow> bool" for k sha where
  here: "privacy_path k sha s s"
| serve: "privacy_path k sha s t \<Longrightarrow> fresh_ids q r t \<Longrightarrow> privacy_path k sha s (snd (privacy_serve k sha q r t))"

lemma gated_safe: "consent_safe s (snd r) \<Longrightarrow> consent_safe s (snd (gated_breach q r s))"
  by (simp add: gated_breach_def split: option.split)

lemma privacy_serve_safe: "fresh_ids q r s \<Longrightarrow> consent_safe s (snd (privacy_serve k sha q r s))"
proof (cases r)
  case (RBreachCreate b)
  have "snd (case breachCreate False q b s of (r, s1, x) \<Rightarrow> (r, s1)) = fst (snd (breachCreate False q b s))"
    by (simp add: split_beta)
  then show ?thesis using RBreachCreate gated_safe breachCreate_safe by (metis privacy_serve.simps(7))
qed (simp_all add: create_safe check_safe list_safe revoke_safe renew_safe export_safe erasure_safe
  gated_safe breachTransition_safe)

lemma privacy_path_safe: "privacy_path k sha s t \<Longrightarrow> consent_safe s t"
  by (induction rule: privacy_path.induct) (auto intro: safe_trans privacy_serve_safe)

lemma revoked_for_ever:
  assumes "privacy_path k sha s t" "consents_ok s" "lookup ''consents'' i s = Some (DConsent c)"
    "cStatus c = ''revoked''"
  shows "consents_ok t \<and> (\<exists>c'. lookup ''consents'' i t = Some (DConsent c') \<and> cStatus c' = ''revoked''
    \<and> cGranted c' = cGranted c \<and> cRevokedAt c' = cRevokedAt c \<and> cPurpose c' = cPurpose c)"
proof -
  from privacy_path_safe [OF assms(1)] assms(2) have t: "consents_ok t" "consents_evolve s t"
    by (simp_all add: consent_safe_def)
  from t(2) assms(3) obtain d where d: "lookup ''consents'' i t = Some d" "keeps (DConsent c) d"
    unfolding ds.evolves_def by blast
  then show ?thesis using t(1) assms(4) by (auto simp: keeps_def)
qed

text \<open>The answer of the check, as a function of the stored records.\<close>

lemma consent_check_answer:
  assumes "consents_ok s" "ckSubject req \<noteq> ''''" "ckPurpose req \<noteq> ''''"
    "ckLawfulBasis req = '''' \<or> ckLawfulBasis req \<in> set lawfulBases"
  shows "fst (consent_check q (Some req) s) = (200, PCheck
    (case List.find (covers (format_rfc3339 (qNow q 0)) (ckSubject req) (ckPurpose req)) (consents_of s) of
       None \<Rightarrow> False | Some c \<Rightarrow> ckLawfulBasis req = '''' \<or> cLawfulBasis c = ckLawfulBasis req)
    (ckSubject req) (ckPurpose req)
    (case List.find (covers (format_rfc3339 (qNow q 0)) (ckSubject req) (ckPurpose req)) (consents_of s) of
       None \<Rightarrow> None | Some c \<Rightarrow> if ckLawfulBasis req = '''' \<or> cLawfulBasis c = ckLawfulBasis req
         then Some (cID c, cLawfulBasis c, cExpiresAt c) else None))"
proof -
  obtain r t where f: "findValidConsent (ckSubject req) (ckPurpose req) (qNow q 0) s = (r, t)" by fastforce
  then have "List.find (covers (format_rfc3339 (qNow q 0)) (ckSubject req) (ckPurpose req)) (consents_of s) = r"
    using findValidConsent_finds [OF assms(1)] by (metis fst_conv)
  with f assms(2-4) show ?thesis by (cases r) (auto simp: consent_check_def)
qed

section \<open>Erasure\<close>

lemma erase_loop_spec:
  "still cs s \<Longrightarrow> erase_loop subject anon now cs n s = (Inr m, t) \<Longrightarrow>
   m = n + length (filter (\<lambda>c. cSubject c = subject) cs)
   \<and> (\<forall>c \<in> set cs. cSubject c = subject \<longrightarrow>
        lookup ''consents'' (cID c) t = Some (DConsent (anonymised anon now c)))
   \<and> (\<forall>i. (\<forall>c \<in> set cs. cID c = i \<longrightarrow> cSubject c \<noteq> subject) \<longrightarrow> lookup ''consents'' i t = lookup ''consents'' i s)
   \<and> (\<forall>c' i. c' \<noteq> ''consents'' \<longrightarrow> lookup c' i t = lookup c' i s)"
proof (induction cs arbitrary: n s)
  case (Cons c cs)
  show ?case
  proof (cases "cSubject c = subject")
    case False
    with Cons.IH [OF still_Cons [OF Cons.prems(1)], of n] Cons.prems(2) show ?thesis by auto
  next
    case True
    obtain e u where p: "Put ''consents'' (cID c) (DConsent (anonymised anon now c)) s = (e, u)" by fastforce
    with True Cons.prems(2) have "e = None" and r: "erase_loop subject anon now cs (Suc n) u = (Inr m, t)"
      by (auto split: option.splits)
    note IH = Cons.IH [OF still_put [OF Cons.prems(1) p] r]
    have "cID c \<notin> cID ` set cs" using Cons.prems(1) by (simp add: still_def)
    then have "\<forall>x \<in> set cs. cID x = cID c \<longrightarrow> cSubject x \<noteq> subject" by (metis imageI)
    then have "lookup ''consents'' (cID c) t = lookup ''consents'' (cID c) u" using IH by blast
    then have "lookup ''consents'' (cID c) t = Some (DConsent (anonymised anon now c))"
      by (simp add: Put_lookup [OF p])
    moreover have "lookup ''consents'' i t = lookup ''consents'' i s"
      if "\<forall>x \<in> set (c # cs). cID x = i \<longrightarrow> cSubject x \<noteq> subject" for i
    proof -
      have "i \<noteq> cID c" using that True by auto
      then show ?thesis using IH that by (simp add: Put_lookup [OF p])
    qed
    moreover have "lookup c' i t = lookup c' i s" if "c' \<noteq> ''consents''" for c' i
      using IH that by (simp add: Put_lookup [OF p])
    ultimately show ?thesis using IH True by auto
  qed
qed simp

lemma erasure_spec:
  assumes "consents_ok s" "dsrErasure sha q subject s = ((200, r), t)"
    "anonymisedSubject sha subject \<noteq> subject"
  shows "r = PErased subject (anonymisedSubject sha subject)
      (length (filter (\<lambda>c. cSubject c = subject) (consents_of s)))"
    and "lookup ''consents'' i t = Some (DConsent c) \<Longrightarrow> cSubject c \<noteq> subject"
    and "lookup ''consents'' i s = Some (DConsent c) \<Longrightarrow> cSubject c \<noteq> subject \<Longrightarrow>
      lookup ''consents'' i t = Some (DConsent c)"
    and "lookup ''receipts'' i t = lookup ''receipts'' i s"
proof -
  let ?anon = "anonymisedSubject sha subject" and ?now = "format_rfc3339 (qNow q 0)"
  obtain x u where e: "erase_loop subject ?anon ?now (consents_of s) 0 s = (x, u)" by fastforce
  obtain n where x: "x = Inr n" using assms(2) e
    by (cases x) (auto simp: dsrErasure_def consents_listed(1) [OF assms(1)] Let_def split: if_splits)
  obtain y v where p: "Put ''dsr_audit'' (''aud-'' @ qULID q 0) (DErasure \<lparr>eaSubject = subject,
      eaAnonymised = ?anon, eaRecords = n, eaActor = Sub (the_claims q), eaTime = ?now\<rparr>) u = (y, v)" by fastforce
  have r: "r = PErased subject ?anon n" "t = logAccess subject ''erasure'' (Sub (the_claims q)) (qULID q 1) (qNow q 1) v"
    using assms(2) e x p
    by (auto simp: dsrErasure_def consents_listed(1) [OF assms(1)] Let_def split: if_splits option.splits)
  then have t: "lookup c' i t = lookup c' i u" if "c' \<in> {''consents'', ''receipts''}" for c' i
    using Put_lookup [OF p, of c' i] that
    by (auto simp: logAccess_def Put_lookup [OF prod.collapse [symmetric]])
  note E = erase_loop_spec [OF still_listed [OF assms(1)] e [unfolded x]]
  show "r = PErased subject ?anon (length (filter (\<lambda>c. cSubject c = subject) (consents_of s)))"
    using r(1) E by simp
  show "lookup ''receipts'' i t = lookup ''receipts'' i s" using t E by simp
  have S: "c \<in> set (consents_of s)" "cID c = i" if "lookup ''consents'' i s = Some (DConsent c)" for c i
    using consents_listed(3) [OF assms(1), of c] stored_id [OF assms(1) that] that by simp_all
  have D: "c' = c" if "c \<in> set (consents_of s)" "c' \<in> set (consents_of s)" "cID c' = cID c" for c c'
    using consents_listed(3) [OF assms(1)] that by (metis option.inject privacy_doc.inject(1))
  show "lookup ''consents'' i t = Some (DConsent c)"
    if "lookup ''consents'' i s = Some (DConsent c)" "cSubject c \<noteq> subject"
  proof -
    have "\<forall>x \<in> set (consents_of s). cID x = i \<longrightarrow> cSubject x \<noteq> subject"
      using D [OF S(1) [OF that(1)]] S(2) [OF that(1)] that(2) by metis
    then have "lookup ''consents'' i u = lookup ''consents'' i s" using E by blast
    then show ?thesis using t that(1) by simp
  qed
  show "cSubject c \<noteq> subject" if c: "lookup ''consents'' i t = Some (DConsent c)"
  proof (cases "\<exists>c0 \<in> set (consents_of s). cID c0 = i \<and> cSubject c0 = subject")
    case True
    then obtain c0 where "c0 \<in> set (consents_of s)" "cID c0 = i" "cSubject c0 = subject" by blast
    then have "c = anonymised ?anon ?now c0" using E t c by force
    then show ?thesis using assms(3) by (simp add: anonymised_def Let_def)
  next
    case False
    then have "lookup ''consents'' i s = Some (DConsent c)" using E t c by auto
    with S False show ?thesis by blast
  qed
qed

section \<open>The life of a breach\<close>

definition breach_chain :: "(string \<times> string) list" where
  "breach_chain = [('''', ''detected''), (''detected'', ''assessed''), (''assessed'', ''notified''),
     (''notified'', ''closed'')]"

text \<open>A breach has gone through the first \<open>n\<close> steps of the chain.\<close>

definition breach_at :: "nat \<Rightarrow> breach \<Rightarrow> bool" where
  "breach_at n b \<longleftrightarrow> n \<in> {1, 2, 3, 4}
     \<and> map (\<lambda>x. (btFrom x, btTo x)) (bHistory b) = take n breach_chain
     \<and> bStatus b = snd (breach_chain ! (n - 1))
     \<and> (\<exists>d. DetectedAt b = format_rfc3339 d \<and> NotifyDeadline b = format_rfc3339 (d + ndpcNotifyWindow))
     \<and> (if n < 3 then NotifiedAt b = '''' \<and> \<not> LateNotification b
        else \<exists>now. NotifiedAt b = format_rfc3339 now \<and> LateNotification b =
          ((case parse_rfc3339 (NotifyDeadline b) of Some d \<Rightarrow> d | None \<Rightarrow> zero_time) < now))"

definition breaches_ok :: "privacy_store \<Rightarrow> bool" where
  "breaches_ok s \<longleftrightarrow> (\<forall>i d. lookup ''breaches'' i s = Some d \<longrightarrow>
     (\<exists>b n. d = DBreach b \<and> bID b = i \<and> breach_at n b))"

datatype breach_op =
    BCreate bool request "breachCreateReq option"
  | BTransition request "string option" string
  | BOther string string privacy_doc

fun breach_exec :: "breach_op \<Rightarrow> privacy_store \<Rightarrow> privacy_store" where
  "breach_exec (BCreate hb q body) s = fst (snd (breachCreate hb q body s))"
| "breach_exec (BTransition q body i) s = snd (breachTransition q body i s)"
| "breach_exec (BOther c i d) s = (if c = ''breaches'' then s else snd (Put c i d s))"

lemma breach_at_new: "breach_at 1 (new_breach q req d)"
  by (auto simp: breach_at_def new_breach_def breach_chain_def Let_def)

lemma breach_at_advanced:
  assumes "breach_at n b" "map_of breachWorkflow (bStatus b) = Some to"
  shows "breach_at (Suc n) (advanced q to b)"
proof -
  have n: "n = 1 \<or> n = 2 \<or> n = 3"
    using assms by (auto simp: breach_at_def breach_chain_def breachWorkflow_def)
  then have "to = snd (breach_chain ! n) \<and> bStatus b = fst (breach_chain ! n)"
    using assms by (auto simp: breach_at_def breach_chain_def breachWorkflow_def)
  with n assms(1) show ?thesis
    by (elim disjE) (auto simp: breach_at_def breach_chain_def advanced_def Let_def)
qed

lemma breaches_ok_other:
  assumes "breaches_ok s" "Put c i d s = (e, t)" "c \<noteq> ''breaches''"
  shows "breaches_ok t"
proof -
  have "lookup ''breaches'' k t = lookup ''breaches'' k s" for k
    using Put_lookup [OF assms(2), of "''breaches''" k] assms(3) by simp
  then show ?thesis using assms(1) by (simp add: breaches_ok_def)
qed

lemma breaches_ok_put:
  assumes "breaches_ok s" "Put ''breaches'' i (DBreach b) s = (e, t)" "bID b = i" "breach_at n b"
  shows "breaches_ok t"
  using assms(1,3,4) Put_lookup [OF assms(2)] by (auto simp: breaches_ok_def)

lemma breach_exec_ok: "breaches_ok s \<Longrightarrow> breaches_ok (breach_exec p s)"
proof (cases p)
  case (BCreate hb q body)
  assume ok: "breaches_ok s"
  have a: "breaches_ok (fst (emitBreachAlert hb q x t))" if "breaches_ok t" for x t
    unfolding emitBreachAlert_def fst_conv by (rule breaches_ok_other [OF that prod.collapse [symmetric]]) simp
  have w: "breaches_ok (fst (snd (case Put ''breaches'' i (DBreach b) s of
      (Some e, s1) \<Rightarrow> (r, s1, []) | (None, s1) \<Rightarrow> (r', emitBreachAlert hb q b s1))))"
    if "bID b = i" "breach_at 1 b" for i b r r'
  proof -
    obtain e t where u: "Put ''breaches'' i (DBreach b) s = (e, t)" by fastforce
    have "breaches_ok t" by (rule breaches_ok_put [OF ok u that])
    with u a show ?thesis by (cases e) simp_all
  qed
  show ?thesis using BCreate ok by (simp add: breachCreate_def Let_def w breach_at_new [simplified] split: option.split)
next
  case (BTransition q body i)
  assume ok: "breaches_ok s"
  show ?thesis
  proof (cases "snd (breachTransition q body i s) = s")
    case False
    then obtain to b e t where x: "DocStore.Get dec_breach ''breaches'' i s = Inr b"
      "map_of breachWorkflow (bStatus b) = Some to" "Put ''breaches'' i (DBreach (advanced q to b)) s = (e, t)"
      "snd (breachTransition q body i s) = t"
      by (auto simp: breachTransition_def split: option.splits sum.splits if_splits prod.splits)
    from x(1) have "lookup ''breaches'' i s = Some (DBreach b)"
      by (auto simp: DocStore.Get_def lookup_def dec_breach_def split: option.splits privacy_doc.splits)
    with ok obtain n where "bID b = i" "breach_at n b" unfolding breaches_ok_def by blast
    moreover have "bID (advanced q to b) = bID b" by (simp add: advanced_def Let_def)
    ultimately show ?thesis
      using breaches_ok_put [OF ok x(3) _ breach_at_advanced [OF _ x(2)]] x(4) BTransition by simp
  qed (use BTransition ok in simp)
next
  case (BOther c i d)
  assume "breaches_ok s"
  then show ?thesis using BOther breaches_ok_other [OF _ prod.collapse [symmetric]] by simp
qed

lemma breach_run_ok: "breaches_ok s \<Longrightarrow> breaches_ok (fold breach_exec ps s)"
  by (induction ps arbitrary: s) (simp_all add: breach_exec_ok)

lemma breaches_ok_empty: "breaches_ok (Open True [] p)"
  by (simp add: breaches_ok_def Open_def lookup_def coll_of_def)

lemma consents_ok_empty: "consents_ok (Open True [] p)"
  by (simp add: consents_ok_def colls_ok_def Open_def lookup_def coll_of_def)

lemma breach_at_last:
  assumes "breach_at n b"
  shows "bStatus b = btTo (last (bHistory b))"
proof -
  from assms have n: "n = 1 \<or> n = 2 \<or> n = 3 \<or> n = 4"
    and h: "map (\<lambda>x. (btFrom x, btTo x)) (bHistory b) = take n breach_chain"
    and s: "bStatus b = snd (breach_chain ! (n - 1))" by (auto simp: breach_at_def)
  have "bHistory b \<noteq> []" using h n by (auto simp: breach_chain_def)
  then have "btTo (last (bHistory b)) = snd (last (map (\<lambda>x. (btFrom x, btTo x)) (bHistory b)))"
    by (simp add: last_map)
  then show ?thesis unfolding h s using n by (auto simp: breach_chain_def)
qed

text \<open>A positive answer names a consent that is stored as active.\<close>

lemma check_names_active:
  assumes "consents_ok s" "fst (consent_check q (Some req) s) = (200, PCheck True su pu (Some (i, b, x)))"
  shows "\<exists>c. lookup ''consents'' i s = Some (DConsent c) \<and> cStatus c = ''active''"
proof -
  let ?f = "List.find (covers (format_rfc3339 (qNow q 0)) (ckSubject req) (ckPurpose req)) (consents_of s)"
  have w: "ckSubject req \<noteq> ''''" "ckPurpose req \<noteq> ''''" "ckLawfulBasis req = '''' \<or> ckLawfulBasis req \<in> set lawfulBases"
    using assms(2) by (auto simp: consent_check_def split: if_splits)
  note a = consent_check_answer [OF assms(1) w, of q]
  obtain c where f: "?f = Some c" "cID c = i"
    using a assms(2) by (cases ?f) (auto split: if_splits)
  then have "c \<in> set (consents_of s)" "cStatus c = ''active''" by (auto simp: find_Some_iff covers_def)
  with consents_listed(3) [OF assms(1)] f(2) show ?thesis by blast
qed

lemma erase_loop_fault_free:
  "fault_free s \<Longrightarrow> \<exists>m t. erase_loop subject anon now cs n s = (Inr m, t) \<and> fault_free t"
  by (induction cs arbitrary: n s) (simp_all add: Put_fault_free)

text \<open>Without write faults an authorised erasure succeeds.\<close>

lemma erasure_succeeds:
  assumes "consents_ok s" "fault_free s" "dsrAuthorize (the_claims q) subject" "\<not> underLegalHold subject s"
  shows "\<exists>r t. dsrErasure sha q subject s = ((200, r), t)"
proof -
  obtain m t where "erase_loop subject (anonymisedSubject sha subject) (format_rfc3339 (qNow q 0)) (consents_of s) 0 s
      = (Inr m, t)" "fault_free t" using erase_loop_fault_free [OF assms(2)] by blast
  then show ?thesis
    using assms(3,4) by (simp add: dsrErasure_def consents_listed(1) [OF assms(1)] Let_def Put_fault_free)
qed

end
