(* ===== verification/TinConsent.thy ===== *)
theory TinConsent
  imports TinApi PrivacyInv
begin

text \<open>
  The TIN service in front of the consent service: the HTTP client of
  \<open>services/tin-graph/consent_gate.go\<close> applied to the check handler of \<open>services/consent/check.go\<close>,
  and the lifecycle handlers of \<open>merge.go\<close> as steps of the lifecycle. Here are the lemmas that
  compose the two services, and the small stores their properties are shown on.
\<close>

section \<open>The client of the consent service\<close>

text \<open>\<open>call\<close> sends a check request: \<open>None\<close> when no answer comes back, else status and body. A body
  without an \<open>allowed\<close> field decodes to \<open>False\<close>.\<close>

definition httpConsentChecker_Check :: "(checkReq \<Rightarrow> privacy_response option) \<Rightarrow> consent_check" where
  "httpConsentChecker_Check call subject purpose basis =
     (case call \<lparr>ckSubject = subject, ckPurpose = purpose, ckLawfulBasis = basis\<rparr> of
        None \<Rightarrow> Inl ''consent service unreachable''
      | Some (status, b) \<Rightarrow>
          if status \<noteq> 200 then Inl (''consent check status '' @ itoa status)
          else (case b of PCheck allowed _ _ _ \<Rightarrow> Inr allowed | _ \<Rightarrow> Inr False))"

text \<open>What the caller may see of the service at store \<open>s\<close>: its answer, or nothing.\<close>

definition answers :: "(checkReq \<Rightarrow> privacy_response option) \<Rightarrow> request \<Rightarrow> privacy_store \<Rightarrow> bool" where
  "answers call q s \<longleftrightarrow> (\<forall>req. call req = None \<or> call req = Some (fst (consent_check q (Some req) s)))"

lemma gate_passes:
  "gateVerification check h p basis = None \<longleftrightarrow> basis \<in> set gateLawfulBases \<and> check h p basis = Inr True"
  by (auto simp: gateVerification_def gateLawfulBases_def split: sum.splits if_splits)

lemma check_allows:
  assumes "consents_ok s" "answers call q s" "h \<noteq> ''''" "p \<noteq> ''''" "basis \<in> set gateLawfulBases"
    "httpConsentChecker_Check call h p basis = Inr True"
  shows "\<exists>c. List.find (covers (format_rfc3339 (qNow q 0)) h p) (consents_of s) = Some c \<and> cLawfulBasis c = basis"
proof -
  let ?req = "\<lparr>ckSubject = h, ckPurpose = p, ckLawfulBasis = basis\<rparr>"
  let ?f = "List.find (covers (format_rfc3339 (qNow q 0)) h p) (consents_of s)"
  have b: "basis \<in> set lawfulBases" "basis \<noteq> ''''" using assms(5) by (auto simp: gateLawfulBases_def lawfulBases_def)
  have "call ?req \<noteq> None" using assms(6) by (cases "call ?req") (simp_all add: httpConsentChecker_Check_def)
  moreover have "call ?req = None \<or> call ?req = Some (fst (consent_check q (Some ?req) s))"
    using assms(2) unfolding answers_def by (rule spec)
  ultimately have "call ?req = Some (fst (consent_check q (Some ?req) s))" by (elim disjE) (rule notE, assumption+)
  moreover have "fst (consent_check q (Some ?req) s) = (200, PCheck
      (case ?f of None \<Rightarrow> False | Some c \<Rightarrow> basis = '''' \<or> cLawfulBasis c = basis) h p
      (case ?f of None \<Rightarrow> None | Some c \<Rightarrow> if basis = '''' \<or> cLawfulBasis c = basis
         then Some (cID c, cLawfulBasis c, cExpiresAt c) else None))"
    using consent_check_answer [OF assms(1), of ?req q] assms(3,4) b by (cases ?f) simp_all
  ultimately show ?thesis
    using assms(6) b(2) by (cases ?f) (auto simp: httpConsentChecker_Check_def)
qed

lemma verified_TIN:
  assumes "verifyTIN hashTIN check (Some req) st = (200, VerifiedTIN v h e)"
  shows "h = hashTIN (vTIN req) \<and> ValidateTIN (vTIN req)
    \<and> gateVerification check h ''tin_verification'' (vLawfulBasis req) = None"
  using assms
  by (auto simp: verifyTIN_def gateVerification_def split: if_splits option.splits sum.splits)

text \<open>A verification rests on a stored consent that covers the TIN now, on the basis the caller gave.\<close>

lemma verification_covered:
  assumes "verifyTIN hashTIN (httpConsentChecker_Check call) (Some req) st = (200, VerifiedTIN v h e)"
    "consents_ok s" "answers call q s" "hashTIN (vTIN req) \<noteq> ''''"
  shows "\<exists>i c. lookup ''consents'' i s = Some (DConsent c)
    \<and> covers (format_rfc3339 (qNow q 0)) (hashTIN (vTIN req)) ''tin_verification'' c
    \<and> cLawfulBasis c = vLawfulBasis req"
proof -
  from verified_TIN [OF assms(1)] have "vLawfulBasis req \<in> set gateLawfulBases"
    "httpConsentChecker_Check call (hashTIN (vTIN req)) ''tin_verification'' (vLawfulBasis req) = Inr True"
    by (auto simp: gate_passes)
  from check_allows [OF assms(2,3,4) _ this] obtain c where
    c: "List.find (covers (format_rfc3339 (qNow q 0)) (hashTIN (vTIN req)) ''tin_verification'') (consents_of s) = Some c"
      "cLawfulBasis c = vLawfulBasis req" by auto
  then have "c \<in> set (consents_of s)"
    "covers (format_rfc3339 (qNow q 0)) (hashTIN (vTIN req)) ''tin_verification'' c"
    by (auto simp: find_Some_iff)
  with consents_listed(3) [OF assms(2)] c(2) show ?thesis by blast
qed

section \<open>The lifecycle handlers are steps of the lifecycle\<close>

datatype tin_request =
    QMerge "mergeReq option"
  | QUnmerge "string option"
  | QStatus string "statusReq option"

fun tin_serve :: "tin_host \<Rightarrow> claims option \<Rightarrow> tin_request \<Rightarrow> tin_store \<Rightarrow> tin_response \<times> tin_store" where
  "tin_serve h c (QMerge b) s = mergeTINs h c b s"
| "tin_serve h c (QUnmerge b) s = unmergeTINs h c b s"
| "tin_serve h c (QStatus tin b) s = setLifecycle h c tin b s"

lemma tin_serve_denied: "\<not> canAdministerTIN (tPerm h) c \<Longrightarrow> tin_serve h c r s = ((403, Problem ''forbidden''), s)"
  by (cases r) (simp_all add: mergeTINs_def unmergeTINs_def setLifecycle_def)

lemma tin_serve_step:
  assumes "10 \<le> length (tNow h)" "lookup ''merges'' (''merge-'' @ tULID h) s = None"
  shows "snd (tin_serve h c r s) = s \<or> (\<exists>p. tin_admissible p s \<and> snd (tin_serve h c r s) = tin_exec p s)"
proof (cases r)
  case (QMerge b)
  show ?thesis
  proof (cases b)
    case (Some q)
    have "tin_admissible (DoMerge (tHash h (qSurviving q)) (tHash h (qMerged q)) (qReason q) (qEvidence q)
      (actorOf c) (tNow h) (tULID h) (tStamp h)) s" using assms by simp
    moreover have "snd (mergeTINs h c b s) = s \<or> snd (mergeTINs h c b s) = tin_exec (DoMerge (tHash h (qSurviving q))
      (tHash h (qMerged q)) (qReason q) (qEvidence q) (actorOf c) (tNow h) (tULID h) (tStamp h)) s"
      using Some by (auto simp: mergeTINs_def split: prod.split sum.split)
    ultimately show ?thesis using QMerge by fastforce
  qed (use QMerge in \<open>simp add: mergeTINs_def\<close>)
next
  case (QUnmerge b)
  show ?thesis
  proof (cases b)
    case (Some tin)
    have "tin_admissible (DoUnmerge (tHash h tin) (actorOf c) (tNow h) (unmergeWindow (tWindow h)) (tStamp h)) s"
      using assms by simp
    moreover have "snd (unmergeTINs h c b s) = s \<or> snd (unmergeTINs h c b s) =
      tin_exec (DoUnmerge (tHash h tin) (actorOf c) (tNow h) (unmergeWindow (tWindow h)) (tStamp h)) s"
      using Some by (auto simp: unmergeTINs_def split: prod.split sum.split)
    ultimately show ?thesis using QUnmerge by fastforce
  qed (use QUnmerge in \<open>simp add: unmergeTINs_def\<close>)
next
  case (QStatus tin b)
  show ?thesis
  proof (cases b)
    case (Some q)
    have "tin_admissible (SetStatus (tHash h tin) to (qEffective q) (qWhy q) (actorOf c) (tNow h)) s" for to
      using assms by simp
    moreover have "snd (setLifecycle h c tin b s) = s \<or> (\<exists>to. snd (setLifecycle h c tin b s) =
      tin_exec (SetStatus (tHash h tin) to (qEffective q) (qWhy q) (actorOf c) (tNow h)) s)"
    proof (cases "ParseStatus (qStatus q)")
      case (Inr to)
      have "snd (setLifecycle h c tin b s) = s \<or> snd (setLifecycle h c tin b s) =
        tin_exec (SetStatus (tHash h tin) to (qEffective q) (qWhy q) (actorOf c) (tNow h)) s"
        using Some Inr by (auto simp: setLifecycle_def split: prod.split sum.split)
      then show ?thesis by blast
    qed (use Some in \<open>simp add: setLifecycle_def\<close>)
    ultimately show ?thesis using QStatus by fastforce
  qed (use QStatus in \<open>simp add: setLifecycle_def\<close>)
qed

lemma tin_serve_path:
  assumes "tin_path s0 s" "10 \<le> length (tNow h)" "lookup ''merges'' (''merge-'' @ tULID h) s = None"
  shows "tin_path s0 (snd (tin_serve h c r s))"
  using tin_serve_step [OF assms(2,3), of c r] assms(1) tin_path.step by metis

lemma canAdministerTIN_prod:
  assumes "permifyFromEnv ''prod'' live = Inr pc" "canAdministerTIN pc c"
  shows "\<exists>check cl. live = Some check \<and> c = Some cl \<and> Sub cl \<noteq> ''''
    \<and> check (''tenant:'' @ (if TenantID cl = '''' then ''core'' else TenantID cl)) ''operate'' (''user:'' @ Sub cl) = Inr True"
  using assms
  by (auto simp: permifyFromEnv_def canAdministerTIN_def Let_def split: option.splits if_splits sum.splits)

end
