(* ===== verification/Evidence.thy ===== *)
theory Evidence
  imports DocStore GoStd Access "HOL-Library.Product_Lexorder"
begin

text \<open>
  The audit-evidence service: the hash-chained audit log, the write-once evidence store on the
  local backend and the sealed audit trail (\<open>services/audit-evidence/internal/evidence/evidence.go\<close>,
  \<open>minio.go\<close>), with the handlers of \<open>main.go\<close>. SHA-256, HMAC-SHA256 and the JSON encoders of a
  string and of free-form details are the fields of \<open>audit_crypto\<close>; clock readings and identifiers
  are arguments. A line of the log file holds an event or does not parse.
\<close>

section \<open>Events and their hash\<close>

datatype detail = DText string | DJson string

type_synonym details = "(string, detail) kv option" \<comment> \<open>a nil map is \<open>None\<close>\<close>

record audit_event =
  aeSeq :: int
  aeID :: string
  aeTime :: string
  aeActor :: string
  aeSubject :: string
  aeAction :: string
  aeType :: string
  aeTenantID :: string
  RulePackVersion :: string
  aeDetails :: details
  PrevHash :: string
  aeHash :: string

record audit_crypto =
  mac_sum :: "string \<Rightarrow> string \<Rightarrow> u8 list"
  sha_sum :: "string \<Rightarrow> u8 list"
  json_str :: "string \<Rightarrow> string"
  json_details :: "details \<Rightarrow> string"

text \<open>\<open>json.Marshal\<close> of the payload map writes its keys in order.\<close>

definition canonical :: "audit_crypto \<Rightarrow> audit_event \<Rightarrow> string" where
  "canonical k e =
     CHR 0x7B # json_str k ''action'' @ '':'' @ json_str k (aeAction e)
     @ '','' @ json_str k ''actor'' @ '':'' @ json_str k (aeActor e)
     @ '','' @ json_str k ''details'' @ '':'' @ json_details k (aeDetails e)
     @ '','' @ json_str k ''id'' @ '':'' @ json_str k (aeID e)
     @ '','' @ json_str k ''rule_pack_version'' @ '':'' @ json_str k (RulePackVersion e)
     @ '','' @ json_str k ''seq'' @ '':'' @ itoa (aeSeq e)
     @ '','' @ json_str k ''subject'' @ '':'' @ json_str k (aeSubject e)
     @ '','' @ json_str k ''tenant_id'' @ '':'' @ json_str k (aeTenantID e)
     @ '','' @ json_str k ''time'' @ '':'' @ json_str k (aeTime e)
     @ '','' @ json_str k ''type'' @ '':'' @ json_str k (aeType e) @ [CHR 0x7D]"

definition chain_message :: "audit_crypto \<Rightarrow> audit_event \<Rightarrow> string" where
  "chain_message k e = PrevHash e @ canonical k e"

definition chain_sum :: "audit_crypto \<Rightarrow> string \<Rightarrow> string \<Rightarrow> u8 list" where
  "chain_sum k key m = (if key \<noteq> '''' then mac_sum k key m else sha_sum k m)"

definition computeHash :: "audit_crypto \<Rightarrow> string \<Rightarrow> audit_event \<Rightarrow> string" where
  "computeHash k key e = hex_encode (chain_sum k key (chain_message k e))"

section \<open>The log\<close>

record audit_log =
  alLog :: "audit_event append_log"
  alTail :: string
  alKey :: string
  alNext :: int

text \<open>
  What a line gives back when it is read: its own sequence number, and \<open>omitempty\<close> has dropped an
  empty details map when the line was written.
\<close>

definition read_event :: "audit_event log_line \<Rightarrow> audit_event" where
  "read_event l = (lBody l)\<lparr>aeSeq := lSeq l,
     aeDetails := (if aeDetails (lBody l) = Some [] then None else aeDetails (lBody l))\<rparr>"

definition OpenAuditLog :: "audit_event log_line option list \<Rightarrow> string \<Rightarrow> audit_log" where
  "OpenAuditLog file key =
     (let l = OpenAppendLog file;
          al = \<lparr>alLog = l, alTail = '''', alKey = key, alNext = 1\<rparr>
      in if ReadAll l = [] then al
         else (case last (ReadAll l) of
             None \<Rightarrow> al
           | Some r \<Rightarrow> al\<lparr>alTail := aeHash (read_event r),
               alNext := (if alNext al \<le> aeSeq (read_event r) then aeSeq (read_event r) + 1 else alNext al)\<rparr>))"

definition sealed_event :: "audit_crypto \<Rightarrow> instant \<Rightarrow> string \<Rightarrow> audit_event \<Rightarrow> audit_log \<Rightarrow> audit_event" where
  "sealed_event k now ulid e al =
     (let e1 = (if aeID e = '''' then e\<lparr>aeID := ulid\<rparr> else e);
          e2 = (if aeTime e1 = '''' then e1\<lparr>aeTime := format_rfc3339nano now\<rparr> else e1);
          e3 = e2\<lparr>aeSeq := alNext al, PrevHash := alTail al\<rparr>
      in e3\<lparr>aeHash := computeHash k (alKey al) e3\<rparr>)"

definition audit_Append ::
  "audit_crypto \<Rightarrow> append_fault \<Rightarrow> instant \<Rightarrow> string \<Rightarrow> audit_event \<Rightarrow> audit_log
     \<Rightarrow> (audit_event \<times> string option) \<times> audit_log" where
  "audit_Append k f now ulid e al =
     (let e1 = sealed_event k now ulid e al
      in case Log_Append f e1 (alLog al) of
           ((n, Some err), l1) \<Rightarrow> ((e1, Some err), al\<lparr>alLog := l1\<rparr>)
         | ((n, None), l1) \<Rightarrow> ((e1, None), al\<lparr>alLog := l1, alNext := n + 1, alTail := aeHash e1\<rparr>))"

text \<open>\<open>sort.Slice\<close> leaves the order of events with equal numbers open; here they stay in file order.\<close>

definition AllEvents :: "audit_log \<Rightarrow> audit_event list" where
  "AllEvents al = sort_key aeSeq (map read_event (List.map_filter id (ReadAll (alLog al))))"

fun verify_loop :: "audit_crypto \<Rightarrow> string \<Rightarrow> string \<Rightarrow> audit_event list \<Rightarrow> int" where
  "verify_loop k key prev [] = 0"
| "verify_loop k key prev (e # es) =
     (if PrevHash e \<noteq> prev then aeSeq e
      else if computeHash k key e \<noteq> aeHash e then aeSeq e
      else verify_loop k key (aeHash e) es)"

definition VerifyChain :: "audit_crypto \<Rightarrow> audit_log \<Rightarrow> int" where
  "VerifyChain k al = verify_loop k (alKey al) '''' (AllEvents al)"

definition audit_Query :: "string \<Rightarrow> string \<Rightarrow> string \<Rightarrow> string \<Rightarrow> audit_log \<Rightarrow> audit_event list" where
  "audit_Query subject typ from to al = filter (\<lambda>e.
     \<not> (subject \<noteq> '''' \<and> aeSubject e \<noteq> subject) \<and> \<not> (typ \<noteq> '''' \<and> aeType e \<noteq> typ) \<and>
     \<not> (from \<noteq> '''' \<and> aeTime e < from) \<and> \<not> (to \<noteq> '''' \<and> to < aeTime e)) (AllEvents al)"

section \<open>The write-once evidence store\<close>

record evidence_object =
  oID :: string
  SHA256 :: string
  WormURI :: string
  oContentType :: string
  oSize :: nat
  oMetadata :: string
  oCreatedAt :: string
  Immutable :: bool
  StoragePath :: string

text \<open>
  The files under the data directory, by the components of their path. The operating system
  resolves a path from left to right: empty and \<open>.\<close> components stay where they are, \<open>..\<close> goes
  back, and every step but the last has to name a directory.
\<close>

fun split_slash :: "string \<Rightarrow> string list" where
  "split_slash [] = [[]]"
| "split_slash (c # cs) = (if c = CHR ''/'' then [] # split_slash cs
     else (case split_slash cs of [] \<Rightarrow> [[c]] | p # ps \<Rightarrow> (c # p) # ps))"

fun resolve_path :: "string list list \<Rightarrow> string list \<Rightarrow> string list \<Rightarrow> string list option" where
  "resolve_path dirs cur [] = Some cur"
| "resolve_path dirs cur (c # cs) =
     (if cur \<notin> set dirs then None
      else if c = '''' \<or> c = ''.'' then resolve_path dirs cur cs
      else if c = ''..'' then resolve_path dirs (butlast cur) cs
      else resolve_path dirs (cur @ [c]) cs)"

record worm_store =
  wDirs :: "string list list"
  wDir :: "string list"
  wFiles :: "(string list, string) kv"
  wDocs :: "evidence_object docstore"

datatype blob_fault = BlobOK | BlobFault string

definition worm_path :: "string \<Rightarrow> worm_store \<Rightarrow> string list option" where
  "worm_path key w = resolve_path (wDirs w) (wDir w) (split_slash key)"

definition no_such_file :: string where "no_such_file = ''no such file or directory''"

definition trim_bin :: "string \<Rightarrow> string" where
  "trim_bin key = (if drop (length key - 4) key = ''.bin'' then take (length key - 4) key else key)"

definition localBackend_Put :: "blob_fault \<Rightarrow> string \<Rightarrow> string \<Rightarrow> worm_store \<Rightarrow> (string + string) \<times> worm_store" where
  "localBackend_Put f key content w =
     (case f of
        BlobFault e \<Rightarrow> (Inl e, w)
      | BlobOK \<Rightarrow> (case worm_path key w of
          None \<Rightarrow> (Inl no_such_file, w)
        | Some p \<Rightarrow>
            if p \<in> set (wDirs w) then (Inl ''is a directory'', w)
            else (Inr (''worm://evidence/'' @ trim_bin key), w\<lparr>wFiles := kv_put p content (wFiles w)\<rparr>)))"

definition localBackend_Get :: "string \<Rightarrow> worm_store \<Rightarrow> string + string" where
  "localBackend_Get key w = (case worm_path key w of
       None \<Rightarrow> Inl no_such_file
     | Some p \<Rightarrow> (case map_of (wFiles w) p of None \<Rightarrow> Inl no_such_file | Some c \<Rightarrow> Inr c))"

datatype worm_err = ErrImmutable | WormErr string

definition content_hash :: "audit_crypto \<Rightarrow> string \<Rightarrow> string" where
  "content_hash k c = hex_encode (sha_sum k c)"

definition evidence_id :: "audit_crypto \<Rightarrow> string \<Rightarrow> string \<Rightarrow> string \<Rightarrow> string" where
  "evidence_id k ulid content i =
     (if i = '''' then ''ev-'' @ hex_encode (take 8 (sha_sum k content)) @ ''-'' @ drop 14 ulid else i)"

definition storage_path :: "string \<Rightarrow> worm_store \<Rightarrow> string" where
  "storage_path i w = concat (map (\<lambda>c. c @ ''/'') (wDir w)) @ i @ ''.bin''"

text \<open>\<open>Put\<close>: the index entry is inserted, never overwritten; it does not hold the storage path.\<close>

definition worm_Put ::
  "audit_crypto \<Rightarrow> blob_fault \<Rightarrow> string \<Rightarrow> instant \<Rightarrow> string \<Rightarrow> string \<Rightarrow> string \<Rightarrow> string \<Rightarrow> worm_store
     \<Rightarrow> (worm_err + evidence_object) \<times> worm_store" where
  "worm_Put k f ulid now i0 content ctype meta w =
     (let i = evidence_id k ulid content i0
      in case DocStore.Get Inr ''evidence'' i (wDocs w) of
           Inr existing \<Rightarrow> (Inl ErrImmutable, w)
         | Inl e \<Rightarrow> (case localBackend_Put f (i @ ''.bin'') content w of
             (Inl e, w1) \<Rightarrow> (Inl (WormErr e), w1)
           | (Inr uri, w1) \<Rightarrow>
              (let obj = \<lparr>oID = i, SHA256 = content_hash k content, WormURI = uri, oContentType = ctype,
                          oSize = length content, oMetadata = meta, oCreatedAt = format_rfc3339 now,
                          Immutable = True, StoragePath = storage_path i w\<rparr>
               in case PutIfAbsent ''evidence'' i (obj\<lparr>StoragePath := ''''\<rparr>) (wDocs w1) of
                    ((ins, Some e), d1) \<Rightarrow> (Inl (WormErr e), w1\<lparr>wDocs := d1\<rparr>)
                  | ((ins, None), d1) \<Rightarrow>
                      (if ins then Inr obj else Inl ErrImmutable, w1\<lparr>wDocs := d1\<rparr>))))"

definition worm_Get :: "string \<Rightarrow> worm_store \<Rightarrow> string + evidence_object" where
  "worm_Get i w = (case DocStore.Get Inr ''evidence'' i (wDocs w) of
       Inl e \<Rightarrow> Inl e | Inr obj \<Rightarrow> Inr (obj\<lparr>StoragePath := storage_path i w\<rparr>))"

definition worm_Content :: "string \<Rightarrow> worm_store \<Rightarrow> string + string" where
  "worm_Content i w = localBackend_Get (i @ ''.bin'') w"

definition worm_Verify :: "audit_crypto \<Rightarrow> string \<Rightarrow> worm_store \<Rightarrow> string + bool \<times> string" where
  "worm_Verify k i w = (case worm_Get i w of
       Inl e \<Rightarrow> Inl e
     | Inr obj \<Rightarrow> (case worm_Content i w of
         Inl e \<Rightarrow> Inl e
       | Inr content \<Rightarrow> Inr (content_hash k content = SHA256 obj, content_hash k content)))"

section \<open>The sealed audit trail\<close>

record tat =
  tatID :: string
  tatSubject :: string
  GeneratedAt :: string
  GeneratedBy :: string
  tatFrom :: string
  tatTo :: string
  tatEvents :: "audit_event list"
  EvidenceRefs :: "string list"
  ChainValid :: bool
  RulePacksSeen :: "string list"
  Seal :: string

definition evidence_ref :: "audit_event \<Rightarrow> string list" where
  "evidence_ref e = (case aeDetails e of
       None \<Rightarrow> []
     | Some d \<Rightarrow> (case map_of d ''evidence_id'' of
         Some (DText ev) \<Rightarrow> if ev \<noteq> '''' then [ev] else []
       | _ \<Rightarrow> []))"

definition unsealed_tat ::
  "audit_crypto \<Rightarrow> audit_log \<Rightarrow> string \<Rightarrow> instant \<Rightarrow> string \<Rightarrow> string \<Rightarrow> string \<Rightarrow> string \<Rightarrow> tat" where
  "unsealed_tat k al ulid now subject from to actor =
     (let events = audit_Query subject '''' from to al
      in \<lparr>tatID = ''tat-'' @ ulid, tatSubject = subject, GeneratedAt = format_rfc3339 now,
          GeneratedBy = actor, tatFrom = from, tatTo = to, tatEvents = events,
          EvidenceRefs = sort (remdups (concat (map evidence_ref events))),
          ChainValid = (VerifyChain k al = 0),
          RulePacksSeen = sort (remdups (filter (\<lambda>p. p \<noteq> '''') (map RulePackVersion events))),
          Seal = ''''\<rparr>)"

text \<open>\<open>json_tat\<close> is \<open>json.Marshal\<close> of the record.\<close>

definition AssembleTAT ::
  "audit_crypto \<Rightarrow> (tat \<Rightarrow> string) \<Rightarrow> audit_log \<Rightarrow> string \<Rightarrow> instant \<Rightarrow> string \<Rightarrow> string \<Rightarrow> string
     \<Rightarrow> string \<Rightarrow> string \<Rightarrow> tat" where
  "AssembleTAT k json_tat al ulid now subject from to actor sealKey =
     (let t = unsealed_tat k al ulid now subject from to actor
      in t\<lparr>Seal := std_encode (map (\<lambda>b. char_of (unat b)) (mac_sum k sealKey (json_tat t)))\<rparr>)"

definition deriveChainKey :: "audit_crypto \<Rightarrow> string \<Rightarrow> string" where
  "deriveChainKey k sealKey = hex_encode (mac_sum k sealKey ''meridian/audit-evidence/tat-chain-hmac/v1'')"

text \<open>The keys \<open>main\<close> settles on; \<open>Inl\<close> stops the process.\<close>

definition evidence_keys :: "audit_crypto \<Rightarrow> string \<Rightarrow> string \<Rightarrow> string \<Rightarrow> string + string \<times> string" where
  "evidence_keys k profile sealEnv chainEnv =
     (if sealEnv = '''' \<and> profile = ''prod'' then Inl ''profile=prod FATAL: TAT_SEAL_KEY is required''
      else (let sealKey = (if sealEnv = '''' then ''dev-tat-seal-key-change-me'' else sealEnv)
            in Inr (sealKey, if chainEnv = '''' then deriveChainKey k sealKey else chainEnv)))"

section \<open>The handlers\<close>

datatype audit_body =
    AProblem string
  | AEvent audit_event
  | AEvents "audit_event list" nat
  | AChain bool int
  | AObject evidence_object
  | AVerified string bool string
  | ATat tat

type_synonym audit_response = "int \<times> audit_body"

record appendReq =
  arActor :: string
  arSubject :: string
  arAction :: string
  arType :: string
  arRulePack :: string
  arDetails :: details

definition audit_claims :: "claims option \<Rightarrow> claims" where
  "audit_claims c = (case c of Some cl \<Rightarrow> cl
     | None \<Rightarrow> \<lparr>Sub = '''', Roles = [], TenantID = '''', cExp = 0\<rparr>)"

definition requested_event :: "claims \<Rightarrow> appendReq \<Rightarrow> audit_event" where
  "requested_event c req = \<lparr>aeSeq = 0, aeID = '''', aeTime = '''', aeActor = Sub c, aeSubject = arSubject req,
     aeAction = arAction req, aeType = (if arType req = '''' then ''audit.generic'' else arType req),
     aeTenantID = TenantID c, RulePackVersion = arRulePack req, aeDetails = arDetails req,
     PrevHash = '''', aeHash = ''''\<rparr>"

definition appendEvent ::
  "audit_crypto \<Rightarrow> append_fault \<Rightarrow> instant \<Rightarrow> string \<Rightarrow> claims option \<Rightarrow> appendReq option \<Rightarrow> audit_log
     \<Rightarrow> audit_response \<times> audit_log" where
  "appendEvent k f now ulid c body al = (case body of
       None \<Rightarrow> ((400, AProblem ''bad_request''), al)
     | Some req \<Rightarrow>
         if arSubject req = '''' \<or> arAction req = '''' then ((400, AProblem ''bad_request''), al)
         else if arActor req \<noteq> '''' \<and> arActor req \<noteq> Sub (audit_claims c) then ((403, AProblem ''forbidden''), al)
         else (case audit_Append k f now ulid (requested_event (audit_claims c) req) al of
             ((e, Some err), al1) \<Rightarrow> ((500, AProblem ''internal_error''), al1)
           | ((e, None), al1) \<Rightarrow> ((201, AEvent e), al1)))"

definition queryEvents ::
  "claims option \<Rightarrow> string \<Rightarrow> string \<Rightarrow> string \<Rightarrow> string \<Rightarrow> audit_log \<Rightarrow> audit_response" where
  "queryEvents c subject typ from to al = (case c of
       None \<Rightarrow> (403, AProblem ''forbidden'')
     | Some cl \<Rightarrow>
         if TenantID cl = '''' then (403, AProblem ''forbidden'')
         else (let scoped = filter (\<lambda>e. aeTenantID e = TenantID cl) (audit_Query subject typ from to al)
               in (200, AEvents scoped (length scoped))))"

definition verifyChain :: "audit_crypto \<Rightarrow> audit_log \<Rightarrow> audit_response" where
  "verifyChain k al = (200, AChain (VerifyChain k al = 0) (VerifyChain k al))"

record evidenceReq =
  erID :: string
  erBase64 :: string
  erContent :: string
  erContentType :: string
  erMetadata :: string

definition putEvidence ::
  "audit_crypto \<Rightarrow> blob_fault \<Rightarrow> string \<Rightarrow> instant \<Rightarrow> evidenceReq option \<Rightarrow> worm_store
     \<Rightarrow> audit_response \<times> worm_store" where
  "putEvidence k f ulid now body w = (case body of
       None \<Rightarrow> ((400, AProblem ''bad_request''), w)
     | Some req \<Rightarrow>
        (case (if erBase64 req \<noteq> '''' then std_decode (erBase64 req)
               else if erContent req \<noteq> '''' then Some (erContent req) else None) of
           None \<Rightarrow> ((400, AProblem ''bad_request''), w)
         | Some content \<Rightarrow>
            (case worm_Put k f ulid now (erID req) content
                (if erContentType req = '''' then ''application/octet-stream'' else erContentType req)
                (erMetadata req) w of
               (Inl ErrImmutable, w1) \<Rightarrow> ((409, AProblem ''conflict''), w1)
             | (Inl (WormErr e), w1) \<Rightarrow> ((500, AProblem ''internal_error''), w1)
             | (Inr obj, w1) \<Rightarrow> ((201, AObject obj), w1))))"

definition getEvidence :: "string \<Rightarrow> worm_store \<Rightarrow> audit_response" where
  "getEvidence i w = (case worm_Get i w of
       Inl e \<Rightarrow> (404, AProblem ''not_found'') | Inr obj \<Rightarrow> (200, AObject obj))"

definition verifyEvidence :: "audit_crypto \<Rightarrow> string \<Rightarrow> worm_store \<Rightarrow> audit_response" where
  "verifyEvidence k i w = (case worm_Verify k i w of
       Inl e \<Rightarrow> (404, AProblem ''not_found'')
     | Inr (ok, got) \<Rightarrow> (200, AVerified i ok got))"

record tatReq =
  trSubject :: string
  trFrom :: string
  trTo :: string

definition assembleTAT ::
  "audit_crypto \<Rightarrow> (tat \<Rightarrow> string) \<Rightarrow> string \<Rightarrow> string \<Rightarrow> instant \<Rightarrow> claims option \<Rightarrow> tatReq option
     \<Rightarrow> audit_log \<Rightarrow> audit_response" where
  "assembleTAT k json_tat sealKey ulid now c body al = (case body of
       None \<Rightarrow> (400, AProblem ''bad_request'')
     | Some req \<Rightarrow>
         if trSubject req = '''' then (400, AProblem ''bad_request'')
         else (200, ATat (AssembleTAT k json_tat al ulid now (trSubject req) (trFrom req) (trTo req)
                (Sub (audit_claims c)) sealKey)))"

end
