(* ===== verification/EvidenceInv.thy ===== *)
theory EvidenceInv
  imports Evidence
begin

text \<open>
  What the audit chain and the write-once store of \<open>Evidence\<close> guarantee: the invariant of the
  chain and its recovery on opening, what two verifying logs with the same last hash have in
  common, how a lost write breaks the chain, and which stored objects stay as they are.
\<close>

section \<open>A well-formed chain\<close>

fun linked :: "audit_crypto \<Rightarrow> string \<Rightarrow> string \<Rightarrow> int \<Rightarrow> audit_event list \<Rightarrow> bool" where
  "linked k key prev n [] = True"
| "linked k key prev n (e # es) \<longleftrightarrow> aeSeq e = n \<and> PrevHash e = prev \<and> computeHash k key e = aeHash e
     \<and> linked k key (aeHash e) (n + 1) es"

definition last_hash :: "string \<Rightarrow> audit_event list \<Rightarrow> string" where
  "last_hash prev es = (if es = [] then prev else aeHash (last es))"

lemma linked_snoc:
  "linked k key prev n (es @ [e]) \<longleftrightarrow> linked k key prev n es \<and> aeSeq e = n + int (length es)
     \<and> PrevHash e = last_hash prev es \<and> computeHash k key e = aeHash e"
  by (induction es arbitrary: prev n) (auto simp: last_hash_def ac_simps)

lemma linked_verifies: "linked k key prev n es \<Longrightarrow> verify_loop k key prev es = 0"
  by (induction es arbitrary: prev n) auto

lemma linked_seqs: "linked k key prev n es \<Longrightarrow> map aeSeq es = map (\<lambda>i. n + int i) [0..<length es]"
proof (induction es arbitrary: prev n)
  case (Cons e es)
  then have "map aeSeq es = map (\<lambda>i. n + 1 + int i) [0..<length es]" by auto
  with Cons.prems show ?case
    by (auto simp: map_upt_Suc ac_simps simp del: upt_Suc)
qed simp

lemma verify_loop_append:
  "verify_loop k key prev es \<noteq> 0 \<Longrightarrow> verify_loop k key prev (es @ fs) = verify_loop k key prev es"
  by (induction es arbitrary: prev) auto

lemma verify_loop_snoc:
  "linked k key prev n es \<Longrightarrow> verify_loop k key prev (es @ [e]) =
     (if PrevHash e \<noteq> last_hash prev es \<or> computeHash k key e \<noteq> aeHash e then aeSeq e else 0)"
  by (induction es arbitrary: prev n) (auto simp: last_hash_def)

lemma computeHash_cong:
  "canonical k e = canonical k f \<Longrightarrow> PrevHash e = PrevHash f \<Longrightarrow> computeHash k key e = computeHash k key f"
  by (simp add: computeHash_def chain_message_def)

section \<open>Growing logs\<close>

text \<open>Every line was written by the log itself: the numbers grow and stay below the counter.\<close>

definition lines_of :: "audit_log \<Rightarrow> audit_event log_line list" where
  "lines_of al = List.map_filter id (llines (alLog al))"

definition log_ok :: "audit_log \<Rightarrow> bool" where
  "log_ok al \<longleftrightarrow> llines (alLog al) = map Some (lines_of al)
     \<and> sorted_wrt (<) (map lSeq (lines_of al)) \<and> (\<forall>l \<in> set (lines_of al). 0 < lSeq l \<and> lSeq l \<le> lseq (alLog al))
     \<and> 0 \<le> lseq (alLog al)"

lemma read_event_seq [simp]: "aeSeq (read_event l) = lSeq l"
  by (simp add: read_event_def)

lemma strict_sort: "sorted_wrt (<) (map f xs) \<Longrightarrow> sort_key f xs = xs" for f :: "'a \<Rightarrow> int"
  by (rule sort_key_id_if_sorted) (simp add: strict_sorted_imp_sorted)

lemma AllEvents_log_ok: "log_ok al \<Longrightarrow> AllEvents al = map read_event (lines_of al)"
  unfolding AllEvents_def ReadAll_def lines_of_def [symmetric]
  by (rule strict_sort) (simp add: log_ok_def o_def)

lemma map_filter_id_Some [simp]: "List.map_filter id (map Some xs) = xs"
  by (induction xs) (simp_all add: List.map_filter_def)

lemma map_filter_id_snoc [simp]: "List.map_filter id (xs @ [Some x]) = List.map_filter id xs @ [x]"
  by (simp add: List.map_filter_def)

text \<open>What one append does to the lines: nothing, or one more line.\<close>

lemma audit_Append_cases:
  assumes "audit_Append k f now ulid e al = (r, al1)"
  shows "alKey al1 = alKey al \<and> lseq (alLog al1) = lseq (alLog al) + 1 \<and> fst r = sealed_event k now ulid e al
    \<and> (llines (alLog al1) = llines (alLog al) \<or> llines (alLog al1) = llines (alLog al) @
          [Some \<lparr>lSeq = lseq (alLog al) + 1, lBody = sealed_event k now ulid e al\<rparr>])
    \<and> (snd r = None \<longleftrightarrow> f = AppendOK)
    \<and> (f = AppendOK \<longrightarrow> alNext al1 = lseq (alLog al) + 2 \<and> alTail al1 = aeHash (fst r)
        \<and> llines (alLog al1) = llines (alLog al) @
          [Some \<lparr>lSeq = lseq (alLog al) + 1, lBody = sealed_event k now ulid e al\<rparr>])
    \<and> (f \<noteq> AppendOK \<longrightarrow> alNext al1 = alNext al \<and> alTail al1 = alTail al)"
  using assms by (cases f) (auto simp: audit_Append_def Log_Append_def Let_def)

lemma log_ok_grow:
  assumes "log_ok al" "lseq (alLog al1) = lseq (alLog al) + 1"
    "llines (alLog al1) = llines (alLog al)
      \<or> llines (alLog al1) = llines (alLog al) @ [Some \<lparr>lSeq = lseq (alLog al) + 1, lBody = e\<rparr>]"
  shows "log_ok al1 \<and> (lines_of al1 = lines_of al
    \<or> lines_of al1 = lines_of al @ [\<lparr>lSeq = lseq (alLog al) + 1, lBody = e\<rparr>])"
  using assms(3)
proof
  assume "llines (alLog al1) = llines (alLog al)"
  then have "lines_of al1 = lines_of al" by (simp add: lines_of_def)
  with assms(1,2) \<open>llines (alLog al1) = _\<close> show ?thesis by (auto simp: log_ok_def)
next
  let ?l = "\<lparr>lSeq = lseq (alLog al) + 1, lBody = e\<rparr>"
  assume a: "llines (alLog al1) = llines (alLog al) @ [Some ?l]"
  then have "lines_of al1 = lines_of al @ [?l]" by (simp add: lines_of_def)
  with assms(1,2) a show ?thesis by (fastforce simp: log_ok_def sorted_wrt_append)
qed

lemma log_ok_Append:
  assumes "log_ok al" "audit_Append k f now ulid e al = (r, al1)"
  shows "log_ok al1 \<and> (\<exists>ls. lines_of al1 = lines_of al @ ls)"
  using log_ok_grow [OF assms(1), of al1] audit_Append_cases [OF assms(2)] by fastforce

section \<open>Opening\<close>

lemma foldl_max_seq:
  assumes "sorted_wrt (<) (map lSeq ls)" "\<forall>l \<in> set ls. m < lSeq l"
  shows "foldl (\<lambda>m l. case l of None \<Rightarrow> m | Some r \<Rightarrow> if lSeq r > m then lSeq r else m) m (map Some ls)
    = (if ls = [] then m else lSeq (last ls))"
  using assms by (induction ls arbitrary: m) auto

lemma last_is_max: "x \<in> set ls \<Longrightarrow> sorted_wrt (<) (map lSeq ls) \<Longrightarrow> lSeq x \<le> lSeq (last ls)"
  by (induction ls rule: rev_induct) (auto simp: sorted_wrt_append less_imp_le)

lemma OpenAuditLog_lines:
  assumes "log_ok al"
  shows "log_ok (OpenAuditLog (llines (alLog al)) key)
    \<and> llines (alLog (OpenAuditLog (llines (alLog al)) key)) = llines (alLog al)
    \<and> alKey (OpenAuditLog (llines (alLog al)) key) = key
    \<and> lseq (alLog (OpenAuditLog (llines (alLog al)) key)) = (if lines_of al = [] then 0 else lSeq (last (lines_of al)))"
proof -
  let ?o = "OpenAuditLog (llines (alLog al)) key"
  have ls: "llines (alLog al) = map Some (lines_of al)" "sorted_wrt (<) (map lSeq (lines_of al))"
    "\<forall>l \<in> set (lines_of al). 0 < lSeq l" using assms by (auto simp: log_ok_def)
  have o: "alLog ?o = OpenAppendLog (llines (alLog al))" "alKey ?o = key"
    by (simp_all add: OpenAuditLog_def Let_def split: option.split)
  have q: "lseq (alLog ?o) = (if lines_of al = [] then 0 else lSeq (last (lines_of al)))"
    using foldl_max_seq [OF ls(2,3), folded ls(1)] by (simp add: o OpenAppendLog_def)
  have l: "llines (alLog ?o) = llines (alLog al)" by (simp add: o OpenAppendLog_def)
  then have lo: "lines_of ?o = lines_of al" by (simp add: lines_of_def)
  have "lSeq x \<le> lSeq (last (lines_of al))" if "x \<in> set (lines_of al)" for x
    using that ls(2) last_is_max by blast
  moreover have "0 \<le> lseq (alLog ?o)"
    unfolding q using ls(3) last_in_set [of "lines_of al"] by (auto intro: less_imp_le)
  ultimately have "log_ok ?o" using ls lo l q by (auto simp: log_ok_def)
  with l o q show ?thesis by simp
qed

text \<open>The chain invariant: the lines are linked and the log stands right behind the last one.\<close>

definition audit_ok :: "audit_crypto \<Rightarrow> audit_log \<Rightarrow> bool" where
  "audit_ok k al \<longleftrightarrow> log_ok al \<and> linked k (alKey al) '''' 1 (AllEvents al)
     \<and> lseq (alLog al) = int (length (lines_of al)) \<and> alNext al = int (length (lines_of al)) + 1
     \<and> alTail al = last_hash '''' (AllEvents al)"

lemma audit_ok_empty: "audit_ok k (OpenAuditLog [] key)"
  by (simp add: audit_ok_def OpenAuditLog_def OpenAppendLog_def log_ok_def lines_of_def AllEvents_def
      ReadAll_def last_hash_def List.map_filter_def)

lemma audit_ok_verifies: "audit_ok k al \<Longrightarrow> VerifyChain k al = 0"
  unfolding audit_ok_def VerifyChain_def by (blast intro: linked_verifies)

lemma audit_ok_reopen:
  assumes "audit_ok k al"
  shows "OpenAuditLog (llines (alLog al)) (alKey al) = al"
proof -
  let ?o = "OpenAuditLog (llines (alLog al)) (alKey al)"
  have ok: "log_ok al" and ls: "llines (alLog al) = map Some (lines_of al)"
    using assms by (auto simp: audit_ok_def log_ok_def)
  have all: "AllEvents al = map read_event (lines_of al)" by (rule AllEvents_log_ok [OF ok])
  have seq: "lSeq (last (lines_of al)) = int (length (lines_of al))" if "lines_of al \<noteq> []"
  proof -
    have "map lSeq (lines_of al) = map (\<lambda>i. 1 + int i) [0..<length (lines_of al)]"
      using linked_seqs [of k "alKey al" "''''" 1 "AllEvents al"] assms by (simp add: audit_ok_def all o_def)
    then have "last (map lSeq (lines_of al)) = last (map (\<lambda>i. 1 + int i) [0..<length (lines_of al)])" by simp
    with that show ?thesis by (cases "lines_of al") (auto simp: last_map split: if_splits)
  qed
  have "alLog ?o = alLog al"
    using OpenAuditLog_lines [OF ok, of "alKey al"] assms seq by (auto simp: audit_ok_def)
  moreover have "alTail ?o = alTail al \<and> alNext ?o = alNext al \<and> alKey ?o = alKey al"
    using assms seq
    by (cases "lines_of al = []")
      (auto simp: OpenAuditLog_def ReadAll_def OpenAppendLog_def ls Let_def last_map audit_ok_def all last_hash_def
        Suc_leI)
  ultimately show ?thesis by simp
qed

section \<open>Runs\<close>

datatype audit_op =
    AAppend append_fault instant string audit_event
  | AReopen

definition audit_exec :: "audit_crypto \<Rightarrow> audit_op \<Rightarrow> audit_log \<Rightarrow> audit_log" where
  "audit_exec k p al = (case p of
       AAppend f now ulid e \<Rightarrow> snd (audit_Append k f now ulid e al)
     | AReopen \<Rightarrow> OpenAuditLog (llines (alLog al)) (alKey al))"

text \<open>An operation that meets no fault and whose event does not carry an empty details map.\<close>

definition smooth :: "audit_op \<Rightarrow> bool" where
  "smooth p \<longleftrightarrow> (case p of AAppend f now ulid e \<Rightarrow> f = AppendOK \<and> aeDetails e \<noteq> Some [] | AReopen \<Rightarrow> True)"

lemma sealed_fields [simp]:
  "aeDetails (sealed_event k now ulid e al) = aeDetails e" "aeSeq (sealed_event k now ulid e al) = alNext al"
  "PrevHash (sealed_event k now ulid e al) = alTail al"
  "aeHash (sealed_event k now ulid e al) = computeHash k (alKey al) (sealed_event k now ulid e al)"
  "aeSubject (sealed_event k now ulid e al) = aeSubject e" "aeActor (sealed_event k now ulid e al) = aeActor e"
  "aeAction (sealed_event k now ulid e al) = aeAction e" "aeTenantID (sealed_event k now ulid e al) = aeTenantID e"
  "aeType (sealed_event k now ulid e al) = aeType e"
  by (simp_all add: sealed_event_def Let_def computeHash_def chain_message_def canonical_def)

lemma read_back: "aeDetails e \<noteq> Some [] \<Longrightarrow> read_event \<lparr>lSeq = aeSeq e, lBody = e\<rparr> = e"
  by (simp add: read_event_def)

lemma audit_ok_Append:
  assumes "audit_ok k al" "aeDetails e \<noteq> Some []" "audit_Append k AppendOK now ulid e al = (r, al1)"
  shows "audit_ok k al1 \<and> AllEvents al1 = AllEvents al @ [sealed_event k now ulid e al]"
proof -
  let ?e = "sealed_event k now ulid e al" and ?n = "int (length (lines_of al))"
  have ok: "log_ok al" and n: "lseq (alLog al) = ?n" "alNext al = ?n + 1" using assms(1) by (auto simp: audit_ok_def)
  have c: "alKey al1 = alKey al" "lseq (alLog al1) = ?n + 1" "alNext al1 = ?n + 2" "alTail al1 = aeHash ?e"
    "llines (alLog al1) = llines (alLog al) @ [Some \<lparr>lSeq = ?n + 1, lBody = ?e\<rparr>]"
    using audit_Append_cases [OF assms(3)] n by auto
  have ok1: "log_ok al1" using log_ok_Append [OF ok assms(3)] by blast
  have ls: "lines_of al1 = lines_of al @ [\<lparr>lSeq = ?n + 1, lBody = ?e\<rparr>]" using c(5) by (simp add: lines_of_def)
  have rb: "read_event \<lparr>lSeq = ?n + 1, lBody = ?e\<rparr> = ?e" using read_back [of ?e] assms(2) n by simp
  have all: "AllEvents al1 = AllEvents al @ [?e]"
    using AllEvents_log_ok [OF ok] AllEvents_log_ok [OF ok1] ls rb by simp
  have len: "length (AllEvents al) = length (lines_of al)" by (simp add: AllEvents_log_ok [OF ok])
  have "linked k (alKey al1) '''' 1 (AllEvents al1)"
    unfolding all linked_snoc c(1) using assms(1) len n by (simp add: audit_ok_def)
  with ok1 c ls all show ?thesis by (simp add: audit_ok_def last_hash_def)
qed

lemma audit_ok_exec: "audit_ok k al \<Longrightarrow> smooth p \<Longrightarrow> audit_ok k (audit_exec k p al)
    \<and> alKey (audit_exec k p al) = alKey al"
proof (cases p)
  case (AAppend f now ulid e)
  assume a: "audit_ok k al" "smooth p"
  obtain r al1 where u: "audit_Append k f now ulid e al = (r, al1)" by fastforce
  from AAppend a(2) have "f = AppendOK" "aeDetails e \<noteq> Some []" by (auto simp: smooth_def)
  with audit_ok_Append [OF a(1)] u audit_Append_cases [OF u] AAppend show ?thesis by (auto simp: audit_exec_def)
qed (simp add: audit_exec_def audit_ok_reopen)

lemma audit_ok_run:
  "audit_ok k al \<Longrightarrow> list_all smooth ps \<Longrightarrow> audit_ok k (fold (audit_exec k) ps al)
    \<and> alKey (fold (audit_exec k) ps al) = alKey al"
proof (induction ps arbitrary: al)
  case (Cons p ps)
  then show ?case using audit_ok_exec [of k al p] by simp
qed simp

text \<open>Whatever happens, the lines already there stay at the front.\<close>

lemma log_ok_exec: "log_ok al \<Longrightarrow> log_ok (audit_exec k p al) \<and> alKey (audit_exec k p al) = alKey al
    \<and> (\<exists>ls. lines_of (audit_exec k p al) = lines_of al @ ls)"
proof (cases p)
  case (AAppend f now ulid e)
  assume ok: "log_ok al"
  obtain r al1 where u: "audit_Append k f now ulid e al = (r, al1)" by fastforce
  show ?thesis using log_ok_Append [OF ok u] audit_Append_cases [OF u] AAppend u by (simp add: audit_exec_def)
next
  case AReopen
  assume "log_ok al"
  from OpenAuditLog_lines [OF this, of "alKey al"] AReopen show ?thesis by (simp add: audit_exec_def lines_of_def)
qed

lemma log_ok_run: "log_ok al \<Longrightarrow> log_ok (fold (audit_exec k) ps al)
    \<and> alKey (fold (audit_exec k) ps al) = alKey al \<and> (\<exists>ls. lines_of (fold (audit_exec k) ps al) = lines_of al @ ls)"
proof (induction ps arbitrary: al)
  case (Cons p ps)
  from log_ok_exec [OF Cons.prems, of k p] Cons.IH [of "audit_exec k p al"] show ?case by auto
qed simp

lemma broken_for_ever:
  assumes "log_ok al" "VerifyChain k al \<noteq> 0"
  shows "VerifyChain k (fold (audit_exec k) ps al) = VerifyChain k al"
proof -
  from log_ok_run [OF assms(1), of k ps] obtain ls where
    "log_ok (fold (audit_exec k) ps al)" "alKey (fold (audit_exec k) ps al) = alKey al"
    "lines_of (fold (audit_exec k) ps al) = lines_of al @ ls" by blast
  with assms show ?thesis by (simp add: VerifyChain_def AllEvents_log_ok verify_loop_append)
qed

section \<open>A lost write\<close>

text \<open>The log counts the lost record, the chain does not: the next event is stored under another
  number than the one its hash covers.\<close>

lemma lost_write_breaks:
  assumes "audit_ok k al" "f = OpenFault err \<or> f = AppendWriteFault err"
    "audit_Append k f now ulid e al = (r, al1)" "audit_Append k AppendOK now2 ulid2 e2 al1 = ((b, None), al2)"
    "computeHash k (alKey al) (b\<lparr>aeSeq := aeSeq b + 1, aeDetails := (if aeDetails b = Some [] then None else aeDetails b)\<rparr>)
      \<noteq> computeHash k (alKey al) b"
  shows "VerifyChain k al2 = alNext al + 1 \<and> log_ok al2 \<and> alKey al2 = alKey al"
proof -
  let ?n = "int (length (lines_of al))"
  have ok: "log_ok al" and n: "lseq (alLog al) = ?n" "alNext al = ?n + 1" "alTail al = last_hash '''' (AllEvents al)"
    and lk: "linked k (alKey al) '''' 1 (AllEvents al)" using assms(1) by (auto simp: audit_ok_def)
  have c1: "alKey al1 = alKey al" "lseq (alLog al1) = ?n + 1" "alNext al1 = ?n + 1" "alTail al1 = alTail al"
    "llines (alLog al1) = llines (alLog al)"
    using audit_Append_cases [OF assms(3)] assms(2,3) n by (auto simp: audit_Append_def Log_Append_def Let_def)
  have c2: "alKey al2 = alKey al" "b = sealed_event k now2 ulid2 e2 al1"
    "llines (alLog al2) = llines (alLog al) @ [Some \<lparr>lSeq = ?n + 2, lBody = b\<rparr>]"
    using audit_Append_cases [OF assms(4)] c1 by auto
  have ok1: "log_ok al1" using log_ok_Append [OF ok assms(3)] by blast
  have ok2: "log_ok al2" using log_ok_Append [OF ok1 assms(4)] by blast
  let ?r = "read_event \<lparr>lSeq = ?n + 2, lBody = b\<rparr>"
  have b: "PrevHash b = alTail al" "aeSeq b = ?n + 1" "aeHash b = computeHash k (alKey al) b"
    unfolding c2(2) using c1 by simp_all
  have r: "?r = b\<lparr>aeSeq := aeSeq b + 1, aeDetails := (if aeDetails b = Some [] then None else aeDetails b)\<rparr>"
    using b(2) by (simp add: read_event_def)
  have "AllEvents al2 = AllEvents al @ [?r]"
    using AllEvents_log_ok [OF ok] AllEvents_log_ok [OF ok2] c2(3) by (simp add: lines_of_def)
  moreover have "PrevHash ?r = last_hash '''' (AllEvents al)" "aeHash ?r = computeHash k (alKey al) b"
    using b n by (simp_all add: read_event_def)
  moreover have "computeHash k (alKey al) ?r \<noteq> computeHash k (alKey al) b" using assms(5) r by simp
  ultimately have "VerifyChain k al2 = aeSeq ?r"
    using verify_loop_snoc [OF lk, of ?r] c2(1) by (simp add: VerifyChain_def)
  with n ok2 c2(1) show ?thesis by simp
qed

section \<open>What the last hash pins down\<close>

text \<open>The chain without its numbers.\<close>

fun chained :: "audit_crypto \<Rightarrow> string \<Rightarrow> string \<Rightarrow> audit_event list \<Rightarrow> bool" where
  "chained k key prev [] = True"
| "chained k key prev (e # es) \<longleftrightarrow> PrevHash e = prev \<and> computeHash k key e = aeHash e
     \<and> chained k key (aeHash e) es"

lemma chained_snoc:
  "chained k key prev (es @ [e]) \<longleftrightarrow> chained k key prev es \<and> PrevHash e = last_hash prev es
     \<and> computeHash k key e = aeHash e"
  by (induction es arbitrary: prev) (auto simp: last_hash_def)

lemma verifies_chained:
  "verify_loop k key prev es = 0 \<Longrightarrow> \<forall>e \<in> set es. aeSeq e \<noteq> 0 \<Longrightarrow> chained k key prev es"
  by (induction es arbitrary: prev) (auto split: if_splits)

lemma hex_digit_not_brace: "n < 16 \<Longrightarrow> hex_digit n \<noteq> CHR 0x7B"
  using hex_value_digit [of n] by (auto simp: hex_value_def byte_of_def Let_def)

lemma hex_encode_no_brace: "CHR 0x7B \<notin> set (hex_encode bs)"
proof -
  have "CHR 0x7B \<notin> set (hex_byte b)" for b
  proof -
    have "unat b < 2 ^ LENGTH(8)" by (rule unsigned_less)
    then have "unat b div 16 < 16" "unat b mod 16 < 16" by simp_all
    then show ?thesis using hex_digit_not_brace [of "unat b div 16"] hex_digit_not_brace [of "unat b mod 16"]
      by (auto simp: hex_byte_def)
  qed
  then show ?thesis by (simp add: hex_encode_def)
qed

lemma canonical_head: "\<exists>t. canonical k e = CHR 0x7B # t"
  by (simp add: canonical_def)

lemma message_split:
  assumes "chain_message k e = chain_message k f" "CHR 0x7B \<notin> set (PrevHash e)" "CHR 0x7B \<notin> set (PrevHash f)"
  shows "PrevHash e = PrevHash f \<and> canonical k e = canonical k f"
proof -
  have "takeWhile (\<lambda>c. c \<noteq> CHR 0x7B) (chain_message k x) = PrevHash x" if "CHR 0x7B \<notin> set (PrevHash x)" for x
  proof -
    obtain t where "canonical k x = CHR 0x7B # t" using canonical_head by blast
    moreover have "\<forall>c \<in> set (PrevHash x). c \<noteq> CHR 0x7B" using that by auto
    ultimately show ?thesis by (simp add: chain_message_def)
  qed
  with assms show ?thesis by (metis chain_message_def same_append_eq)
qed

lemma chained_prev: "chained k key '''' es \<Longrightarrow> CHR 0x7B \<notin> set (last_hash '''' es)"
  by (induction es rule: rev_induct) (auto simp: chained_snoc last_hash_def computeHash_def hex_encode_no_brace
      dest!: sym [of "hex_encode _"])

definition sealed_content :: "audit_crypto \<Rightarrow> audit_event \<Rightarrow> string \<times> string \<times> string" where
  "sealed_content k e = (PrevHash e, canonical k e, aeHash e)"

lemma chain_pinned:
  assumes "chained k key '''' es" "chained k key '''' fs" "last_hash '''' es = last_hash '''' fs"
    "\<And>m. chain_sum k key m \<noteq> []"
    "inj_on (chain_sum k key) (chain_message k ` (set es \<union> set fs))"
  shows "map (sealed_content k) es = map (sealed_content k) fs"
  using assms
proof (induction es arbitrary: fs rule: rev_induct)
  case Nil
  have ne: "hex_encode (chain_sum k key m) \<noteq> ''''" for m
    using length_hex_encode [of "chain_sum k key m"] Nil.prems(4) [of m] by fastforce
  show ?case
  proof (cases fs rule: rev_cases)
    case (snoc gs f)
    with Nil.prems(2,3) have "hex_encode (chain_sum k key (chain_message k f)) = ''''"
      by (auto simp: chained_snoc last_hash_def computeHash_def)
    with ne show ?thesis by blast
  qed simp
next
  case (snoc e es)
  have ne: "hex_encode (chain_sum k key m) \<noteq> ''''" for m
    using length_hex_encode [of "chain_sum k key m"] snoc.prems(4) [of m] by fastforce
  have e: "chained k key '''' es" "PrevHash e = last_hash '''' es" "computeHash k key e = aeHash e"
    using snoc.prems(1) by (auto simp: chained_snoc)
  have "fs \<noteq> []" using snoc.prems(3) e(3) ne by (auto simp: last_hash_def computeHash_def)
  then obtain gs f where fs: "fs = gs @ [f]" by (cases fs rule: rev_cases) auto
  have f: "chained k key '''' gs" "PrevHash f = last_hash '''' gs" "computeHash k key f = aeHash f"
    using snoc.prems(2) fs by (auto simp: chained_snoc)
  have h: "aeHash e = aeHash f" using snoc.prems(3) fs by (simp add: last_hash_def)
  then have "chain_sum k key (chain_message k e) = chain_sum k key (chain_message k f)"
    using e(3) f(3) by (metis computeHash_def hex_encode_inj)
  then have "chain_message k e = chain_message k f" by (rule inj_onD [OF snoc.prems(5)]) (simp_all add: fs)
  from message_split [OF this] have m: "PrevHash e = PrevHash f" "canonical k e = canonical k f"
    using chained_prev [OF e(1)] chained_prev [OF f(1)] e(2) f(2) by auto
  have "inj_on (chain_sum k key) (chain_message k ` (set es \<union> set gs))"
    using snoc.prems(5) by (rule inj_on_subset) (auto simp: fs)
  from snoc.IH [OF e(1) f(1) _ snoc.prems(4) this] have "map (sealed_content k) es = map (sealed_content k) gs"
    using m(1) e(2) f(2) by simp
  with m h fs show ?case by (simp add: sealed_content_def [of k e] sealed_content_def [of k f])
qed

section \<open>An event numbered zero\<close>

lemma zero_first:
  assumes "x \<in> set xs" "aeSeq x = 0" "\<And>y. y \<in> set xs \<Longrightarrow> y \<noteq> x \<Longrightarrow> 0 < aeSeq y"
  shows "\<exists>ys. sort_key aeSeq xs = x # ys"
proof (cases "sort_key aeSeq xs")
  case Nil
  then have "xs = []" by (metis set_empty set_sort)
  with assms(1) show ?thesis by simp
next
  case (Cons y ys)
  have "sorted (map aeSeq (y # ys))" using sorted_sort_key [of aeSeq xs] Cons by simp
  moreover have "x \<in> set (y # ys)" "y \<in> set xs" using assms(1) Cons by (metis set_sort, metis list.set_intros(1) set_sort)
  ultimately have "aeSeq y \<le> aeSeq x" by auto
  with assms(2,3) \<open>y \<in> set xs\<close> have "y = x" by force
  with Cons show ?thesis by simp
qed

lemma zero_hides:
  assumes "llines (alLog al) = xs @ Some l # ys" "lSeq l = 0" "PrevHash (lBody l) \<noteq> ''''"
    "\<And>r. Some r \<in> set (xs @ ys) \<Longrightarrow> 0 < lSeq r"
  shows "VerifyChain k al = 0"
proof -
  let ?zs = "map read_event (List.map_filter id (xs @ Some l # ys))"
  have mf: "List.map_filter id (xs @ Some l # ys) = List.map_filter id xs @ l # List.map_filter id ys"
    by (simp add: List.map_filter_def)
  have pos: "0 < lSeq r" if "r \<in> set (List.map_filter id xs) \<or> r \<in> set (List.map_filter id ys)" for r
    using that assms(4) by (auto simp: List.map_filter_def)
  have "\<exists>zs. sort_key aeSeq ?zs = read_event l # zs"
    by (rule zero_first) (use assms(2) pos in \<open>auto simp: mf\<close>)
  then obtain zs where "AllEvents al = read_event l # zs" using assms(1) by (auto simp: AllEvents_def ReadAll_def)
  moreover have "PrevHash (read_event l) \<noteq> ''''" using assms(3) by (simp add: read_event_def)
  ultimately show ?thesis using assms(2) by (simp add: VerifyChain_def)
qed

section \<open>The write-once store\<close>

definition plain_id :: "string \<Rightarrow> bool" where
  "plain_id i \<longleftrightarrow> CHR ''/'' \<notin> set i"

datatype worm_op =
    WPut blob_fault string instant string string string string
  | WReopen "nat \<Rightarrow> fault"

definition worm_exec :: "audit_crypto \<Rightarrow> worm_op \<Rightarrow> worm_store \<Rightarrow> worm_store" where
  "worm_exec k p w = (case p of
       WPut f ulid now i content ctype meta \<Rightarrow> snd (worm_Put k f ulid now i content ctype meta w)
     | WReopen pl \<Rightarrow> w\<lparr>wDocs := Open True (disk (wDocs w)) pl\<rparr>)"

text \<open>The operation names its object by an identifier without a slash.\<close>

definition plain_op :: "audit_crypto \<Rightarrow> worm_op \<Rightarrow> bool" where
  "plain_op k p \<longleftrightarrow> (case p of
       WPut f ulid now i content ctype meta \<Rightarrow> plain_id (evidence_id k ulid content i)
     | WReopen pl \<Rightarrow> True)"

lemma split_slash_plain: "CHR ''/'' \<notin> set s \<Longrightarrow> split_slash s = [s]"
  by (induction s) auto

lemma worm_path_plain:
  assumes "plain_id i" "wDir w \<in> set (wDirs w)"
  shows "worm_path (i @ ''.bin'') w = Some (wDir w @ [i @ ''.bin''])"
proof -
  have "split_slash (i @ ''.bin'') = [i @ ''.bin'']"
    by (rule split_slash_plain) (use assms(1) in \<open>simp add: plain_id_def\<close>)
  moreover have "i @ ''.bin'' \<noteq> ''..''" "i @ ''.bin'' \<noteq> ''.''" "i @ ''.bin'' \<noteq> ''''"
    by (auto dest: arg_cong [of _ _ length])
  ultimately show ?thesis using assms(2) by (simp add: worm_path_def)
qed

lemma hasDir_set_coll [simp]: "hasDir (set_coll c m s) = hasDir s"
  by (simp add: set_coll_def)

lemma disk_persist:
  assumes "persistLocked c (set_coll c m s) = (e, s1)"
  shows "disk s1 = disk s \<or> disk s1 = kv_put c m (disk s)"
  using assms by (auto simp: persistLocked_def Let_def set_coll_def coll_of_def split: if_splits fault.splits)

text \<open>An object that is stored: in memory, on disk, and its bytes under its own path.\<close>

definition stored :: "evidence_object \<Rightarrow> string \<Rightarrow> worm_store \<Rightarrow> bool" where
  "stored obj content w \<longleftrightarrow> plain_id (oID obj) \<and> wDir w \<in> set (wDirs w) \<and> hasDir (wDocs w)
     \<and> lookup ''evidence'' (oID obj) (wDocs w) = Some (obj\<lparr>StoragePath := ''''\<rparr>)
     \<and> (\<exists>m. map_of (disk (wDocs w)) ''evidence'' = Some m \<and> map_of m (oID obj) = Some (obj\<lparr>StoragePath := ''''\<rparr>))
     \<and> map_of (wFiles w) (wDir w @ [oID obj @ ''.bin'']) = Some content
     \<and> StoragePath obj = storage_path (oID obj) w"

lemma Get_Inr_lookup: "DocStore.Get Inr c i s = Inr v \<longleftrightarrow> lookup c i s = Some v"
  by (auto simp: DocStore.Get_def lookup_def split: option.splits)

lemma Get_Inr_None: "DocStore.Get Inr c i s = Inl e \<Longrightarrow> lookup c i s = None"
  by (auto simp: DocStore.Get_def lookup_def split: option.splits)

lemma PutIfAbsent_new:
  assumes "PutIfAbsent c i v s = ((ins, e), s1)" "lookup c i s = None"
  shows "persistLocked c (set_coll c (kv_put i v (coll_of c s)) s) = (e, s1) \<and> ins"
  using assms by (auto simp: PutIfAbsent_def lookup_def split: prod.splits)

text \<open>What a put did: nothing, only the bytes, or the bytes and the entry of a new object.\<close>

lemma worm_Put_cases:
  assumes "worm_Put k f ulid now i0 content ctype meta w = (r, w1)"
  obtains "w1 = w" "\<exists>e. r = Inl e"
  | p e d1 v where "lookup ''evidence'' (evidence_id k ulid content i0) (wDocs w) = None"
      "worm_path (evidence_id k ulid content i0 @ ''.bin'') w = Some p"
      "persistLocked ''evidence'' (set_coll ''evidence''
         (kv_put (evidence_id k ulid content i0) (v\<lparr>StoragePath := ''''\<rparr>) (coll_of ''evidence'' (wDocs w))) (wDocs w)) = (e, d1)"
      "w1 = w\<lparr>wFiles := kv_put p content (wFiles w), wDocs := d1\<rparr>"
      "oID v = evidence_id k ulid content i0" "SHA256 v = content_hash k content"
      "StoragePath v = storage_path (oID v) w" "e = None \<and> r = Inr v \<or> (\<exists>err. e = Some err) \<and> (\<exists>x. r = Inl x)"
proof (cases "DocStore.Get Inr ''evidence'' (evidence_id k ulid content i0) (wDocs w)")
  case (Inr x)
  with assms show ?thesis by (intro that(1)) (auto simp: worm_Put_def Let_def)
next
  case (Inl x)
  let ?i = "evidence_id k ulid content i0"
  show ?thesis
  proof (cases "localBackend_Put f (?i @ ''.bin'') content w")
    case (Pair u w2)
    show ?thesis
    proof (cases u)
      case (Inl e)
      with Pair have "w2 = w" by (auto simp: localBackend_Put_def split: blob_fault.splits option.splits if_splits)
      with assms Pair Inl \<open>DocStore.Get Inr _ _ _ = Inl x\<close> show ?thesis
        by (intro that(1)) (auto simp: worm_Put_def Let_def)
    next
      case (Inr uri)
      from Pair Inr obtain p where p: "worm_path (?i @ ''.bin'') w = Some p" "w2 = w\<lparr>wFiles := kv_put p content (wFiles w)\<rparr>"
        by (auto simp: localBackend_Put_def split: blob_fault.splits option.splits if_splits)
      define v where "v = \<lparr>oID = ?i, SHA256 = content_hash k content, WormURI = uri, oContentType = ctype,
        oSize = length content, oMetadata = meta, oCreatedAt = format_rfc3339 now, Immutable = True,
        StoragePath = storage_path ?i w\<rparr>"
      obtain ins e d1 where q: "PutIfAbsent ''evidence'' ?i (v\<lparr>StoragePath := ''''\<rparr>) (wDocs w) = ((ins, e), d1)"
        by (metis prod.exhaust)
      have l: "lookup ''evidence'' ?i (wDocs w) = None" using Get_Inr_None Inl by blast
      from PutIfAbsent_new [OF q l] have q2: "persistLocked ''evidence'' (set_coll ''evidence''
         (kv_put ?i (v\<lparr>StoragePath := ''''\<rparr>) (coll_of ''evidence'' (wDocs w))) (wDocs w)) = (e, d1)" "ins" by auto
      have d: "wDocs w2 = wDocs w" using p(2) by simp
      have r: "worm_Put k f ulid now i0 content ctype meta w = (case ((ins, e), d1) of
            ((ins, Some e), d1) \<Rightarrow> (Inl (WormErr e), w2\<lparr>wDocs := d1\<rparr>)
          | ((ins, None), d1) \<Rightarrow> (if ins then Inr v else Inl ErrImmutable, w2\<lparr>wDocs := d1\<rparr>))"
        unfolding worm_Put_def Let_def \<open>DocStore.Get Inr _ _ _ = Inl x\<close> Pair Inr
        using q unfolding v_def by (simp add: d)
      show ?thesis
        by (rule that(2) [OF l p(1) q2(1)])
          (use r assms p(2) q2(2) in \<open>cases e; simp add: v_def\<close>)+
    qed
  qed
qed

lemma stored_reads:
  assumes "stored obj content w" "SHA256 obj = content_hash k content"
  shows "worm_Get (oID obj) w = Inr obj \<and> worm_Content (oID obj) w = Inr content
    \<and> worm_Verify k (oID obj) w = Inr (True, SHA256 obj)"
proof -
  have g: "worm_Get (oID obj) w = Inr obj"
    using assms(1) by (simp add: stored_def worm_Get_def Get_Inr_lookup [THEN iffD2])
  moreover have "worm_Content (oID obj) w = Inr content"
    using assms(1) worm_path_plain [of "oID obj" w] by (simp add: stored_def worm_Content_def localBackend_Get_def)
  ultimately show ?thesis using assms(2) by (simp add: worm_Verify_def)
qed

lemma worm_Put_stores:
  assumes "worm_Put k f ulid now i0 content ctype meta w = (Inr obj, w1)"
    "plain_id (evidence_id k ulid content i0)" "wDir w \<in> set (wDirs w)" "hasDir (wDocs w)"
  shows "stored obj content w1 \<and> SHA256 obj = content_hash k content \<and> oID obj = evidence_id k ulid content i0"
  using assms(1)
proof (rule worm_Put_cases)
  fix p e d1 v
  assume a: "worm_path (evidence_id k ulid content i0 @ ''.bin'') w = Some p"
    "persistLocked ''evidence'' (set_coll ''evidence''
         (kv_put (evidence_id k ulid content i0) (v\<lparr>StoragePath := ''''\<rparr>) (coll_of ''evidence'' (wDocs w))) (wDocs w)) = (e, d1)"
    "w1 = w\<lparr>wFiles := kv_put p content (wFiles w), wDocs := d1\<rparr>"
    "oID v = evidence_id k ulid content i0" "SHA256 v = content_hash k content" "StoragePath v = storage_path (oID v) w"
    "e = None \<and> Inr obj = Inr v \<or> (\<exists>err. e = Some err) \<and> (\<exists>x. Inr obj = Inl x)"
  then have v: "v = obj" "e = None" by auto
  have h: "hasDir (set_coll ''evidence'' m (wDocs w))" for m using assms(4) by (simp add: set_coll_def)
  have p: "p = wDir w @ [oID obj @ ''.bin'']" using worm_path_plain [OF assms(2,3)] a(1,4) v by simp
  have d: "disk d1 = kv_put ''evidence'' (kv_put (oID obj) (obj\<lparr>StoragePath := ''''\<rparr>) (coll_of ''evidence'' (wDocs w))) (disk (wDocs w))"
    using persist_ok [OF a(2) [unfolded v] h] a(4) v by (simp add: set_coll_def coll_of_def)
  have l: "lookup ''evidence'' (oID obj) d1 = Some (obj\<lparr>StoragePath := ''''\<rparr>)" "hasDir d1"
    using persist_frame(2) [OF a(2), of "''evidence''"] persist_frame(3) [OF a(2)] a(4) v h by (simp_all add: lookup_def)
  show ?thesis using a(3-6) assms(2,3) v p d l by (simp add: stored_def storage_path_def)
qed auto

lemma stored_Put:
  assumes "stored obj content w" "plain_id (evidence_id k ulid c2 i0)"
    "worm_Put k f ulid now i0 c2 ctype meta w = (r, w1)"
  shows "stored obj content w1"
  using assms(3)
proof (rule worm_Put_cases)
  let ?i = "evidence_id k ulid c2 i0"
  fix p e d1 v
  assume a: "lookup ''evidence'' ?i (wDocs w) = None" "worm_path (?i @ ''.bin'') w = Some p"
    "persistLocked ''evidence'' (set_coll ''evidence''
         (kv_put ?i (v\<lparr>StoragePath := ''''\<rparr>) (coll_of ''evidence'' (wDocs w))) (wDocs w)) = (e, d1)"
    "w1 = w\<lparr>wFiles := kv_put p c2 (wFiles w), wDocs := d1\<rparr>"
  have s: "wDir w \<in> set (wDirs w)" "lookup ''evidence'' (oID obj) (wDocs w) = Some (obj\<lparr>StoragePath := ''''\<rparr>)" "hasDir (wDocs w)"
    using assms(1) by (auto simp: stored_def)
  have ne: "?i \<noteq> oID obj" using a(1) s(2) by auto
  have p: "p \<noteq> wDir w @ [oID obj @ ''.bin'']" using worm_path_plain [OF assms(2) s(1)] a(2) ne by auto
  have l: "lookup ''evidence'' (oID obj) d1 = Some (obj\<lparr>StoragePath := ''''\<rparr>)" "hasDir d1"
    using persist_frame(2) [OF a(3), of "''evidence''"] persist_frame(3) [OF a(3)] s ne by (simp_all add: lookup_def)
  have "\<exists>m. map_of (disk d1) ''evidence'' = Some m \<and> map_of m (oID obj) = Some (obj\<lparr>StoragePath := ''''\<rparr>)"
    using disk_persist [OF a(3)] assms(1) ne s(2) by (auto simp: stored_def lookup_def)
  with assms(1) a(4) p l show ?thesis by (simp add: stored_def storage_path_def)
qed (use assms(1) in simp)

lemma stored_exec: "stored obj content w \<Longrightarrow> plain_op k p \<Longrightarrow> stored obj content (worm_exec k p w)"
proof (cases p)
  case (WPut f ulid now i c2 ctype meta)
  assume "stored obj content w" "plain_op k p"
  then show ?thesis
    using stored_Put [OF _ _ prod.collapse [symmetric]] WPut by (simp add: worm_exec_def plain_op_def)
next
  case (WReopen pl)
  assume "stored obj content w"
  then show ?thesis
    using WReopen by (auto simp: worm_exec_def stored_def lookup_def Open_def coll_of_def storage_path_def)
qed

lemma stored_run: "stored obj content w \<Longrightarrow> list_all (plain_op k) ps \<Longrightarrow> stored obj content (fold (worm_exec k) ps w)"
  by (induction ps arbitrary: w) (simp_all add: stored_exec)

text \<open>The same file under another identifier.\<close>

lemma worm_path_dot:
  assumes "plain_id i" "wDir w \<in> set (wDirs w)"
  shows "worm_path ((''./'' @ i) @ ''.bin'') w = Some (wDir w @ [i @ ''.bin''])"
proof -
  have "split_slash ((''./'' @ i) @ ''.bin'') = ''.'' # split_slash (i @ ''.bin'')" by simp
  with worm_path_plain [OF assms] assms(2) show ?thesis by (simp add: worm_path_def)
qed

lemma alias_overwrites:
  assumes "stored obj content w" "worm_Put k f ulid now (''./'' @ oID obj) c2 ctype meta w = (Inr obj2, w1)"
  shows "worm_Get (oID obj) w1 = Inr obj \<and> worm_Verify k (oID obj) w1 = Inr (content_hash k c2 = SHA256 obj, content_hash k c2)"
  using assms(2)
proof (rule worm_Put_cases)
  have i: "evidence_id k ulid c2 (''./'' @ oID obj) = ''./'' @ oID obj" by (simp add: evidence_id_def)
  have s: "wDir w \<in> set (wDirs w)" "plain_id (oID obj)" using assms(1) by (auto simp: stored_def)
  fix p e d1 v
  assume a: "worm_path (evidence_id k ulid c2 (''./'' @ oID obj) @ ''.bin'') w = Some p"
    "persistLocked ''evidence'' (set_coll ''evidence'' (kv_put (evidence_id k ulid c2 (''./'' @ oID obj))
       (v\<lparr>StoragePath := ''''\<rparr>) (coll_of ''evidence'' (wDocs w))) (wDocs w)) = (e, d1)"
    "w1 = w\<lparr>wFiles := kv_put p c2 (wFiles w), wDocs := d1\<rparr>"
  have p: "p = wDir w @ [oID obj @ ''.bin'']" using a(1) worm_path_dot [OF s(2,1)] i by simp
  have ne: "''./'' @ oID obj \<noteq> oID obj" by (auto dest: arg_cong [of _ _ length])
  have "lookup ''evidence'' (oID obj) d1 = Some (obj\<lparr>StoragePath := ''''\<rparr>)"
    using persist_frame(2) [OF a(2), of "''evidence''"] assms(1) ne i by (simp add: lookup_def stored_def)
  then have g: "worm_Get (oID obj) w1 = Inr obj"
    using a(3) assms(1) by (simp add: stored_def worm_Get_def Get_Inr_lookup [THEN iffD2] storage_path_def)
  moreover have "worm_Content (oID obj) w1 = Inr c2"
    using worm_path_plain [of "oID obj" w1] a(3) s p by (simp add: worm_Content_def localBackend_Get_def)
  ultimately show ?thesis by (simp add: worm_Verify_def)
qed auto

section \<open>What a run has recorded\<close>

definition who_did_what :: "audit_event \<Rightarrow> string \<times> string \<times> string \<times> string" where
  "who_did_what e = (aeActor e, aeAction e, aeSubject e, aeTenantID e)"

definition requested :: "audit_op list \<Rightarrow> (string \<times> string \<times> string \<times> string) list" where
  "requested ps = concat (map (\<lambda>p. case p of AAppend f now ulid e \<Rightarrow> [who_did_what e] | AReopen \<Rightarrow> []) ps)"

lemma events_exec:
  assumes "audit_ok k al" "smooth p"
  shows "map who_did_what (AllEvents (audit_exec k p al)) = map who_did_what (AllEvents al) @ requested [p]"
proof (cases p)
  case (AAppend f now ulid e)
  obtain r al1 where u: "audit_Append k f now ulid e al = (r, al1)" by fastforce
  from AAppend assms(2) have "f = AppendOK" "aeDetails e \<noteq> Some []" by (auto simp: smooth_def)
  then have "AllEvents al1 = AllEvents al @ [sealed_event k now ulid e al]"
    using audit_ok_Append [OF assms(1)] u by blast
  with AAppend u show ?thesis by (simp add: audit_exec_def requested_def who_did_what_def)
next
  case AReopen
  then show ?thesis using audit_ok_reopen [OF assms(1)] by (simp add: audit_exec_def requested_def)
qed

lemma events_run:
  "audit_ok k al \<Longrightarrow> list_all smooth ps \<Longrightarrow>
   map who_did_what (AllEvents (fold (audit_exec k) ps al)) = map who_did_what (AllEvents al) @ requested ps"
proof (induction ps arbitrary: al)
  case (Cons p ps)
  then have ok: "audit_ok k (audit_exec k p al)" using audit_ok_exec by simp
  have "requested (p # ps) = requested [p] @ requested ps" by (simp add: requested_def)
  with Cons.IH [OF ok] events_exec [of k al p] Cons.prems show ?case by simp
qed (simp add: requested_def)

lemma evidence_id_fixed: "evidence_id k u c (evidence_id k u2 c2 i) = evidence_id k u2 c2 i"
  by (simp add: evidence_id_def)

lemma stored_refuses:
  assumes "stored obj content w" "oID obj \<noteq> ''''"
  shows "worm_Put k f ulid now (oID obj) c2 ctype meta w = (Inl ErrImmutable, w)"
  using assms by (simp add: stored_def worm_Put_def evidence_id_def Get_Inr_lookup [THEN iffD2])

end
