(* ===== verification/DemoPrivacy.thy ===== *)
theory DemoPrivacy
  imports TinConsent EvidenceInv
begin

text \<open>The concrete consents, requests, logs and objects on which the properties of the consent, TIN and
  audit-evidence services are shown to apply.\<close>

section \<open>Consents\<close>

definition d_consent :: consent where
  "d_consent = \<lparr>cID = ''con-1'', cSubject = ''s'', cPurpose = ''tin_verification'', cLawfulBasis = ''consent'',
     cGranted = True, cChannel = ''web'', cMetadata = ''{}'', cGrantedAt = ''2025-01-01T00:00:00Z'',
     cExpiresAt = '''', cRevokedAt = '''', cStatus = ''active''\<rparr>"

definition d_withdrawn :: consent where
  "d_withdrawn = d_consent\<lparr>cID := ''con-0'', cStatus := ''revoked'', cGranted := False,
     cRevokedAt := ''2025-02-01T00:00:00Z''\<rparr>"

definition d_privacy :: privacy_store where
  "d_privacy = Open True [(''consents'', [(''con-0'', DConsent d_withdrawn), (''con-1'', DConsent d_consent)])]
     (\<lambda>_. NoFault)"

definition d_priv_req :: request where
  "d_priv_req = \<lparr>qNow = (\<lambda>_. 1748779200000000000), qULID = (\<lambda>n. if n = 0 then ''A'' else ''B''),
     qClaims = Some \<lparr>Sub = ''s'', Roles = [''admin''], TenantID = '''', cExp = 0\<rparr>\<rparr>"

definition d_priv_sha :: "string \<Rightarrow> string" where "d_priv_sha s = s"

definition d_privacy_crypto :: consent_crypto where
  "d_privacy_crypto = \<lparr>hash_consent = cID, hex_hmac = (@), receiptKey = ''k''\<rparr>"

lemma d_consents:
  "coll_of ''consents'' d_privacy = [(''con-0'', DConsent d_withdrawn), (''con-1'', DConsent d_consent)]"
  "c \<noteq> ''consents'' \<Longrightarrow> coll_of c d_privacy = []"
  by (simp_all add: d_privacy_def Open_def coll_of_def)

lemma d_privacy_ok: "consents_ok d_privacy"
proof -
  have "colls_ok d_privacy"
    unfolding colls_ok_def
  proof
    fix c
    have "(''con-0'' :: string) < ''con-1''" by (simp add: less_list_code)
    then show "kv_ok (coll_of c d_privacy)" using d_consents by (cases "c = ''consents''") auto
  qed
  then show ?thesis
    by (auto simp: consents_ok_def lookup_def d_consents(1) d_consent_def d_withdrawn_def split: if_splits)
qed

lemma d_lookups:
  "lookup ''consents'' ''con-0'' d_privacy = Some (DConsent d_withdrawn)"
  "lookup ''consents'' ''con-1'' d_privacy = Some (DConsent d_consent)"
  by (simp_all add: lookup_def d_consents(1))

definition d_tin_call :: "checkReq \<Rightarrow> privacy_response option" where
  "d_tin_call req = Some (fst (consent_check d_priv_req (Some req) d_privacy))"

section \<open>The audit log\<close>

definition d_audit :: audit_crypto where
  "d_audit = \<lparr>mac_sum = (\<lambda>k m. map (\<lambda>c. of_nat (byte_of c)) (k @ m)), sha_sum = map (\<lambda>c. of_nat (byte_of c)),
     json_str = (\<lambda>s. CHR 0x22 # s @ [CHR 0x22]),
     json_details = (\<lambda>d. if d = None then ''null'' else ''{}'')\<rparr>"

definition d_event :: "string \<Rightarrow> audit_event" where
  "d_event i = \<lparr>aeSeq = 0, aeID = i, aeTime = ''2025-06-01T12:00:00Z'', aeActor = ''u'', aeSubject = ''s'',
     aeAction = ''view'', aeType = ''audit.generic'', aeTenantID = ''t'', RulePackVersion = '''', aeDetails = None,
     PrevHash = '''', aeHash = ''''\<rparr>"

definition d_ops :: "audit_op list" where
  "d_ops = [AAppend AppendOK 0 ''A'' (d_event ''e1''), AReopen, AAppend AppendOK 0 ''B'' (d_event ''e2'')]"

definition d_log :: audit_log where
  "d_log = fold (audit_exec d_audit) d_ops (OpenAuditLog [] ''k'')"

lemma d_ops_facts: "list_all smooth d_ops" "requested d_ops = [(''u'', ''view'', ''s'', ''t''), (''u'', ''view'', ''s'', ''t'')]"
  by (simp_all add: d_ops_def smooth_def d_event_def requested_def who_did_what_def)

text \<open>The same file after somebody changed the subject of every event in place.\<close>

definition d_forged :: audit_log where
  "d_forged = d_log\<lparr>alLog := (alLog d_log)\<lparr>llines := map (map_option
     (\<lambda>l. l\<lparr>lBody := (lBody l)\<lparr>aeSubject := ''x''\<rparr>\<rparr>)) (llines (alLog d_log))\<rparr>\<rparr>"

lemma d_log_ok: "audit_ok d_audit d_log \<and> alKey d_log = ''k''"
proof -
  have "audit_ok d_audit d_log \<and> alKey d_log = alKey (OpenAuditLog [] ''k'')"
    unfolding d_log_def by (rule audit_ok_run [OF audit_ok_empty d_ops_facts(1)])
  then show ?thesis by (simp add: OpenAuditLog_def Let_def ReadAll_def OpenAppendLog_def)
qed

lemma d_sum: "chain_sum d_audit ''k'' m = map (\<lambda>c. of_nat (byte_of c)) (''k'' @ m)"
  by (simp add: chain_sum_def d_audit_def)

lemma d_sum_inj: "inj_on (chain_sum d_audit ''k'') M"
  by (rule inj_onI) (simp only: d_sum inj_map_eq_map [OF byte_inj] same_append_eq)

definition d_worm :: worm_store where
  "d_worm = \<lparr>wDirs = [[''worm'']], wDir = [''worm''], wFiles = [], wDocs = Open True [] (\<lambda>_. NoFault)\<rparr>"

lemma d_hash_eq: "computeHash d_audit ''k'' e = computeHash d_audit ''k'' f \<longleftrightarrow> chain_message d_audit e = chain_message d_audit f"
  unfolding computeHash_def hex_encode_inj by (simp only: d_sum inj_map_eq_map [OF byte_inj] same_append_eq)

lemma d_log_events: "map who_did_what (AllEvents d_log) = [(''u'', ''view'', ''s'', ''t''), (''u'', ''view'', ''s'', ''t'')]"
proof -
  have "AllEvents (OpenAuditLog [] ''k'') = []"
    by (simp add: AllEvents_def OpenAuditLog_def Let_def ReadAll_def OpenAppendLog_def List.map_filter_def)
  then show ?thesis
    unfolding d_log_def using events_run [OF audit_ok_empty d_ops_facts(1), of d_audit "''k''"] d_ops_facts(2) by simp
qed

lemma d_log_next: "alNext d_log = 3"
proof -
  have "length (map who_did_what (AllEvents d_log)) = 2" by (simp only: d_log_events) simp
  moreover have "length (AllEvents d_log) = length (lines_of d_log)"
    using d_log_ok AllEvents_log_ok by (simp add: audit_ok_def)
  ultimately show ?thesis using d_log_ok by (simp add: audit_ok_def)
qed

lemma d_forged_events: "AllEvents d_forged = map (\<lambda>e. e\<lparr>aeSubject := ''x''\<rparr>) (AllEvents d_log)"
proof -
  let ?f = "\<lambda>l. l\<lparr>lBody := (lBody l)\<lparr>aeSubject := ''x''\<rparr>\<rparr> :: audit_event log_line"
  have ok: "log_ok d_log" and ls: "llines (alLog d_log) = map Some (lines_of d_log)"
    using d_log_ok by (auto simp: audit_ok_def log_ok_def)
  have "llines (alLog d_forged) = map Some (map ?f (lines_of d_log))" by (simp add: d_forged_def ls o_def)
  then have fl: "lines_of d_forged = map ?f (lines_of d_log)" by (simp add: lines_of_def del: map_map)
  have "read_event (?f l) = (read_event l)\<lparr>aeSubject := ''x''\<rparr>" for l by (simp add: read_event_def)
  moreover have "sort_key aeSeq (map read_event (lines_of d_forged)) = map read_event (lines_of d_forged)"
    by (rule strict_sort) (use ok in \<open>simp add: log_ok_def fl o_def\<close>)
  ultimately show ?thesis
    unfolding AllEvents_log_ok [OF ok] by (simp add: AllEvents_def ReadAll_def lines_of_def [symmetric] fl o_def)
qed

lemma d_forged_facts:
  "alKey d_forged = alKey d_log" "last_hash '''' (AllEvents d_forged) = last_hash '''' (AllEvents d_log)"
  "\<forall>e \<in> set (AllEvents d_log) \<union> set (AllEvents d_forged). aeSeq e \<noteq> 0"
proof -
  show "alKey d_forged = alKey d_log" by (simp add: d_forged_def)
  show "last_hash '''' (AllEvents d_forged) = last_hash '''' (AllEvents d_log)"
    by (simp add: d_forged_events last_hash_def last_map)
  have "\<forall>e \<in> set (AllEvents d_log). aeSeq e \<noteq> 0"
    using d_log_ok AllEvents_log_ok [of d_log] by (fastforce simp: audit_ok_def log_ok_def)
  then show "\<forall>e \<in> set (AllEvents d_log) \<union> set (AllEvents d_forged). aeSeq e \<noteq> 0" by (auto simp: d_forged_events)
qed

lemma canonical_subject:
  "canonical d_audit (e\<lparr>aeSubject := s\<rparr>) = canonical d_audit e \<Longrightarrow> aeSubject e = s"
  by (simp add: canonical_def d_audit_def)

lemma d_worm_put: "\<exists>obj w1. worm_Put d_audit BlobOK '''' 0 ''a'' ''x'' ''text'' '''' d_worm = (Inr obj, w1)"
proof -
  have "worm_path ''a.bin'' d_worm = Some [''worm'', ''a.bin'']" by (simp add: worm_path_def d_worm_def)
  then show ?thesis
    by (simp add: worm_Put_def Let_def evidence_id_def DocStore.Get_def d_worm_def Open_def coll_of_def
        localBackend_Put_def PutIfAbsent_def persistLocked_def set_coll_def)
qed

lemma d_worm_alias:
  assumes "worm_Put d_audit BlobOK '''' 0 ''a'' ''x'' ''text'' '''' d_worm = (Inr obj, w1)"
  shows "\<exists>obj2 w2. worm_Put d_audit BlobOK '''' 0 (''./'' @ oID obj) ''y'' ''text'' '''' w1 = (Inr obj2, w2)"
  using assms
  by (auto simp: worm_Put_def Let_def evidence_id_def DocStore.Get_def d_worm_def Open_def coll_of_def worm_path_def
      localBackend_Put_def PutIfAbsent_def persistLocked_def set_coll_def)

end
