(* ===== verification/AdminAuth.thy ===== *)
theory AdminAuth
  imports Access
begin

unbundle bit_operations_syntax

text \<open>
  Passwords and sessions of the admin service: \<open>services/admin-api/pbkdf2.go\<close>, the token issuer and
  verifier, session revocation and the authentication middleware of \<open>auth.go\<close>, the role check of
  \<open>permify.go\<close> and the boot guard of \<open>main.go\<close>. HMAC-SHA256, the JSON form of the claims, the
  Keycloak verifier and the Permify server are parameters; random bytes and clock readings are
  arguments.
\<close>

section \<open>PBKDF2\<close>

text \<open>A keyed sum takes a key and a message to bytes; HMAC-SHA256 always gives 32 of them.\<close>

type_synonym keyed_sum = "string \<Rightarrow> string \<Rightarrow> string"

definition sums32 :: "keyed_sum \<Rightarrow> bool" where
  "sums32 hmac \<longleftrightarrow> (\<forall>k m. length (hmac k m) = 32)"

definition pbkdf2Iterations :: int where "pbkdf2Iterations = 100000"
definition pbkdf2SaltLen :: nat where "pbkdf2SaltLen = 16"
definition pbkdf2KeyLen :: nat where "pbkdf2KeyLen = 32"

definition be32 :: "u32 \<Rightarrow> string" where
  "be32 w = map (\<lambda>i. char_of (unat (drop_bit (24 - 8 * i) w AND 0xff))) [0..<4]"

definition xor_bytes :: "string \<Rightarrow> string \<Rightarrow> string" where
  "xor_bytes t u = map (\<lambda>j. char_of (unat ((of_nat (byte_of (t ! j)) :: u8) XOR of_nat (byte_of (u ! j)))))
     [0..<length t]"

text \<open>The loop over the iterations after the first; a count below 2 runs it no times.\<close>

fun pbkdf2_inner :: "keyed_sum \<Rightarrow> string \<Rightarrow> nat \<Rightarrow> string \<Rightarrow> string \<Rightarrow> string" where
  "pbkdf2_inner hmac password 0 u t = t"
| "pbkdf2_inner hmac password (Suc n) u t =
     (let u1 = hmac password u in pbkdf2_inner hmac password n u1 (xor_bytes t u1))"

text \<open>The loop over the blocks ends only when enough bytes were produced.\<close>

partial_function (option) pbkdf2_blocks ::
  "keyed_sum \<Rightarrow> string \<Rightarrow> string \<Rightarrow> int \<Rightarrow> nat \<Rightarrow> u32 \<Rightarrow> string \<Rightarrow> string option" where
  "pbkdf2_blocks hmac password salt iterations keyLen block out =
     (if length out < keyLen then
        (let u = hmac password (salt @ be32 block);
             t = pbkdf2_inner hmac password (nat (iterations - 1)) u u
         in pbkdf2_blocks hmac password salt iterations keyLen (block + 1) (out @ t))
      else Some (take keyLen out))"

definition pbkdf2SHA256 :: "keyed_sum \<Rightarrow> string \<Rightarrow> string \<Rightarrow> int \<Rightarrow> nat \<Rightarrow> string option" where
  "pbkdf2SHA256 hmac password salt iterations keyLen =
     pbkdf2_blocks hmac password salt iterations keyLen 1 []"

text \<open>\<open>strings.Split(s, "$")\<close>.\<close>

fun split_dollar :: "string \<Rightarrow> string list" where
  "split_dollar [] = [[]]"
| "split_dollar (c # cs) = (if c = CHR ''$'' then [] # split_dollar cs
     else case split_dollar cs of [] \<Rightarrow> [[c]] | p # ps \<Rightarrow> (c # p) # ps)"

definition HashPassword :: "keyed_sum \<Rightarrow> string \<Rightarrow> string \<Rightarrow> string option" where
  "HashPassword hmac salt pw = map_option
     (\<lambda>dk. ''pbkdf2$'' @ itoa pbkdf2Iterations @ ''$'' @ raw_std_encode salt @ ''$'' @ raw_std_encode dk)
     (pbkdf2SHA256 hmac pw salt pbkdf2Iterations pbkdf2KeyLen)"

definition VerifyPassword :: "keyed_sum \<Rightarrow> string \<Rightarrow> string \<Rightarrow> bool option" where
  "VerifyPassword hmac encoded pw =
     (case split_dollar encoded of
        [p0, p1, p2, p3] \<Rightarrow>
          if p0 \<noteq> ''pbkdf2'' then Some False
          else (case parse_int64 p1 of
            None \<Rightarrow> Some False
          | Some iters \<Rightarrow>
              if iters < 1 then Some False
              else (case (raw_std_decode p2, raw_std_decode p3) of
                  (Some salt, Some want) \<Rightarrow>
                    map_option (\<lambda>got. got = want) (pbkdf2SHA256 hmac pw salt iters (length want))
                | _ \<Rightarrow> Some False))
      | _ \<Rightarrow> Some False)"

section \<open>The derivation ends\<close>

lemma length_xor_bytes [simp]: "length (xor_bytes t u) = length t"
  by (simp add: xor_bytes_def)

lemma length_pbkdf2_inner [simp]: "length (pbkdf2_inner hmac pw n u t) = length t"
  by (induction n arbitrary: u t) (simp_all add: Let_def)

lemma pbkdf2_blocks_return:
  assumes "sums32 hmac"
  shows "\<exists>dk. pbkdf2_blocks hmac pw salt iters keyLen block out = Some dk \<and> length dk = keyLen"
proof (induction "keyLen - length out" arbitrary: block out rule: less_induct)
  case less
  show ?case
  proof (cases "length out < keyLen")
    case True
    let ?u = "hmac pw (salt @ be32 block)"
    let ?o = "out @ pbkdf2_inner hmac pw (nat (iters - 1)) ?u ?u"
    have "length ?u = 32" using assms by (simp add: sums32_def)
    with True have "keyLen - length ?o < keyLen - length out" by simp
    from less [OF this] True show ?thesis
      by (subst pbkdf2_blocks.simps) (simp add: Let_def)
  next
    case False
    then show ?thesis by (subst pbkdf2_blocks.simps) simp
  qed
qed

lemma split_dollar_plain: "CHR ''$'' \<notin> set a \<Longrightarrow> split_dollar a = [a]"
  by (induction a) auto

lemma split_dollar_join:
  "CHR ''$'' \<notin> set a \<Longrightarrow> split_dollar (a @ CHR ''$'' # rest) = a # split_dollar rest"
  by (induction a) auto

lemma raw_std_no_dollar: "CHR ''$'' \<notin> set (raw_std_encode s)"
  using raw_std_encode_byte [of "CHR ''$''" s] by (auto simp: byte_of_def)

lemma itoa_iterations: "itoa pbkdf2Iterations = ''100000''"
  by code_simp

lemma HashPassword_parts:
  assumes "pbkdf2SHA256 hmac pw salt pbkdf2Iterations pbkdf2KeyLen = Some dk"
  obtains e where "HashPassword hmac salt pw = Some e"
    "split_dollar e = [''pbkdf2'', ''100000'', raw_std_encode salt, raw_std_encode dk]"
proof
  let ?e = "''pbkdf2$'' @ itoa pbkdf2Iterations @ ''$'' @ raw_std_encode salt @ ''$'' @ raw_std_encode dk"
  show "HashPassword hmac salt pw = Some ?e" using assms by (simp add: HashPassword_def)
  show "split_dollar ?e = [''pbkdf2'', ''100000'', raw_std_encode salt, raw_std_encode dk]"
    using raw_std_no_dollar [of salt] raw_std_no_dollar [of dk]
    by (simp add: itoa_iterations split_dollar_join split_dollar_plain)
qed

lemma parse_iterations: "parse_int64 ''100000'' = Some pbkdf2Iterations"
  by (simp add: parse_int64_def pbkdf2Iterations_def is_digit_def byte_of_def digits_val_def digit_val_def)

text \<open>A hash checks a password by comparing the two derived keys.\<close>

lemma VerifyPassword_hash:
  assumes "sums32 hmac" "HashPassword hmac salt pw = Some e"
  shows "\<exists>dk dk'. pbkdf2SHA256 hmac pw salt pbkdf2Iterations pbkdf2KeyLen = Some dk
     \<and> pbkdf2SHA256 hmac pw' salt pbkdf2Iterations pbkdf2KeyLen = Some dk'
     \<and> VerifyPassword hmac e pw' = Some (dk' = dk)"
proof -
  obtain dk where dk: "pbkdf2SHA256 hmac pw salt pbkdf2Iterations pbkdf2KeyLen = Some dk"
    "length dk = pbkdf2KeyLen"
    using pbkdf2_blocks_return [OF assms(1)] unfolding pbkdf2SHA256_def by blast
  obtain dk' where dk': "pbkdf2SHA256 hmac pw' salt pbkdf2Iterations pbkdf2KeyLen = Some dk'"
    using pbkdf2_blocks_return [OF assms(1)] unfolding pbkdf2SHA256_def by blast
  have "split_dollar e = [''pbkdf2'', ''100000'', raw_std_encode salt, raw_std_encode dk]"
    using HashPassword_parts [OF dk(1)] assms(2) by auto
  then have "VerifyPassword hmac e pw' = Some (dk' = dk)"
    using dk dk' by (simp add: VerifyPassword_def parse_iterations) (simp add: pbkdf2Iterations_def)
  with dk dk' show ?thesis by blast
qed

lemma VerifyPassword_total:
  assumes "sums32 hmac"
  shows "VerifyPassword hmac encoded pw \<noteq> None"
proof -
  have p: "\<exists>dk. pbkdf2SHA256 hmac pw salt iters len = Some dk" for salt iters len
    using pbkdf2_blocks_return [OF assms] unfolding pbkdf2SHA256_def by blast
  show ?thesis using p by (auto simp: VerifyPassword_def split: list.splits option.splits if_splits)
qed

section \<open>Tokens\<close>

record aclaims =
  acSub :: string
  acEmail :: string
  acRoles :: "string list"
  acTenantID :: string
  acIssuer :: string
  IssuedAt :: int
  Expires :: int

definition issueJWT :: "keyed_sum \<Rightarrow> (aclaims \<Rightarrow> string) \<Rightarrow> string \<Rightarrow> aclaims \<Rightarrow> string" where
  "issueJWT hmac enc jwtSecret c =
     (let header = b64_encode ''{\"alg\":\"HS256\",\"typ\":\"JWT\"}'';
          body = header @ ''.'' @ b64_encode (enc c)
      in body @ ''.'' @ b64_encode (hmac jwtSecret body))"

definition verifyJWT :: "keyed_sum \<Rightarrow> (string \<Rightarrow> aclaims option) \<Rightarrow> string \<Rightarrow> instant \<Rightarrow> string
     \<Rightarrow> string + aclaims" where
  "verifyJWT hmac dec jwtSecret now tok =
     (case split_dot tok of
        [p0, p1, p2] \<Rightarrow>
          (let body = p0 @ ''.'' @ p1
           in case b64_decode p2 of
                None \<Rightarrow> Inl ''bad signature encoding''
              | Some sig \<Rightarrow>
                  if sig \<noteq> hmac jwtSecret body then Inl ''signature mismatch''
                  else (case b64_decode p1 of
                    None \<Rightarrow> Inl ''bad payload encoding''
                  | Some payload \<Rightarrow> (case dec payload of
                      None \<Rightarrow> Inl ''bad claims''
                    | Some c \<Rightarrow> if unix now > Expires c then Inl ''token expired'' else Inr c)))
      | _ \<Rightarrow> Inl ''malformed token'')"

section \<open>Users and their sessions\<close>

record auser =
  uID :: string
  uEmail :: string
  uName :: string
  uRoles :: "string list"
  uTenantID :: string
  uStatus :: string
  uCreatedAt :: string
  PasswordHash :: string
  ForcePasswordReset :: bool
  MinTokenIAT :: int

text \<open>The user table is keyed by e-mail address.\<close>

type_synonym users = "(string, auser) kv"

definition user_by_id :: "string \<Rightarrow> users \<Rightarrow> (string \<times> auser) option" where
  "user_by_id i us = List.find (\<lambda>p. uID (snd p) = i) us"

definition localSessionValid :: "users \<Rightarrow> aclaims \<Rightarrow> bool" where
  "localSessionValid us c =
     (if acIssuer c \<noteq> ''admin-api-dev'' then True
      else case user_by_id (acSub c) us of
        Some (_, u) \<Rightarrow> uStatus u = ''active'' \<and> IssuedAt c > MinTokenIAT u
      | None \<Rightarrow> False)"

section \<open>The middleware\<close>

record areq =
  rqAuthorization :: string
  rqDevRole :: string
  rqStepupCode :: string
  rqStepupTicket :: string
  rqBody :: string  \<comment> \<open>the bytes of the body\<close>

text \<open>\<open>keycloak\<close> is the verifier of \<open>AUTH_MODE=keycloak\<close>, \<open>None\<close> when it cannot be configured.\<close>

definition requireAuth :: "keyed_sum \<Rightarrow> (string \<Rightarrow> aclaims option) \<Rightarrow> (string \<Rightarrow> string + aclaims) option
     \<Rightarrow> string \<Rightarrow> string \<Rightarrow> instant \<Rightarrow> users \<Rightarrow> areq \<Rightarrow> http_error + aclaims" where
  "requireAuth hmac dec keycloak authMode jwtSecret now us r =
     (if authMode = ''keycloak'' \<and> keycloak = None then Inl (503, ''auth misconfigured'')
      else case strip_bearer (rqAuthorization r) of
        Some tok \<Rightarrow>
          (case (if authMode = ''keycloak'' then the keycloak tok
                 else verifyJWT hmac dec jwtSecret now tok) of
             Inl e \<Rightarrow> Inl (401, ''unauthorized'')
           | Inr c \<Rightarrow>
               if authMode \<noteq> ''keycloak'' \<and> \<not> localSessionValid us c
               then Inl (401, ''unauthorized'') else Inr c)
      | None \<Rightarrow>
          if authMode = ''dev'' \<and> rqDevRole r \<noteq> ''''
          then Inr \<lparr>acSub = ''dev-'' @ rqDevRole r, acEmail = rqDevRole r @ ''@meridian.local'',
                    acRoles = [rqDevRole r], acTenantID = '''', acIssuer = ''x-dev-role'',
                    IssuedAt = 0, Expires = 0\<rparr>
          else Inl (401, ''unauthorized''))"

definition admin_hasRole :: "aclaims \<Rightarrow> string \<Rightarrow> bool" where
  "admin_hasRole c role = list_ex (\<lambda>r. r = role \<or> r = ''admin'') (acRoles c)"

text \<open>The tenant permission of a role, \<open>packages/permify-models\<close>.\<close>

definition RolePermission :: "string \<Rightarrow> string option" where
  "RolePermission role = map_of [(''admin'', ''manage''), (''operator'', ''operate''),
     (''auditor'', ''read''), (''board'', ''govern'')] role"

text \<open>A wired Permify client answers entity, permission and subject, or fails (\<open>None\<close>). The result is
  the decision, or \<open>None\<close> when the check failed.\<close>

definition authorizeRole :: "(string \<Rightarrow> string \<Rightarrow> string \<Rightarrow> bool option) option \<Rightarrow> aclaims \<Rightarrow> string \<Rightarrow> bool option" where
  "authorizeRole perm c role = (case perm of
       None \<Rightarrow> Some (admin_hasRole c role)
     | Some check \<Rightarrow>
         if acSub c = '''' then Some False
         else (case RolePermission role of
             None \<Rightarrow> Some False
           | Some p \<Rightarrow> check (''tenant:'' @ (if acTenantID c = '''' then ''core'' else acTenantID c)) p
               (''user:'' @ acSub c)))"

definition admin_requireRole :: "(string \<Rightarrow> string \<Rightarrow> string \<Rightarrow> bool option) option \<Rightarrow> aclaims \<Rightarrow> string
     \<Rightarrow> http_error option" where
  "admin_requireRole perm c role = (case authorizeRole perm c role of
       None \<Rightarrow> Some (503, ''authorization unavailable'')
     | Some allowed \<Rightarrow> if allowed then None else Some (403, ''forbidden''))"

record admin_env =
  aePROFILE :: string
  aeAudience :: string      \<comment> \<open>\<open>KEYCLOAK_AUDIENCE\<close>\<close>
  aeEvidenceURL :: string   \<comment> \<open>\<open>AUDIT_EVIDENCE_URL\<close>\<close>

definition validateAuthConfig :: "admin_env \<Rightarrow> string \<Rightarrow> string \<Rightarrow> string option" where
  "validateAuthConfig env authMode jwtSecret =
     (if aePROFILE env = ''prod'' \<and> authMode \<noteq> ''keycloak''
      then Some (''PROFILE=prod refuses AUTH_MODE='' @ authMode)
      else if aePROFILE env = ''prod'' \<and> aeAudience env = ''''
      then Some ''PROFILE=prod requires KEYCLOAK_AUDIENCE (fail-closed)''
      else if authMode \<noteq> ''dev'' \<and> authMode \<noteq> ''keycloak'' then Some (''unknown AUTH_MODE '' @ authMode)
      else if jwtSecret = ''meridian-dev-secret-change-me'' \<and> aePROFILE env = ''prod''
      then Some ''PROFILE=prod refuses the default dev JWT secret''
      else if aePROFILE env = ''prod'' \<and> aeEvidenceURL env = ''''
      then Some ''PROFILE=prod requires AUDIT_EVIDENCE_URL (refusing in-memory-only audit mode)''
      else None)"

text \<open>\<open>admin_permifyFromEnv\<close>: \<open>Inl\<close> refuses to start; \<open>None\<close> is the role-claim check.\<close>

definition admin_permifyFromEnv :: "'c option \<Rightarrow> string \<Rightarrow> string \<Rightarrow> string + 'c option" where
  "admin_permifyFromEnv fromEnv profile authMode = (case fromEnv of
       Some c \<Rightarrow> Inr (Some c)
     | None \<Rightarrow> if profile = ''prod'' \<or> authMode \<noteq> ''dev''
               then Inl ''PERMIFY_URL is required when PROFILE=prod or AUTH_MODE != dev''
               else Inr None)"

section \<open>Issued tokens verify, and only those\<close>

lemma jwt_round_trip:
  assumes "dec (enc c) = Some c" "unix now \<le> Expires c"
  shows "verifyJWT hmac dec secret now (issueJWT hmac enc secret c) = Inr c"
  using assms
  by (simp add: verifyJWT_def issueJWT_def Let_def split_dot_join split_dot_plain b64_encode_no_dot)

lemma jwt_authentic:
  assumes "verifyJWT hmac dec secret now tok = Inr c"
  obtains h p s where "split_dot tok = [h, p, s]" "b64_decode s = Some (hmac secret (h @ ''.'' @ p))"
    "Option.bind (b64_decode p) dec = Some c" "unix now \<le> Expires c"
  using assms
  by (auto simp: verifyJWT_def Let_def split: list.splits option.splits if_splits)

lemma session_checked:
  assumes "requireAuth hmac dec kc authMode secret now us r = Inr c" "authMode \<noteq> ''keycloak''"
  shows "localSessionValid us c"
  using assms
  by (auto simp: requireAuth_def localSessionValid_def split: if_splits option.splits sum.splits)

text \<open>The production boot guard leaves only the Keycloak verifier.\<close>

lemma prod_needs_keycloak:
  assumes "validateAuthConfig env authMode secret = None" "aePROFILE env = ''prod''"
  shows "authMode = ''keycloak''"
    and "requireAuth hmac dec kc authMode secret now us r = Inr c \<Longrightarrow>
      \<exists>verify tok. kc = Some verify \<and> strip_bearer (rqAuthorization r) = Some tok \<and> verify tok = Inr c"
  using assms
  by (auto simp: validateAuthConfig_def requireAuth_def split: if_splits option.splits sum.splits)

end
