(* ===== verification/StepUp.thy ===== *)
theory StepUp
  imports Access "HOL-Library.Signed_Division"
begin

unbundle bit_operations_syntax

text \<open>
  Step-up enrolment, \<open>packages/stepup\<close>: the time-based codes and recovery codes of \<open>totp.go\<close>, the
  sealing of secrets at rest of \<open>seal.go\<close>, the enrolment records of \<open>store.go\<close> and the enrolment
  life of \<open>service.go\<close>. HMAC-SHA1, SHA-256 and AES-GCM are parameters; the bytes a call draws from the
  random source and the clock are arguments.
\<close>

section \<open>Codes\<close>

text \<open>The period of a code in seconds, and the sizes the package fixes.\<close>

definition Period :: int where "Period = 30"
definition Digits :: nat where "Digits = 6"
definition Window :: int where "Window = 1"
definition SecretBytes :: nat where "SecretBytes = 20"
definition RecoveryCount :: nat where "RecoveryCount = 10"

text \<open>The functions the package takes from \<open>crypto\<close>: keyed sums give bytes, and \<open>gcm_open\<close> of key,
  nonce and ciphertext is \<open>None\<close> when authentication fails.\<close>

record su_crypto =
  sha256_sum :: "string \<Rightarrow> string"
  hmac_sha1 :: "string \<Rightarrow> string \<Rightarrow> string"
  gcm_seal :: "string \<Rightarrow> string \<Rightarrow> string \<Rightarrow> string"
  gcm_open :: "string \<Rightarrow> string \<Rightarrow> string \<Rightarrow> string option"

definition GenerateSecret :: "string \<Rightarrow> string" where
  "GenerateSecret raw = b32_encode raw"

definition decodeSecret :: "string \<Rightarrow> string + string" where
  "decodeSecret secret =
     (let s = to_upper (filter (\<lambda>c. c \<noteq> CHR '' '') (trim_space secret));
          s = rev (dropWhile (\<lambda>c. c = CHR ''='') (rev s))
      in case b32_decode s of
           None \<Rightarrow> Inl ''stepup: bad base32 secret''
         | Some raw \<Rightarrow> if length raw < 10 then Inl ''stepup: secret too short'' else Inr raw)"

text \<open>The eight bytes of a counter, most significant first.\<close>

definition be64 :: "u64 \<Rightarrow> string" where
  "be64 w = map (\<lambda>i. char_of (unat (drop_bit (56 - 8 * i) w AND 0xff))) [0..<8]"

definition codeRaw :: "su_crypto \<Rightarrow> string \<Rightarrow> int \<Rightarrow> string" where
  "codeRaw k raw step =
     (let sum = hmac_sha1 k raw (be64 (word_of_int step));
          off = unat ((of_nat (byte_of (last sum)) :: u8) AND 0x0f);
          at = (\<lambda>i. of_nat (byte_of (sum ! i)) :: u32);
          bin = push_bit 24 (at off AND 0x7f) OR push_bit 16 (at (off + 1))
                OR push_bit 8 (at (off + 2)) OR at (off + 3);
          m = fold (\<lambda>_ m. m * 10) [0..<Digits] (1 :: u32)
      in pad Digits (uint (bin mod m)))"

definition Code_at :: "su_crypto \<Rightarrow> string \<Rightarrow> instant \<Rightarrow> string + string" where
  "Code_at k secret t = (case decodeSecret secret of
       Inl e \<Rightarrow> Inl e | Inr raw \<Rightarrow> Inr (codeRaw k raw (unix t sdiv Period)))"

definition subtleEqual :: "string \<Rightarrow> string \<Rightarrow> bool" where
  "subtleEqual a b = (if length a \<noteq> length b then False
     else fold (\<lambda>(x, y) v. v OR ((of_nat (byte_of x) :: u8) XOR of_nat (byte_of y))) (zip a b) (0 :: u8) = 0)"

definition Validate :: "su_crypto \<Rightarrow> string \<Rightarrow> string \<Rightarrow> instant \<Rightarrow> bool" where
  "Validate k secret code t =
     (case decodeSecret secret of
        Inl _ \<Rightarrow> False
      | Inr raw \<Rightarrow>
          let code = trim_space code
          in if length code \<noteq> Digits then False
             else let now = unix t sdiv Period
                  in fold (\<lambda>w ok. if subtleEqual (codeRaw k raw (now + w)) code then True else ok)
                       [- Window..Window] False)"

text \<open>Path and query escaping of \<open>net/url\<close>.\<close>

definition is_alnum :: "char \<Rightarrow> bool" where
  "is_alnum c \<longleftrightarrow> (let n = byte_of c in (48 \<le> n \<and> n \<le> 57) \<or> (65 \<le> n \<and> n \<le> 90) \<or> (97 \<le> n \<and> n \<le> 122))"

definition percent :: "char \<Rightarrow> string" where
  "percent c = CHR ''%'' # map to_upper_char (hex_byte (of_nat (byte_of c)))"

definition PathEscape :: "string \<Rightarrow> string" where
  "PathEscape s = concat (map (\<lambda>c. if is_alnum c \<or> c \<in> set ''-_.~$&+=:@'' then [c] else percent c) s)"

definition QueryEscape :: "string \<Rightarrow> string" where
  "QueryEscape s = concat (map (\<lambda>c. if is_alnum c \<or> c \<in> set ''-_.~'' then [c]
     else if c = CHR '' '' then ''+'' else percent c) s)"

definition OTPAuthURI :: "string \<Rightarrow> string \<Rightarrow> string \<Rightarrow> string" where
  "OTPAuthURI issuer account secret =
     ''otpauth://totp/'' @ PathEscape issuer @ '':'' @ PathEscape account @ ''?algorithm=SHA1&digits=''
       @ itoa (int Digits) @ ''&issuer='' @ QueryEscape issuer @ ''&period='' @ itoa Period
       @ ''&secret='' @ QueryEscape (to_upper secret)"

definition HashRecoveryCode :: "su_crypto \<Rightarrow> string \<Rightarrow> string" where
  "HashRecoveryCode k code = (let norm = to_upper (trim_space code)
     in hex_encode (map (\<lambda>c. of_nat (byte_of c)) (sha256_sum k norm)))"

text \<open>One draw of five bytes for each code.\<close>

definition recovery_code :: "string \<Rightarrow> string" where
  "recovery_code raw = (let enc = b32_encode raw in take 4 enc @ ''-'' @ drop 4 enc)"

definition GenerateRecoveryCodes :: "su_crypto \<Rightarrow> string list \<Rightarrow> string list \<times> string list" where
  "GenerateRecoveryCodes k raws =
     (let codes = map recovery_code raws in (codes, map (HashRecoveryCode k) codes))"

section \<open>Sealing\<close>

record sealer =
  slKey :: string
  slDevKey :: bool

definition devSealKey :: string where
  "devSealKey = ''meridian-stepup-dev-seal-change-me''"

definition NewSealer :: "su_crypto \<Rightarrow> string \<Rightarrow> string \<Rightarrow> string + sealer" where
  "NewSealer k env_key profile =
     (if env_key = '''' \<and> profile = ''prod''
      then Inl ''stepup: PROFILE=prod requires STEPUP_SEAL_KEY (fail-closed)''
      else let p = (if env_key = '''' then devSealKey else env_key)
           in Inr \<lparr>slKey = sha256_sum k p, slDevKey = (p = devSealKey)\<rparr>)"

text \<open>An AES key has 16, 24 or 32 bytes; the nonce of GCM has 12.\<close>

definition gcm_new :: "sealer \<Rightarrow> bool" where
  "gcm_new s \<longleftrightarrow> length (slKey s) \<in> {16, 24, 32}"

definition NonceSize :: nat where "NonceSize = 12"

definition sealer_Seal :: "su_crypto \<Rightarrow> sealer \<Rightarrow> string \<Rightarrow> string \<Rightarrow> string + string" where
  "sealer_Seal k s nonce plaintext =
     (if \<not> gcm_new s then Inl ''crypto/aes: invalid key size''
      else Inr (raw_std_encode (nonce @ gcm_seal k (slKey s) nonce plaintext)))"

definition sealer_Open :: "su_crypto \<Rightarrow> sealer \<Rightarrow> string \<Rightarrow> string + string" where
  "sealer_Open k s sealed =
     (if \<not> gcm_new s then Inl ''crypto/aes: invalid key size''
      else case raw_std_decode sealed of
        None \<Rightarrow> Inl ''stepup: sealed secret encoding''
      | Some raw \<Rightarrow>
          if length raw < NonceSize then Inl ''stepup: sealed secret truncated''
          else (case gcm_open k (slKey s) (take NonceSize raw) (drop NonceSize raw) of
              None \<Rightarrow> Inl ''stepup: sealed secret open'' | Some pt \<Rightarrow> Inr pt))"

section \<open>Enrolment records\<close>

record su_record =
  srActor :: string
  SealedSecret :: string
  RecoveryHashes :: "string list"
  srEnabled :: bool
  srCreatedAt :: instant
  ConfirmedAt :: "instant option"

datatype su_err = ErrNotEnrolled | ErrNotConfirmed | ErrBadCode | ErrSealing string

type_synonym enrolments = "(string, su_record) kv"

definition mem_Get :: "string \<Rightarrow> enrolments \<Rightarrow> su_err + su_record" where
  "mem_Get actor m = (case map_of m actor of None \<Rightarrow> Inl ErrNotEnrolled | Some r \<Rightarrow> Inr r)"

definition mem_Put :: "su_record \<Rightarrow> enrolments \<Rightarrow> enrolments" where
  "mem_Put r m = kv_put (srActor r) r m"

definition mem_Delete :: "string \<Rightarrow> enrolments \<Rightarrow> enrolments" where
  "mem_Delete actor m = kv_del actor m"

section \<open>The enrolment service\<close>

record su_service =
  suSealer :: sealer
  Issuer :: string

definition NewService :: "su_crypto \<Rightarrow> string \<Rightarrow> string \<Rightarrow> string \<Rightarrow> string + su_service" where
  "NewService k env_key profile issuer = (case NewSealer k env_key profile of
       Inl e \<Rightarrow> Inl e
     | Inr s \<Rightarrow> Inr \<lparr>suSealer = s, Issuer = (if issuer = '''' then ''Meridian'' else issuer)\<rparr>)"

text \<open>The random bytes one enrolment draws: the secret, the nonce, and five for each recovery code.\<close>

record su_draw =
  dwSecret :: string
  dwNonce :: string
  dwCodes :: "string list"

definition Enroll :: "su_crypto \<Rightarrow> su_service \<Rightarrow> su_draw \<Rightarrow> string \<Rightarrow> instant \<Rightarrow> enrolments
     \<Rightarrow> (su_err + string \<times> string \<times> string list) \<times> enrolments" where
  "Enroll k sv dw actor now m =
     (let secret = GenerateSecret (dwSecret dw)
      in case sealer_Seal k (suSealer sv) (dwNonce dw) secret of
           Inl e \<Rightarrow> (Inl (ErrSealing e), m)
         | Inr sealed \<Rightarrow>
             (let (codes, hashes) = GenerateRecoveryCodes k (dwCodes dw);
                  r = \<lparr>srActor = actor, SealedSecret = sealed, RecoveryHashes = hashes,
                       srEnabled = False, srCreatedAt = now, ConfirmedAt = None\<rparr>
              in (Inr (secret, OTPAuthURI (Issuer sv) actor secret, codes), mem_Put r m)))"

definition Confirm :: "su_crypto \<Rightarrow> su_service \<Rightarrow> string \<Rightarrow> string \<Rightarrow> instant \<Rightarrow> enrolments
     \<Rightarrow> su_err option \<times> enrolments" where
  "Confirm k sv actor code now m =
     (case mem_Get actor m of
        Inl e \<Rightarrow> (Some e, m)
      | Inr r \<Rightarrow> (case sealer_Open k (suSealer sv) (SealedSecret r) of
          Inl e \<Rightarrow> (Some (ErrSealing e), m)
        | Inr secret \<Rightarrow>
            if \<not> Validate k secret code now then (Some ErrBadCode, m)
            else (None, mem_Put (r\<lparr>srEnabled := True, ConfirmedAt := Some now\<rparr>) m)))"

definition Disable :: "string \<Rightarrow> enrolments \<Rightarrow> enrolments" where
  "Disable actor m = mem_Delete actor m"

definition Enrolled :: "string \<Rightarrow> enrolments \<Rightarrow> bool" where
  "Enrolled actor m = (case mem_Get actor m of Inl _ \<Rightarrow> False | Inr r \<Rightarrow> srEnabled r)"

text \<open>\<open>VerifyCode\<close> reads the record, decides, and writes the record back when a recovery code was
  used; the store's lock is not held in between, so the two halves are separate operations.\<close>

fun burn :: "string \<Rightarrow> string list \<Rightarrow> string list option" where
  "burn h [] = None"
| "burn h (x # xs) = (if x = h then Some xs else map_option (Cons x) (burn h xs))"

definition verify_decide :: "su_crypto \<Rightarrow> su_service \<Rightarrow> su_record \<Rightarrow> string \<Rightarrow> instant
     \<Rightarrow> su_err + su_record option" where
  "verify_decide k sv r code now =
     (if \<not> srEnabled r then Inl ErrNotConfirmed
      else case sealer_Open k (suSealer sv) (SealedSecret r) of
        Inl e \<Rightarrow> Inl (ErrSealing e)
      | Inr secret \<Rightarrow>
          if Validate k secret code now then Inr None
          else (case burn (HashRecoveryCode k code) (RecoveryHashes r) of
              Some hs \<Rightarrow> Inr (Some (r\<lparr>RecoveryHashes := hs\<rparr>))
            | None \<Rightarrow> Inl ErrBadCode))"

definition VerifyCode :: "su_crypto \<Rightarrow> su_service \<Rightarrow> string \<Rightarrow> string \<Rightarrow> instant \<Rightarrow> enrolments
     \<Rightarrow> su_err option \<times> enrolments" where
  "VerifyCode k sv actor code now m =
     (case mem_Get actor m of
        Inl e \<Rightarrow> (Some e, m)
      | Inr r \<Rightarrow> (case verify_decide k sv r code now of
          Inl e \<Rightarrow> (Some e, m)
        | Inr None \<Rightarrow> (None, m)
        | Inr (Some r1) \<Rightarrow> (None, mem_Put r1 m)))"

section \<open>Shape and window of the codes\<close>

lemma fold_or_zero:
  "fold (\<lambda>p v. v OR f p) xs v = (0 :: u8) \<longleftrightarrow> v = 0 \<and> (\<forall>p \<in> set xs. f p = 0)"
  by (induction xs arbitrary: v) (auto simp: or_eq_0_iff)

lemma unat_byte [simp]: "unat (of_nat (byte_of a) :: u8) = byte_of a"
  using byte_of_bound [of a] by (simp add: unsigned_of_nat take_bit_nat_eq_self_iff)

lemma byte_word_eq: "(of_nat (byte_of a) :: u8) = of_nat (byte_of b) \<longleftrightarrow> a = b"
  using unat_byte [of a] unat_byte [of b] byte_of_eq [of a b] by metis

lemma subtleEqual_eq [simp]: "subtleEqual a b \<longleftrightarrow> a = b"
proof -
  have x: "x XOR y = 0 \<longleftrightarrow> x = y" for x y :: u8
    by (metis xor.assoc xor.left_neutral xor.right_neutral xor_self_eq)
  have "fold (\<lambda>(x, y) v. v OR ((of_nat (byte_of x) :: u8) XOR of_nat (byte_of y))) (zip a b) (0 :: u8) = 0
      \<longleftrightarrow> (\<forall>p \<in> set (zip a b). fst p = snd p)"
    using fold_or_zero [of "\<lambda>p. (of_nat (byte_of (fst p)) :: u8) XOR of_nat (byte_of (snd p))" "zip a b" 0]
    by (simp add: case_prod_unfold x byte_word_eq)
  then show ?thesis
    by (auto simp: subtleEqual_def list_eq_iff_zip_eq)
qed

lemma dec_digits_digits: "c \<in> set (dec_digits w n) \<Longrightarrow> is_digit c"
proof (induction w arbitrary: n)
  case (Suc w)
  have "is_digit (char_of (48 + n mod 10))"
  proof -
    have "n mod 10 \<in> {0..<10}" by simp
    then obtain m :: nat where m: "n mod 10 = int m" "m < 10"
      by (metis atLeastLessThan_iff nonneg_int_cases of_nat_less_numeral_iff)
    have "(char_of (48 + n mod 10) :: char) = char_of (48 + m)"
      unfolding m(1) by (metis char_of_nat of_nat_add of_nat_numeral)
    with m(2) show ?thesis by (simp add: is_digit_def byte_of_def)
  qed
  with Suc show ?case by auto
qed simp

lemma codeRaw_shape: "length (codeRaw k raw step) = 6" "list_all is_digit (codeRaw k raw step)"
  by (simp_all add: codeRaw_def Let_def pad_def Digits_def list_all_iff dec_digits_digits)

lemma dropWhile_none: "(\<And>c. c \<in> set s \<Longrightarrow> \<not> P c) \<Longrightarrow> dropWhile P s = s"
  by (cases s) auto

lemma trim_none: "(\<And>c. c \<in> set s \<Longrightarrow> \<not> is_space c) \<Longrightarrow> trim_space s = s"
  using dropWhile_none [of s is_space] dropWhile_none [of "rev s" is_space] by (simp add: trim_space_def)

lemma trim_digits: "list_all is_digit s \<Longrightarrow> trim_space s = s"
  by (rule trim_none) (auto simp: list_all_iff is_digit_def is_space_def)

lemma window_steps: "[- Window..Window] = [-1, 0, 1]"
  by (simp add: Window_def upto.simps)

lemma Validate_raw:
  assumes "decodeSecret secret = Inr raw"
  shows "Validate k secret code t \<longleftrightarrow>
     (\<exists>w \<in> {-1, 0, 1}. trim_space code = codeRaw k raw (unix t sdiv Period + w))"
proof (cases "length (trim_space code) = 6")
  case True
  define c where "c = trim_space code"
  define f where "f = (\<lambda>w. codeRaw k raw (unix t sdiv Period + w))"
  have "Validate k secret code t \<longleftrightarrow> (f 1 = c \<or> f 0 = c \<or> f (-1) = c)"
    using assms True unfolding Validate_def window_steps
    by (simp add: Let_def Digits_def f_def c_def)
  moreover have "(f 1 = c \<or> f 0 = c \<or> f (-1) = c) \<longleftrightarrow> (\<exists>w \<in> {-1, 0, 1}. c = f w)" by blast
  ultimately show ?thesis by (simp only: f_def c_def)
next
  case False
  then have "trim_space code \<noteq> codeRaw k raw n" for n
    using codeRaw_shape(1) [of k raw n] by metis
  moreover have "\<not> Validate k secret code t"
    using assms False by (simp add: Validate_def Let_def Digits_def)
  ultimately show ?thesis by simp
qed

lemma Validate_iff:
  "Validate k secret code t \<longleftrightarrow> (\<exists>raw. decodeSecret secret = Inr raw
      \<and> (\<exists>w \<in> {-1, 0, 1}. trim_space code = codeRaw k raw (unix t sdiv Period + w)))"
proof (cases "decodeSecret secret")
  case (Inl e)
  then show ?thesis by (simp add: Validate_def)
next
  case (Inr raw)
  then show ?thesis using Validate_raw [OF Inr] by simp
qed

section \<open>Secrets\<close>

lemma filter_b32: "\<forall>x \<in> set xs. x < 32 \<Longrightarrow> filter (\<lambda>c. c \<noteq> CHR '' '') (map b32_digit xs) = map b32_digit xs"
  by (induction xs) (simp_all add: b32_digit_props)

lemma decodeSecret_generated:
  assumes "10 \<le> length raw"
  shows "decodeSecret (GenerateSecret raw) = Inr raw"
proof -
  obtain xs where xs: "b32_encode raw = map b32_digit xs" "\<forall>x \<in> set xs. x < 32"
    by (rule b32_encode_digits)
  let ?s = "b32_encode raw"
  have p: "\<not> is_space c" "c \<noteq> CHR ''=''" "to_upper_char c = c" if "c \<in> set ?s" for c
    using that xs by (auto simp: b32_digit_props)
  have "trim_space ?s = ?s" using p(1) by (rule trim_none)
  moreover have "filter (\<lambda>c. c \<noteq> CHR '' '') ?s = ?s" using filter_b32 xs by simp
  moreover have "to_upper ?s = ?s" using p(3) by (simp add: to_upper_def map_idI)
  moreover have "dropWhile (\<lambda>c. c = CHR ''='') (rev ?s) = rev ?s"
    using p(2) by (intro dropWhile_none) simp
  ultimately show ?thesis
    using assms by (simp add: decodeSecret_def GenerateSecret_def Let_def)
qed

text \<open>What AES-GCM promises: opening what was sealed under the same key and nonce gives it back.\<close>

definition gcm_opens :: "su_crypto \<Rightarrow> bool" where
  "gcm_opens k \<longleftrightarrow> (\<forall>key n p. gcm_open k key n (gcm_seal k key n p) = Some p)"

lemma sealer_round_trip:
  assumes "gcm_opens k" "length nonce = NonceSize" "sealer_Seal k s nonce p = Inr sealed"
  shows "sealer_Open k s sealed = Inr p"
proof -
  have "gcm_new s" "sealed = raw_std_encode (nonce @ gcm_seal k (slKey s) nonce p)"
    using assms(3) by (auto simp: sealer_Seal_def split: if_splits)
  then show ?thesis using assms(1,2) by (simp add: sealer_Open_def gcm_opens_def)
qed

section \<open>Runs of the service\<close>

datatype su_op =
    SuEnroll su_draw string instant
  | SuConfirm string string instant
  | SuVerify string string instant
  | SuDisable string

fun su_exec :: "su_crypto \<Rightarrow> su_service \<Rightarrow> su_op \<Rightarrow> enrolments \<Rightarrow> enrolments" where
  "su_exec k sv (SuEnroll dw a t) m = snd (Enroll k sv dw a t m)"
| "su_exec k sv (SuConfirm a c t) m = snd (Confirm k sv a c t m)"
| "su_exec k sv (SuVerify a c t) m = snd (VerifyCode k sv a c t m)"
| "su_exec k sv (SuDisable a) m = Disable a m"

definition su_run :: "su_crypto \<Rightarrow> su_service \<Rightarrow> su_op list \<Rightarrow> enrolments \<Rightarrow> enrolments" where
  "su_run k sv ops m = fold (su_exec k sv) ops m"

text \<open>Every record is filed under its actor, an enabled one was confirmed, and at most ten recovery
  codes are left.\<close>

definition su_rec_ok :: "string \<Rightarrow> su_record \<Rightarrow> bool" where
  "su_rec_ok a r \<longleftrightarrow> srActor r = a \<and> (srEnabled r \<longrightarrow> ConfirmedAt r \<noteq> None)
     \<and> length (RecoveryHashes r) \<le> RecoveryCount"

definition su_ok :: "enrolments \<Rightarrow> bool" where
  "su_ok m \<longleftrightarrow> (\<forall>a r. map_of m a = Some r \<longrightarrow> su_rec_ok a r)"

fun su_op_ok :: "su_op \<Rightarrow> bool" where
  "su_op_ok (SuEnroll dw a t) \<longleftrightarrow> length (dwSecret dw) = SecretBytes \<and> length (dwNonce dw) = NonceSize
     \<and> length (dwCodes dw) = RecoveryCount"
| "su_op_ok _ \<longleftrightarrow> True"

lemma burn_remove1: "burn h hs = (if h \<in> set hs then Some (remove1 h hs) else None)"
  by (induction hs) auto

lemma verify_decide_Some:
  assumes "verify_decide k sv r code now = Inr (Some r1)"
  shows "r1 = r\<lparr>RecoveryHashes := remove1 (HashRecoveryCode k code) (RecoveryHashes r)\<rparr>"
    "srEnabled r" "HashRecoveryCode k code \<in> set (RecoveryHashes r)"
  using assms by (auto simp: verify_decide_def burn_remove1 split: if_splits sum.splits)

text \<open>What each operation leaves of an actor's record.\<close>

lemma VerifyCode_cases:
  obtains (same) "snd (VerifyCode k sv a code t m) = m"
  | (burned) r where "map_of m a = Some r" "srEnabled r" "HashRecoveryCode k code \<in> set (RecoveryHashes r)"
      "VerifyCode k sv a code t m = (None, mem_Put
         (r\<lparr>RecoveryHashes := remove1 (HashRecoveryCode k code) (RecoveryHashes r)\<rparr>) m)"
proof (cases "map_of m a")
  case None
  then show ?thesis by (intro same) (simp add: VerifyCode_def mem_Get_def)
next
  case (Some r)
  show ?thesis
  proof (cases "\<exists>r1. verify_decide k sv r code t = Inr (Some r1)")
    case True
    then obtain r1 where d: "verify_decide k sv r code t = Inr (Some r1)" by blast
    with Some verify_decide_Some [OF d] show ?thesis
      by (intro burned) (simp_all add: VerifyCode_def mem_Get_def)
  next
    case False
    then show ?thesis using Some
      by (intro same) (auto simp: VerifyCode_def mem_Get_def split: sum.splits option.splits)
  qed
qed

lemma Confirm_cases:
  obtains (same) "snd (Confirm k sv a code t m) = m"
  | (confirmed) r secret where "map_of m a = Some r" "sealer_Open k (suSealer sv) (SealedSecret r) = Inr secret"
      "Validate k secret code t"
      "Confirm k sv a code t m = (None, mem_Put (r\<lparr>srEnabled := True, ConfirmedAt := Some t\<rparr>) m)"
proof (cases "map_of m a")
  case None
  then show ?thesis by (intro same) (simp add: Confirm_def mem_Get_def)
next
  case (Some r)
  show ?thesis
  proof (cases "\<exists>secret. sealer_Open k (suSealer sv) (SealedSecret r) = Inr secret \<and> Validate k secret code t")
    case True
    then obtain secret where "sealer_Open k (suSealer sv) (SealedSecret r) = Inr secret"
      "Validate k secret code t" by blast
    with Some show ?thesis by (intro confirmed) (simp_all add: Confirm_def mem_Get_def)
  next
    case False
    then show ?thesis using Some
      by (intro same) (auto simp: Confirm_def mem_Get_def split: sum.splits)
  qed
qed

lemma Enroll_cases:
  obtains (same) "snd (Enroll k sv dw a t m) = m"
  | (enrolled) sealed where "sealer_Seal k (suSealer sv) (dwNonce dw) (GenerateSecret (dwSecret dw)) = Inr sealed"
      "snd (Enroll k sv dw a t m) = mem_Put \<lparr>srActor = a, SealedSecret = sealed,
         RecoveryHashes = map (HashRecoveryCode k) (map recovery_code (dwCodes dw)),
         srEnabled = False, srCreatedAt = t, ConfirmedAt = None\<rparr> m"
  by (cases "sealer_Seal k (suSealer sv) (dwNonce dw) (GenerateSecret (dwSecret dw))")
     (auto simp: Enroll_def GenerateRecoveryCodes_def Let_def intro: same enrolled)

lemma su_ok_put: "su_ok m \<Longrightarrow> su_rec_ok (srActor r) r \<Longrightarrow> su_ok (mem_Put r m)"
  by (auto simp: su_ok_def mem_Put_def)

lemma su_ok_get: "su_ok m \<Longrightarrow> map_of m a = Some r \<Longrightarrow> su_rec_ok a r"
  by (simp add: su_ok_def)

lemma su_exec_ok:
  assumes "su_ok m" "su_op_ok p"
  shows "su_ok (su_exec k sv p m)"
proof (cases p)
  case (SuEnroll dw a t)
  then show ?thesis
  proof (cases k sv dw a t m rule: Enroll_cases)
    case (enrolled sealed)
    then show ?thesis using assms SuEnroll
      by (auto intro!: su_ok_put simp: su_rec_ok_def)
  qed (use assms in simp)
next
  case (SuConfirm a c t)
  then show ?thesis
  proof (cases k sv a c t m rule: Confirm_cases)
    case (confirmed r secret)
    then show ?thesis using assms SuConfirm su_ok_get [OF assms(1) confirmed(1)]
      by (auto intro!: su_ok_put simp: su_rec_ok_def)
  qed (use assms in simp)
next
  case (SuVerify a c t)
  then show ?thesis
  proof (cases k sv a c t m rule: VerifyCode_cases)
    case (burned r)
    then show ?thesis using assms SuVerify su_ok_get [OF assms(1) burned(1)]
      by (auto intro!: su_ok_put simp: su_rec_ok_def length_remove1)
  qed (use assms in simp)
next
  case (SuDisable a)
  then show ?thesis using assms by (auto simp: Disable_def mem_Delete_def su_ok_def)
qed

lemma su_run_ok: "su_ok m \<Longrightarrow> \<forall>p \<in> set ops. su_op_ok p \<Longrightarrow> su_ok (su_run k sv ops m)"
  by (induction ops arbitrary: m) (simp_all add: su_run_def su_exec_ok)

section \<open>The life of an enrolment\<close>

lemma Validate_Code:
  assumes "Code_at k secret t = Inr c"
  shows "Validate k secret c t"
proof -
  obtain raw where raw: "decodeSecret secret = Inr raw" "c = codeRaw k raw (unix t sdiv Period)"
    using assms by (auto simp: Code_at_def split: sum.splits)
  have "trim_space c = c" using raw(2) codeRaw_shape trim_digits by blast
  then show ?thesis
    unfolding Validate_raw [OF raw(1)] using raw(2) by (auto intro: bexI [of _ 0])
qed

lemma Enroll_ok:
  assumes "Enroll k sv dw a t m = (Inr (secret, uri, codes), m1)"
  obtains sealed where "secret = GenerateSecret (dwSecret dw)" "codes = map recovery_code (dwCodes dw)"
    "sealer_Seal k (suSealer sv) (dwNonce dw) secret = Inr sealed"
    "m1 = mem_Put \<lparr>srActor = a, SealedSecret = sealed, RecoveryHashes = map (HashRecoveryCode k) codes,
        srEnabled = False, srCreatedAt = t, ConfirmedAt = None\<rparr> m"
  using assms
  by (cases "sealer_Seal k (suSealer sv) (dwNonce dw) (GenerateSecret (dwSecret dw))")
     (auto simp: Enroll_def GenerateRecoveryCodes_def Let_def)

lemma VerifyCode_record:
  assumes "map_of m a = Some r" "srEnabled r" "sealer_Open k (suSealer sv) (SealedSecret r) = Inr secret"
  shows "VerifyCode k sv a code t m =
     (if Validate k secret code t then (None, m)
      else if HashRecoveryCode k code \<in> set (RecoveryHashes r)
      then (None, mem_Put (r\<lparr>RecoveryHashes := remove1 (HashRecoveryCode k code) (RecoveryHashes r)\<rparr>) m)
      else (Some ErrBadCode, m))"
  using assms by (simp add: VerifyCode_def mem_Get_def verify_decide_def burn_remove1)

lemma enrolment_starts_disabled:
  assumes "Enroll k sv dw a t m = (Inr (secret, uri, codes), m1)"
  shows "\<not> Enrolled a m1" "VerifyCode k sv a code t' m1 = (Some ErrNotConfirmed, m1)"
  by (rule Enroll_ok [OF assms], simp add: Enrolled_def mem_Get_def mem_Put_def VerifyCode_def
        verify_decide_def)+

lemma enrolment_confirms:
  assumes "gcm_opens k" "length (dwNonce dw) = NonceSize"
    and "Enroll k sv dw a t m = (Inr (secret, uri, codes), m1)" "Validate k secret c t1"
  obtains m2 r where "Confirm k sv a c t1 m1 = (None, m2)" "map_of m2 a = Some r" "srEnabled r"
    "sealer_Open k (suSealer sv) (SealedSecret r) = Inr secret" "srActor r = a"
    "RecoveryHashes r = map (HashRecoveryCode k) codes"
proof (rule Enroll_ok [OF assms(3)])
  fix sealed
  assume "sealer_Seal k (suSealer sv) (dwNonce dw) secret = Inr sealed"
    and m1: "m1 = mem_Put \<lparr>srActor = a, SealedSecret = sealed, RecoveryHashes = map (HashRecoveryCode k) codes,
        srEnabled = False, srCreatedAt = t, ConfirmedAt = None\<rparr> m"
  then have o: "sealer_Open k (suSealer sv) sealed = Inr secret"
    using sealer_round_trip [OF assms(1,2)] by blast
  let ?r = "\<lparr>srActor = a, SealedSecret = sealed, RecoveryHashes = map (HashRecoveryCode k) codes,
        srEnabled = True, srCreatedAt = t, ConfirmedAt = Some t1\<rparr>"
  have "Confirm k sv a c t1 m1 = (None, mem_Put ?r m1)"
    using m1 o assms(4) by (simp add: Confirm_def mem_Get_def mem_Put_def)
  then show ?thesis by (rule that [where r = ?r]) (simp_all add: mem_Put_def o)
qed

section \<open>A used recovery code\<close>

definition enrols :: "string \<Rightarrow> su_op \<Rightarrow> bool" where
  "enrols a p = (case p of SuEnroll _ b _ \<Rightarrow> b = a | _ \<Rightarrow> False)"

text \<open>Between two enrolments of an actor its secret stays and its codes only dwindle.\<close>

definition wanes :: "su_record \<Rightarrow> su_record \<Rightarrow> bool" where
  "wanes r r' \<longleftrightarrow> SealedSecret r' = SealedSecret r \<and> set (RecoveryHashes r') \<subseteq> set (RecoveryHashes r)"

lemma mem_Put_other: "map_of (mem_Put r m) a = (if a = srActor r then Some r else map_of m a)"
  by (simp add: mem_Put_def)

lemma su_exec_wanes:
  assumes "su_ok m" "\<not> enrols a p" "map_of (su_exec k sv p m) a = Some r'"
  shows "\<exists>r. map_of m a = Some r \<and> wanes r r'"
proof (cases p)
  case (SuEnroll dw b t)
  with assms(2) have "b \<noteq> a" by (simp add: enrols_def)
  then show ?thesis using assms(3) SuEnroll
    by (cases k sv dw b t m rule: Enroll_cases) (auto simp: mem_Put_other wanes_def)
next
  case (SuConfirm b c t)
  then show ?thesis
  proof (cases k sv b c t m rule: Confirm_cases)
    case (confirmed r secret)
    then have "srActor r = b" using su_ok_get [OF assms(1) confirmed(1)] by (simp add: su_rec_ok_def)
    then show ?thesis using assms(3) SuConfirm confirmed
      by (auto simp: mem_Put_other wanes_def split: if_splits)
  qed (use assms in \<open>simp add: wanes_def\<close>)
next
  case (SuVerify b c t)
  then show ?thesis
  proof (cases k sv b c t m rule: VerifyCode_cases)
    case (burned r)
    then have "srActor r = b" using su_ok_get [OF assms(1) burned(1)] by (simp add: su_rec_ok_def)
    then show ?thesis using assms(3) SuVerify burned
      using set_remove1_subset by (fastforce simp: mem_Put_other wanes_def split: if_splits)
  qed (use assms in \<open>simp add: wanes_def\<close>)
next
  case (SuDisable b)
  then show ?thesis using assms(3) by (auto simp: Disable_def mem_Delete_def wanes_def split: if_splits)
qed

lemma su_run_wanes:
  assumes "su_ok m" "\<forall>p \<in> set ops. su_op_ok p \<and> \<not> enrols a p"
    and "map_of (su_run k sv ops m) a = Some r'"
  shows "\<exists>r. map_of m a = Some r \<and> wanes r r'"
  using assms
proof (induction ops arbitrary: m)
  case Nil
  then show ?case by (simp add: su_run_def wanes_def)
next
  case (Cons p ops)
  have "su_ok (su_exec k sv p m)" using Cons.prems by (simp add: su_exec_ok)
  moreover have "map_of (su_run k sv ops (su_exec k sv p m)) a = Some r'"
    using Cons.prems(3) by (simp add: su_run_def)
  ultimately obtain r1 where r1: "map_of (su_exec k sv p m) a = Some r1" "wanes r1 r'"
    using Cons.IH Cons.prems(2) by auto
  from su_exec_wanes [OF Cons.prems(1) _ r1(1)] Cons.prems(2)
  obtain r where "map_of m a = Some r" "wanes r r1" by auto
  with r1(2) show ?case by (auto simp: wanes_def)
qed

lemma recovery_code_burned:
  assumes ok: "su_ok m" "map_of m a = Some r" and d: "distinct (RecoveryHashes r)"
    and len: "length (trim_space code) \<noteq> Digits"
    and v: "VerifyCode k sv a code t m = (None, m1)" and ops: "\<forall>p \<in> set ops. su_op_ok p \<and> \<not> enrols a p"
  shows "fst (VerifyCode k sv a code t2 (su_run k sv ops m1)) \<noteq> None"
proof -
  let ?h = "HashRecoveryCode k code"
  have nv: "\<not> Validate k secret code t" for secret t
    using len by (auto simp: Validate_def Let_def split: sum.splits)
  have a: "srActor r = a" using su_ok_get [OF ok] by (simp add: su_rec_ok_def)
  obtain secret where o: "srEnabled r" "sealer_Open k (suSealer sv) (SealedSecret r) = Inr secret"
    using v ok(2) by (auto simp: VerifyCode_def mem_Get_def verify_decide_def split: if_splits sum.splits)
  let ?r1 = "r\<lparr>RecoveryHashes := remove1 ?h (RecoveryHashes r)\<rparr>"
  have m1: "m1 = mem_Put ?r1 m" using VerifyCode_record [OF ok(2) o, of code t] v nv by (auto split: if_splits)
  have ok1: "su_ok m1" using su_exec_ok [OF ok(1), of "SuVerify a code t" k sv] v by simp
  have gone: "?h \<notin> set (RecoveryHashes ?r1)" using d by simp
  show ?thesis
  proof (cases "map_of (su_run k sv ops m1) a")
    case None
    then show ?thesis by (simp add: VerifyCode_def mem_Get_def)
  next
    case (Some r')
    from su_run_wanes [OF ok1 ops Some] m1 a have "wanes ?r1 r'" by (simp add: mem_Put_other)
    then have "?h \<notin> set (RecoveryHashes r')" using gone by (auto simp: wanes_def)
    with Some nv show ?thesis
      by (auto simp: VerifyCode_def mem_Get_def verify_decide_def burn_remove1 split: sum.splits)
  qed
qed

text \<open>Two requests with one code, the first write of which comes after the second read.\<close>

definition overlapping_verify :: "su_crypto \<Rightarrow> su_service \<Rightarrow> string \<Rightarrow> string \<Rightarrow> instant \<Rightarrow> instant
     \<Rightarrow> enrolments \<Rightarrow> (su_err option \<times> su_err option) \<times> enrolments" where
  "overlapping_verify k sv a code t1 t2 m =
     (let first = VerifyCode k sv a code t1 m;
          second = (case mem_Get a m of
              Inl e \<Rightarrow> (Some e, snd first)
            | Inr r \<Rightarrow> (case verify_decide k sv r code t2 of
                Inl e \<Rightarrow> (Some e, snd first)
              | Inr None \<Rightarrow> (None, snd first)
              | Inr (Some r1) \<Rightarrow> (None, mem_Put r1 (snd first))))
      in ((fst first, fst second), snd second))"

lemma overlapping_verify_both:
  assumes "map_of m a = Some r" "srEnabled r" "sealer_Open k (suSealer sv) (SealedSecret r) = Inr secret"
    and "HashRecoveryCode k code \<in> set (RecoveryHashes r)"
  shows "fst (overlapping_verify k sv a code t1 t2 m) = (None, None)"
  using assms
  by (simp add: overlapping_verify_def VerifyCode_record mem_Get_def verify_decide_def burn_remove1 Let_def)

end
