(* ===== verification/AdminApi.thy ===== *)
theory AdminApi
  imports AdminAuth StepUp
begin

text \<open>
  The admin service (\<open>services/admin-api\<close>): its state (\<open>models.go\<close>, \<open>store.go\<close>), the forwarding of
  audit events (\<open>handlers_data.go\<close>), login and the user table with its Postgres write-through
  (\<open>handlers_admin.go\<close>, \<open>store_pg.go\<close>), step-up (\<open>stepup.go\<close>) and the ledger money routes
  (\<open>handlers_ledger.go\<close>). Requests arrive decoded (\<open>None\<close> is a body that is not the expected JSON);
  clock readings, random bytes and the outcome of each call to another service are arguments.
\<close>

section \<open>State\<close>

record tenant =
  tnID :: string
  tnName :: string
  tnSlug :: string
  Isolation :: string
  tnStatus :: string
  ContactMail :: string
  tnCreatedAt :: string
  tnNotes :: string

record gate =
  gtID :: string
  gtName :: string
  gtDescription :: string
  gtState :: bool
  ArmedBy :: string
  gtUpdatedAt :: string
  gtSource :: string

record aevent =
  aevID :: string
  aevType :: string
  aevSubject :: string
  aevActor :: string
  aevAction :: string
  aevDetail :: string
  aevTenantID :: string
  aevTraceID :: string
  aevRulePack :: string
  aevTimestamp :: string

record aevidence =
  avID :: string
  avKind :: string
  avSHA256 :: string
  WORMURI :: string
  avSizeBytes :: int
  avContent :: string
  avCreatedBy :: string
  avCreatedAt :: string
  avImmutable :: bool

record freceipt =
  frID :: string
  frFlow :: string
  frCorrelation :: string
  frSender :: string
  frWORMURI :: string
  frSHA256 :: string
  frStatus :: string
  frDetail :: string
  frTimestamp :: string

record laccount =
  laID :: string
  laLedger :: int
  laCode :: int
  laOwner :: string
  laCurrency :: string
  laBalance :: "64 word"  \<comment> \<open>an \<open>int64\<close>: its sums wrap\<close>
  laFlags :: string

record ltransfer =
  ltID :: string
  ltDebit :: string
  ltCredit :: string
  ltAmount :: "64 word"
  ltLedger :: int
  ltCode :: int
  ltState :: string
  ltCreatedAt :: string

record apikey =
  akID :: string
  akName :: string
  akPrefix :: string
  akScopes :: string
  akCreatedAt :: string
  akRevoked :: bool
  SecretTail :: string

record wf_def =
  wdID :: string
  wdName :: string
  wdPlane :: string
  wdDescription :: string
  Triggerable :: bool

record wf_run =
  wrID :: string
  wrWorkflow :: string
  wrStatus :: string
  wrTriggered :: string
  wrInput :: string
  wrStarted :: string
  wrFinished :: string

text \<open>The descriptive fields of a registry entry are left out; no operation reads them.\<close>

record svc_entry =
  seBaseURL :: string
  seEnabled :: bool
  HealthStatus :: string

text \<open>\<open>wormTrail\<close> are the events the audit service has acknowledged, \<open>inFlight\<close> those a flush has
  taken from the queue and not yet put back. \<open>pgTable\<close> is the table \<open>admin_users\<close>, \<open>None\<close> without
  \<open>DATABASE_URL\<close>.\<close>

record adm =
  Users :: users
  pgTable :: "users option"
  Tenants :: "(string, tenant) kv"
  Services :: "(string, svc_entry) kv"
  Gates :: "(string, gate) kv"
  Receipts :: "freceipt list"
  Forbidden :: "freceipt list"
  AuditEvents :: "aevent list"
  auditQueue :: "aevent list"
  inFlight :: "aevent list"
  wormTrail :: "aevent list"
  EvidenceObjs :: "(string, aevidence) kv"
  LedgerAccounts :: "(string, laccount) kv"
  LedgerTransfers :: "(string, ltransfer) kv"
  WorkflowDefs :: "wf_def list"
  WorkflowRuns :: "wf_run list"
  Flags :: "(string, bool) kv"
  APIKeys :: "apikey list"
  WAFMode :: string
  enrolled :: enrolments
  usedTickets :: tickets

definition serviceURL :: "string \<Rightarrow> adm \<Rightarrow> string option" where
  "serviceURL i s = map_option seBaseURL (map_of (Services s) i)"

section \<open>Identifiers and times\<close>

text \<open>Lower-case hexadecimal without leading zeros, the \<open>%x\<close> verb.\<close>

function fmt_x :: "nat \<Rightarrow> string" where
  "fmt_x n = (if n < 16 then [hex_digit n] else fmt_x (n div 16) @ [hex_digit (n mod 16)])"
  by pat_completeness auto
termination by (relation "measure id") auto

declare fmt_x.simps [simp del]

definition admin_newID :: "string \<Rightarrow> instant \<Rightarrow> u8 list \<Rightarrow> string" where
  "admin_newID prefix now rnd = prefix @ ''-'' @ fmt_x (nat (now div 1000000)) @ ''-'' @ hex_encode rnd"

section \<open>The audit trail\<close>

text \<open>What one append draws: the two clock readings, eight random bytes, and whether the audit
  service acknowledged the delivery.\<close>

record adraw =
  adNow :: instant
  adRnd :: "u8 list"
  adStamp :: instant
  adAck :: bool

definition postAuditEvent :: "bool \<Rightarrow> aevent \<Rightarrow> adm \<Rightarrow> bool" where
  "postAuditEvent ack ev s \<longleftrightarrow>
     (case serviceURL ''audit-evidence'' s of None \<Rightarrow> False | Some base \<Rightarrow> base \<noteq> '''' \<and> ack)"

definition forwardAudit :: "bool \<Rightarrow> aevent \<Rightarrow> adm \<Rightarrow> adm" where
  "forwardAudit ack ev s =
     (if postAuditEvent ack ev s then s\<lparr>wormTrail := wormTrail s @ [ev]\<rparr>
      else s\<lparr>auditQueue := auditQueue s @ [ev]\<rparr>)"

definition audit_of :: "adraw \<Rightarrow> string \<Rightarrow> string \<Rightarrow> string \<Rightarrow> string \<Rightarrow> string \<Rightarrow> aevent" where
  "audit_of d typ subject actor action detail =
     \<lparr>aevID = admin_newID ''ae'' (adNow d) (adRnd d), aevType = typ, aevSubject = subject,
      aevActor = actor, aevAction = action, aevDetail = detail, aevTenantID = '''', aevTraceID = '''',
      aevRulePack = '''',
      aevTimestamp = format_rfc3339 (adStamp d)\<rparr>"

definition admin_appendAudit :: "adraw \<Rightarrow> string \<Rightarrow> string \<Rightarrow> string \<Rightarrow> string \<Rightarrow> string \<Rightarrow> adm \<Rightarrow> adm" where
  "admin_appendAudit d typ subject actor action detail s =
     (let ev = audit_of d typ subject actor action detail
      in forwardAudit (adAck d) ev (s\<lparr>AuditEvents := ev # AuditEvents s\<rparr>))"

text \<open>A flush takes the queue, tries each event once, and puts the failed ones back in front of
  what was queued meanwhile. The lock is not held during the deliveries, so taking and putting back
  are separate steps.\<close>

definition flush_take :: "adm \<Rightarrow> adm" where
  "flush_take s = s\<lparr>inFlight := auditQueue s, auditQueue := []\<rparr>"

definition flush_deliver :: "bool list \<Rightarrow> adm \<Rightarrow> adm" where
  "flush_deliver acks s =
     (let tried = zip acks (inFlight s);
          sent = filter (\<lambda>p. postAuditEvent (fst p) (snd p) s) tried;
          still = filter (\<lambda>p. \<not> postAuditEvent (fst p) (snd p) s) tried
      in s\<lparr>wormTrail := wormTrail s @ map snd sent,
           auditQueue := map snd still @ auditQueue s, inFlight := []\<rparr>)"

definition flushAuditQueue :: "bool list \<Rightarrow> adm \<Rightarrow> adm" where
  "flushAuditQueue acks s =
     (if auditQueue s = [] then s else flush_deliver acks (flush_take s))"

section \<open>Responses\<close>

datatype abody =
    AProblem string
  | ALive string          \<comment> \<open>what the other service answered\<close>
  | AToken string auser
  | AClaims aclaims
  | AUser auser
  | AUsers "auser list"
  | ATenant tenant
  | ATenants "tenant list"
  | AGate gate
  | AEvent aevent
  | AEvents "aevent list"
  | AEvidence aevidence
  | AReceipt freceipt
  | AReceipts "freceipt list"
  | ATransfer ltransfer
  | AAccounts "laccount list"
  | ABalance laccount
  | ARun wf_run
  | AFlags "(string, bool) kv"
  | AKey apikey string
  | ADone
  | AService svc_entry
  | AEnrol string "string list"
  | ATicket string
  | AWaf string

type_synonym aresponse = "int \<times> abody"

definition admin_actorOf :: "aclaims \<Rightarrow> string" where
  "admin_actorOf c = (if acEmail c \<noteq> '''' then acEmail c else ''system'')"

definition admin_bad_json :: aresponse where "admin_bad_json = (400, AProblem ''invalid JSON body'')"

section \<open>The user table\<close>

text \<open>The Postgres document of a user is its JSON form, which leaves the password hash out.\<close>

definition user_doc :: "auser \<Rightarrow> auser" where
  "user_doc u = u\<lparr>PasswordHash := ''''\<rparr>"

text \<open>The write-through; a failed write is logged only.\<close>

definition upsertUserPg :: "bool \<Rightarrow> auser \<Rightarrow> adm \<Rightarrow> adm" where
  "upsertUserPg written u s = (case pgTable s of
       None \<Rightarrow> s
     | Some tab \<Rightarrow> if written then s\<lparr>pgTable := Some (kv_put (uEmail u) (user_doc u) tab)\<rparr> else s)"

text \<open>\<open>hydrate\<close> at boot: the users of the table, or the seeded ones written up when it is empty.\<close>

definition hydrate :: "users \<Rightarrow> users \<Rightarrow> users \<times> users" where
  "hydrate tab seeded =
     (if tab = [] then (seeded, fold (\<lambda>p. kv_put (uEmail (snd p)) (user_doc (snd p))) seeded tab)
      else (tab, tab))"

text \<open>A restart keeps only the table; everything else is seeded afresh (\<open>boot\<close>).\<close>

definition restart :: "adm \<Rightarrow> adm \<Rightarrow> adm" where
  "restart boot s = (case pgTable s of
       None \<Rightarrow> boot\<lparr>pgTable := None\<rparr>
     | Some tab \<Rightarrow> (case hydrate tab (Users boot) of
         (us, tab1) \<Rightarrow> boot\<lparr>Users := us, pgTable := Some tab1\<rparr>))"

section \<open>Login\<close>

record loginRequest =
  lrEmail :: string
  lrPassword :: string

record admin_host =
  ahHmac :: keyed_sum
  ahEnc :: "aclaims \<Rightarrow> string"
  ahDec :: "string \<Rightarrow> aclaims option"
  ahSecret :: string         \<comment> \<open>\<open>jwtSecret\<close>\<close>
  ahMode :: string           \<comment> \<open>\<open>authMode\<close>\<close>
  ahKeycloak :: "(string \<Rightarrow> string + aclaims) option"
  ahPerm :: "(string \<Rightarrow> string \<Rightarrow> string \<Rightarrow> bool option) option"
  ahProfile :: string        \<comment> \<open>\<open>PROFILE\<close>, with the default \<open>dev\<close>\<close>
  ahCrypto :: su_crypto
  ahSteps :: su_service
  ahTicketKey :: string
  ahDecTicket :: "string \<Rightarrow> ticket option"
  ahEncTicket :: "ticket \<Rightarrow> string"
  ahHash :: "string \<Rightarrow> string" \<comment> \<open>\<open>HashPayload\<close>\<close>

text \<open>The claims of the token a login issues: its issue time is past the user's session epoch.\<close>

definition login_claims :: "auser \<Rightarrow> instant \<Rightarrow> instant \<Rightarrow> aclaims" where
  "login_claims u now1 now2 =
     (let iat = unix now1
      in \<lparr>acSub = uID u, acEmail = uEmail u, acRoles = uRoles u, acTenantID = uTenantID u,
          acIssuer = ''admin-api-dev'',
          IssuedAt = (if MinTokenIAT u \<ge> iat then MinTokenIAT u + 1 else iat),
          Expires = unix (now2 + 12 * hour_ns)\<rparr>)"

text \<open>\<open>None\<close> is a call that does not return (a derivation that never ends).\<close>

definition handleLogin :: "admin_host \<Rightarrow> loginRequest option \<Rightarrow> instant \<Rightarrow> instant \<Rightarrow> adraw \<Rightarrow> adm
     \<Rightarrow> (aresponse \<times> adm) option" where
  "handleLogin h req now1 now2 d s =
     (case req of
        None \<Rightarrow> Some (admin_bad_json, s)
      | Some rq \<Rightarrow>
          (let denied = Some ((401, AProblem ''invalid credentials''), s)
           in case map_of (Users s) (lrEmail rq) of
                None \<Rightarrow> denied
              | Some u \<Rightarrow>
                  if uStatus u \<noteq> ''active'' \<or> PasswordHash u = '''' then denied
                  else (case VerifyPassword (ahHmac h) (PasswordHash u) (lrPassword rq) of
                      None \<Rightarrow> None
                    | Some False \<Rightarrow> denied
                    | Some True \<Rightarrow>
                        Some ((200, AToken (issueJWT (ahHmac h) (ahEnc h) (ahSecret h) (login_claims u now1 now2)) u),
                              admin_appendAudit d ''auth.login'' (''user:'' @ uEmail u) (uEmail u) ''login''
                                ''dev JWT issued'' s))))"

section \<open>User operations\<close>

text \<open>The fields a create request binds; a password in the body does not bind.\<close>

record userReq =
  urEmail :: string
  urName :: string
  urRoles :: "string list"
  urTenantID :: string
  urStatus :: string
  urForceReset :: bool
  urMinTokenIAT :: int
  urPassword :: string         \<comment> \<open>bound by updates only\<close>
  urCurrentPassword :: string  \<comment> \<open>bound by updates only\<close>

text \<open>What a create draws: the identifier's clock and bytes, the generated password, the salt, the
  creation time, and whether Postgres took the write.\<close>

record udraw =
  udNow :: instant
  udRnd :: "u8 list"
  udPassword :: string
  udSalt :: string
  udStamp :: instant
  udWritten :: bool

definition new_user :: "userReq \<Rightarrow> udraw \<Rightarrow> string \<Rightarrow> auser" where
  "new_user rq ud hash = \<lparr>uID = admin_newID ''u'' (udNow ud) (udRnd ud), uEmail = urEmail rq,
     uName = urName rq, uRoles = (if urRoles rq = [] then [''operator''] else urRoles rq),
     uTenantID = urTenantID rq, uStatus = (if urStatus rq = '''' then ''active'' else urStatus rq),
     uCreatedAt = format_rfc3339 (udStamp ud), PasswordHash = hash, ForcePasswordReset = True,
     MinTokenIAT = urMinTokenIAT rq\<rparr>"

text \<open>The password of the body never binds, so a create has to generate one, which it does in the
  mode \<open>dev\<close> only.\<close>

definition handleUserCreate :: "admin_host \<Rightarrow> userReq option \<Rightarrow> udraw \<Rightarrow> aclaims \<Rightarrow> adraw \<Rightarrow> adm
     \<Rightarrow> (aresponse \<times> adm) option" where
  "handleUserCreate h req ud c d s =
     (case req of
        None \<Rightarrow> Some (admin_bad_json, s)
      | Some rq \<Rightarrow>
          if urEmail rq = '''' \<or> urName rq = '''' then Some ((400, AProblem ''invalid user''), s)
          else if map_of (Users s) (urEmail rq) \<noteq> None then Some ((409, AProblem ''user exists''), s)
          else if ahMode h \<noteq> ''dev'' then Some ((400, AProblem ''password required''), s)
          else (case HashPassword (ahHmac h) (udSalt ud) (udPassword ud) of
              None \<Rightarrow> None
            | Some hash \<Rightarrow>
                (let u = new_user rq ud hash;
                     s1 = upsertUserPg (udWritten ud) u (s\<lparr>Users := kv_put (uEmail u) u (Users s)\<rparr>)
                 in Some ((201, AUser u),
                      admin_appendAudit d ''user.created'' (''user:'' @ uEmail u) (admin_actorOf c) ''create''
                        (uName u) s1))))"

text \<open>The updated copy of a user, and whether the session epoch moves; \<open>newhash\<close> is the hash of a
  new password.\<close>

definition apply_user_update :: "userReq \<Rightarrow> string option \<Rightarrow> instant \<Rightarrow> auser \<Rightarrow> auser" where
  "apply_user_update rq newhash now u =
     (let bumpRoles = (urRoles rq \<noteq> [] \<and> urRoles rq \<noteq> uRoles u);
          bumpStatus = (urStatus rq \<noteq> '''' \<and> urStatus rq \<noteq> uStatus u);
          u1 = u\<lparr>uName := (if urName rq \<noteq> '''' then urName rq else uName u),
                 uRoles := (if bumpRoles then urRoles rq else uRoles u),
                 uStatus := (if bumpStatus then urStatus rq else uStatus u),
                 uTenantID := (if urTenantID rq \<noteq> '''' then urTenantID rq else uTenantID u)\<rparr>;
          u2 = (case newhash of None \<Rightarrow> u1
                | Some hh \<Rightarrow> u1\<lparr>PasswordHash := hh, ForcePasswordReset := False\<rparr>)
      in if bumpRoles \<or> bumpStatus \<or> newhash \<noteq> None then u2\<lparr>MinTokenIAT := unix now\<rparr> else u2)"

definition handleUserUpdate :: "admin_host \<Rightarrow> userReq option \<Rightarrow> string \<Rightarrow> string \<Rightarrow> instant \<Rightarrow> bool
     \<Rightarrow> aclaims \<Rightarrow> adraw \<Rightarrow> adm \<Rightarrow> (aresponse \<times> adm) option" where
  "handleUserUpdate h req i salt now written c d s =
     (case req of
        None \<Rightarrow> Some (admin_bad_json, s)
      | Some rq \<Rightarrow>
          (case user_by_id i (Users s) of
             None \<Rightarrow> Some ((404, AProblem ''user not found''), s)
           | Some (email, u) \<Rightarrow>
               (let finish = (\<lambda>newhash.
                      let u1 = apply_user_update rq newhash now u;
                          s1 = upsertUserPg written u1 (s\<lparr>Users := kv_put email u1 (Users s)\<rparr>)
                      in ((200, AUser u1),
                          admin_appendAudit d ''user.updated'' (''user:'' @ uEmail u1) (admin_actorOf c) ''update'' '''' s1));
                    refuse = ((403, AProblem ''current password required''), s)
                in if urPassword rq = '''' then Some (finish None)
                   else if urCurrentPassword rq = '''' then Some refuse
                   else (case VerifyPassword (ahHmac h) (PasswordHash u) (urCurrentPassword rq) of
                       None \<Rightarrow> None
                     | Some False \<Rightarrow> Some refuse
                     | Some True \<Rightarrow> map_option (\<lambda>hh. finish (Some hh))
                         (HashPassword (ahHmac h) salt (urPassword rq))))))"

definition handleUserDelete :: "string \<Rightarrow> aclaims \<Rightarrow> adraw \<Rightarrow> adm \<Rightarrow> aresponse \<times> adm" where
  "handleUserDelete i c d s =
     (case user_by_id i (Users s) of
        None \<Rightarrow> ((404, AProblem ''user not found''), s)
      | Some (email, _) \<Rightarrow>
          if email = '''' then ((404, AProblem ''user not found''), s)
          else ((204, ADone), admin_appendAudit d ''user.deleted'' (''user:'' @ email) (admin_actorOf c) ''delete'' ''''
                 (s\<lparr>Users := kv_del email (Users s)\<rparr>)))"

definition handleUsers :: "adm \<Rightarrow> aresponse" where
  "handleUsers s = (200, AUsers (sort_key uEmail (map snd (Users s))))"

section \<open>Step-up routes\<close>

definition handleStepupEnroll :: "admin_host \<Rightarrow> su_draw \<Rightarrow> instant \<Rightarrow> aclaims \<Rightarrow> adm \<Rightarrow> aresponse \<times> adm" where
  "handleStepupEnroll h dw now c s =
     (if \<not> admin_hasRole c ''admin'' then ((403, AProblem ''forbidden''), s)
      else (case Enroll (ahCrypto h) (ahSteps h) dw (acSub c) now (enrolled s) of
          (Inl e, m) \<Rightarrow> ((500, AProblem ''enroll failed''), s\<lparr>enrolled := m\<rparr>)
        | (Inr (secret, uri, codes), m) \<Rightarrow> ((200, AEnrol uri codes), s\<lparr>enrolled := m\<rparr>)))"

definition handleStepupConfirm :: "admin_host \<Rightarrow> string option \<Rightarrow> instant \<Rightarrow> aclaims \<Rightarrow> adm
     \<Rightarrow> aresponse \<times> adm" where
  "handleStepupConfirm h req now c s = (case req of
       None \<Rightarrow> ((400, AProblem ''bad request''), s)
     | Some code \<Rightarrow> (case Confirm (ahCrypto h) (ahSteps h) (acSub c) code now (enrolled s) of
         (Some e, m) \<Rightarrow> ((if e = ErrNotEnrolled then 409 else 401, AProblem ''confirm failed''),
             s\<lparr>enrolled := m\<rparr>)
       | (None, m) \<Rightarrow> ((200, ADone), s\<lparr>enrolled := m\<rparr>)))"

record challengeReq =
  chCode :: string
  chAction :: string
  chPayload :: string

definition handleStepupChallenge :: "admin_host \<Rightarrow> challengeReq option \<Rightarrow> string \<Rightarrow> instant \<Rightarrow> instant
     \<Rightarrow> aclaims \<Rightarrow> adm \<Rightarrow> aresponse \<times> adm" where
  "handleStepupChallenge h req jti now1 now2 c s = (case req of
       None \<Rightarrow> ((400, AProblem ''bad request''), s)
     | Some rq \<Rightarrow>
         if chAction rq = '''' then ((400, AProblem ''bad request''), s)
         else (case VerifyCode (ahCrypto h) (ahSteps h) (acSub c) (chCode rq) now1 (enrolled s) of
             (Some e, m) \<Rightarrow> ((401, AProblem ''step-up failed''), s\<lparr>enrolled := m\<rparr>)
           | (None, m) \<Rightarrow> ((200, ATicket (MintTicket (ahHmac h) (ahEncTicket h) (ahTicketKey h) jti (acSub c)
                 (chAction rq) (ahHash h (chPayload rq)) now2)), s\<lparr>enrolled := m\<rparr>)))"

definition handleStepupDisable :: "admin_host \<Rightarrow> areq \<Rightarrow> instant \<Rightarrow> aclaims \<Rightarrow> adm \<Rightarrow> aresponse \<times> adm" where
  "handleStepupDisable h r now c s =
     (case VerifyCode (ahCrypto h) (ahSteps h) (acSub c) (rqStepupCode r) now (enrolled s) of
        (Some e, m) \<Rightarrow> ((401, AProblem ''step-up failed''), s\<lparr>enrolled := m\<rparr>)
      | (None, m) \<Rightarrow> ((200, ADone), s\<lparr>enrolled := Disable (acSub c) m\<rparr>))"

text \<open>The middleware of the money routes around a handler \<open>inner\<close>; \<open>now\<close> and \<open>sn\<close> are the readings of
  the service's and the ticket store's clock.\<close>

definition admin_requireStepUp :: "admin_host \<Rightarrow> string \<Rightarrow> areq \<Rightarrow> instant \<Rightarrow> instant \<Rightarrow> aclaims
     \<Rightarrow> (adm \<Rightarrow> aresponse \<times> adm) \<Rightarrow> adm \<Rightarrow> aresponse \<times> adm" where
  "admin_requireStepUp h action r now sn c inner s =
     (if rqStepupCode r \<noteq> '''' then
        (case VerifyCode (ahCrypto h) (ahSteps h) (acSub c) (rqStepupCode r) now (enrolled s) of
           (Some e, m) \<Rightarrow> ((401, AProblem ''step_up_invalid''), s\<lparr>enrolled := m\<rparr>)
         | (None, m) \<Rightarrow> inner (s\<lparr>enrolled := m\<rparr>))
      else if rqStepupTicket r \<noteq> '''' then
        (case VerifyTicket (ahHmac h) (ahDecTicket h) (ahTicketKey h) sn (rqStepupTicket r) (acSub c) action
            (ahHash h (rqBody r)) now (usedTickets s) of
           (Inl e, m) \<Rightarrow> ((401, AProblem (if e = ErrReplay then ''step_up_ticket_replay''
                                           else ''step_up_invalid'')), s\<lparr>usedTickets := m\<rparr>)
         | (Inr t, m) \<Rightarrow> inner (s\<lparr>usedTickets := m\<rparr>))
      else if Enrolled (acSub c) (enrolled s) then ((403, AProblem ''step_up_required''), s)
      else if ahProfile h = ''prod'' then ((403, AProblem ''step_up_required''), s)
      else inner s)"

text \<open>A route guarded by a role.\<close>

definition with_role :: "admin_host \<Rightarrow> string \<Rightarrow> aclaims \<Rightarrow> (adm \<Rightarrow> aresponse \<times> adm) \<Rightarrow> adm \<Rightarrow> aresponse \<times> adm" where
  "with_role h role c inner s = (case admin_requireRole (ahPerm h) c role of
       Some (status, title) \<Rightarrow> ((status, AProblem title), s)
     | None \<Rightarrow> inner s)"

section \<open>The ledger views and money routes\<close>

definition ledgerFallbackAllowed :: "admin_host \<Rightarrow> bool" where
  "ledgerFallbackAllowed h \<longleftrightarrow> ahProfile h \<noteq> ''prod''"

definition ledger_down :: aresponse where
  "ledger_down = (502, AProblem ''ledger unavailable'')"

text \<open>\<open>answer\<close> is what the ledger service answered, \<open>None\<close> when the call failed or was refused.\<close>

definition live_ledger :: "string option \<Rightarrow> adm \<Rightarrow> string option" where
  "live_ledger answer s = (case serviceURL ''ledger'' s of None \<Rightarrow> None | Some _ \<Rightarrow> answer)"

definition handleLedgerAccounts :: "admin_host \<Rightarrow> string option \<Rightarrow> adm \<Rightarrow> aresponse" where
  "handleLedgerAccounts h answer s = (case live_ledger answer s of
       Some raw \<Rightarrow> (200, ALive raw)
     | None \<Rightarrow> if \<not> ledgerFallbackAllowed h then ledger_down
               else (200, AAccounts (sort_key laID (map snd (LedgerAccounts s)))))"

definition handleLedgerBalance :: "admin_host \<Rightarrow> string \<Rightarrow> string option \<Rightarrow> adm \<Rightarrow> aresponse" where
  "handleLedgerBalance h i answer s = (case live_ledger answer s of
       Some raw \<Rightarrow> (200, ALive raw)
     | None \<Rightarrow> if \<not> ledgerFallbackAllowed h then ledger_down
               else (case map_of (LedgerAccounts s) i of
                   None \<Rightarrow> (404, AProblem ''account not found'')
                 | Some ac \<Rightarrow> (200, ABalance ac)))"

definition handleLedgerTransfer :: "admin_host \<Rightarrow> ltransfer option \<Rightarrow> string option \<Rightarrow> instant \<Rightarrow> u8 list
     \<Rightarrow> instant \<Rightarrow> aclaims \<Rightarrow> adraw \<Rightarrow> adm \<Rightarrow> aresponse \<times> adm" where
  "handleLedgerTransfer h req answer now rnd stamp c d s =
     (case req of
        None \<Rightarrow> (admin_bad_json, s)
      | Some t \<Rightarrow>
          if ltDebit t = '''' \<or> ltCredit t = '''' \<or> sint (ltAmount t) \<le> 0
          then ((400, AProblem ''invalid transfer''), s)
          else (case live_ledger answer s of
              Some raw \<Rightarrow> ((201, ALive raw), admin_appendAudit d ''ledger.transfer'' (''transfer:'' @ ltID t)
                  (admin_actorOf c) ''pending'' ''via ledger svc (live)'' s)
            | None \<Rightarrow>
                if \<not> ledgerFallbackAllowed h then (ledger_down, s)
                else (let t1 = t\<lparr>ltID := admin_newID ''tr'' now rnd, ltState := ''pending'', ltCode := 1,
                            ltCreatedAt := format_rfc3339 stamp\<rparr>
                      in ((201, ATransfer t1),
                          admin_appendAudit d ''ledger.transfer'' (''transfer:'' @ ltID t1) (admin_actorOf c) ''pending''
                            ''dev-seed in-memory ledger''
                            (s\<lparr>LedgerTransfers := kv_put (ltID t1) t1 (LedgerTransfers s)\<rparr>)))))"

text \<open>An account that is not in the table is passed over.\<close>

definition adjust :: "string \<Rightarrow> ('w \<Rightarrow> 'w) \<Rightarrow> (string, 'w) kv \<Rightarrow> (string, 'w) kv" where
  "adjust i f m = (case map_of m i of None \<Rightarrow> m | Some a \<Rightarrow> kv_put i (f a) m)"

definition settle_accounts :: "ltransfer \<Rightarrow> (string, laccount) kv \<Rightarrow> (string, laccount) kv" where
  "settle_accounts t m =
     adjust (ltCredit t) (\<lambda>a. a\<lparr>laBalance := laBalance a + ltAmount t\<rparr>)
       (adjust (ltDebit t) (\<lambda>a. a\<lparr>laBalance := laBalance a - ltAmount t\<rparr>) m)"

definition settleTransfer :: "admin_host \<Rightarrow> string \<Rightarrow> string \<Rightarrow> string option \<Rightarrow> aclaims \<Rightarrow> adraw \<Rightarrow> adm
     \<Rightarrow> aresponse \<times> adm" where
  "settleTransfer h action i answer c d s =
     (case live_ledger answer s of
        Some raw \<Rightarrow> ((200, ALive raw), s)
      | None \<Rightarrow>
          if \<not> ledgerFallbackAllowed h then (ledger_down, s)
          else (case map_of (LedgerTransfers s) i of
              None \<Rightarrow> ((404, AProblem ''transfer not found''), s)
            | Some t \<Rightarrow>
                if ltState t \<noteq> ''pending'' then ((409, AProblem ''transfer not pending''), s)
                else
                  (let posted = (action = ''post'');
                       t1 = (if posted then t\<lparr>ltState := ''posted'', ltCode := 2\<rparr>
                             else t\<lparr>ltState := ''voided'', ltCode := 3\<rparr>);
                       s1 = s\<lparr>LedgerTransfers := kv_put i t1 (LedgerTransfers s),
                              LedgerAccounts := (if posted then settle_accounts t (LedgerAccounts s)
                                                 else LedgerAccounts s)\<rparr>
                   in ((200, ATransfer t1),
                       admin_appendAudit d ''ledger.transfer'' (''transfer:'' @ i) (admin_actorOf c) action
                         ''dev-seed in-memory ledger'' s1))))"

text \<open>The three money routes as \<open>main\<close> registers them.\<close>

datatype money_req =
    MCreate "ltransfer option" instant "u8 list" instant
  | MPost string
  | MVoid string

definition money_handler :: "admin_host \<Rightarrow> money_req \<Rightarrow> string option \<Rightarrow> aclaims \<Rightarrow> adraw \<Rightarrow> adm
     \<Rightarrow> aresponse \<times> adm" where
  "money_handler h q answer c d s = (case q of
       MCreate t now rnd stamp \<Rightarrow> handleLedgerTransfer h t answer now rnd stamp c d s
     | MPost i \<Rightarrow> settleTransfer h ''post'' i answer c d s
     | MVoid i \<Rightarrow> settleTransfer h ''void'' i answer c d s)"

definition money_role :: "money_req \<Rightarrow> string" where
  "money_role q = (case q of MCreate _ _ _ _ \<Rightarrow> ''operator'' | _ \<Rightarrow> ''admin'')"

definition money_action :: "money_req \<Rightarrow> string" where
  "money_action q = (case q of MCreate _ _ _ _ \<Rightarrow> ''admin.ledger.transfer''
     | MPost _ \<Rightarrow> ''admin.ledger.post'' | MVoid _ \<Rightarrow> ''admin.ledger.void'')"

definition admin_money_route :: "admin_host \<Rightarrow> money_req \<Rightarrow> areq \<Rightarrow> string option \<Rightarrow> instant \<Rightarrow> instant
     \<Rightarrow> adraw \<Rightarrow> adm \<Rightarrow> aresponse \<times> adm" where
  "admin_money_route h q r answer now sn d s =
     (case requireAuth (ahHmac h) (ahDec h) (ahKeycloak h) (ahMode h) (ahSecret h) now (Users s) r of
        Inl (status, title) \<Rightarrow> ((status, AProblem title), s)
      | Inr c \<Rightarrow> with_role h (money_role q) c
          (admin_requireStepUp h (money_action q) r now sn c (money_handler h q answer c d)) s)"

end
