(* ===== verification/AdminData.thy ===== *)
theory AdminData
  imports AdminApi
begin

text \<open>
  The rest of the admin service: tenants (\<open>handlers_admin.go\<close>), rule packs, gates, audit and evidence
  views, cross-zone flows (\<open>handlers_data.go\<close>), workflows, flags, API keys and the firewall mode
  (\<open>handlers_ledger.go\<close>), and the service registry (\<open>handlers_services.go\<close>). \<open>answer\<close> is what the
  owning service answered, \<open>None\<close> when it could not be reached or refused.
\<close>

section \<open>Tenants\<close>

definition validIsolation :: "string \<Rightarrow> bool" where
  "validIsolation s \<longleftrightarrow> s = ''enclave'' \<or> s = ''schema'' \<or> s = ''row''"

definition handleTenants :: "adm \<Rightarrow> aresponse" where
  "handleTenants s = (200, ATenants (sort_key tnCreatedAt (map snd (Tenants s))))"

definition handleTenantCreate :: "tenant option \<Rightarrow> instant \<Rightarrow> u8 list \<Rightarrow> instant \<Rightarrow> aclaims \<Rightarrow> adraw \<Rightarrow> adm
     \<Rightarrow> aresponse \<times> adm" where
  "handleTenantCreate req now rnd stamp c d s = (case req of
       None \<Rightarrow> (admin_bad_json, s)
     | Some t \<Rightarrow>
         if tnName t = '''' \<or> \<not> validIsolation (Isolation t) then ((400, AProblem ''invalid tenant''), s)
         else (let i = admin_newID ''t'' now rnd;
                   t1 = t\<lparr>tnID := i, tnSlug := (if tnSlug t = '''' then i else tnSlug t),
                          tnStatus := (if tnStatus t = '''' then ''active'' else tnStatus t),
                          tnCreatedAt := format_rfc3339 stamp\<rparr>
               in ((201, ATenant t1), admin_appendAudit d ''tenant.created'' (''tenant:'' @ i) (admin_actorOf c) ''create''
                     (tnName t1) (s\<lparr>Tenants := kv_put i t1 (Tenants s)\<rparr>))))"

definition handleTenantGet :: "string \<Rightarrow> adm \<Rightarrow> aresponse" where
  "handleTenantGet i s = (case map_of (Tenants s) i of
       None \<Rightarrow> (404, AProblem ''tenant not found'') | Some t \<Rightarrow> (200, ATenant t))"

definition handleTenantUpdate :: "tenant option \<Rightarrow> string \<Rightarrow> aclaims \<Rightarrow> adraw \<Rightarrow> adm \<Rightarrow> aresponse \<times> adm" where
  "handleTenantUpdate req i c d s = (case req of
       None \<Rightarrow> (admin_bad_json, s)
     | Some rq \<Rightarrow>
         if Isolation rq \<noteq> '''' \<and> \<not> validIsolation (Isolation rq)
         then ((400, AProblem ''invalid isolation''), s)
         else (case map_of (Tenants s) i of
             None \<Rightarrow> ((404, AProblem ''tenant not found''), s)
           | Some t \<Rightarrow>
               (let pick = (\<lambda>new old. if new \<noteq> '''' then new else old);
                    t1 = t\<lparr>tnName := pick (tnName rq) (tnName t),
                           Isolation := pick (Isolation rq) (Isolation t),
                           tnStatus := pick (tnStatus rq) (tnStatus t),
                           ContactMail := pick (ContactMail rq) (ContactMail t),
                           tnNotes := tnNotes rq\<rparr>
                in ((200, ATenant t1), admin_appendAudit d ''tenant.updated'' (''tenant:'' @ tnID t1) (admin_actorOf c)
                      ''update'' (tnName t1) (s\<lparr>Tenants := kv_put i t1 (Tenants s)\<rparr>)))))"

definition handleTenantDelete :: "string \<Rightarrow> aclaims \<Rightarrow> adraw \<Rightarrow> adm \<Rightarrow> aresponse \<times> adm" where
  "handleTenantDelete i c d s = (case map_of (Tenants s) i of
       None \<Rightarrow> ((404, AProblem ''tenant not found''), s)
     | Some _ \<Rightarrow> ((204, ADone), admin_appendAudit d ''tenant.deleted'' (''tenant:'' @ i) (admin_actorOf c) ''delete'' ''''
         (s\<lparr>Tenants := kv_del i (Tenants s)\<rparr>)))"

section \<open>Packs and gates\<close>

definition handlePackPublish :: "string \<Rightarrow> string \<Rightarrow> string option \<Rightarrow> aclaims \<Rightarrow> adraw \<Rightarrow> adm \<Rightarrow> aresponse \<times> adm" where
  "handlePackPublish i ver answer c d s =
     (case (serviceURL ''rp-registry'' s, answer) of
        (Some _, Some raw) \<Rightarrow> ((200, ALive raw), admin_appendAudit d ''rulepack.published'' (i @ ''@'' @ ver)
           (admin_actorOf c) ''publish'' ''via rp-registry (live)'' s)
      | _ \<Rightarrow> ((200, ADone), admin_appendAudit d ''rulepack.published'' (i @ ''@'' @ ver) (admin_actorOf c) ''publish''
           ''dev-seed emulation (rp-registry unreachable)'' s))"

definition handleGateFlip :: "(bool \<times> string) option \<Rightarrow> string \<Rightarrow> string option \<Rightarrow> instant \<Rightarrow> aclaims \<Rightarrow> adraw
     \<Rightarrow> adm \<Rightarrow> aresponse \<times> adm" where
  "handleGateFlip req i answer stamp c d s = (case req of
       None \<Rightarrow> (admin_bad_json, s)
     | Some (confirm, reason) \<Rightarrow>
         if \<not> confirm then ((400, AProblem ''confirmation required''), s)
         else (case (serviceURL ''reg-watch'' s, answer) of
             (Some _, Some raw) \<Rightarrow> ((200, ALive raw),
                admin_appendAudit d ''gate.flipped'' i (admin_actorOf c) ''flip'' (reason @ '' (live reg-watch)'') s)
           | _ \<Rightarrow>
               (let g = (case map_of (Gates s) i of
                      Some g \<Rightarrow> g
                    | None \<Rightarrow> \<lparr>gtID = i, gtName = i, gtDescription = '''', gtState = False, ArmedBy = '''',
                               gtUpdatedAt = '''', gtSource = ''dev-seed''\<rparr>);
                    g1 = g\<lparr>gtState := \<not> gtState g, ArmedBy := admin_actorOf c, gtUpdatedAt := format_rfc3339 stamp\<rparr>
                in ((200, AGate g1), admin_appendAudit d ''gate.flipped'' i (admin_actorOf c) ''flip''
                      (reason @ '' (dev-seed local)'') (s\<lparr>Gates := kv_put i g1 (Gates s)\<rparr>)))))"

section \<open>Audit and evidence\<close>

text \<open>\<open>strings.Contains\<close> and \<open>strings.HasPrefix\<close>.\<close>

fun contains_sub :: "string \<Rightarrow> string \<Rightarrow> bool" where
  "contains_sub [] sub \<longleftrightarrow> sub = []"
| "contains_sub (c # cs) sub \<longleftrightarrow> take (length sub) (c # cs) = sub \<or> contains_sub cs sub"

definition has_prefix :: "string \<Rightarrow> string \<Rightarrow> bool" where
  "has_prefix s p \<longleftrightarrow> take (length p) s = p"

text \<open>\<open>answer\<close> is the list the audit service gave.\<close>

definition handleAuditEvents :: "string \<Rightarrow> string \<Rightarrow> aevent list option \<Rightarrow> adm \<Rightarrow> aresponse" where
  "handleAuditEvents subject typ answer s =
     (case (serviceURL ''audit-evidence'' s, answer) of
        (Some _, Some evs) \<Rightarrow> (200, AEvents evs)
      | _ \<Rightarrow> (200, AEvents (filter (\<lambda>e. (subject = '''' \<or> contains_sub (aevSubject e) subject)
              \<and> (typ = '''' \<or> has_prefix (aevType e) typ)) (AuditEvents s))))"

definition handleAuditAppend :: "aevent option \<Rightarrow> instant \<Rightarrow> u8 list \<Rightarrow> instant \<Rightarrow> adm \<Rightarrow> aresponse \<times> adm" where
  "handleAuditAppend req now rnd stamp s = (case req of
       None \<Rightarrow> (admin_bad_json, s)
     | Some e \<Rightarrow>
         if aevType e = '''' \<or> aevSubject e = '''' then ((400, AProblem ''invalid event''), s)
         else (let e1 = e\<lparr>aevID := admin_newID ''ae'' now rnd, aevTimestamp := format_rfc3339 stamp\<rparr>
               in ((201, AEvent e1), s\<lparr>AuditEvents := e1 # AuditEvents s\<rparr>)))"

text \<open>\<open>sha\<close> is SHA-256.\<close>

definition sealEvidence :: "(string \<Rightarrow> u8 list) \<Rightarrow> aevidence \<Rightarrow> aevidence" where
  "sealEvidence sha e = e\<lparr>avSHA256 := hex_encode (sha (avContent e)),
     avSizeBytes := int (length (avContent e)), avImmutable := True\<rparr>"

definition handleEvidenceGet :: "(string \<Rightarrow> u8 list) \<Rightarrow> string \<Rightarrow> string option \<Rightarrow> adm \<Rightarrow> aresponse" where
  "handleEvidenceGet sha i answer s =
     (case (serviceURL ''audit-evidence'' s, answer) of
        (Some _, Some raw) \<Rightarrow> (200, ALive raw)
      | _ \<Rightarrow> (case map_of (EvidenceObjs s) i of
          None \<Rightarrow> (404, AProblem ''evidence not found'')
        | Some e \<Rightarrow> (200, AEvidence (sealEvidence sha e))))"

definition handleEvidenceCreate :: "(string \<Rightarrow> u8 list) \<Rightarrow> aevidence option \<Rightarrow> instant \<Rightarrow> u8 list \<Rightarrow> instant
     \<Rightarrow> aclaims \<Rightarrow> adraw \<Rightarrow> adm \<Rightarrow> aresponse \<times> adm" where
  "handleEvidenceCreate sha req now rnd stamp c d s = (case req of
       None \<Rightarrow> (admin_bad_json, s)
     | Some e \<Rightarrow>
         if avContent e = '''' then ((400, AProblem ''invalid evidence''), s)
         else (let i = admin_newID ''ev'' now rnd;
                   e1 = sealEvidence sha (e\<lparr>avID := i, avCreatedAt := format_rfc3339 stamp,
                     avCreatedBy := (if avCreatedBy e = '''' then admin_actorOf c else avCreatedBy e),
                     WORMURI := (if WORMURI e = '''' then ''worm://local/evidence/'' @ i @ ''.json''
                                 else WORMURI e)\<rparr>)
               in ((201, AEvidence e1), admin_appendAudit d ''evidence.worm_write'' i (avCreatedBy e1) ''seal''
                     (avKind e1) (s\<lparr>EvidenceObjs := kv_put i e1 (EvidenceObjs s)\<rparr>))))"

definition handleTATAssemble :: "string option \<Rightarrow> string option \<Rightarrow> adm \<Rightarrow> aresponse" where
  "handleTATAssemble req answer s = (case req of
       None \<Rightarrow> admin_bad_json
     | Some subject \<Rightarrow>
         (case (serviceURL ''audit-evidence'' s, answer) of
            (Some _, Some raw) \<Rightarrow> (200, ALive raw)
          | _ \<Rightarrow> (200, AEvents (filter (\<lambda>e. subject = '''' \<or> contains_sub (aevSubject e) subject)
                (AuditEvents s)))))"

section \<open>Cross-zone flows\<close>

definition forbidden_flow :: "string \<Rightarrow> bool" where
  "forbidden_flow f \<longleftrightarrow> f = ''F9'' \<or> f = ''F10''"

definition handleFlowReceiptAppend :: "freceipt option \<Rightarrow> instant \<Rightarrow> u8 list \<Rightarrow> instant \<Rightarrow> adraw \<Rightarrow> adm
     \<Rightarrow> aresponse \<times> adm" where
  "handleFlowReceiptAppend req now rnd stamp d s = (case req of
       None \<Rightarrow> (admin_bad_json, s)
     | Some r \<Rightarrow>
         if frFlow r = '''' then ((400, AProblem ''invalid receipt''), s)
         else (let r1 = r\<lparr>frID := admin_newID ''rcpt'' now rnd, frTimestamp := format_rfc3339 stamp\<rparr>
               in if forbidden_flow (frFlow r1)
                  then ((422, AProblem ''forbidden flow''),
                        admin_appendAudit d ''crosszone.forbidden_attempt'' (''flow:'' @ frFlow r1) (frSender r1)
                          ''deny'' (frDetail r1) (s\<lparr>Forbidden := Forbidden s @ [r1]\<rparr>))
                  else ((201, AReceipt r1), s\<lparr>Receipts := Receipts s @ [r1]\<rparr>)))"

definition handleForbiddenFlows :: "adm \<Rightarrow> string \<times> freceipt list" where
  "handleForbiddenFlows s = (if Forbidden s = [] then ''clean'' else ''ALERT'', Forbidden s)"

section \<open>Workflows, settings, services\<close>

text \<open>\<open>run\<close> is the outcome of executing the registered workflow on the input; the workflows
  registered at boot are the triggerable ones (\<open>initWorkflows\<close>). The result of decoding the body is
  not looked at: a body that is not JSON has its 400 answer written and the handler goes on with an
  empty input, its own answer coming too late for the status.\<close>

definition handleWorkflowTrigger :: "string \<Rightarrow> string option \<Rightarrow> bool \<Rightarrow> string list \<Rightarrow> instant \<Rightarrow> u8 list \<Rightarrow> instant \<Rightarrow> instant
     \<Rightarrow> aclaims \<Rightarrow> adraw \<Rightarrow> adm \<Rightarrow> aresponse \<times> adm" where
  "handleWorkflowTrigger i req run wfExec now rnd started finished c d s =
     (let input = (case req of None \<Rightarrow> '''' | Some x \<Rightarrow> x);
          answer = (\<lambda>a. case req of None \<Rightarrow> admin_bad_json | Some _ \<Rightarrow> a)
      in case List.find (\<lambda>w. wdID w = i) (WorkflowDefs s) of
        None \<Rightarrow> (answer (404, AProblem ''workflow not triggerable''), s)
      | Some w \<Rightarrow>
          if \<not> Triggerable w then (answer (404, AProblem ''workflow not triggerable''), s)
          else (let ok = (i \<in> set wfExec \<and> run);
                    r = \<lparr>wrID = admin_newID ''run'' now rnd, wrWorkflow = i,
                         wrStatus = (if ok then ''completed'' else ''failed''), wrTriggered = admin_actorOf c,
                         wrInput = input, wrStarted = format_rfc3339 started,
                         wrFinished = format_rfc3339 finished\<rparr>
                in (answer (if ok then 201 else 422, ARun r),
                    admin_appendAudit d ''workflow.triggered'' i (admin_actorOf c) ''trigger'' input
                      (s\<lparr>WorkflowRuns := r # WorkflowRuns s\<rparr>))))"

definition handleFlagsUpdate :: "(string, bool) kv option \<Rightarrow> aclaims \<Rightarrow> adraw \<Rightarrow> adm \<Rightarrow> aresponse \<times> adm" where
  "handleFlagsUpdate req c d s = (case req of
       None \<Rightarrow> (admin_bad_json, s)
     | Some fl \<Rightarrow> ((200, AFlags fl), admin_appendAudit d ''settings.flags_updated'' ''feature-flags'' (admin_actorOf c)
         ''update'' '''' (s\<lparr>Flags := fold (\<lambda>(k, v). kv_put k v) fl (Flags s)\<rparr>)))"

text \<open>The secret is 16 random bytes in hexadecimal, 32 characters.\<close>

definition handleAPIKeyCreate :: "apikey option \<Rightarrow> u8 list \<Rightarrow> instant \<Rightarrow> u8 list \<Rightarrow> instant \<Rightarrow> aclaims \<Rightarrow> adraw
     \<Rightarrow> adm \<Rightarrow> aresponse \<times> adm" where
  "handleAPIKeyCreate req b now rnd stamp c d s = (case req of
       None \<Rightarrow> (admin_bad_json, s)
     | Some k \<Rightarrow>
         if akName k = '''' then ((400, AProblem ''invalid key''), s)
         else (let secret = hex_encode b;
                   k1 = k\<lparr>akID := admin_newID ''key'' now rnd, akPrefix := ''mk_live_'' @ take 4 secret,
                          SecretTail := [CHR 0xE2, CHR 0x80, CHR 0xA6] @ drop (length secret - 4) secret,
                          akCreatedAt := format_rfc3339 stamp\<rparr>
               in ((201, AKey k1 (''mk_live_'' @ secret)), admin_appendAudit d ''settings.apikey_created'' (akID k1)
                     (admin_actorOf c) ''create'' (akName k1) (s\<lparr>APIKeys := APIKeys s @ [k1]\<rparr>))))"

definition handleAPIKeyRevoke :: "string \<Rightarrow> aclaims \<Rightarrow> adraw \<Rightarrow> adm \<Rightarrow> aresponse \<times> adm" where
  "handleAPIKeyRevoke i c d s =
     (let s1 = s\<lparr>APIKeys := map (\<lambda>k. if akID k = i then k\<lparr>akRevoked := True\<rparr> else k) (APIKeys s)\<rparr>
      in if list_ex (\<lambda>k. akID k = i) (APIKeys s)
         then ((200, ADone), admin_appendAudit d ''settings.apikey_revoked'' i (admin_actorOf c) ''revoke'' '''' s1)
         else ((404, AProblem ''key not found''), s1))"

definition handleWAFMode :: "string option \<Rightarrow> string option \<Rightarrow> aclaims \<Rightarrow> adraw \<Rightarrow> adm \<Rightarrow> aresponse \<times> adm" where
  "handleWAFMode req answer c d s = (case req of
       None \<Rightarrow> (admin_bad_json, s)
     | Some mode \<Rightarrow>
         if mode \<noteq> ''detect'' \<and> mode \<noteq> ''enforce'' then ((400, AProblem ''invalid mode''), s)
         else (case (serviceURL ''edge-policy'' s, answer) of
             (Some _, Some raw) \<Rightarrow> ((200, ALive raw), s)
           | _ \<Rightarrow> ((200, AWaf mode), admin_appendAudit d ''settings.waf_mode'' ''edge-waf'' (admin_actorOf c) mode ''''
               (s\<lparr>WAFMode := mode\<rparr>))))"

definition handleServiceToggle :: "string \<Rightarrow> aclaims \<Rightarrow> adraw \<Rightarrow> adm \<Rightarrow> aresponse \<times> adm" where
  "handleServiceToggle i c d s = (case map_of (Services s) i of
       None \<Rightarrow> ((404, AProblem ''service not found''), s)
     | Some v \<Rightarrow>
         (let v1 = v\<lparr>seEnabled := \<not> seEnabled v,
                    HealthStatus := (if seEnabled v then ''disabled'' else HealthStatus v)\<rparr>
          in ((200, AService v1), admin_appendAudit d ''service.toggled'' (''service:'' @ i) (admin_actorOf c) ''toggle'' ''''
                (s\<lparr>Services := kv_put i v1 (Services s)\<rparr>))))"

text \<open>What the proxy sends on: the target and the role header, the bearer token removed.\<close>

definition trim_slash :: "string \<Rightarrow> string" where
  "trim_slash s = (if s \<noteq> [] \<and> last s = CHR ''/'' then butlast s else s)"

definition handleProxy :: "string \<Rightarrow> string \<Rightarrow> string \<Rightarrow> areq \<Rightarrow> adm \<Rightarrow> http_error + string \<times> areq" where
  "handleProxy svc path query r s = (case serviceURL svc s of
       None \<Rightarrow> Inl (404, ''unknown service in registry'')
     | Some base \<Rightarrow> Inr (trim_slash base @ ''/'' @ path @ (if query = '''' then '''' else ''?'' @ query),
         r\<lparr>rqAuthorization := '''', rqDevRole := (if rqDevRole r = '''' then ''admin'' else rqDevRole r)\<rparr>))"

section \<open>The cached transfer count\<close>

text \<open>\<open>tcSrc\<close> is empty before the first read; \<open>count\<close> and \<open>listed\<close> are the answers of the two ledger
  endpoints.\<close>

record count_cache =
  tcCount :: int
  tcSrc :: string
  tcAt :: instant

definition liveTransferCount :: "instant \<Rightarrow> instant \<Rightarrow> instant \<Rightarrow> int option \<Rightarrow> int option \<Rightarrow> bool \<Rightarrow> count_cache
     \<Rightarrow> (int \<times> string) option \<times> count_cache" where
  "liveTransferCount ttl now1 now2 count listed hasLedger cc =
     (if tcSrc cc \<noteq> '''' \<and> now1 - tcAt cc < ttl then
        (if tcSrc cc = ''unavailable'' then (None, cc) else (Some (tcCount cc, tcSrc cc), cc))
      else if \<not> hasLedger then (None, cc)
      else (case count of
          Some n \<Rightarrow> (Some (n, ''live''), \<lparr>tcCount = n, tcSrc = ''live'', tcAt = now2\<rparr>)
        | None \<Rightarrow> (case listed of
            Some n \<Rightarrow> (Some (n, ''live''), \<lparr>tcCount = n, tcSrc = ''live'', tcAt = now2\<rparr>)
          | None \<Rightarrow> (None, cc\<lparr>tcSrc := ''unavailable'', tcAt := now2\<rparr>))))"

end
