(* ===== verification/AdminInv.thy ===== *)
theory AdminInv
  imports AdminData "HOL-Library.Multiset"
begin

text \<open>
  What the admin service keeps: the shape of its user table, the death of sessions, what a restart
  brings back, the completeness of the audit trail, and the guards of the money routes.
\<close>

section \<open>The user table\<close>

definition users_ok :: "users \<Rightarrow> bool" where
  "users_ok us \<longleftrightarrow> kv_ok us \<and> (\<forall>e u. map_of us e = Some u \<longrightarrow> uEmail u = e)
     \<and> (\<forall>e u e' u'. map_of us e = Some u \<and> map_of us e' = Some u' \<and> uID u = uID u' \<longrightarrow> e = e')"

lemma users_ok_unique:
  "users_ok us \<Longrightarrow> map_of us e = Some u \<Longrightarrow> map_of us e' = Some u' \<Longrightarrow> uID u = uID u' \<Longrightarrow> e = e' \<and> u = u'"
  by (metis option.inject users_ok_def)

lemma find_member: "List.find P xs = Some x \<Longrightarrow> x \<in> set xs \<and> P x"
  by (induction xs) (auto split: if_splits)

lemma user_by_id_member: "user_by_id i us = Some (e, u) \<Longrightarrow> (e, u) \<in> set us \<and> uID u = i"
  unfolding user_by_id_def by (drule find_member) simp

lemma user_by_id_iff:
  assumes "users_ok us"
  shows "user_by_id i us = Some (e, u) \<longleftrightarrow> map_of us e = Some u \<and> uID u = i"
proof
  assume "user_by_id i us = Some (e, u)"
  then have "(e, u) \<in> set us" "uID u = i" using user_by_id_member by blast+
  then show "map_of us e = Some u \<and> uID u = i"
    using assms kv_mem_iff [of us e u] by (simp add: users_ok_def)
next
  assume m: "map_of us e = Some u \<and> uID u = i"
  then have "(e, u) \<in> set us" by (simp add: map_of_SomeD)
  with m obtain e' u' where f: "user_by_id i us = Some (e', u')"
    unfolding user_by_id_def by (cases "List.find (\<lambda>p. uID (snd p) = i) us") (auto simp: find_None_iff)
  then have "(e', u') \<in> set us" "uID u' = i" using user_by_id_member by blast+
  then have "map_of us e' = Some u'" "uID u' = i"
    using assms kv_mem_iff [of us e' u'] by (simp_all add: users_ok_def)
  with m f users_ok_unique [OF assms] show "user_by_id i us = Some (e, u)" by metis
qed

lemma user_by_id_None:
  assumes "users_ok us"
  shows "user_by_id i us = None \<longleftrightarrow> (\<forall>e u. map_of us e = Some u \<longrightarrow> uID u \<noteq> i)"
  using user_by_id_iff [OF assms, of i] by (metis not_Some_eq surj_pair)

lemma users_ok_put:
  assumes "users_ok us" "uEmail u = e" "\<And>e' u'. map_of us e' = Some u' \<Longrightarrow> e' \<noteq> e \<Longrightarrow> uID u' \<noteq> uID u"
  shows "users_ok (kv_put e u us)"
proof -
  have ok: "kv_ok us" "\<And>e u. map_of us e = Some u \<Longrightarrow> uEmail u = e"
    using assms(1) by (simp_all add: users_ok_def)
  show ?thesis unfolding users_ok_def
  proof (intro conjI allI impI)
    show "kv_ok (kv_put e u us)" using ok(1) by (rule kv_ok_put)
  next
    fix e1 u1 assume "map_of (kv_put e u us) e1 = Some u1"
    then show "uEmail u1 = e1" using ok(2) [of e1 u1] assms(2) by (simp split: if_splits)
  next
    fix e1 u1 e2 u2
    assume "map_of (kv_put e u us) e1 = Some u1 \<and> map_of (kv_put e u us) e2 = Some u2 \<and> uID u1 = uID u2"
    then show "e1 = e2"
      using assms(3) [of e1 u1] assms(3) [of e2 u2] users_ok_unique [OF assms(1), of e1 u1 e2 u2]
      by (simp split: if_splits)
  qed
qed

lemma users_ok_del: "users_ok us \<Longrightarrow> users_ok (kv_del e us)"
  by (simp add: users_ok_def) blast

lemma apply_user_update_fields [simp]:
  "uID (apply_user_update rq nh now u) = uID u" "uEmail (apply_user_update rq nh now u) = uEmail u"
  by (simp_all add: apply_user_update_def Let_def split: option.splits)

text \<open>The pieces of the state the audit and the write-through leave alone.\<close>

lemma appendAudit_keeps [simp]:
  "Users (admin_appendAudit d a b c e f s) = Users s" "pgTable (admin_appendAudit d a b c e f s) = pgTable s"
  "enrolled (admin_appendAudit d a b c e f s) = enrolled s" "usedTickets (admin_appendAudit d a b c e f s) = usedTickets s"
  "LedgerAccounts (admin_appendAudit d a b c e f s) = LedgerAccounts s"
  "LedgerTransfers (admin_appendAudit d a b c e f s) = LedgerTransfers s"
  "Receipts (admin_appendAudit d a b c e f s) = Receipts s" "Forbidden (admin_appendAudit d a b c e f s) = Forbidden s"
  "Services (admin_appendAudit d a b c e f s) = Services s"
  by (simp_all add: admin_appendAudit_def forwardAudit_def Let_def)

lemma upsertUserPg_keeps [simp]:
  "Users (upsertUserPg w u s) = Users s" "Services (upsertUserPg w u s) = Services s"
  "auditQueue (upsertUserPg w u s) = auditQueue s" "wormTrail (upsertUserPg w u s) = wormTrail s"
  "inFlight (upsertUserPg w u s) = inFlight s" "AuditEvents (upsertUserPg w u s) = AuditEvents s"
  by (simp_all add: upsertUserPg_def split: option.splits)

section \<open>Operations on the user table\<close>

datatype user_op =
    ULogin "loginRequest option" instant instant adraw
  | UCreate "userReq option" udraw aclaims adraw
  | UUpdate "userReq option" string string instant bool aclaims adraw
  | UDelete string aclaims adraw

fun user_step :: "admin_host \<Rightarrow> user_op \<Rightarrow> adm \<Rightarrow> (aresponse \<times> adm) option" where
  "user_step h (ULogin rq t1 t2 d) s = handleLogin h rq t1 t2 d s"
| "user_step h (UCreate rq ud c d) s = handleUserCreate h rq ud c d s"
| "user_step h (UUpdate rq i salt now w c d) s = handleUserUpdate h rq i salt now w c d s"
| "user_step h (UDelete i c d) s = Some (handleUserDelete i c d s)"

text \<open>The identifiers drawn for new users are new, and no clock reading is before \<open>t\<close>.\<close>

fun user_op_ok :: "instant \<Rightarrow> string set \<Rightarrow> user_op \<Rightarrow> bool" where
  "user_op_ok t ids (UCreate rq ud c d) \<longleftrightarrow> admin_newID ''u'' (udNow ud) (udRnd ud) \<notin> ids"
| "user_op_ok t ids (UUpdate rq i salt now w c d) \<longleftrightarrow> t \<le> now"
| "user_op_ok t ids _ \<longleftrightarrow> True"

definition user_ids :: "users \<Rightarrow> string set" where
  "user_ids us = {uID u | e u. map_of us e = Some u}"

text \<open>What a completed step does to the table: nothing, a new user, an updated one, or one less.\<close>

lemma user_step_cases:
  assumes "users_ok (Users s)" "user_step h p s = Some (r, s')"
  obtains (same) "Users s' = Users s"
  | (created) rq ud c d u where "p = UCreate (Some rq) ud c d" "map_of (Users s) (uEmail u) = None"
      "uID u = admin_newID ''u'' (udNow ud) (udRnd ud)" "Users s' = kv_put (uEmail u) u (Users s)"
  | (updated) rq i salt now w c d e u nh where "p = UUpdate (Some rq) i salt now w c d"
      "map_of (Users s) e = Some u" "uID u = i" "nh \<noteq> None \<longleftrightarrow> urPassword rq \<noteq> ''''"
      "Users s' = kv_put e (apply_user_update rq nh now u) (Users s)" "fst r = 200"
  | (deleted) i c d e u where "p = UDelete i c d" "map_of (Users s) e = Some u" "uID u = i"
      "Users s' = kv_del e (Users s)"
proof (cases p)
  case (ULogin rq t1 t2 d)
  then have "Users s' = Users s" using assms(2)
    by (auto simp: handleLogin_def Let_def split: option.splits if_splits bool.splits)
  then show ?thesis by (rule same)
next
  case (UCreate rq ud c d)
  then have run: "handleUserCreate h rq ud c d s = Some (r, s')" using assms(2) by simp
  show ?thesis
  proof (cases "Users s' = Users s")
    case False
    with run obtain r1 hash where "rq = Some r1" "map_of (Users s) (urEmail r1) = None"
      "HashPassword (ahHmac h) (udSalt ud) (udPassword ud) = Some hash"
      by (auto simp: handleUserCreate_def Let_def split: option.splits if_splits)
    moreover from this run False have "Users s' = kv_put (urEmail r1) (new_user r1 ud hash) (Users s)"
      by (auto simp: handleUserCreate_def Let_def new_user_def split: if_splits)
    ultimately show ?thesis
      using UCreate by (intro created [of r1 ud c d "new_user r1 ud hash"]) (simp_all add: new_user_def)
  qed (rule same)
next
  case (UUpdate rq i salt now w c d)
  then have run: "handleUserUpdate h rq i salt now w c d s = Some (r, s')" using assms(2) by simp
  show ?thesis
  proof (cases "fst r = 200")
    case False
    with run have "Users s' = Users s"
      by (auto simp: handleUserUpdate_def Let_def admin_bad_json_def split: option.splits if_splits bool.splits)
    then show ?thesis by (rule same)
  next
    case True
    with run obtain r1 where "rq = Some r1"
      by (cases rq) (auto simp: handleUserUpdate_def admin_bad_json_def)
    moreover from this True run obtain e u where f: "user_by_id i (Users s) = Some (e, u)"
      by (cases "user_by_id i (Users s)") (auto simp: handleUserUpdate_def)
    moreover from calculation True run obtain nh where
      "Users s' = kv_put e (apply_user_update r1 nh now u) (Users s)" "nh \<noteq> None \<longleftrightarrow> urPassword r1 \<noteq> ''''"
      by (auto simp: handleUserUpdate_def Let_def split: if_splits option.splits bool.splits)
    ultimately show ?thesis
      using UUpdate True user_by_id_iff [OF assms(1), of i e u] by (intro updated) auto
  qed
next
  case (UDelete i c d)
  then have run: "handleUserDelete i c d s = (r, s')" using assms(2) by simp
  show ?thesis
  proof (cases "user_by_id i (Users s)")
    case None
    with run show ?thesis by (intro same) (auto simp: handleUserDelete_def)
  next
    case (Some p1)
    then obtain e u where f: "user_by_id i (Users s) = Some (e, u)" by (cases p1) auto
    show ?thesis
    proof (cases "e = ''''")
      case True
      with run f show ?thesis by (intro same) (auto simp: handleUserDelete_def)
    next
      case False
      with run f UDelete user_by_id_iff [OF assms(1), of i e u] show ?thesis
        by (intro deleted) (auto simp: handleUserDelete_def)
    qed
  qed
qed

lemma user_step_ok:
  assumes ok: "users_ok (Users s)" and p: "user_op_ok t (user_ids (Users s)) p"
    and step: "user_step h p s = Some (r, s')"
  shows "users_ok (Users s')"
  using ok step
proof (cases rule: user_step_cases)
  case (created rq ud c d u)
  with p have "uID u \<notin> user_ids (Users s)" by simp
  then have "uID u' \<noteq> uID u" if "map_of (Users s) e' = Some u'" for e' u'
    using that by (auto simp: user_ids_def)
  with created ok show ?thesis by (simp add: users_ok_put)
next
  case (updated rq i salt now w c d e u nh)
  from ok updated(2) have "uEmail u = e" by (simp add: users_ok_def)
  moreover have "uID u' \<noteq> uID u" if "map_of (Users s) e' = Some u'" "e' \<noteq> e" for e' u'
    using that users_ok_unique [OF ok that(1) updated(2)] by blast
  ultimately show ?thesis unfolding updated(5) using ok by (intro users_ok_put) simp_all
qed (use ok users_ok_del in simp_all)

section \<open>Sessions\<close>

text \<open>The user \<open>i\<close> is gone, or its session epoch has reached \<open>t\<close>.\<close>

definition epoch_reached :: "string \<Rightarrow> int \<Rightarrow> users \<Rightarrow> bool" where
  "epoch_reached i t us \<longleftrightarrow> (\<forall>e u. map_of us e = Some u \<and> uID u = i \<longrightarrow> t \<le> MinTokenIAT u)"

lemma epoch_kills:
  assumes "users_ok us" "epoch_reached i t us" "acIssuer cl = ''admin-api-dev''" "acSub cl = i" "IssuedAt cl \<le> t"
  shows "\<not> localSessionValid us cl"
proof (cases "user_by_id i us")
  case None
  with assms show ?thesis by (simp add: localSessionValid_def)
next
  case (Some p)
  then obtain e u where f: "user_by_id i us = Some (e, u)" by (cases p) auto
  then have "map_of us e = Some u" "uID u = i" using user_by_id_iff [OF assms(1)] by blast+
  with assms(2) have "t \<le> MinTokenIAT u" by (simp add: epoch_reached_def)
  with assms f show ?thesis by (simp add: localSessionValid_def)
qed

text \<open>The change that ends the sessions of a user: password, roles or status.\<close>

definition ends_sessions :: "userReq \<Rightarrow> auser \<Rightarrow> bool" where
  "ends_sessions rq u \<longleftrightarrow> urPassword rq \<noteq> '''' \<or> (urRoles rq \<noteq> [] \<and> urRoles rq \<noteq> uRoles u)
     \<or> (urStatus rq \<noteq> '''' \<and> urStatus rq \<noteq> uStatus u)"

lemma apply_user_update_epoch:
  assumes "nh \<noteq> None \<longleftrightarrow> urPassword rq \<noteq> ''''"
  shows "MinTokenIAT (apply_user_update rq nh now u) = (if ends_sessions rq u then unix now else MinTokenIAT u)"
  using assms by (cases nh) (auto simp: apply_user_update_def ends_sessions_def Let_def)

lemma unix_mono: "a \<le> b \<Longrightarrow> unix a \<le> unix b"
  by (simp add: unix_def second_ns_def zdiv_mono1)

lemma epoch_step:
  assumes ok: "users_ok (Users s)" and p: "user_op_ok t ids p" "i \<in> ids"
    and step: "user_step h p s = Some (r, s')" and ep: "epoch_reached i (unix t) (Users s)"
  shows "epoch_reached i (unix t) (Users s')"
  using ok step
proof (cases rule: user_step_cases)
  case (created rq ud c d u)
  with p have "uID u \<noteq> i" by auto
  with ep show ?thesis by (auto simp: created(4) epoch_reached_def)
next
  case (updated rq j salt now w c d e u nh)
  with p have "unix t \<le> unix now" by (simp add: unix_mono)
  then have "unix t \<le> MinTokenIAT (apply_user_update rq nh now u)" if "uID u = i"
    using that ep updated(2) apply_user_update_epoch [OF updated(4), of now u]
    by (simp add: epoch_reached_def)
  with ep updated(3) show ?thesis by (auto simp: updated(5) epoch_reached_def)
next
  case same
  with ep show ?thesis by simp
next
  case (deleted j c d e u)
  with ep show ?thesis by (auto simp: deleted(4) epoch_reached_def)
qed

lemma handleUserUpdate_ok:
  assumes "handleUserUpdate h (Some rq) i salt now w c d s = Some (r, s')" "fst r = 200"
    and "user_by_id i (Users s) = Some (e, u)"
  obtains nh where "nh \<noteq> None \<longleftrightarrow> urPassword rq \<noteq> ''''"
    "Users s' = kv_put e (apply_user_update rq nh now u) (Users s)"
proof (cases "urPassword rq = ''''")
  case True
  with assms show ?thesis by (intro that [of None]) (auto simp: handleUserUpdate_def Let_def)
next
  case False
  with assms obtain hh where "HashPassword (ahHmac h) salt (urPassword rq) = Some hh"
    "Users s' = kv_put e (apply_user_update rq (Some hh) now u) (Users s)"
    by (auto simp: handleUserUpdate_def Let_def split: if_splits option.splits bool.splits)
  with False show ?thesis by (intro that [of "Some hh"]) simp_all
qed

lemma epoch_change:
  assumes ok: "users_ok (Users s)" and u: "map_of (Users s) e = Some u" "uID u = i"
    and step: "handleUserUpdate h (Some rq) i salt now w c d s = Some (r, s')" "fst r = 200"
    and ch: "ends_sessions rq u"
  shows "users_ok (Users s')" "epoch_reached i (unix now) (Users s')"
proof -
  have f: "user_by_id i (Users s) = Some (e, u)" using user_by_id_iff [OF ok] u by blast
  obtain nh where nh: "nh \<noteq> None \<longleftrightarrow> urPassword rq \<noteq> ''''"
    "Users s' = kv_put e (apply_user_update rq nh now u) (Users s)"
    by (rule handleUserUpdate_ok [OF step f])
  have other: "uID u' \<noteq> i" if "map_of (Users s) e' = Some u'" "e' \<noteq> e" for e' u'
    using that u users_ok_unique [OF ok that(1) u(1)] by auto
  have "uEmail u = e" using ok u(1) by (simp add: users_ok_def)
  with other u(2) show "users_ok (Users s')" unfolding nh(2) using ok by (intro users_ok_put) auto
  have "MinTokenIAT (apply_user_update rq nh now u) = unix now"
    using apply_user_update_epoch [OF nh(1)] ch by simp
  with other show "epoch_reached i (unix now) (Users s')" by (auto simp: nh(2) epoch_reached_def)
qed

text \<open>Runs of user operations; each step completes.\<close>

inductive user_run :: "admin_host \<Rightarrow> instant \<Rightarrow> string set \<Rightarrow> adm \<Rightarrow> adm \<Rightarrow> bool" for h t ids where
  stay: "user_run h t ids s s"
| step: "user_run h t ids s s1 \<Longrightarrow> user_op_ok t (ids \<union> user_ids (Users s1)) p
    \<Longrightarrow> user_step h p s1 = Some (r, s2) \<Longrightarrow> user_run h t ids s s2"

lemma user_op_ok_mono: "user_op_ok t ids p \<Longrightarrow> ids' \<subseteq> ids \<Longrightarrow> user_op_ok t ids' p"
  by (cases p) auto

lemma epoch_run:
  assumes "user_run h t ids s s'" "users_ok (Users s)" "epoch_reached i (unix t) (Users s)" "i \<in> ids"
  shows "users_ok (Users s') \<and> epoch_reached i (unix t) (Users s')"
  using assms
proof (induction rule: user_run.induct)
  case (step s s1 p r s2)
  then have "user_op_ok t (user_ids (Users s1)) p" "user_op_ok t ids p"
    by (auto intro: user_op_ok_mono)
  with step show ?case using user_step_ok [of s1 t p h r s2] epoch_step [of s1 t ids p i h r s2] by blast
qed simp

text \<open>A login mints a token whose issue time is past the epoch.\<close>

lemma handleLogin_ok:
  assumes "handleLogin h (Some rq) t1 t2 d s = Some ((200, b), s')"
  obtains u where "map_of (Users s) (lrEmail rq) = Some u" "uStatus u = ''active''" "PasswordHash u \<noteq> ''''"
    "VerifyPassword (ahHmac h) (PasswordHash u) (lrPassword rq) = Some True"
    "b = AToken (issueJWT (ahHmac h) (ahEnc h) (ahSecret h) (login_claims u t1 t2)) u" "Users s' = Users s"
proof -
  obtain u where u: "map_of (Users s) (lrEmail rq) = Some u"
    using assms by (cases "map_of (Users s) (lrEmail rq)") (auto simp: handleLogin_def Let_def)
  have g: "uStatus u = ''active''" "PasswordHash u \<noteq> ''''"
    using assms u by (auto simp: handleLogin_def Let_def split: if_splits)
  have v: "VerifyPassword (ahHmac h) (PasswordHash u) (lrPassword rq) = Some True"
    using assms u g by (auto simp: handleLogin_def Let_def split: option.splits bool.splits)
  have "b = AToken (issueJWT (ahHmac h) (ahEnc h) (ahSecret h) (login_claims u t1 t2)) u" "Users s' = Users s"
    using assms u g v by (auto simp: handleLogin_def)
  with u g v show ?thesis by (intro that [of u])
qed

lemma login_claims_fields:
  "acSub (login_claims u t1 t2) = uID u" "acRoles (login_claims u t1 t2) = uRoles u"
  "acEmail (login_claims u t1 t2) = uEmail u" "acIssuer (login_claims u t1 t2) = ''admin-api-dev''"
  "MinTokenIAT u < IssuedAt (login_claims u t1 t2)" "unix t1 \<le> IssuedAt (login_claims u t1 t2)"
  "Expires (login_claims u t1 t2) = unix (t2 + 12 * hour_ns)"
  by (simp_all add: login_claims_def Let_def)

lemma login_session_valid:
  assumes "users_ok us" "map_of us e = Some u" "uStatus u = ''active''" "acSub c = uID u" "MinTokenIAT u < IssuedAt c"
  shows "localSessionValid us c"
proof -
  have "user_by_id (acSub c) us = Some (e, u)" using user_by_id_iff [OF assms(1)] assms(2,4) by simp
  with assms show ?thesis by (simp add: localSessionValid_def)
qed

text \<open>The token of a login passes the middleware until it expires.\<close>

lemma login_accepted:
  assumes ok: "users_ok (Users s)"
    and login: "handleLogin h (Some rq) t1 t2 d s = Some ((200, AToken tok u), s')"
    and dec: "ahDec h (ahEnc h (login_claims u t1 t2)) = Some (login_claims u t1 t2)"
    and r: "ahMode h \<noteq> ''keycloak''" "strip_bearer (rqAuthorization r) = Some tok" "unix t3 \<le> unix (t2 + 12 * hour_ns)"
  shows "requireAuth (ahHmac h) (ahDec h) (ahKeycloak h) (ahMode h) (ahSecret h) t3 (Users s') r
     = Inr (login_claims u t1 t2)"
proof (rule handleLogin_ok [OF login])
  fix u'
  let ?c = "login_claims u t1 t2"
  assume u: "map_of (Users s) (lrEmail rq) = Some u'" "uStatus u' = ''active''" "Users s' = Users s"
    and b: "AToken tok u = AToken (issueJWT (ahHmac h) (ahEnc h) (ahSecret h) (login_claims u' t1 t2)) u'"
  then have "u' = u" "tok = issueJWT (ahHmac h) (ahEnc h) (ahSecret h) ?c" by simp_all
  then have "verifyJWT (ahHmac h) (ahDec h) (ahSecret h) t3 tok = Inr ?c"
    using jwt_round_trip [where c = ?c and enc = "ahEnc h" and dec = "ahDec h", OF dec] r(3) by (simp add: login_claims_fields)
  moreover have "localSessionValid (Users s') ?c"
    using login_session_valid [OF ok u(1)] u(2,3) \<open>u' = u\<close> by (simp add: login_claims_fields)
  ultimately show ?thesis using r by (simp add: requireAuth_def)
qed

text \<open>The epoch has the grain of a second and an update sets it to its own second, not past the
  tokens it has let through: a token minted one second ahead outlives a further change.\<close>

lemma update_spares_early_token:
  assumes ok: "users_ok (Users s)" and u: "map_of (Users s) e = Some u" "uID u = i" "uStatus u = ''active''"
    and step: "handleUserUpdate h (Some rq) i salt now w d0 d s = Some (r, s')" "fst r = 200"
    and ch: "ends_sessions rq u" "urStatus rq = ''''"
    and c: "acSub c = i" "unix now < IssuedAt c"
  shows "localSessionValid (Users s') c"
proof -
  have f: "user_by_id i (Users s) = Some (e, u)" using user_by_id_iff [OF ok] u by blast
  obtain nh where nh: "nh \<noteq> None \<longleftrightarrow> urPassword rq \<noteq> ''''"
    "Users s' = kv_put e (apply_user_update rq nh now u) (Users s)"
    by (rule handleUserUpdate_ok [OF step f])
  have "MinTokenIAT (apply_user_update rq nh now u) = unix now"
    using apply_user_update_epoch [OF nh(1)] ch by simp
  moreover have "uStatus (apply_user_update rq nh now u) = ''active''"
    using u(3) ch(2) by (simp add: apply_user_update_def Let_def split: option.splits)
  ultimately show ?thesis
    using epoch_change(1) [OF ok u(1,2) step ch(1)] u(2) c
    by (intro login_session_valid [of _ e "apply_user_update rq nh now u"]) (simp_all add: nh(2))
qed

section \<open>Restarts\<close>

text \<open>Documents carry no password hash.\<close>

definition no_hash :: "users \<Rightarrow> bool" where
  "no_hash tab \<longleftrightarrow> (\<forall>e u. map_of tab e = Some u \<longrightarrow> PasswordHash u = '''')"

definition pg_ok :: "adm \<Rightarrow> bool" where
  "pg_ok s \<longleftrightarrow> (case pgTable s of None \<Rightarrow> True | Some tab \<Rightarrow> no_hash tab)"

lemma no_hash_Nil [simp]: "no_hash []"
  by (simp add: no_hash_def)

lemma no_hash_put: "no_hash tab \<Longrightarrow> no_hash (kv_put e (user_doc u) tab)"
  by (auto simp: no_hash_def user_doc_def)

lemma pg_ok_upsert: "pg_ok s \<Longrightarrow> pg_ok (upsertUserPg w u s)"
  by (auto simp: pg_ok_def upsertUserPg_def no_hash_put split: option.splits)

lemma pg_ok_keeps [simp]:
  "pg_ok (admin_appendAudit d a b c e f s) = pg_ok s" "pg_ok (s\<lparr>Users := us\<rparr>) = pg_ok s"
  by (simp_all add: pg_ok_def)

lemma user_step_pg:
  assumes "pg_ok s" "user_step h p s = Some (r, s')"
  shows "pg_ok s'"
  using assms
  by (cases p) (auto simp: handleLogin_def handleUserCreate_def handleUserUpdate_def handleUserDelete_def
      Let_def pg_ok_upsert split: option.splits if_splits bool.splits)

lemma hydrate_no_hash:
  "no_hash tab \<Longrightarrow> no_hash (fold (\<lambda>p. kv_put (uEmail (snd p)) (user_doc (snd p))) us tab)"
  by (induction us arbitrary: tab) (simp_all add: no_hash_put)

lemma restart_pg_ok:
  assumes "pg_ok s"
  shows "pg_ok (restart boot s)"
proof (cases "pgTable s")
  case None
  then show ?thesis by (simp add: restart_def pg_ok_def)
next
  case (Some tab)
  then have "no_hash tab" using assms by (simp add: pg_ok_def)
  then have "no_hash (snd (hydrate tab (Users boot)))"
    using hydrate_no_hash [of "[]" "Users boot"] by (simp add: hydrate_def)
  with Some show ?thesis by (cases "hydrate tab (Users boot)") (simp add: restart_def pg_ok_def)
qed

text \<open>The life of a service over its Postgres table: user operations and restarts.\<close>

inductive pg_run :: "admin_host \<Rightarrow> adm \<Rightarrow> bool" for h where
  fresh: "pgTable s = Some [] \<Longrightarrow> pg_run h s"
| oper: "pg_run h s \<Longrightarrow> user_step h p s = Some (r, s') \<Longrightarrow> pg_run h s'"
| again: "pg_run h s \<Longrightarrow> pg_run h (restart boot s)"

lemma pg_run_ok: "pg_run h s \<Longrightarrow> pg_ok s"
proof (induction rule: pg_run.induct)
  case (fresh s)
  then show ?case by (simp add: pg_ok_def)
qed (rule user_step_pg restart_pg_ok, assumption+)+

text \<open>After a restart on a table with users no password opens a session.\<close>

lemma restart_no_login:
  assumes "pg_ok s" "pgTable s = Some tab" "tab \<noteq> []"
  shows "handleLogin h (Some rq) t1 t2 d (restart boot s)
     = Some ((401, AProblem ''invalid credentials''), restart boot s)"
proof -
  have us: "Users (restart boot s) = tab" using assms(2,3) by (simp add: restart_def hydrate_def)
  show ?thesis
  proof (cases "map_of tab (lrEmail rq)")
    case (Some u)
    with assms(1,2) have "PasswordHash u = ''''" by (auto simp: pg_ok_def no_hash_def)
    with Some show ?thesis by (simp add: handleLogin_def us)
  qed (simp add: handleLogin_def us)
qed

text \<open>A deletion does not reach the table: the restart brings the user and the old sessions back.\<close>

lemma restart_revives:
  assumes ok: "users_ok (Users s)" and tab: "pgTable s = Some tab" "users_ok tab"
    and u: "map_of (Users s) e = Some u" "uID u = i" "map_of tab e = Some (user_doc u)" "uStatus u = ''active''"
    and del: "handleUserDelete i c d s = (r, s')"
    and cl: "acSub cl = i" "MinTokenIAT u < IssuedAt cl"
  shows "localSessionValid (Users (restart boot s')) cl"
proof -
  have "pgTable s' = Some tab"
    using del tab(1) by (auto simp: handleUserDelete_def split: option.splits if_splits)
  moreover have "tab \<noteq> []" using u(3) by auto
  ultimately have "Users (restart boot s') = tab" by (simp add: restart_def hydrate_def)
  then show ?thesis
    using tab(2) u cl by (intro login_session_valid [of _ e "user_doc u"]) (simp_all add: user_doc_def)
qed

section \<open>The audit trail loses nothing\<close>

text \<open>The events handed over so far: acknowledged, queued, or in the hands of a flush.\<close>

definition handed :: "adm \<Rightarrow> aevent multiset" where
  "handed s = mset (wormTrail s) + mset (auditQueue s) + mset (inFlight s)"

lemma mset_zip_filter:
  "length xs = length ys \<Longrightarrow>
   mset (map snd (filter P (zip xs ys))) + mset (map snd (filter (\<lambda>p. \<not> P p) (zip xs ys))) = mset ys"
  by (induction xs ys rule: list_induct2) auto

lemma handed_append:
  "handed (admin_appendAudit d typ subj actor act det s) = add_mset (audit_of d typ subj actor act det) (handed s)"
  by (simp add: handed_def admin_appendAudit_def forwardAudit_def Let_def)

lemma postAuditEvent_update [simp]:
  "postAuditEvent a e (s\<lparr>inFlight := q, auditQueue := q'\<rparr>) = postAuditEvent a e s"
  by (simp add: postAuditEvent_def serviceURL_def)

lemma handed_take: "inFlight s = [] \<Longrightarrow> handed (flush_take s) = handed s"
  by (simp add: handed_def flush_take_def)

lemma handed_deliver: "length acks = length (inFlight s) \<Longrightarrow> handed (flush_deliver acks s) = handed s"
  using mset_zip_filter [of acks "inFlight s" "\<lambda>p. postAuditEvent (fst p) (snd p) s"]
  by (simp add: handed_def flush_deliver_def Let_def ac_simps)

text \<open>The steps of the trail: events appended while a flush is under way come between its halves.\<close>

inductive trail_step :: "aevent list \<Rightarrow> adm \<Rightarrow> adm \<Rightarrow> bool" where
  appended: "trail_step [audit_of d typ subj actor act det] s (admin_appendAudit d typ subj actor act det s)"
| flushing: "inFlight s = [] \<Longrightarrow> auditQueue s \<noteq> [] \<Longrightarrow> trail_step [] s (flush_take s)"
| flushed: "length acks = length (inFlight s) \<Longrightarrow> inFlight s \<noteq> [] \<Longrightarrow> trail_step [] s (flush_deliver acks s)"

inductive_cases trail_stepE: "trail_step evs s s'"

inductive trail_run :: "adm \<Rightarrow> aevent list \<Rightarrow> adm \<Rightarrow> bool" for s0 where
  start: "trail_run s0 [] s0"
| step: "trail_run s0 evs s \<Longrightarrow> trail_step new s s' \<Longrightarrow> trail_run s0 (evs @ new) s'"

lemma trail_step_handed: "trail_step evs s s' \<Longrightarrow> handed s' = handed s + mset evs"
  by (induction rule: trail_step.induct) (simp_all add: handed_append handed_take handed_deliver)

lemma trail_run_handed: "trail_run s0 evs s \<Longrightarrow> handed s = handed s0 + mset evs"
  by (induction rule: trail_run.induct) (simp_all add: trail_step_handed)

lemma flush_all:
  assumes "inFlight s = []" "serviceURL ''audit-evidence'' s = Some base" "base \<noteq> ''''"
    and acks: "acks = replicate (length (auditQueue s)) True"
  shows "auditQueue (flushAuditQueue acks s) = [] \<and> wormTrail (flushAuditQueue acks s) = wormTrail s @ auditQueue s"
proof (cases "auditQueue s = []")
  case False
  have p: "postAuditEvent True e s" for e using assms(2,3) by (simp add: postAuditEvent_def)
  have "filter (\<lambda>p. postAuditEvent (fst p) (snd p) s) (zip acks (auditQueue s)) = zip acks (auditQueue s)"
    "filter (\<lambda>p. \<not> postAuditEvent (fst p) (snd p) s) (zip acks (auditQueue s)) = []"
    using p unfolding acks by (auto simp: filter_id_conv filter_empty_conv set_zip)
  with False show ?thesis
    by (simp add: flushAuditQueue_def flush_take_def flush_deliver_def Let_def acks)
qed (simp add: flushAuditQueue_def)

section \<open>The money routes\<close>

text \<open>A verified step-up credential, in the state before the request.\<close>

definition stepped_up :: "admin_host \<Rightarrow> string \<Rightarrow> areq \<Rightarrow> instant \<Rightarrow> instant \<Rightarrow> aclaims \<Rightarrow> adm \<Rightarrow> bool" where
  "stepped_up h action r now sn c s \<longleftrightarrow>
     (if rqStepupCode r \<noteq> ''''
      then fst (VerifyCode (ahCrypto h) (ahSteps h) (acSub c) (rqStepupCode r) now (enrolled s)) = None
      else rqStepupTicket r \<noteq> '''' \<and> is_ok (fst (VerifyTicket (ahHmac h) (ahDecTicket h) (ahTicketKey h) sn
         (rqStepupTicket r) (acSub c) action (ahHash h (rqBody r)) now (usedTickets s))))"

lemma admin_requireStepUp_refuses:
  assumes "\<not> stepped_up h action r now sn c s" "Enrolled (acSub c) (enrolled s) \<or> ahProfile h = ''prod''"
  obtains status title m n where "admin_requireStepUp h action r now sn c inner s
     = ((status, AProblem title), s\<lparr>enrolled := m, usedTickets := n\<rparr>)" "status \<in> {401, 403}"
proof (cases "rqStepupCode r = ''''")
  case False
  then obtain e m where "VerifyCode (ahCrypto h) (ahSteps h) (acSub c) (rqStepupCode r) now (enrolled s) = (Some e, m)"
    using assms(1) by (cases "VerifyCode (ahCrypto h) (ahSteps h) (acSub c) (rqStepupCode r) now (enrolled s)")
       (auto simp: stepped_up_def)
  with False show ?thesis
    by (intro that [where status = 401 and m = m and n = "usedTickets s"]) (simp_all add: admin_requireStepUp_def)
next
  case True
  show ?thesis
  proof (cases "rqStepupTicket r = ''''")
    case False
    let ?v = "VerifyTicket (ahHmac h) (ahDecTicket h) (ahTicketKey h) sn (rqStepupTicket r) (acSub c) action
        (ahHash h (rqBody r)) now (usedTickets s)"
    obtain e m where "?v = (Inl e, m)"
      using assms(1) True False by (cases ?v; cases "fst ?v") (auto simp: stepped_up_def)
    with True False show ?thesis
      by (intro that [where status = 401 and m = "enrolled s" and n = m]) (simp_all add: admin_requireStepUp_def)
  next
    case none: True
    with True assms(2) show ?thesis
      by (intro that [where status = 403 and m = "enrolled s" and n = "usedTickets s"])
         (auto simp: admin_requireStepUp_def)
  qed
qed

text \<open>Without its role or its credential a request leaves the ledger tables and the trail alone.\<close>

definition same_books :: "adm \<Rightarrow> adm \<Rightarrow> bool" where
  "same_books s s' \<longleftrightarrow> LedgerAccounts s' = LedgerAccounts s \<and> LedgerTransfers s' = LedgerTransfers s
     \<and> handed s' = handed s \<and> AuditEvents s' = AuditEvents s"

lemma money_route_guarded:
  assumes "ahProfile h = ''prod''" "admin_money_route h q r answer now sn d s = ((status, b), s')"
    and "status \<in> {200, 201} \<or> \<not> same_books s s'"
  shows "\<exists>c. requireAuth (ahHmac h) (ahDec h) (ahKeycloak h) (ahMode h) (ahSecret h) now (Users s) r = Inr c
     \<and> admin_requireRole (ahPerm h) c (money_role q) = None
     \<and> stepped_up h (money_action q) r now sn c s"
proof -
  let ?a = "requireAuth (ahHmac h) (ahDec h) (ahKeycloak h) (ahMode h) (ahSecret h) now (Users s) r"
  have sb: "same_books s s" by (simp add: same_books_def)
  obtain c where c: "?a = Inr c"
  proof (cases ?a)
    case (Inl e)
    then obtain st ti where "?a = Inl (st, ti)" by (cases e) auto
    then have "s' = s" "status = st" "st = 401 \<or> st = 503"
      using assms(2) by (auto simp: admin_money_route_def requireAuth_def split: if_splits option.splits sum.splits)
    with assms(3) sb show ?thesis by auto
  qed (use that in blast)
  have ro: "admin_requireRole (ahPerm h) c (money_role q) = None"
  proof (rule ccontr)
    assume "\<not> ?thesis"
    then obtain st ti where "admin_requireRole (ahPerm h) c (money_role q) = Some (st, ti)" by auto
    then have "s' = s" "status = st" "st = 403 \<or> st = 503"
      using assms(2) c by (auto simp: admin_money_route_def with_role_def admin_requireRole_def
          split: option.splits if_splits)
    with assms(3) sb show False by auto
  qed
  have route: "admin_requireStepUp h (money_action q) r now sn c (money_handler h q answer c d) s = ((status, b), s')"
    using assms(2) by (simp add: admin_money_route_def c with_role_def ro)
  have "stepped_up h (money_action q) r now sn c s"
  proof (rule ccontr)
    assume ns: "\<not> ?thesis"
    obtain st ti m n where "admin_requireStepUp h (money_action q) r now sn c (money_handler h q answer c d) s
        = ((st, AProblem ti), s\<lparr>enrolled := m, usedTickets := n\<rparr>)" "st \<in> {401, 403}"
      by (rule admin_requireStepUp_refuses [OF ns disjI2 [OF assms(1)]])
    with route have "s' = s\<lparr>enrolled := m, usedTickets := n\<rparr>" "status \<in> {401, 403}" by simp_all
    with assms(3) show False by (auto simp: same_books_def handed_def)
  qed
  with c ro show ?thesis by blast
qed

section \<open>What a bearer token alone can do\<close>

lemma Code_at_generated: "10 \<le> length raw \<Longrightarrow> \<exists>code. Code_at k (GenerateSecret raw) t = Inr code \<and> code \<noteq> ''''"
  using codeRaw_shape(1) [of k raw "unix t sdiv Period"]
  by (auto simp: Code_at_def decodeSecret_generated)

lemma Enroll_succeeds:
  assumes "gcm_new (suSealer sv)"
  obtains codes m1 where "Enroll k sv dw a t m
     = (Inr (GenerateSecret (dwSecret dw), OTPAuthURI (Issuer sv) a (GenerateSecret (dwSecret dw)), codes), m1)"
  using assms by (auto simp: Enroll_def sealer_Seal_def GenerateRecoveryCodes_def Let_def)

text \<open>Enrolling again and confirming with the secret just issued needs no earlier credential, and the
  codes of that secret then pass the money guard.\<close>

lemma enrol_again:
  assumes "gcm_opens (ahCrypto h)" "gcm_new (suSealer (ahSteps h))"
    and dw: "length (dwNonce dw) = NonceSize" "length (dwSecret dw) = SecretBytes"
    and c: "admin_hasRole c ''admin''"
    and s1: "handleStepupEnroll h dw t0 c s = (a1, s1)"
    and s2: "handleStepupConfirm h (Some code1) t1 c s1 = (a2, s2)"
    and code1: "Code_at (ahCrypto h) (GenerateSecret (dwSecret dw)) t1 = Inr code1"
    and code2: "Code_at (ahCrypto h) (GenerateSecret (dwSecret dw)) t2 = Inr (rqStepupCode r)"
  shows "a1 = (200, AEnrol (OTPAuthURI (Issuer (ahSteps h)) (acSub c) (GenerateSecret (dwSecret dw)))
       (map recovery_code (dwCodes dw)))"
    and "a2 = (200, ADone)" and "admin_requireStepUp h action r t2 sn c inner s2 = inner s2"
proof -
  let ?k = "ahCrypto h" and ?sv = "ahSteps h" and ?sec = "GenerateSecret (dwSecret dw)"
  obtain codes m1 where e: "Enroll ?k ?sv dw (acSub c) t0 (enrolled s)
     = (Inr (?sec, OTPAuthURI (Issuer ?sv) (acSub c) ?sec, codes), m1)"
    by (rule Enroll_succeeds [OF assms(2)])
  have codes: "codes = map recovery_code (dwCodes dw)" by (rule Enroll_ok [OF e]) simp
  from e c s1 codes show "a1 = (200, AEnrol (OTPAuthURI (Issuer ?sv) (acSub c) ?sec) (map recovery_code (dwCodes dw)))"
    by (simp add: handleStepupEnroll_def)
  obtain m2 rec where m2: "Confirm ?k ?sv (acSub c) code1 t1 m1 = (None, m2)" "map_of m2 (acSub c) = Some rec"
    "srEnabled rec" "sealer_Open ?k (suSealer ?sv) (SealedSecret rec) = Inr ?sec"
    by (rule enrolment_confirms [OF assms(1) dw(1) e Validate_Code [OF code1]])
  have "s1 = s\<lparr>enrolled := m1\<rparr>" using e c s1 by (simp add: handleStepupEnroll_def)
  with m2(1) s2 have s2': "s2 = s\<lparr>enrolled := m2\<rparr>" and "a2 = (200, ADone)"
    by (simp_all add: handleStepupConfirm_def)
  then show "a2 = (200, ADone)" by blast
  have "rqStepupCode r \<noteq> ''''"
    using code2 Code_at_generated [of "dwSecret dw" ?k t2] dw(2) by (auto simp: SecretBytes_def)
  moreover have "VerifyCode ?k ?sv (acSub c) (rqStepupCode r) t2 m2 = (None, m2)"
    using VerifyCode_record [OF m2(2,3,4)] Validate_Code [OF code2] by simp
  ultimately show "admin_requireStepUp h action r t2 sn c inner s2 = inner s2"
    by (simp add: admin_requireStepUp_def s2')
qed

section \<open>The dev ledger\<close>

lemma kv_sum_adjust:
  fixes g :: "'v \<Rightarrow> 'n::ab_group_add"
  assumes "kv_ok m" "map_of m i = Some a"
  shows "kv_sum g (adjust i f m) = kv_sum g m - g a + g (f a)"
  using kv_sum_put_old [OF assms, of g "f a"] assms(2) by (simp add: adjust_def algebra_simps)

lemma settle_accounts_total:
  assumes "kv_ok m" "map_of m (ltDebit t) = Some a" "map_of m (ltCredit t) = Some b"
  shows "kv_sum laBalance (settle_accounts t m) = kv_sum laBalance m"
proof -
  let ?d = "\<lambda>a. a\<lparr>laBalance := laBalance a - ltAmount t\<rparr>"
  let ?m = "adjust (ltDebit t) ?d m"
  have ok: "kv_ok ?m" using assms(1) by (simp add: adjust_def split: option.split)
  obtain b' where b': "map_of ?m (ltCredit t) = Some b'"
    using assms by (cases "ltCredit t = ltDebit t") (simp_all add: adjust_def)
  show ?thesis
    unfolding settle_accounts_def kv_sum_adjust [OF ok b'] kv_sum_adjust [OF assms(1,2)] by simp
qed

text \<open>A debit account that is not in the table is passed over, and the credit made all the same.\<close>

lemma settle_accounts_creates:
  assumes "kv_ok m" "map_of m (ltDebit t) = None" "map_of m (ltCredit t) = Some b"
  shows "kv_sum laBalance (settle_accounts t m) = kv_sum laBalance m + ltAmount t"
  using kv_sum_adjust [OF assms(1,3), of laBalance] assms(2)
  by (simp add: settle_accounts_def adjust_def)

text \<open>A transfer is settled at most once.\<close>

lemma settle_once:
  assumes "settleTransfer h action i None c d s = ((200, b), s')"
  shows "\<exists>t. map_of (LedgerTransfers s') i = Some t \<and> ltState t \<in> {''posted'', ''voided''}
    \<and> settleTransfer h action2 i None c2 d2 s' = ((409, AProblem ''transfer not pending''), s')"
proof -
  have l: "live_ledger None x = None" for x by (simp add: live_ledger_def split: option.split)
  from assms obtain t where t: "map_of (LedgerTransfers s) i = Some t" "ltState t = ''pending''"
    "ledgerFallbackAllowed h"
    by (auto simp: settleTransfer_def l ledger_down_def split: if_splits option.splits)
  then obtain t1 where "LedgerTransfers s' = kv_put i t1 (LedgerTransfers s)" "ltState t1 \<in> {''posted'', ''voided''}"
    using assms by (cases "action = ''post''") (auto simp: settleTransfer_def l Let_def)
  with t(3) show ?thesis by (auto simp: settleTransfer_def l)
qed

section \<open>Forbidden flows\<close>

definition flows_ok :: "adm \<Rightarrow> bool" where
  "flows_ok s \<longleftrightarrow> (\<forall>r \<in> set (Receipts s). \<not> forbidden_flow (frFlow r))
     \<and> (\<forall>r \<in> set (Forbidden s). forbidden_flow (frFlow r))"

lemma flow_append_ok:
  assumes "flows_ok s"
  shows "flows_ok (snd (handleFlowReceiptAppend req now rnd stamp d s))"
proof (cases req)
  case (Some r)
  show ?thesis
  proof (cases "frFlow r = '''' \<or> \<not> forbidden_flow (frFlow r)")
    case True
    with assms Some show ?thesis by (auto simp: handleFlowReceiptAppend_def flows_ok_def Let_def)
  next
    case False
    with assms Some show ?thesis by (auto simp: handleFlowReceiptAppend_def flows_ok_def Let_def)
  qed
qed (simp add: handleFlowReceiptAppend_def assms)

end
