(* ===== verification/RulePack.thy ===== *)
theory RulePack
  imports GoStd
begin

text \<open>
  Rule packs, \<open>packages/rulepack-schema\<close>: the grammar check of \<open>validate.go\<close> and the signature policy
  of \<open>verify.go\<close>. The YAML decoder, the canonical form of an artifact and ed25519 are parameters; of
  a rule's \<open>when\<close> and \<open>then\<close> the keys are kept.
\<close>

section \<open>Packs\<close>

text \<open>A decoded value. A floating-point number is known by its shortest decimal form, a time by its
  RFC 3339 form.\<close>

datatype yval =
    YNull | YBool bool | YStr string | YInt int | YFloat string | YTime string
  | YList "yval list" | YMap "(string \<times> yval) list"

type_synonym yraw = "(string, yval) kv"

text \<open>A value written as JSON and read back into \<open>any\<close>: every number is a \<open>float64\<close>, a time is its
  string.\<close>

fun json_value :: "yval \<Rightarrow> yval" where
  "json_value (YInt i) = YFloat (itoa i)"
| "json_value (YTime t) = YStr t"
| "json_value (YList vs) = YList (map json_value vs)"
| "json_value (YMap m) = YMap (map (\<lambda>p. (fst p, json_value (snd p))) m)"
| "json_value v = v"

text \<open>An integer occurs in the value.\<close>

fun has_int :: "yval \<Rightarrow> bool" where
  "has_int (YInt i) \<longleftrightarrow> True"
| "has_int (YList vs) \<longleftrightarrow> list_ex has_int vs"
| "has_int (YMap m) \<longleftrightarrow> list_ex (\<lambda>p. has_int (snd p)) m"
| "has_int _ \<longleftrightarrow> False"

definition json_raw :: "yraw \<Rightarrow> yraw" where
  "json_raw m = map (\<lambda>p. (fst p, json_value (snd p))) m"

record provenance =
  AsPassed :: string
  AsGazetted :: "string option"
  SourceCitation :: string

record signature =
  Algorithm :: string
  KeyID :: string
  sgSignature :: string

record prule =
  ruID :: string
  ruWhen :: "string list option"
  ruThen :: "string list"  \<comment> \<open>the keys, without repetition\<close>

record pack =
  pkID :: string
  pkVersion :: string
  EffectiveFrom :: string
  EffectiveTo :: "string option"
  pkStatus :: string
  SubjectToRegazette :: bool
  Provenance :: provenance
  Signed :: "signature option"
  Rules :: "prule list"
  Raw :: "yraw option"

section \<open>The grammar\<close>

definition is_lower_digit :: "char \<Rightarrow> bool" where
  "is_lower_digit c \<longleftrightarrow> is_digit c \<or> (97 \<le> byte_of c \<and> byte_of c \<le> 122)"

definition idPattern :: "string \<Rightarrow> bool" where
  "idPattern s \<longleftrightarrow> take 3 s = ''rp-'' \<and> (case drop 3 s of [] \<Rightarrow> False
     | c # cs \<Rightarrow> is_lower_digit c \<and> list_all (\<lambda>c. is_lower_digit c \<or> c = CHR ''-'') cs)"

text \<open>\<open>strings.Split\<close> at a one-character separator.\<close>

fun split_at :: "char \<Rightarrow> string \<Rightarrow> string list" where
  "split_at d [] = [[]]"
| "split_at d (c # cs) = (if c = d then [] # split_at d cs
     else case split_at d cs of [] \<Rightarrow> [[c]] | p # ps \<Rightarrow> (c # p) # ps)"

definition digits1 :: "string \<Rightarrow> bool" where
  "digits1 s \<longleftrightarrow> s \<noteq> [] \<and> list_all is_digit s"

definition versionPattern :: "string \<Rightarrow> bool" where
  "versionPattern s \<longleftrightarrow> (case split_at CHR ''.'' s of [a, b, c] \<Rightarrow> digits1 a \<and> digits1 b \<and> digits1 c | _ \<Rightarrow> False)"

definition datePattern :: "string \<Rightarrow> bool" where
  "datePattern s \<longleftrightarrow> length s = 10 \<and> list_all is_digit (take 4 s) \<and> s ! 4 = CHR ''-''
     \<and> list_all is_digit (take 2 (drop 5 s)) \<and> s ! 7 = CHR ''-'' \<and> list_all is_digit (drop 8 s)"

definition ruleIDPattern :: "string \<Rightarrow> bool" where
  "ruleIDPattern s \<longleftrightarrow> (case s of [] \<Rightarrow> False
     | c # cs \<Rightarrow> is_lower_digit c \<and> list_all (\<lambda>c. is_lower_digit c \<or> c \<in> set ''._-'') cs)"

definition sigPattern :: "string \<Rightarrow> bool" where
  "sigPattern s \<longleftrightarrow> list_all (\<lambda>c. is_digit c \<or> (97 \<le> byte_of c \<and> byte_of c \<le> 102)) s"

definition pack_statuses :: "string list" where
  "pack_statuses = [''draft'', ''review'', ''simulation'', ''published'', ''retired'']"

definition ruleKinds :: "string list" where
  "ruleKinds = [''rate_bps'', ''threshold'', ''band'', ''formula'', ''decision_table'']"

datatype pack_err =
    BadID | BadVersion | BadFrom | BadTo | BadStatus | NoAsPassed | NoCitation
  | BadAlgorithm | NoKeyID | BadSignature | NoRules
  | BadRuleID nat | DupRuleID nat | NoWhen nat | NoKind nat | ManyKinds nat nat | UnknownKey nat string
  | ParseErr string

definition when_err :: "bool \<Rightarrow> pack_err \<Rightarrow> pack_err list" where
  "when_err b e = (if b then [e] else [])"

definition rule_errs :: "nat \<Rightarrow> string list \<Rightarrow> prule \<Rightarrow> pack_err list" where
  "rule_errs i seen r =
     (let kinds = length (filter (\<lambda>k. k \<in> set (ruThen r)) ruleKinds)
      in when_err (\<not> ruleIDPattern (ruID r)) (BadRuleID i)
       @ when_err (ruID r \<in> set seen) (DupRuleID i)
       @ when_err (ruWhen r = None) (NoWhen i)
       @ when_err (kinds = 0 \<and> ''decision'' \<notin> set (ruThen r) \<and> ''set'' \<notin> set (ruThen r)) (NoKind i)
       @ when_err (kinds > 1) (ManyKinds i kinds)
       @ map (UnknownKey i) (filter (\<lambda>k. k \<notin> set (ruleKinds @ [''decision'', ''set'', ''narrate''])) (ruThen r)))"

fun rules_errs :: "nat \<Rightarrow> string list \<Rightarrow> prule list \<Rightarrow> pack_err list" where
  "rules_errs i seen [] = []"
| "rules_errs i seen (r # rs) = rule_errs i seen r @ rules_errs (Suc i) (ruID r # seen) rs"

definition pack_Validate :: "pack \<Rightarrow> pack_err list" where
  "pack_Validate p =
     when_err (\<not> idPattern (pkID p)) BadID
   @ when_err (\<not> versionPattern (pkVersion p)) BadVersion
   @ when_err (\<not> datePattern (EffectiveFrom p)) BadFrom
   @ (case EffectiveTo p of None \<Rightarrow> [] | Some d \<Rightarrow> when_err (\<not> datePattern d) BadTo)
   @ when_err (pkStatus p \<notin> set pack_statuses) BadStatus
   @ when_err (AsPassed (Provenance p) = '''') NoAsPassed
   @ when_err (SourceCitation (Provenance p) = '''') NoCitation
   @ (case Signed p of None \<Rightarrow> [] | Some sg \<Rightarrow>
        when_err (Algorithm sg \<noteq> ''ed25519'') BadAlgorithm
      @ when_err (KeyID sg = '''') NoKeyID
      @ when_err (\<not> sigPattern (sgSignature sg)) BadSignature)
   @ when_err (Rules p = []) NoRules
   @ rules_errs 0 [] (Rules p)"

text \<open>\<open>parse\<close> is \<open>ParsePackYAML\<close>, both decodings of the artifact.\<close>

definition ValidateYAML :: "(string \<Rightarrow> string + pack) \<Rightarrow> string \<Rightarrow> pack option \<times> pack_err list" where
  "ValidateYAML parse b = (case parse b of
       Inl e \<Rightarrow> (None, [ParseErr e]) | Inr p \<Rightarrow> (Some p, pack_Validate p))"

definition pack_Ref :: "pack \<Rightarrow> string" where
  "pack_Ref p = pkID p @ ''@'' @ pkVersion p"

section \<open>Signatures\<close>

text \<open>\<open>verify key message signature\<close> is ed25519; \<open>decode\<close> reads canonical bytes back into a mapping.\<close>

record pack_crypto =
  ed_verify :: "u8 list \<Rightarrow> string \<Rightarrow> u8 list \<Rightarrow> bool"
  canonical_yaml :: "string \<Rightarrow> string + string" \<comment> \<open>\<open>CanonicalSigningBytesFromYAML\<close>\<close>
  yaml_decode :: "string \<Rightarrow> string + yraw"

type_synonym sign_keys = "(string, u8 list) kv"

definition bindCanonicalToPack :: "pack_crypto \<Rightarrow> pack \<Rightarrow> string \<Rightarrow> string option" where
  "bindCanonicalToPack k p canon = (case Raw p of
       None \<Rightarrow> Some ''pack has no decoded raw form to bind against the artifact''
     | Some raw \<Rightarrow> (case yaml_decode k canon of
         Inl e \<Rightarrow> Some ''canonical artifact does not decode''
       | Inr m \<Rightarrow> if kv_del ''signed'' raw \<noteq> m
                 then Some ''canonical artifact does not match the pack being verified'' else None))"

definition VerifyPackSignature :: "pack_crypto \<Rightarrow> pack \<Rightarrow> string \<Rightarrow> sign_keys \<Rightarrow> string option" where
  "VerifyPackSignature k p canon keys = (case Signed p of
       None \<Rightarrow> Some ''pack is unsigned''
     | Some sg \<Rightarrow>
         if Algorithm sg \<noteq> ''ed25519'' then Some ''signed.algorithm must be ed25519''
         else if keys = [] then Some ''no pinned signing public keys configured''
         else (case map_of keys (KeyID sg) of
             None \<Rightarrow> Some ''key_id is not a pinned signing key''
           | Some pub \<Rightarrow> (case hex_decode (sgSignature sg) of
               None \<Rightarrow> Some ''signed.signature is not a valid ed25519 signature''
             | Some sig \<Rightarrow>
                 if length sig \<noteq> 64 then Some ''signed.signature is not a valid ed25519 signature''
                 else if canon = '''' then Some ''no canonical artifact bytes supplied''
                 else (case bindCanonicalToPack k p canon of
                     Some e \<Rightarrow> Some e
                   | None \<Rightarrow> if \<not> ed_verify k pub canon sig
                             then Some ''ed25519 signature does not verify'' else None))))"

definition VerifyPackYAMLArtifact :: "pack_crypto \<Rightarrow> pack \<Rightarrow> string \<Rightarrow> sign_keys \<Rightarrow> string option" where
  "VerifyPackYAMLArtifact k p artifact keys = (case canonical_yaml k artifact of
       Inl e \<Rightarrow> Some e | Inr canon \<Rightarrow> VerifyPackSignature k p canon keys)"

text \<open>\<open>ParseSigningKeys\<close> on a decoded JSON object; \<open>None\<close> is the empty environment value.\<close>

definition ParseSigningKeys :: "(string \<times> string) list option \<Rightarrow> string + sign_keys" where
  "ParseSigningKeys m = (case m of
       None \<Rightarrow> Inr []
     | Some entries \<Rightarrow>
         fold (\<lambda>(kid, h) acc. case acc of Inl e \<Rightarrow> Inl e | Inr keys \<Rightarrow>
             (case hex_decode h of
                None \<Rightarrow> Inl ''pubkey is not a 32-byte hex ed25519 key''
              | Some b \<Rightarrow> if length b \<noteq> 32 then Inl ''pubkey is not a 32-byte hex ed25519 key''
                         else Inr (kv_put kid b keys))) entries (Inr []))"

section \<open>What an accepted pack is\<close>

lemma when_err_Nil [simp]: "when_err b e = [] \<longleftrightarrow> \<not> b"
  by (simp add: when_err_def)

lemma rule_errs_Nil:
  "rule_errs i seen r = [] \<longleftrightarrow> ruleIDPattern (ruID r) \<and> ruID r \<notin> set seen \<and> ruWhen r \<noteq> None
     \<and> length (filter (\<lambda>k. k \<in> set (ruThen r)) ruleKinds) \<le> 1
     \<and> (\<exists>k \<in> set (ruThen r). k \<in> set (ruleKinds @ [''decision'', ''set'']))
     \<and> (\<forall>k \<in> set (ruThen r). k \<in> set (ruleKinds @ [''decision'', ''set'', ''narrate'']))"
proof -
  have "length (filter (\<lambda>k. k \<in> set (ruThen r)) ruleKinds) = 0 \<longleftrightarrow> \<not> (\<exists>k \<in> set (ruThen r). k \<in> set ruleKinds)"
    by (auto simp: filter_empty_conv)
  then show ?thesis
    by (simp add: rule_errs_def Let_def filter_empty_conv not_less) blast
qed

lemma rules_errs_Nil:
  "rules_errs i seen rs = [] \<Longrightarrow> distinct (map ruID rs) \<and> set (map ruID rs) \<inter> set seen = {}
     \<and> (\<forall>r \<in> set rs. rule_errs 0 [] r = [])"
proof (induction i seen rs rule: rules_errs.induct)
  case (2 i seen r rs)
  then have "rule_errs i seen r = []" "rules_errs (Suc i) (ruID r # seen) rs = []" by simp_all
  with 2 show ?case by (auto simp: rule_errs_Nil)
qed simp

lemma VerifyPackSignature_ok:
  assumes "VerifyPackYAMLArtifact k p artifact keys = None"
  obtains canon sg pub sig raw where "canonical_yaml k artifact = Inr canon" "Signed p = Some sg"
    "map_of keys (KeyID sg) = Some pub" "hex_decode (sgSignature sg) = Some sig" "length sig = 64"
    "Raw p = Some raw" "yaml_decode k canon = Inr (kv_del ''signed'' raw)" "ed_verify k pub canon sig"
proof -
  obtain canon where c: "canonical_yaml k artifact = Inr canon" "VerifyPackSignature k p canon keys = None"
    using assms by (auto simp: VerifyPackYAMLArtifact_def split: sum.splits)
  obtain sg where sg: "Signed p = Some sg"
    using c(2) by (cases "Signed p") (auto simp: VerifyPackSignature_def)
  obtain pub where pub: "map_of keys (KeyID sg) = Some pub"
    using c(2) sg by (cases "map_of keys (KeyID sg)") (auto simp: VerifyPackSignature_def split: if_splits)
  obtain sig where sig: "hex_decode (sgSignature sg) = Some sig"
    using c(2) sg pub by (cases "hex_decode (sgSignature sg)") (auto simp: VerifyPackSignature_def split: if_splits)
  have rest: "length sig = 64" "bindCanonicalToPack k p canon = None" "ed_verify k pub canon sig"
    using c(2) sg pub sig by (auto simp: VerifyPackSignature_def split: if_splits option.splits)
  obtain raw where raw: "Raw p = Some raw"
    using rest(2) by (cases "Raw p") (auto simp: bindCanonicalToPack_def)
  have "yaml_decode k canon = Inr (kv_del ''signed'' raw)"
    using rest(2) raw by (auto simp: bindCanonicalToPack_def split: sum.splits if_splits)
  with c sg pub sig rest raw show ?thesis by (intro that)
qed

section \<open>Values through JSON\<close>

lemma json_value_int: "has_int v \<Longrightarrow> json_value v \<noteq> v"
proof (induction v)
  case (YList vs)
  then obtain x where "x \<in> set vs" "json_value x \<noteq> x" by (auto simp: list_ex_iff)
  then show ?case using map_eq_conv [of json_value vs id] by auto
next
  case (YMap m)
  then obtain p where p: "p \<in> set m" "has_int (snd p)" by (auto simp: list_ex_iff)
  have "snd p \<in> Basic_BNFs.snds p" by (cases p) (simp add: snds.intros)
  from YMap.IH [OF p(1) this p(2)] have "json_value (snd p) \<noteq> snd p" .
  then have "(fst p, json_value (snd p)) \<noteq> p" by (metis snd_conv)
  with p(1) have "map (\<lambda>p. (fst p, json_value (snd p))) m \<noteq> map id m"
    unfolding map_eq_conv by (metis id_apply)
  then show ?case by simp
qed simp_all

lemma json_raw_int:
  assumes "\<exists>p \<in> set m. has_int (snd p)"
  shows "json_raw m \<noteq> m"
  using json_value_int [of "YMap m"] assms by (auto simp: json_raw_def list_ex_iff)

lemma kv_del_json_raw: "kv_del k (json_raw m) = json_raw (kv_del k m)"
  by (induction m) (simp_all add: json_raw_def kv_del_def)

end
