(* ===== verification/RpRegistry.thy ===== *)
theory RpRegistry
  imports RulePack DocStore Outbox Access "HOL-Library.Signed_Division" "HOL-Library.Product_Lexorder"
begin

text \<open>
  The rule-pack registry, \<open>services/rp-registry/main.go\<close>: registering, publishing and serving pack
  versions over the document store, the publication event in the outbox, and the pins of the
  consumers. Requests arrive decoded; the outcome of an outbox write, clock readings and identifiers
  are arguments.
\<close>

section \<open>Records\<close>

record pack_rec =
  prID :: string
  prVersion :: string
  prStatus :: string
  prEffectiveFrom :: string
  prEffectiveTo :: "string option"
  prRegazette :: bool
  prProvenance :: provenance
  prSigned :: "signature option"
  RuleCount :: int
  prSHA256 :: string
  YAML :: string
  prPack :: yraw
  RegisteredAt :: string
  PublishedAt :: string

record consumer_pin =
  cpConsumer :: string
  cpPackID :: string
  cpVersion :: string
  PinnedAt :: string

text \<open>The documents: a pack's content has been through JSON.\<close>

datatype rp_doc = PackDoc pack_rec | PinDoc consumer_pin

definition pack_doc :: "pack_rec \<Rightarrow> rp_doc" where
  "pack_doc r = PackDoc (r\<lparr>prPack := json_raw (prPack r)\<rparr>)"

definition dec_pack :: "rp_doc \<Rightarrow> string + pack_rec" where
  "dec_pack d = (case d of PackDoc r \<Rightarrow> Inr r | PinDoc _ \<Rightarrow> Inl ''json: cannot unmarshal'')"

definition dec_pin :: "rp_doc \<Rightarrow> string + consumer_pin" where
  "dec_pin d = (case d of PinDoc p \<Rightarrow> Inr p | PackDoc _ \<Rightarrow> Inl ''json: cannot unmarshal'')"

record pub_event =
  pvPackID :: string
  pvVersion :: string
  pvRef :: string
  pvSHA256 :: string
  pvEffectiveFrom :: string
  pvRegazette :: bool
  pvProvenance :: provenance
  pvPublishedBy :: string

record pack_registry =
  rgStore :: "rp_doc docstore"
  rgOut :: "pub_event file_store"

record registry_cfg =
  signKeys :: sign_keys
  rgProd :: bool
  rgCrypto :: pack_crypto
  rgParse :: "string \<Rightarrow> string + pack"  \<comment> \<open>\<open>ParsePackYAML\<close>\<close>
  rgSum :: "string \<Rightarrow> u8 list"         \<comment> \<open>SHA-256\<close>

text \<open>The boot guard of \<open>main\<close>.\<close>

definition registry_boot :: "sign_keys \<Rightarrow> bool \<Rightarrow> string option" where
  "registry_boot keys inprod = (if inprod \<and> keys = []
     then Some ''rp-registry: PROFILE=prod requires RULEPACK_SIGNING_PUBKEYS'' else None)"

definition verifyPackOnWrite :: "registry_cfg \<Rightarrow> pack \<Rightarrow> string \<Rightarrow> string option" where
  "verifyPackOnWrite g p artifact = (case Signed p of
       None \<Rightarrow>
         if rgProd g \<and> pkStatus p = ''published''
         then Some ''PROFILE=prod refuses unsigned status=published pack''
         else if signKeys g = [] then None
         else Some ''unsigned pack cannot be registered while signing keys are pinned''
     | Some _ \<Rightarrow> VerifyPackYAMLArtifact (rgCrypto g) p artifact (signKeys g))"

definition pack_key :: "string \<Rightarrow> string \<Rightarrow> string" where
  "pack_key i v = i @ ''@'' @ v"

section \<open>Versions\<close>

text \<open>The value of \<open>strconv.Atoi\<close> when its error is ignored: 0 on a syntax error, the nearest bound
  out of range.\<close>

definition Atoi_value :: "string \<Rightarrow> int" where
  "Atoi_value s =
     (let (neg, ds) = (case s of [] \<Rightarrow> (False, [])
          | c # cs \<Rightarrow> if c = CHR ''-'' then (True, cs) else if c = CHR ''+'' then (False, cs)
                    else (False, s));
          v = (if neg then - digits_val ds else digits_val ds)
      in if ds = [] \<or> \<not> list_all is_digit ds then 0
         else max (- (2 ^ 63)) (min (2 ^ 63 - 1) v))"

definition version_part :: "string list \<Rightarrow> nat \<Rightarrow> string" where
  "version_part p i = (if i < length p then p ! i else ''0'')"

fun semver_loop :: "nat list \<Rightarrow> string list \<Rightarrow> string list \<Rightarrow> bool" where
  "semver_loop [] pa pb = False"
| "semver_loop (i # is) pa pb =
     (let na = Atoi_value (version_part pa i); nb = Atoi_value (version_part pb i)
      in if na \<noteq> nb then na < nb else semver_loop is pa pb)"

definition semverLess :: "string \<Rightarrow> string \<Rightarrow> bool" where
  "semverLess a b = semver_loop [0..<3] (split_at CHR ''.'' a) (split_at CHR ''.'' b)"

section \<open>Handlers\<close>

datatype rp_body =
    RProblem string
  | RInvalid "pack_err list"
  | RPack pack_rec
  | RPacks "pack_rec list"
  | RPin consumer_pin
  | RStale "(string \<times> string \<times> string \<times> string \<times> string \<times> int) list"

type_synonym rp_response = "int \<times> rp_body"

record register_req =
  rqYAML :: string
  rqPack :: "string option"  \<comment> \<open>the JSON bytes of the field \<open>pack\<close>\<close>

definition artifact_of :: "register_req \<Rightarrow> string option" where
  "artifact_of rq = (if rqYAML rq \<noteq> '''' then Some (rqYAML rq) else rqPack rq)"

definition new_pack_rec :: "registry_cfg \<Rightarrow> pack \<Rightarrow> string \<Rightarrow> instant \<Rightarrow> pack_rec" where
  "new_pack_rec g p raw now =
     \<lparr>prID = pkID p, prVersion = pkVersion p, prStatus = pkStatus p, prEffectiveFrom = EffectiveFrom p,
      prEffectiveTo = EffectiveTo p, prRegazette = SubjectToRegazette p, prProvenance = Provenance p,
      prSigned = Signed p, RuleCount = int (length (Rules p)), prSHA256 = hex_encode (rgSum g raw),
      YAML = raw, prPack = (case Raw p of None \<Rightarrow> [] | Some m \<Rightarrow> m),
      RegisteredAt = format_rfc3339 now, PublishedAt = ''''\<rparr>"

definition registerPack :: "registry_cfg \<Rightarrow> register_req option \<Rightarrow> instant \<Rightarrow> pack_registry \<Rightarrow> rp_response \<times> pack_registry" where
  "registerPack g req now s =
     (case Option.bind req artifact_of of
        None \<Rightarrow> ((400, RProblem ''bad_request''), s)
      | Some raw \<Rightarrow>
          (case ValidateYAML (rgParse g) raw of
             (None, errs) \<Rightarrow> ((422, RInvalid errs), s)
           | (Some p, errs) \<Rightarrow>
               if errs \<noteq> [] then ((422, RInvalid errs), s)
               else (case verifyPackOnWrite g p raw of
                   Some e \<Rightarrow> ((422, RProblem ''pack_signature_invalid''), s)
                 | None \<Rightarrow>
                     (let r = new_pack_rec g p raw now; k = pack_key (pkID p) (pkVersion p)
                      in case GetRaw ''packs'' k (rgStore s) of
                           Inr d \<Rightarrow> (case dec_pack d of
                               Inr prev \<Rightarrow> if prSHA256 prev = prSHA256 r then ((200, RPack prev), s)
                                          else ((409, RProblem ''conflict''), s)
                             | Inl _ \<Rightarrow> ((409, RProblem ''conflict''), s))
                         | Inl _ \<Rightarrow> (case Put ''packs'' k (pack_doc r) (rgStore s) of
                               (Some e, st) \<Rightarrow> ((500, RProblem ''internal''), s\<lparr>rgStore := st\<rparr>)
                             | (None, st) \<Rightarrow> ((201, RPack r), s\<lparr>rgStore := st\<rparr>))))))"

definition listPacks :: "pack_registry \<Rightarrow> rp_response" where
  "listPacks s = (case ListInto dec_pack ''packs'' (rgStore s) of
       Inl e \<Rightarrow> (500, RProblem ''internal'') | Inr rs \<Rightarrow> (200, RPacks rs))"

definition getPack :: "string \<Rightarrow> string \<Rightarrow> pack_registry \<Rightarrow> rp_response" where
  "getPack i v s = (case Get dec_pack ''packs'' (pack_key i v) (rgStore s) of
       Inl e \<Rightarrow> (404, RProblem ''not_found'') | Inr r \<Rightarrow> (200, RPack r))"

fun best_published :: "string \<Rightarrow> pack_rec option \<Rightarrow> pack_rec list \<Rightarrow> pack_rec option" where
  "best_published i best [] = best"
| "best_published i best (p # ps) =
     (if prID p \<noteq> i \<or> prStatus p \<noteq> ''published'' then best_published i best ps
      else (case best of
          None \<Rightarrow> best_published i (Some p) ps
        | Some b \<Rightarrow> best_published i (if semverLess (prVersion b) (prVersion p) then Some p else best) ps))"

definition latestPublished :: "string \<Rightarrow> pack_registry \<Rightarrow> pack_rec option" where
  "latestPublished i s = (case ListInto dec_pack ''packs'' (rgStore s) of
       Inl e \<Rightarrow> None | Inr rs \<Rightarrow> best_published i None rs)"

definition getLatest :: "string \<Rightarrow> pack_registry \<Rightarrow> rp_response" where
  "getLatest i s = (case latestPublished i s of
       None \<Rightarrow> (404, RProblem ''not_found'') | Some r \<Rightarrow> (200, RPack r))"

text \<open>The pack a stored record is checked as.\<close>

definition pack_of_rec :: "pack_rec \<Rightarrow> pack" where
  "pack_of_rec r = \<lparr>pkID = prID r, pkVersion = prVersion r, EffectiveFrom = '''', EffectiveTo = None,
     pkStatus = prStatus r, SubjectToRegazette = False,
     Provenance = \<lparr>AsPassed = '''', AsGazetted = None, SourceCitation = ''''\<rparr>,
     Signed = prSigned r, Rules = [], Raw = Some (prPack r)\<rparr>"

definition published_rec :: "instant \<Rightarrow> pack_rec \<Rightarrow> pack_rec" where
  "published_rec now r = r\<lparr>prStatus := ''published'', PublishedAt := format_rfc3339 now,
     prPack := kv_put ''status'' (YStr ''published'') (prPack r)\<rparr>"

definition publish_event :: "string \<Rightarrow> pack_rec \<Rightarrow> claims \<Rightarrow> pub_event" where
  "publish_event k r c = \<lparr>pvPackID = prID r, pvVersion = prVersion r, pvRef = k, pvSHA256 = prSHA256 r,
     pvEffectiveFrom = prEffectiveFrom r, pvRegazette = prRegazette r, pvProvenance = prProvenance r,
     pvPublishedBy = Sub c\<rparr>"

definition publishPack :: "registry_cfg \<Rightarrow> string \<Rightarrow> string \<Rightarrow> claims \<Rightarrow> instant \<Rightarrow> instant \<Rightarrow> string \<Rightarrow> string
     \<Rightarrow> write_outcome \<Rightarrow> pack_registry \<Rightarrow> rp_response \<times> pack_registry" where
  "publishPack g i v c now now2 ulid trace w s =
     (let k = pack_key i v
      in case Get dec_pack ''packs'' k (rgStore s) of
           Inl e \<Rightarrow> ((404, RProblem ''not_found''), s)
         | Inr r \<Rightarrow>
             if prStatus r = ''published'' then ((200, RPack r), s)
             else if prStatus r = ''retired'' then ((409, RProblem ''conflict''), s)
             else if (prSigned r \<noteq> None \<or> rgProd g) \<and> verifyPackOnWrite g (pack_of_rec r) (YAML r) \<noteq> None
             then ((422, RProblem ''pack_signature_invalid''), s)
             else (let r1 = published_rec now r
                   in case Put ''packs'' k (pack_doc r1) (rgStore s) of
                        (Some e, st) \<Rightarrow> ((500, RProblem ''internal''), s\<lparr>rgStore := st\<rparr>)
                      | (None, st) \<Rightarrow>
                          (let env = envelope_New ulid now2 trace ''nrs.rulepacks.published.v1'' ''rp-registry''
                                 (TenantID c) k (publish_event k r1 c)
                           in ((200, RPack r1), s\<lparr>rgStore := st,
                                rgOut := snd (Append w ''nrs.rulepacks.published.v1'' env (rgOut s))\<rparr>))))"

record consumer_req =
  crConsumer :: string
  crPackID :: string
  crVersion :: string

definition registerConsumer :: "consumer_req option \<Rightarrow> instant \<Rightarrow> pack_registry \<Rightarrow> rp_response \<times> pack_registry" where
  "registerConsumer req now s = (case req of
       None \<Rightarrow> ((400, RProblem ''bad_request''), s)
     | Some rq \<Rightarrow>
         if crConsumer rq = '''' \<or> crPackID rq = '''' \<or> crVersion rq = ''''
         then ((400, RProblem ''bad_request''), s)
         else (let pin = \<lparr>cpConsumer = crConsumer rq, cpPackID = crPackID rq, cpVersion = crVersion rq,
                     PinnedAt = format_rfc3339 now\<rparr>
               in case Put ''consumers'' (crConsumer rq @ '':'' @ crPackID rq) (PinDoc pin) (rgStore s) of
                    (Some e, st) \<Rightarrow> ((500, RProblem ''internal''), s\<lparr>rgStore := st\<rparr>)
                  | (None, st) \<Rightarrow> ((201, RPin pin), s\<lparr>rgStore := st\<rparr>)))"

definition stale_pin :: "instant \<Rightarrow> pack_registry \<Rightarrow> consumer_pin
     \<Rightarrow> (string \<times> string \<times> string \<times> string \<times> string \<times> int) option" where
  "stale_pin now s p = (case latestPublished (cpPackID p) s of
       None \<Rightarrow> None
     | Some l \<Rightarrow>
         if \<not> semverLess (cpVersion p) (prVersion l) then None
         else (let days = (case parse_rfc3339 (PublishedAt l) of
                   None \<Rightarrow> 0 | Some t \<Rightarrow> (now - t) sdiv (24 * hour_ns))
               in Some (cpConsumer p, cpPackID p, cpVersion p, prVersion l, prSHA256 l, days)))"

definition staleConsumers :: "instant \<Rightarrow> pack_registry \<Rightarrow> rp_response" where
  "staleConsumers now s = (case ListInto dec_pin ''consumers'' (rgStore s) of
       Inl e \<Rightarrow> (500, RProblem ''internal'')
     | Inr pins \<Rightarrow> (200, RStale (sort_key fst (List.map_filter (stale_pin now s) pins))))"

text \<open>The publish route with its role guard.\<close>

definition publish_route :: "registry_cfg \<Rightarrow> string \<Rightarrow> string \<Rightarrow> claims option \<Rightarrow> instant \<Rightarrow> instant \<Rightarrow> string
     \<Rightarrow> string \<Rightarrow> write_outcome \<Rightarrow> pack_registry \<Rightarrow> rp_response \<times> pack_registry" where
  "publish_route g i v c now now2 ulid trace w s = (case RequireRole ''board'' c of
       Inl (status, title) \<Rightarrow> ((status, RProblem title), s)
     | Inr cl \<Rightarrow> publishPack g i v cl now now2 ulid trace w s)"

section \<open>The order of versions\<close>

text \<open>Versions compare by their first three numbers.\<close>

definition ver_key :: "string \<Rightarrow> int \<times> int \<times> int" where
  "ver_key v = (let p = split_at CHR ''.'' v
     in (Atoi_value (version_part p 0), Atoi_value (version_part p 1), Atoi_value (version_part p 2)))"

lemma semverLess_key: "semverLess a b \<longleftrightarrow> ver_key a < ver_key b"
  by (auto simp: semverLess_def ver_key_def Let_def upt_rec [of 0] upt_rec [of 1] upt_rec [of 2] upt_rec [of 3]
      numeral_2_eq_2 numeral_3_eq_3)

definition candidate :: "string \<Rightarrow> pack_rec \<Rightarrow> bool" where
  "candidate i p \<longleftrightarrow> prID p = i \<and> prStatus p = ''published''"

lemma best_published_spec:
  "best_published i best ps = Some b \<Longrightarrow>
   (b \<in> set ps \<and> candidate i b \<or> best = Some b)
   \<and> (\<forall>p \<in> set ps. candidate i p \<longrightarrow> ver_key (prVersion p) \<le> ver_key (prVersion b))
   \<and> (\<forall>b0. best = Some b0 \<longrightarrow> ver_key (prVersion b0) \<le> ver_key (prVersion b))"
proof (induction ps arbitrary: best)
  case Nil
  then show ?case by simp
next
  case (Cons p ps)
  show ?case
  proof (cases "candidate i p")
    case False
    then have "best_published i best ps = Some b" using Cons.prems by (auto simp: candidate_def)
    from Cons.IH [OF this] False show ?thesis by auto
  next
    case c: True
    show ?thesis
    proof (cases best)
      case None
      then have "best_published i (Some p) ps = Some b" using Cons.prems c by (auto simp: candidate_def)
      from Cons.IH [OF this] None c show ?thesis by auto
    next
      case (Some b0)
      let ?n = "if semverLess (prVersion b0) (prVersion p) then Some p else Some b0"
      have "best_published i ?n ps = Some b"
        using Cons.prems c Some by (auto simp: candidate_def split: if_splits)
      from Cons.IH [OF this] Some c show ?thesis
        by (auto simp: semverLess_key split: if_splits)
    qed
  qed
qed

lemma best_published_None:
  "best_published i best ps = None \<longleftrightarrow> best = None \<and> (\<forall>p \<in> set ps. \<not> candidate i p)"
proof (induction ps arbitrary: best)
  case (Cons p ps)
  then show ?case by (cases best) (auto simp: candidate_def)
qed simp

section \<open>What stays of a registered pack\<close>

text \<open>A stored pack keeps its identity, its bytes and its signature; a published one is final.\<close>

definition pack_keeps :: "rp_doc \<Rightarrow> rp_doc \<Rightarrow> bool" where
  "pack_keeps d d' = (case (d, d') of
       (PackDoc r, PackDoc r') \<Rightarrow> prID r' = prID r \<and> prVersion r' = prVersion r \<and> prSHA256 r' = prSHA256 r
          \<and> YAML r' = YAML r \<and> prSigned r' = prSigned r \<and> RegisteredAt r' = RegisteredAt r
          \<and> (prStatus r \<in> {''published'', ''retired''} \<longrightarrow> r' = r)
     | _ \<Rightarrow> d' = d)"

lemma pack_keeps_rel: "reflp pack_keeps" "transp pack_keeps"
  by (auto simp: reflp_def transp_def pack_keeps_def split: rp_doc.splits)

datatype rp_op =
    RpRegister "register_req option" instant
  | RpPublish string string claims instant instant string string write_outcome
  | RpPin "consumer_req option" instant

fun rp_exec :: "registry_cfg \<Rightarrow> rp_op \<Rightarrow> pack_registry \<Rightarrow> rp_response \<times> pack_registry" where
  "rp_exec g (RpRegister rq now) s = registerPack g rq now s"
| "rp_exec g (RpPublish i v c now now2 u tr w) s = publishPack g i v c now now2 u tr w s"
| "rp_exec g (RpPin rq now) s = registerConsumer rq now s"

definition rp_run :: "registry_cfg \<Rightarrow> rp_op list \<Rightarrow> pack_registry \<Rightarrow> pack_registry" where
  "rp_run g ops s = fold (\<lambda>p s. snd (rp_exec g p s)) ops s"

lemma Get_lookup: "Get dec c i s = (case lookup c i s of None \<Rightarrow> Inl ErrNotFound | Some v \<Rightarrow> dec v)"
  by (simp add: Get_def lookup_def)

lemma GetRaw_lookup: "GetRaw c i s = (case lookup c i s of None \<Rightarrow> Inl ErrNotFound | Some v \<Rightarrow> Inr v)"
  by (simp add: GetRaw_def lookup_def)

text \<open>The one write each operation makes, if it makes any.\<close>

lemma registerPack_cases:
  obtains (same) "rgStore (snd (registerPack g rq now s)) = rgStore s" "fst (fst (registerPack g rq now s)) \<noteq> 201"
  | (put) raw p e st where "Option.bind rq artifact_of = Some raw" "rgParse g raw = Inr p" "pack_Validate p = []"
      "verifyPackOnWrite g p raw = None" "lookup ''packs'' (pack_key (pkID p) (pkVersion p)) (rgStore s) = None"
      "Put ''packs'' (pack_key (pkID p) (pkVersion p)) (pack_doc (new_pack_rec g p raw now)) (rgStore s) = (e, st)"
      "rgStore (snd (registerPack g rq now s)) = st"
      "e = None \<Longrightarrow> fst (registerPack g rq now s) = (201, RPack (new_pack_rec g p raw now))"
      "rgOut (snd (registerPack g rq now s)) = rgOut s"
proof (cases "Option.bind rq artifact_of")
  case None
  then show ?thesis by (intro same) (simp_all add: registerPack_def)
next
  case raw: (Some raw)
  show ?thesis
  proof (cases "rgParse g raw")
    case (Inl e)
    with raw show ?thesis by (intro same) (simp_all add: registerPack_def ValidateYAML_def)
  next
    case p: (Inr p)
    let ?k = "pack_key (pkID p) (pkVersion p)"
    show ?thesis
    proof (cases "pack_Validate p = [] \<and> verifyPackOnWrite g p raw = None \<and> lookup ''packs'' ?k (rgStore s) = None")
      case True
      obtain e st where w: "Put ''packs'' ?k (pack_doc (new_pack_rec g p raw now)) (rgStore s) = (e, st)"
        by fastforce
      with raw p True show ?thesis
        by (intro put [where raw = raw and p = p and e = e and st = st])
           (cases e, simp_all add: registerPack_def ValidateYAML_def GetRaw_lookup Let_def)+
    next
      case False
      with raw p show ?thesis
        by (intro same) (auto simp: registerPack_def ValidateYAML_def GetRaw_lookup Let_def
            split: option.splits sum.splits if_splits)
    qed
  qed
qed

lemma publishPack_cases:
  obtains (same) "snd (publishPack g i v c now now2 u tr w s) = s"
  | (put) r e st where "lookup ''packs'' (pack_key i v) (rgStore s) = Some (PackDoc r)"
      "prStatus r \<notin> {''published'', ''retired''}"
      "prSigned r \<noteq> None \<or> rgProd g \<Longrightarrow> verifyPackOnWrite g (pack_of_rec r) (YAML r) = None"
      "Put ''packs'' (pack_key i v) (pack_doc (published_rec now r)) (rgStore s) = (e, st)"
      "rgStore (snd (publishPack g i v c now now2 u tr w s)) = st"
      "e = None \<Longrightarrow> fst (publishPack g i v c now now2 u tr w s) = (200, RPack (published_rec now r))"
      "rgOut (snd (publishPack g i v c now now2 u tr w s)) = (if e = None then snd (Append w
         ''nrs.rulepacks.published.v1'' (envelope_New u now2 tr ''nrs.rulepacks.published.v1'' ''rp-registry''
            (TenantID c) (pack_key i v) (publish_event (pack_key i v) (published_rec now r) c)) (rgOut s))
         else rgOut s)"
proof (cases "lookup ''packs'' (pack_key i v) (rgStore s)")
  case None
  then show ?thesis by (intro same) (simp add: publishPack_def Get_lookup)
next
  case d: (Some d)
  show ?thesis
  proof (cases d)
    case (PinDoc p)
    with d show ?thesis by (intro same) (simp add: publishPack_def Get_lookup dec_pack_def)
  next
    case r: (PackDoc r)
    show ?thesis
    proof (cases "prStatus r \<in> {''published'', ''retired''}
        \<or> (prSigned r \<noteq> None \<or> rgProd g) \<and> verifyPackOnWrite g (pack_of_rec r) (YAML r) \<noteq> None")
      case True
      with d r show ?thesis by (intro same) (auto simp: publishPack_def Get_lookup dec_pack_def Let_def)
    next
      case False
      obtain e st where wr: "Put ''packs'' (pack_key i v) (pack_doc (published_rec now r)) (rgStore s) = (e, st)"
        by fastforce
      with d r False show ?thesis
        by (intro put [where r = r and e = e and st = st])
           (cases e, auto simp: publishPack_def Get_lookup dec_pack_def Let_def)+
    qed
  qed
qed

lemma registerConsumer_cases:
  obtains (same) "snd (registerConsumer rq now s) = s"
  | (put) k pin e st where "Put ''consumers'' k (PinDoc pin) (rgStore s) = (e, st)"
      "rgStore (snd (registerConsumer rq now s)) = st"
      "rgOut (snd (registerConsumer rq now s)) = rgOut s"
proof (cases rq)
  case (Some r)
  show ?thesis
  proof (cases "crConsumer r = '''' \<or> crPackID r = '''' \<or> crVersion r = ''''")
    case False
    let ?pin = "\<lparr>cpConsumer = crConsumer r, cpPackID = crPackID r, cpVersion = crVersion r,
        PinnedAt = format_rfc3339 now\<rparr>"
    obtain e st where w: "Put ''consumers'' (crConsumer r @ '':'' @ crPackID r) (PinDoc ?pin) (rgStore s) = (e, st)"
      by fastforce
    with Some False show ?thesis
      by (intro put [OF w]) (cases e, simp_all add: registerConsumer_def)+
  qed (use Some in \<open>auto intro: same simp: registerConsumer_def\<close>)
qed (auto intro: same simp: registerConsumer_def)

lemma pack_keeps_published:
  "prStatus r \<notin> {''published'', ''retired''} \<Longrightarrow> pack_keeps (PackDoc r) (pack_doc (published_rec now r))"
  by (simp add: pack_keeps_def pack_doc_def published_rec_def)

lemma rp_exec_keeps: "ds.evolves pack_keeps ''packs'' (rgStore s) (rgStore (snd (rp_exec g p s)))"
proof (cases p)
  case (RpRegister rq now)
  show ?thesis
  proof (cases g rq now s rule: registerPack_cases)
    case (put raw p1 e st)
    have "ds.evolves pack_keeps ''packs'' (rgStore s) st"
      by (rule ds.evolves_put [OF pack_keeps_rel(1) put(6)]) (simp add: put(5))
    then show ?thesis using RpRegister put(7) by simp
  qed (use RpRegister ds.evolves_refl [OF pack_keeps_rel(1)] in simp)
next
  case (RpPublish i v c now now2 u tr w)
  show ?thesis
  proof (cases g i v c now now2 u tr w s rule: publishPack_cases)
    case (put r e st)
    have "ds.evolves pack_keeps ''packs'' (rgStore s) st"
      by (rule ds.evolves_put [OF pack_keeps_rel(1) put(4)]) (simp add: put(1) pack_keeps_published [OF put(2)])
    then show ?thesis using RpPublish put(5) by simp
  qed (use RpPublish ds.evolves_refl [OF pack_keeps_rel(1)] in simp)
next
  case (RpPin rq now)
  show ?thesis
  proof (cases rq now s rule: registerConsumer_cases)
    case (put k pin e st)
    then show ?thesis using RpPin ds.evolves_other [OF pack_keeps_rel(1) put(1)] by simp
  qed (use RpPin ds.evolves_refl [OF pack_keeps_rel(1)] in simp)
qed

lemma rp_run_keeps: "ds.evolves pack_keeps ''packs'' (rgStore s) (rgStore (rp_run g ops s))"
proof (induction ops arbitrary: s)
  case (Cons p ops)
  show ?case
    using ds.evolves_trans [OF pack_keeps_rel(2) rp_exec_keeps [of s g p] Cons.IH [of "snd (rp_exec g p s)"]]
    by (simp add: rp_run_def)
qed (simp add: rp_run_def ds.evolves_refl [OF pack_keeps_rel(1)])

section \<open>Production holds signed packs only\<close>

text \<open>A stored record carries the bytes of a valid artifact whose signature verified.\<close>

definition vouched :: "registry_cfg \<Rightarrow> pack_rec \<Rightarrow> bool" where
  "vouched g r \<longleftrightarrow> (\<exists>p. rgParse g (YAML r) = Inr p \<and> pack_Validate p = [] \<and> prID r = pkID p
     \<and> prVersion r = pkVersion p \<and> prSHA256 r = hex_encode (rgSum g (YAML r))
     \<and> VerifyPackYAMLArtifact (rgCrypto g) p (YAML r) (signKeys g) = None)"

definition all_vouched :: "registry_cfg \<Rightarrow> pack_registry \<Rightarrow> bool" where
  "all_vouched g s \<longleftrightarrow> (\<forall>k r. lookup ''packs'' k (rgStore s) = Some (PackDoc r)
     \<longrightarrow> k = pack_key (prID r) (prVersion r) \<and> vouched g r)"

lemma vouched_same:
  "YAML r' = YAML r \<Longrightarrow> prID r' = prID r \<Longrightarrow> prVersion r' = prVersion r \<Longrightarrow> prSHA256 r' = prSHA256 r
   \<Longrightarrow> vouched g r \<Longrightarrow> vouched g r'"
  by (simp add: vouched_def)

lemma prod_verifies:
  assumes "registry_boot (signKeys g) (rgProd g) = None" "rgProd g" "verifyPackOnWrite g p raw = None"
  shows "VerifyPackYAMLArtifact (rgCrypto g) p raw (signKeys g) = None"
  using assms by (auto simp: registry_boot_def verifyPackOnWrite_def split: option.splits if_splits)

lemma rp_exec_vouched:
  assumes b: "registry_boot (signKeys g) (rgProd g) = None" "rgProd g" and inv: "all_vouched g s"
  shows "all_vouched g (snd (rp_exec g p s))"
proof (cases p)
  case (RpRegister rq now)
  show ?thesis
  proof (cases g rq now s rule: registerPack_cases)
    case (put raw p1 e st)
    let ?r = "new_pack_rec g p1 raw now"
    have "vouched g ?r"
      using put prod_verifies [OF b put(4)] by (simp add: vouched_def new_pack_rec_def)
    then have "vouched g (?r\<lparr>prPack := json_raw (prPack ?r)\<rparr>)" by (rule vouched_same [rotated 4]) simp_all
    then show ?thesis using inv RpRegister put(7) Put_lookup [OF put(6)]
      by (auto simp: all_vouched_def pack_doc_def new_pack_rec_def split: if_splits)
  qed (use RpRegister inv in \<open>simp add: all_vouched_def\<close>)
next
  case (RpPublish i v c now now2 u tr w)
  show ?thesis
  proof (cases g i v c now now2 u tr w s rule: publishPack_cases)
    case (put r e st)
    let ?r = "published_rec now r"
    have old: "pack_key i v = pack_key (prID r) (prVersion r)" "vouched g r"
      using inv put(1) by (auto simp: all_vouched_def)
    then have "vouched g (?r\<lparr>prPack := json_raw (prPack ?r)\<rparr>)"
      by (intro vouched_same [OF _ _ _ _ old(2)]) (simp_all add: published_rec_def)
    then show ?thesis using inv RpPublish put(5) Put_lookup [OF put(4)] old(1)
      by (auto simp: all_vouched_def pack_doc_def published_rec_def split: if_splits)
  qed (use RpPublish inv in simp)
next
  case (RpPin rq now)
  show ?thesis
  proof (cases rq now s rule: registerConsumer_cases)
    case (put k pin e st)
    then show ?thesis using inv RpPin Put_lookup [OF put(1)] by (simp add: all_vouched_def)
  qed (use RpPin inv in simp)
qed

lemma rp_run_vouched:
  assumes "registry_boot (signKeys g) (rgProd g) = None" "rgProd g" "all_vouched g s"
  shows "all_vouched g (rp_run g ops s)"
  using assms(3) by (induction ops arbitrary: s) (simp_all add: rp_run_def rp_exec_vouched [OF assms(1,2)])

section \<open>A signed draft with an integer\<close>

text \<open>The stored content has been through JSON, the artifact has not: the two differ on every
  integer, and the binding check refuses the publication.\<close>

lemma publish_blocked:
  assumes "lookup ''packs'' (pack_key i v) (rgStore s) = Some (pack_doc r)"
    and "prStatus r \<notin> {''published'', ''retired''}" "prSigned r \<noteq> None"
    and canon: "canonical_yaml (rgCrypto g) (YAML r) = Inr b" "yaml_decode (rgCrypto g) b = Inr (kv_del ''signed'' (prPack r))"
    and int: "\<exists>p \<in> set (kv_del ''signed'' (prPack r)). has_int (snd p)"
  shows "publishPack g i v c now now2 u tr w s = ((422, RProblem ''pack_signature_invalid''), s)"
proof -
  let ?r = "r\<lparr>prPack := json_raw (prPack r)\<rparr>"
  have ne: "kv_del ''signed'' (json_raw (prPack r)) \<noteq> kv_del ''signed'' (prPack r)"
    using json_raw_int [OF int] by (simp add: kv_del_json_raw)
  have "verifyPackOnWrite g (pack_of_rec ?r) (YAML ?r) \<noteq> None"
  proof
    assume "verifyPackOnWrite g (pack_of_rec ?r) (YAML ?r) = None"
    then have "VerifyPackYAMLArtifact (rgCrypto g) (pack_of_rec ?r) (YAML r) (signKeys g) = None"
      using assms(3) by (auto simp: verifyPackOnWrite_def pack_of_rec_def)
    then show False
    proof (rule VerifyPackSignature_ok)
      fix c1 sg pub sig raw
      assume "canonical_yaml (rgCrypto g) (YAML r) = Inr c1" "Raw (pack_of_rec ?r) = Some raw"
        "yaml_decode (rgCrypto g) c1 = Inr (kv_del ''signed'' raw)"
      with canon ne show False by (simp add: pack_of_rec_def)
    qed
  qed
  with assms(1-3) show ?thesis
    by (simp add: publishPack_def Get_lookup dec_pack_def pack_doc_def)
qed

text \<open>A pack registered as published is served, and no publication event is ever written for it.\<close>

lemma published_at_registration_silent:
  assumes "lookup ''packs'' (pack_key i v) (rgStore s) = Some (PackDoc r)" "prStatus r = ''published''"
  shows "publishPack g i v c now now2 u tr w s = ((200, RPack r), s)"
  using assms by (simp add: publishPack_def Get_lookup dec_pack_def)

section \<open>The latest version\<close>

lemma dec_pack_Inr: "dec_pack d = Inr r \<longleftrightarrow> d = PackDoc r"
  by (cases d) (auto simp: dec_pack_def)

lemma latest_spec:
  assumes "colls_ok (rgStore s)" "latestPublished i s = Some b"
  shows "(\<exists>k. lookup ''packs'' k (rgStore s) = Some (PackDoc b)) \<and> candidate i b
    \<and> (\<forall>k r. lookup ''packs'' k (rgStore s) = Some (PackDoc r) \<and> candidate i r
         \<longrightarrow> \<not> semverLess (prVersion b) (prVersion r))"
proof -
  obtain rs where rs: "ListInto dec_pack ''packs'' (rgStore s) = Inr rs" "best_published i None rs = Some b"
    using assms(2) by (auto simp: latestPublished_def split: sum.splits)
  have mem: "r \<in> set rs \<longleftrightarrow> (\<exists>k. lookup ''packs'' k (rgStore s) = Some (PackDoc r))" for r
  proof -
    have "r \<in> set rs \<longleftrightarrow> (\<exists>d \<in> set (ListDocs ''packs'' (rgStore s)). dec_pack d = Inr r)"
      using rs(1) by (intro decode_all_mem) (simp add: ListInto_def)
    also have "\<dots> \<longleftrightarrow> PackDoc r \<in> set (ListDocs ''packs'' (rgStore s))"
      by (simp add: dec_pack_Inr)
    finally show ?thesis using mem_ListDocs [OF assms(1)] by simp
  qed
  from best_published_spec [OF rs(2)] have "b \<in> set rs" "candidate i b"
    "\<And>p. p \<in> set rs \<Longrightarrow> candidate i p \<Longrightarrow> ver_key (prVersion p) \<le> ver_key (prVersion b)" by auto
  then show ?thesis using mem by (auto simp: semverLess_key not_less)
qed

end
