(* ===== verification/Notification.thy ===== *)
theory Notification
  imports DocStore GoStd
begin

text \<open>
  The notification service, \<open>services/notification\<close>: the fallback orchestrator with its templates and
  delivery receipts (\<open>fallback.go\<close>) and the handlers over the document store (\<open>main.go\<close>). What a
  provider answers to the n-th call of its \<open>Send\<close> and the n-th clock reading are arguments; every call
  of \<open>Send\<close> is kept in a log.
\<close>

section \<open>Messages, receipts, providers\<close>

text \<open>The parameters of a message in the order the code visits them, each with its printed value.\<close>

record message =
  msID :: string
  msChannel :: string
  msTo :: string
  msBody :: string
  TemplateID :: string
  Params :: "(string \<times> string) list"
  IdempotencyKey :: string
  msStatus :: string
  msProvider :: string
  ProviderID :: string
  msError :: string
  msCreatedAt :: string
  msUpdatedAt :: string

record receipt_rec =
  rcID :: string
  rcMessage :: string
  rcChannel :: string
  rcProvider :: string
  rcAttempt :: int
  rcOutcome :: string
  rcError :: string
  BackoffMS :: int
  rcAt :: string

record provider =
  pvName :: string
  pvChannels :: "string list"

text \<open>What is outside: the answer to the n-th \<open>Send\<close> (an error, or the provider's identifier) and the
  clock.\<close>

record rails =
  rlSend :: "nat \<Rightarrow> string + string"
  rlClock :: "nat \<Rightarrow> instant"

text \<open>The calls of \<open>Send\<close> made so far and the readings of the clock taken.\<close>

record wire =
  wrCalls :: "message list"
  wrTick :: nat

definition read_clock :: "rails \<Rightarrow> wire \<Rightarrow> string \<times> wire" where
  "read_clock e w = (format_rfc3339 (rlClock e (wrTick w)), w\<lparr>wrTick := Suc (wrTick w)\<rparr>)"

definition provider_Send :: "rails \<Rightarrow> message \<Rightarrow> wire \<Rightarrow> (string + string) \<times> wire" where
  "provider_Send e m w = (rlSend e (length (wrCalls w)), w\<lparr>wrCalls := wrCalls w @ [m]\<rparr>)"

definition LogSimulator :: provider where
  "LogSimulator = \<lparr>pvName = ''log-simulator [simulated]'', pvChannels = [''sms'', ''ussd'', ''email'', ''push'']\<rparr>"

definition WebhookProvider :: provider where
  "WebhookProvider = \<lparr>pvName = ''webhook-gateway'', pvChannels = [''sms'', ''ussd'', ''email'', ''push'']\<rparr>"

text \<open>\<open>None\<close> is the refusal to boot.\<close>

definition providersFromEnv :: "string \<Rightarrow> string \<Rightarrow> provider list option" where
  "providersFromEnv url profile =
     (if url \<noteq> '''' then Some [WebhookProvider]
      else if profile = ''prod'' \<or> profile = ''production'' then None else Some [LogSimulator])"

fun providerFor :: "provider list \<Rightarrow> string \<Rightarrow> provider option" where
  "providerFor [] channel = None"
| "providerFor (p # ps) channel =
     (if list_ex (\<lambda>c. c = channel) (pvChannels p) then Some p else providerFor ps channel)"

section \<open>Templates\<close>

definition defaultChain :: "string list" where
  "defaultChain = [''sms'', ''ussd'', ''email'', ''agent'']"

definition naira :: string where "naira = [CHR 0xE2, CHR 0x82, CHR 0xA6]"
definition nl :: string where "nl = [CHR 0x0A]"

definition channelTemplates :: "(string \<times> (string \<times> string) list) list" where
  "channelTemplates =
     [(''payment-reminder'',
        [(''sms'', ''NRS: payment of '' @ naira @ ''{{amount}} due {{due_date}}. Ref {{reference}}.''),
         (''ussd'', ''NRS payment due '' @ naira @ ''{{amount}}. Dial *737# to pay. Ref {{reference}}.''),
         (''email'', ''Dear taxpayer,'' @ nl @ nl @ ''your payment of '' @ naira
            @ ''{{amount}} is due on {{due_date}} (reference {{reference}}).'' @ nl @ nl @ ''NRS''),
         (''agent'', ''Call {{to}} re: payment '' @ naira @ ''{{amount}} due {{due_date}} (ref {{reference}})'')]),
      (''filing-receipt'',
        [(''sms'', ''NRS: filing {{filing_id}} received. Receipt {{receipt}}.''),
         (''email'', ''Your filing {{filing_id}} was received. Receipt: {{receipt}}.'' @ nl @ nl @ ''NRS''),
         (''agent'', ''Confirm filing {{filing_id}} receipt to {{to}}'')])]"

text \<open>\<open>strings.ReplaceAll\<close> of a non-empty string.\<close>

function replace_all :: "string \<Rightarrow> string \<Rightarrow> string \<Rightarrow> string" where
  "replace_all old new s = (case s of [] \<Rightarrow> []
     | c # cs \<Rightarrow> if old \<noteq> [] \<and> take (length old) s = old then new @ replace_all old new (drop (length old) s)
               else c # replace_all old new cs)"
  by pat_completeness auto
termination
  by (relation "measure (\<lambda>(old, new, s). length s)") (auto simp: neq_Nil_conv)

declare replace_all.simps [simp del]

text \<open>\<open>variant\<close> chooses the variant Go's map iteration happens to visit first.\<close>

definition renderTemplate :: "((string \<times> string) list \<Rightarrow> string) \<Rightarrow> string \<Rightarrow> string \<Rightarrow> (string \<times> string) list
     \<Rightarrow> string + string" where
  "renderTemplate variant templateID channel params =
     (case map_of channelTemplates templateID of
        None \<Rightarrow> Inl (''no template '' @ quoted templateID @ '' for channel '' @ quoted channel)
      | Some vs \<Rightarrow>
          (let tpl = (case map_of vs channel of Some t \<Rightarrow> t | None \<Rightarrow> variant vs)
           in Inr (fold (\<lambda>(k, v) t. replace_all (''{{'' @ k @ ''}}'') v t) params tpl)))"

section \<open>The orchestrator\<close>

definition maxPerCh :: nat where "maxPerCh = 3"
definition backoffMS :: "int list" where "backoffMS = [250, 1000, 5000]"

definition mk_receipt :: "message \<Rightarrow> string \<Rightarrow> string \<Rightarrow> int \<Rightarrow> string \<Rightarrow> string \<Rightarrow> int \<Rightarrow> string \<Rightarrow> receipt_rec" where
  "mk_receipt m channel prov attempt outcome err backoff at =
     \<lparr>rcID = '''', rcMessage = msID m, rcChannel = channel, rcProvider = prov, rcAttempt = attempt,
      rcOutcome = outcome, rcError = err, BackoffMS = backoff, rcAt = at\<rparr>"

definition attempt_msg :: "message \<Rightarrow> string \<Rightarrow> string \<Rightarrow> message" where
  "attempt_msg m channel body = \<lparr>msID = msID m, msChannel = channel, msTo = msTo m, msBody = body,
     TemplateID = TemplateID m, Params = Params m, IdempotencyKey = '''', msStatus = '''', msProvider = '''',
     ProviderID = '''', msError = '''', msCreatedAt = '''', msUpdatedAt = ''''\<rparr>"

text \<open>The attempts on one channel from the i-th on, \<open>fuel\<close> of them left: the identifier when the
  provider accepted, and the receipts.\<close>

fun try_channel :: "rails \<Rightarrow> message \<Rightarrow> string \<Rightarrow> string \<Rightarrow> string \<Rightarrow> nat \<Rightarrow> nat \<Rightarrow> wire
     \<Rightarrow> string option \<times> receipt_rec list \<times> wire" where
  "try_channel e m channel body prov 0 i w = (None, [], w)"
| "try_channel e m channel body prov (Suc fuel) i w =
     (let (res, w1) = provider_Send e (attempt_msg m channel body) w;
          (at, w2) = read_clock e w1
      in case res of
           Inr pid \<Rightarrow> (Some pid, [mk_receipt m channel prov (int i + 1) ''sent'' '''' 0 at], w2)
         | Inl err \<Rightarrow>
             (let backoff = (if i < maxPerCh - 1 \<and> i < length backoffMS then backoffMS ! i else 0);
                  (r, rcs, w3) = try_channel e m channel body prov fuel (Suc i) w2
              in (r, mk_receipt m channel prov (int i + 1) ''failed'' err backoff at # rcs, w3)))"

fun orch_run :: "rails \<Rightarrow> provider list \<Rightarrow> (string \<Rightarrow> string + string) \<Rightarrow> message \<Rightarrow> string list \<Rightarrow> wire
     \<Rightarrow> message \<times> receipt_rec list \<times> wire" where
  "orch_run e ps render m [] w =
     (let (at, w1) = read_clock e w in (m\<lparr>msStatus := ''failed'', msUpdatedAt := at\<rparr>, [], w1))"
| "orch_run e ps render m (channel # chain) w =
     (if channel = ''agent'' then
        (let (at1, w1) = read_clock e w; (at2, w2) = read_clock e w1
         in (m\<lparr>msChannel := ''agent'', msProvider := ''agent-queue'', msStatus := ''queued_for_agent'',
                msUpdatedAt := at1\<rparr>, [mk_receipt m ''agent'' ''agent-queue'' 1 ''sent'' '''' 0 at2], w2))
      else (case providerFor ps channel of
          None \<Rightarrow>
            (let (at, w1) = read_clock e w; (m1, rcs, w2) = orch_run e ps render m chain w1
             in (m1, mk_receipt m channel ''-'' 0 ''failed'' ''no provider for channel'' 0 at # rcs, w2))
        | Some p \<Rightarrow> (case render channel of
            Inl err \<Rightarrow>
              (let (at, w1) = read_clock e w; (m1, rcs, w2) = orch_run e ps render m chain w1
               in (m1, mk_receipt m channel (pvName p) 0 ''failed'' err 0 at # rcs, w2))
          | Inr body \<Rightarrow>
              (case try_channel e m channel body (pvName p) maxPerCh 0 w of
                 (Some pid, rcs, w1) \<Rightarrow>
                   (let (at, w2) = read_clock e w1
                    in (m\<lparr>msChannel := channel, msBody := body, msProvider := pvName p, ProviderID := pid,
                          msStatus := ''sent'', msUpdatedAt := at\<rparr>, rcs, w2))
               | (None, rcs, w1) \<Rightarrow>
                   (let (m1, rcs2, w2) = orch_run e ps render m chain w1 in (m1, rcs @ rcs2, w2))))))"

section \<open>The handlers\<close>

datatype note_doc = MsgDoc message | RcptDoc receipt_rec

definition dec_msg :: "note_doc \<Rightarrow> string + message" where
  "dec_msg d = (case d of MsgDoc m \<Rightarrow> Inr m | RcptDoc _ \<Rightarrow> Inl ''json: cannot unmarshal'')"

definition dec_rcpt :: "note_doc \<Rightarrow> string + receipt_rec" where
  "dec_rcpt d = (case d of RcptDoc r \<Rightarrow> Inr r | MsgDoc _ \<Rightarrow> Inl ''json: cannot unmarshal'')"

record notifier =
  ntStore :: "note_doc docstore"
  ntWire :: wire

datatype note_body =
    NProblem string
  | NMessage message
  | NNotified message nat "string list"
  | NReceipts "receipt_rec list"

type_synonym note_response = "int \<times> note_body"

record sendReq =
  sqChannel :: string
  sqTo :: string
  sqBody :: string
  sqTemplateID :: string
  sqParams :: "(string \<times> string) list"
  sqKey :: string

definition note_channels :: "string list" where
  "note_channels = [''sms'', ''ussd'', ''email'', ''push'']"

text \<open>The idempotency lookup: the message recorded for the key, a failing store, or nothing.\<close>

definition replay :: "string \<Rightarrow> string \<Rightarrow> notifier \<Rightarrow> note_response option" where
  "replay idem k s = (if idem = '''' then None
     else case Get dec_msg ''by_key'' k (ntStore s) of
       Inr m \<Rightarrow> Some (200, NMessage m)
     | Inl e \<Rightarrow> if e \<noteq> ErrNotFound then Some (503, NProblem ''idempotency_store_unavailable'') else None)"

text \<open>The end of \<open>send\<close>: the message is written, then the entry of its key.\<close>

definition store_sent :: "string \<Rightarrow> message \<Rightarrow> notifier \<Rightarrow> note_response \<times> notifier" where
  "store_sent k m s =
     (case Put ''messages'' (msID m) (MsgDoc m) (ntStore s) of
        (Some err, st) \<Rightarrow> ((500, NProblem ''internal''), s\<lparr>ntStore := st\<rparr>)
      | (None, st) \<Rightarrow>
          (case (if k \<noteq> '''' then Put ''by_key'' k (MsgDoc m) st else (None, st)) of
             (Some err, st1) \<Rightarrow> ((500, NProblem ''internal''), s\<lparr>ntStore := st1\<rparr>)
           | (None, st1) \<Rightarrow>
               ((if msStatus m = ''failed'' then 502 else 202, NMessage m), s\<lparr>ntStore := st1\<rparr>)))"

definition note_send :: "rails \<Rightarrow> provider list \<Rightarrow> sendReq option \<Rightarrow> string \<Rightarrow> notifier \<Rightarrow> note_response \<times> notifier" where
  "note_send e ps req ulid s = (case req of
       None \<Rightarrow> ((400, NProblem ''bad_request''), s)
     | Some rq \<Rightarrow>
         if sqChannel rq \<notin> set note_channels \<or> sqTo rq = '''' \<or> (sqBody rq = '''' \<and> sqTemplateID rq = '''')
         then ((400, NProblem ''bad_request''), s)
         else (case replay (sqKey rq) (sqKey rq) s of
             Some r \<Rightarrow> (r, s)
           | None \<Rightarrow> (case providerFor ps (sqChannel rq) of
               None \<Rightarrow> ((503, NProblem ''no_provider''), s)
             | Some p \<Rightarrow>
                 (let (at, w1) = read_clock e (ntWire s);
                      m = \<lparr>msID = ''msg-'' @ ulid, msChannel = sqChannel rq, msTo = sqTo rq, msBody = sqBody rq,
                           TemplateID = sqTemplateID rq, Params = sqParams rq, IdempotencyKey = sqKey rq,
                           msStatus = ''queued'', msProvider = pvName p, ProviderID = '''', msError = '''',
                           msCreatedAt = at, msUpdatedAt = at\<rparr>;
                      (res, w2) = provider_Send e m w1;
                      (at2, w3) = read_clock e w2;
                      m1 = (case res of
                          Inl err \<Rightarrow> m\<lparr>msUpdatedAt := at2, msStatus := ''failed'', msError := err\<rparr>
                        | Inr pid \<Rightarrow> m\<lparr>msUpdatedAt := at2, msStatus := ''sent'', ProviderID := pid\<rparr>)
                  in store_sent (sqKey rq) m1 (s\<lparr>ntWire := w3\<rparr>)))))"

record notifyReq =
  nqTo :: string
  nqTemplateID :: string
  nqParams :: "(string \<times> string) list"
  nqChain :: "string list"
  nqKey :: string

text \<open>The receipts are written one by one under fresh identifiers; the first failing write ends it.\<close>

fun put_receipts :: "receipt_rec list \<Rightarrow> string list \<Rightarrow> note_doc docstore \<Rightarrow> string option \<times> note_doc docstore" where
  "put_receipts (r # rs) (u # us) st =
     (let i = ''drcpt-'' @ u
      in case Put ''receipts'' i (RcptDoc (r\<lparr>rcID := i\<rparr>)) st of
           (Some e, st1) \<Rightarrow> (Some e, st1) | (None, st1) \<Rightarrow> put_receipts rs us st1)"
| "put_receipts _ _ st = (None, st)"

text \<open>The end of \<open>notify\<close>: the message, the receipts, then the entry of the key; an error of that last
  write is ignored.\<close>

definition store_notified :: "string \<Rightarrow> message \<Rightarrow> receipt_rec list \<Rightarrow> (nat \<Rightarrow> string) \<Rightarrow> string list \<Rightarrow> notifier
     \<Rightarrow> note_response \<times> notifier" where
  "store_notified k m rcs rids chain s =
     (case Put ''messages'' (msID m) (MsgDoc m) (ntStore s) of
        (Some err, st) \<Rightarrow> ((500, NProblem ''internal''), s\<lparr>ntStore := st\<rparr>)
      | (None, st) \<Rightarrow>
          (case put_receipts rcs (map rids [0..<length rcs]) st of
             (Some err, st1) \<Rightarrow> ((500, NProblem ''internal''), s\<lparr>ntStore := st1\<rparr>)
           | (None, st1) \<Rightarrow>
               (let st2 = (if k \<noteq> '''' then snd (Put ''by_key'' (''notify:'' @ k) (MsgDoc m) st1) else st1)
                in ((if msStatus m = ''failed'' then 502 else 202, NNotified m (length rcs) chain),
                    s\<lparr>ntStore := st2\<rparr>))))"

definition note_notify :: "rails \<Rightarrow> provider list \<Rightarrow> ((string \<times> string) list \<Rightarrow> string) \<Rightarrow> notifyReq option
     \<Rightarrow> string \<Rightarrow> (nat \<Rightarrow> string) \<Rightarrow> notifier \<Rightarrow> note_response \<times> notifier" where
  "note_notify e ps variant req ulid rids s = (case req of
       None \<Rightarrow> ((400, NProblem ''bad_request''), s)
     | Some rq \<Rightarrow>
         if nqTo rq = '''' \<or> nqTemplateID rq = '''' then ((400, NProblem ''bad_request''), s)
         else (case replay (nqKey rq) (''notify:'' @ nqKey rq) s of
             Some r \<Rightarrow> (r, s)
           | None \<Rightarrow>
               (let chain = (if nqChain rq = [] then defaultChain else nqChain rq)
                in if list_ex (\<lambda>ch. ch \<notin> set note_channels \<and> ch \<noteq> ''agent'') chain
                   then ((400, NProblem ''bad_request''), s)
                   else
                     (let (at, w1) = read_clock e (ntWire s);
                          m = \<lparr>msID = ''msg-'' @ ulid, msChannel = '''', msTo = nqTo rq, msBody = '''',
                               TemplateID = nqTemplateID rq, Params = nqParams rq, IdempotencyKey = nqKey rq,
                               msStatus = ''queued'', msProvider = '''', ProviderID = '''', msError = '''',
                               msCreatedAt = at, msUpdatedAt = at\<rparr>;
                          (m1, rcs, w2) = orch_run e ps (\<lambda>ch. renderTemplate variant (nqTemplateID rq) ch (nqParams rq))
                            m chain w1
                      in store_notified (nqKey rq) m1 rcs rids chain (s\<lparr>ntWire := w2\<rparr>)))))"

definition note_receipts :: "string \<Rightarrow> notifier \<Rightarrow> note_response" where
  "note_receipts i s = (case ListInto dec_rcpt ''receipts'' (ntStore s) of
       Inl e \<Rightarrow> (500, NProblem ''internal'')
     | Inr rs \<Rightarrow> (200, NReceipts (filter (\<lambda>r. rcMessage r = i) rs)))"

definition note_status :: "string \<Rightarrow> notifier \<Rightarrow> note_response" where
  "note_status i s = (case Get dec_msg ''messages'' i (ntStore s) of
       Inl e \<Rightarrow> (404, NProblem ''not_found'') | Inr m \<Rightarrow> (200, NMessage m))"

section \<open>What a run of the chain does\<close>

definition accepted :: "rails \<Rightarrow> wire \<Rightarrow> wire \<Rightarrow> nat set" where
  "accepted e w w' = {n. length (wrCalls w) \<le> n \<and> n < length (wrCalls w') \<and> is_ok (rlSend e n)}"

lemma accepted_none [simp]: "length (wrCalls w') = length (wrCalls w) \<Longrightarrow> accepted e w w' = {}"
  by (auto simp: accepted_def)

lemma accepted_trans:
  "length (wrCalls w) \<le> length (wrCalls w1) \<Longrightarrow> length (wrCalls w1) \<le> length (wrCalls w2) \<Longrightarrow>
   accepted e w w2 = accepted e w w1 \<union> accepted e w1 w2"
  by (auto simp: accepted_def)

lemma accepted_step:
  "length (wrCalls w') = Suc (length (wrCalls w)) \<Longrightarrow>
   accepted e w w' = (if is_ok (rlSend e (length (wrCalls w))) then {length (wrCalls w)} else {})"
  by (auto simp: accepted_def le_less_Suc_eq)

lemma read_clock_calls [simp]: "wrCalls (snd (read_clock e w)) = wrCalls w"
  by (simp add: read_clock_def)

text \<open>The attempts on one channel: one receipt per call, all failed but the last one of an accepted run.\<close>

lemma try_channel_spec:
  "try_channel e m channel body prov fuel i w = (r, rcs, w') \<Longrightarrow>
   length rcs \<le> fuel \<and> length (wrCalls w') = length (wrCalls w) + length rcs
   \<and> (case r of None \<Rightarrow> accepted e w w' = {} \<and> (\<forall>rc \<in> set rcs. rcOutcome rc = ''failed'')
      | Some pid \<Rightarrow> rcs \<noteq> [] \<and> accepted e w w' = {length (wrCalls w') - 1}
          \<and> rlSend e (length (wrCalls w') - 1) = Inr pid
          \<and> rcOutcome (last rcs) = ''sent'' \<and> (\<forall>rc \<in> set (butlast rcs). rcOutcome rc = ''failed''))"
proof (induction fuel arbitrary: i w rcs)
  case 0
  then show ?case by auto
next
  case (Suc fuel)
  let ?w1 = "w\<lparr>wrCalls := wrCalls w @ [attempt_msg m channel body]\<rparr>"
  let ?w2 = "snd (read_clock e ?w1)"
  have l2: "length (wrCalls ?w2) = Suc (length (wrCalls w))" by simp
  show ?case
  proof (cases "rlSend e (length (wrCalls w))")
    case (Inr pid)
    with Suc.prems have "r = Some pid" "length rcs = 1" "w' = ?w2" "\<forall>rc \<in> set rcs. rcOutcome rc = ''sent''"
      by (auto simp: provider_Send_def read_clock_def mk_receipt_def)
    then show ?thesis using Inr accepted_step [OF l2, of e] by (auto simp: length_Suc_conv)
  next
    case (Inl err)
    then obtain rc rcs1 where t: "try_channel e m channel body prov fuel (Suc i) ?w2 = (r, rcs1, w')"
      "rcs = rc # rcs1" "rcOutcome rc = ''failed''"
      using Suc.prems by (auto simp: provider_Send_def read_clock_def mk_receipt_def Let_def split: prod.splits)
    note ih = Suc.IH [OF t(1)]
    have "accepted e w w' = accepted e ?w2 w'"
      using accepted_trans [of w ?w2 w' e] accepted_step [OF l2, of e] ih l2 Inl by simp
    then show ?thesis using ih t(2,3) l2 by (auto split: option.splits)
  qed
qed

text \<open>What the whole chain promises: at most three calls a channel, at most one accepted call, made
  last, a receipt for every call, and a status that says which of the three ends was reached.\<close>

definition chain_end :: "rails \<Rightarrow> message \<Rightarrow> string list \<Rightarrow> wire \<Rightarrow> wire \<Rightarrow> bool" where
  "chain_end e m1 chain w w' \<longleftrightarrow>
     msStatus m1 = ''sent'' \<and> accepted e w w' = {length (wrCalls w') - 1}
       \<and> rlSend e (length (wrCalls w') - 1) = Inr (ProviderID m1) \<and> msChannel m1 \<in> set chain
     \<or> msStatus m1 = ''queued_for_agent'' \<and> accepted e w w' = {} \<and> ''agent'' \<in> set chain
     \<or> msStatus m1 = ''failed'' \<and> accepted e w w' = {} \<and> ''agent'' \<notin> set chain"

definition all_failed :: "receipt_rec list \<Rightarrow> bool" where
  "all_failed rcs \<longleftrightarrow> (\<forall>rc \<in> set rcs. rcOutcome rc = ''failed'')"

definition chain_ok :: "rails \<Rightarrow> message \<Rightarrow> string list \<Rightarrow> wire \<Rightarrow> message \<times> receipt_rec list \<times> wire \<Rightarrow> bool" where
  "chain_ok e m chain w out \<longleftrightarrow> (case out of (m1, rcs, w') \<Rightarrow>
     length rcs \<le> maxPerCh * length chain
     \<and> length (wrCalls w) \<le> length (wrCalls w') \<and> length (wrCalls w') \<le> length (wrCalls w) + length rcs
     \<and> msID m1 = msID m \<and> chain_end e m1 chain w w'
     \<and> (msStatus m1 = ''failed'' \<longleftrightarrow> all_failed rcs) \<and> all_failed (butlast rcs))"

lemma all_failed_append [simp]: "all_failed (xs @ ys) \<longleftrightarrow> all_failed xs \<and> all_failed ys"
  by (auto simp: all_failed_def)

lemma all_failed_Nil [simp]: "all_failed []" by (simp add: all_failed_def)

lemma all_failed_butlast: "all_failed xs \<Longrightarrow> all_failed (butlast xs)"
  by (auto simp: all_failed_def dest: in_set_butlastD)

text \<open>A channel that is skipped or exhausted adds failed receipts, no accepted call and passes on.\<close>

lemma chain_ok_advance:
  assumes ih: "chain_ok e m chain w1 (m1, rcs2, w2)" and "channel \<noteq> ''agent''"
    and "length rcs \<le> maxPerCh" "length (wrCalls w) \<le> length (wrCalls w1)"
    "length (wrCalls w1) \<le> length (wrCalls w) + length rcs"
    "accepted e w w1 = {}" "all_failed rcs"
  shows "chain_ok e m (channel # chain) w (m1, rcs @ rcs2, w2)"
proof -
  have "accepted e w w2 = accepted e w1 w2"
    using accepted_trans [of w w1 w2 e] assms(4,6) ih by (simp add: chain_ok_def)
  then have e: "chain_end e m1 (channel # chain) w w2"
    using ih assms(2) by (fastforce simp: chain_ok_def chain_end_def)
  have "all_failed (butlast (rcs @ rcs2))"
    using ih assms(7) by (simp add: butlast_append chain_ok_def all_failed_butlast)
  with e show ?thesis using ih assms(3-5,7) by (simp add: chain_ok_def)
qed

text \<open>An accepted attempt ends the chain.\<close>

lemma chain_ok_sent:
  assumes t: "try_channel e m channel body prov maxPerCh 0 w = (Some pid, rcs, w1)"
    and "msID m1 = msID m" "msStatus m1 = ''sent''" "ProviderID m1 = pid" "msChannel m1 = channel"
    "wrCalls w2 = wrCalls w1"
  shows "chain_ok e m (channel # chain) w (m1, rcs, w2)"
proof -
  note spec = try_channel_spec [OF t, simplified]
  have a: "accepted e w w2 = accepted e w w1" using assms(6) by (simp add: accepted_def)
  then have "chain_end e m1 (channel # chain) w w2" using spec assms by (auto simp: chain_end_def)
  moreover have "\<not> all_failed rcs" using spec last_in_set [of rcs] by (fastforce simp: all_failed_def)
  ultimately show ?thesis using spec assms by (simp add: chain_ok_def all_failed_def)
qed

lemma chain_ok_agent:
  "chain_ok e m (''agent'' # chain) w (m\<lparr>msChannel := c, msProvider := p, msStatus := ''queued_for_agent'',
     msUpdatedAt := at1\<rparr>, [mk_receipt m c p 1 ''sent'' '''' 0 at2], snd (read_clock e (snd (read_clock e w))))"
  by (simp add: chain_ok_def chain_end_def mk_receipt_def maxPerCh_def all_failed_def)

lemma chain_ok_skip:
  assumes ih: "chain_ok e m chain (snd (read_clock e w)) (m1, rcs, w2)" and "channel \<noteq> ''agent''"
  shows "chain_ok e m (channel # chain) w (m1, mk_receipt m channel pv 0 ''failed'' er 0 at # rcs, w2)"
proof -
  have "chain_ok e m (channel # chain) w (m1, [mk_receipt m channel pv 0 ''failed'' er 0 at] @ rcs, w2)"
    by (rule chain_ok_advance [OF ih assms(2)]) (simp_all add: maxPerCh_def mk_receipt_def all_failed_def)
  then show ?thesis by simp
qed

lemma orch_run_ok: "chain_ok e m chain w (orch_run e ps render m chain w)"
proof (induction chain arbitrary: w)
  case Nil
  then show ?case by (simp add: chain_ok_def chain_end_def read_clock_def)
next
  case (Cons channel chain)
  obtain m1 rcs2 w2 where o: "orch_run e ps render m chain (snd (read_clock e w)) = (m1, rcs2, w2)" by (metis prod_cases3)
  note skip = chain_ok_skip [OF Cons.IH [of "snd (read_clock e w)", unfolded o]]
  consider (agent) "channel = ''agent''" | (none) "channel \<noteq> ''agent''" "providerFor ps channel = None"
    | (err) p er where "channel \<noteq> ''agent''" "providerFor ps channel = Some p" "render channel = Inl er"
    | (body) p body where "channel \<noteq> ''agent''" "providerFor ps channel = Some p" "render channel = Inr body"
    by (metis option.exhaust sum.exhaust)
  then show ?case
  proof cases
    case agent
    then show ?thesis using chain_ok_agent [where m = m] by (simp add: case_prod_beta)
  next
    case none
    then show ?thesis using skip o by (simp add: case_prod_beta)
  next
    case err
    then show ?thesis using skip o by (simp add: case_prod_beta)
  next
    case body
    obtain r rcs w1 where t: "try_channel e m channel body (pvName p) maxPerCh 0 w = (r, rcs, w1)"
      by (metis prod_cases3)
    show ?thesis
    proof (cases r)
      case None
      obtain m3 rcs3 w3 where o3: "orch_run e ps render m chain w1 = (m3, rcs3, w3)" by (metis prod_cases3)
      have "chain_ok e m (channel # chain) w (m3, rcs @ rcs3, w3)"
        by (rule chain_ok_advance [OF Cons.IH [of w1, unfolded o3] body(1)])
          (use try_channel_spec [OF t] None in \<open>simp_all add: all_failed_def\<close>)
      then show ?thesis using body t None o3 by simp
    next
      case (Some pid)
      then show ?thesis using body t by (simp add: case_prod_beta chain_ok_sent [OF t [unfolded Some]])
    qed
  qed
qed

section \<open>Idempotency keys\<close>

datatype note_op =
    NoteSend "sendReq option" string
  | NoteNotify "notifyReq option" string "nat \<Rightarrow> string"

fun note_exec :: "rails \<Rightarrow> provider list \<Rightarrow> ((string \<times> string) list \<Rightarrow> string) \<Rightarrow> note_op \<Rightarrow> notifier
     \<Rightarrow> note_response \<times> notifier" where
  "note_exec e ps v (NoteSend rq u) s = note_send e ps rq u s"
| "note_exec e ps v (NoteNotify rq u r) s = note_notify e ps v rq u r s"

definition note_run :: "rails \<Rightarrow> provider list \<Rightarrow> ((string \<times> string) list \<Rightarrow> string) \<Rightarrow> note_op list \<Rightarrow> notifier
     \<Rightarrow> notifier" where
  "note_run e ps v ops s = fold (\<lambda>p t. snd (note_exec e ps v p t)) ops s"

lemma replay_None:
  "replay k i s = None \<Longrightarrow> k = '''' \<or> lookup ''by_key'' i (ntStore s) = None"
  by (auto simp: replay_def Get_def lookup_def dec_msg_def ErrNotFound_def
      split: if_splits sum.splits option.splits note_doc.splits)

lemma replay_Some:
  "k \<noteq> '''' \<Longrightarrow> lookup ''by_key'' i (ntStore s) = Some (MsgDoc m) \<Longrightarrow> replay k i s = Some (200, NMessage m)"
  by (simp add: replay_def Get_def lookup_def dec_msg_def)

lemma reflp_eq: "reflp (=)" "transp (=)"
  by (auto simp: reflp_def transp_def)

lemma put_receipts_other:
  "put_receipts rs us st = (e, st1) \<Longrightarrow> c \<noteq> ''receipts'' \<Longrightarrow> lookup c i st1 = lookup c i st"
proof (induction rs us st rule: put_receipts.induct)
  case (1 r rs u us st)
  obtain e2 st2 where p: "Put ''receipts'' (''drcpt-'' @ u) (RcptDoc (r\<lparr>rcID := ''drcpt-'' @ u\<rparr>)) st = (e2, st2)"
    by fastforce
  show ?case
  proof (cases e2)
    case None
    with 1 p show ?thesis by (simp add: Put_lookup [OF p, of c i] Let_def)
  next
    case (Some x)
    with 1(2) p have "st1 = st2" by (simp add: Let_def)
    with 1(3) show ?thesis by (simp add: Put_lookup [OF p, of c i])
  qed
qed simp_all

definition keys_kept :: "notifier \<Rightarrow> notifier \<Rightarrow> bool" where
  "keys_kept s t \<longleftrightarrow> ds.evolves (=) ''by_key'' (ntStore s) (ntStore t)"

lemma keys_kept_refl [simp]: "keys_kept s s"
  by (simp add: keys_kept_def ds.evolves_def)

text \<open>Writing the message first, then the entry under a key that was free.\<close>

lemma keys_kept_put:
  assumes p: "Put ''messages'' i d (ntStore s) = (e, st)" and t: "\<And>j. lookup ''by_key'' j st1 = lookup ''by_key'' j st"
    and f: "k = '''' \<or> lookup ''by_key'' key (ntStore s) = None"
    and q: "st2 = (if k \<noteq> '''' then snd (Put ''by_key'' key d2 st1) else st1)"
  shows "ds.evolves (=) ''by_key'' (ntStore s) st2" "ds.evolves (=) ''by_key'' (ntStore s) st1"
    "ds.evolves (=) ''by_key'' (ntStore s) st"
proof -
  obtain e2 st3 where p2: "Put ''by_key'' key d2 st1 = (e2, st3)" by fastforce
  have k: "lookup ''by_key'' j st = lookup ''by_key'' j (ntStore s)" for j
    using Put_lookup [OF p, of "''by_key''" j] by simp
  show "ds.evolves (=) ''by_key'' (ntStore s) st" "ds.evolves (=) ''by_key'' (ntStore s) st1"
    using t k by (simp_all add: ds.evolves_def)
  show "ds.evolves (=) ''by_key'' (ntStore s) st2"
    using f q t k p2 Put_lookup [OF p2] by (auto simp: ds.evolves_def)
qed

lemma store_sent_keeps:
  assumes "replay k k s = None"
  shows "keys_kept s (snd (store_sent k m (s\<lparr>ntWire := w\<rparr>)))"
proof -
  obtain e1 st where p: "Put ''messages'' (msID m) (MsgDoc m) (ntStore s) = (e1, st)" by fastforce
  obtain e2 st1 where q: "(if k \<noteq> '''' then Put ''by_key'' k (MsgDoc m) st else (None, st)) = (e2, st1)"
    by fastforce
  have "st1 = (if k \<noteq> '''' then snd (Put ''by_key'' k (MsgDoc m) st) else st)"
    using q by (auto split: if_splits)
  from keys_kept_put [OF p refl replay_None [OF assms] this]
  show ?thesis using p q by (cases e1; cases e2) (simp_all add: keys_kept_def store_sent_def)
qed

lemma store_notified_keeps:
  assumes "replay k (''notify:'' @ k) s = None"
  shows "keys_kept s (snd (store_notified k m rcs rids chain (s\<lparr>ntWire := w\<rparr>)))"
proof -
  obtain e1 st where p: "Put ''messages'' (msID m) (MsgDoc m) (ntStore s) = (e1, st)" by fastforce
  obtain e2 st1 where q: "put_receipts rcs (map rids [0..<length rcs]) st = (e2, st1)" by fastforce
  have t: "lookup ''by_key'' j st1 = lookup ''by_key'' j st" for j
    by (rule put_receipts_other [OF q]) simp
  from keys_kept_put [OF p t replay_None [OF assms] refl]
  show ?thesis using p q by (cases e1; cases e2) (simp_all add: keys_kept_def store_notified_def Let_def)
qed

lemma note_send_keeps: "keys_kept s (snd (note_send e ps rq u s))"
  by (simp add: note_send_def Let_def case_prod_beta store_sent_keeps split: option.split)

lemma note_notify_keeps: "keys_kept s (snd (note_notify e ps v rq u rids s))"
  by (simp add: note_notify_def Let_def case_prod_beta store_notified_keeps split: option.split)

lemma note_run_keeps: "keys_kept s (note_run e ps v ops s)"
proof (induction ops arbitrary: s)
  case (Cons p ops)
  have "keys_kept s (snd (note_exec e ps v p s))"
    by (cases p) (simp_all add: note_send_keeps note_notify_keeps)
  then show ?case
    using Cons.IH [of "snd (note_exec e ps v p s)"]
    by (auto simp: keys_kept_def note_run_def ds.evolves_def)
qed (simp add: note_run_def)

text \<open>A request whose key is recorded sends nothing: the recorded message is the answer.\<close>

lemma recorded_key_replays:
  assumes "lookup ''by_key'' (sqKey rq) (ntStore s) = Some (MsgDoc m)" "sqKey rq \<noteq> ''''"
    "sqChannel rq \<in> set note_channels" "sqTo rq \<noteq> ''''" "sqBody rq \<noteq> '''' \<or> sqTemplateID rq \<noteq> ''''"
  shows "note_send e ps (Some rq) u s = ((200, NMessage m), s)"
  using assms by (auto simp: note_send_def replay_Some)

end
