(* ===== verification/Permify.thy ===== *)
theory Permify
  imports GoStd
begin

text \<open>
  Permissions, \<open>packages/permify-models\<close>: the relation checker of development (\<open>checker.go\<close>) over
  tuples and union definitions, with the relation it is meant to decide, and the client of the
  Permify server (\<open>client.go\<close>), whose HTTP answers are arguments.
\<close>

section \<open>Tuples and definitions\<close>

record rel_tuple =
  tpObject :: string
  tpRelation :: string
  tpSubject :: string

record relation_def =
  rdEntity :: string
  rdName :: string
  rdUnion :: "string list"

record checker =
  ckTuples :: "rel_tuple list"
  ckDefs :: "(string, relation_def) kv"

definition NewChecker :: "rel_tuple list \<Rightarrow> relation_def list \<Rightarrow> checker" where
  "NewChecker ts ds = \<lparr>ckTuples = ts,
     ckDefs = fold (\<lambda>d. kv_put (rdEntity d @ '':'' @ rdName d) d) ds []\<rparr>"

text \<open>\<open>strings.Index\<close> of a one-character string.\<close>

fun index_char :: "char \<Rightarrow> string \<Rightarrow> nat option" where
  "index_char d [] = None"
| "index_char d (c # cs) = (if c = d then Some 0 else map_option Suc (index_char d cs))"

definition entityOf :: "string \<Rightarrow> string" where
  "entityOf ob = (case index_char CHR '':'' ob of None \<Rightarrow> ob | Some i \<Rightarrow> if i > 0 then take i ob else ob)"

text \<open>\<open>strings.SplitN(ref, ".", 2)\<close>: a local name, or the two halves of a dotted walk.\<close>

definition split_ref_dot :: "string \<Rightarrow> string \<times> string option" where
  "split_ref_dot ref = (case index_char CHR ''.'' ref of None \<Rightarrow> (ref, None)
     | Some i \<Rightarrow> (take i ref, Some (drop (Suc i) ref)))"

section \<open>The checker\<close>

definition direct :: "checker \<Rightarrow> string \<Rightarrow> string \<Rightarrow> string \<Rightarrow> bool" where
  "direct ck ob r s \<longleftrightarrow>
     list_ex (\<lambda>t. tpObject t = ob \<and> tpRelation t = r \<and> tpSubject t = s) (ckTuples ck)"

text \<open>The loops of \<open>expand\<close> over a call \<open>go\<close> for one object and relation that threads the visited
  keys: over the tuples of a dotted walk, and over the references of a union.\<close>

type_synonym visit = "string list \<Rightarrow> bool \<times> string list"

fun walk_loop :: "(string \<Rightarrow> visit) \<Rightarrow> string list \<Rightarrow> visit" where
  "walk_loop go [] vis = (False, vis)"
| "walk_loop go (m # ms) vis =
     (case go m vis of (True, v1) \<Rightarrow> (True, v1) | (False, v1) \<Rightarrow> walk_loop go ms v1)"

definition walk_targets :: "checker \<Rightarrow> string \<Rightarrow> string \<Rightarrow> string list" where
  "walk_targets ck ob r = map tpSubject (filter (\<lambda>t. tpObject t = ob \<and> tpRelation t = r) (ckTuples ck))"

fun union_loop :: "checker \<Rightarrow> (string \<Rightarrow> string \<Rightarrow> visit) \<Rightarrow> string \<Rightarrow> string \<Rightarrow> string list \<Rightarrow> visit" where
  "union_loop ck go ob s [] vis = (False, vis)"
| "union_loop ck go ob s (ref # refs) vis =
     (case split_ref_dot ref of
        (p, None) \<Rightarrow>
          (case go ob p vis of
             (True, v1) \<Rightarrow> (True, v1)
           | (False, v1) \<Rightarrow> if direct ck ob p s then (True, v1) else union_loop ck go ob s refs v1)
      | (p, Some q) \<Rightarrow>
          (case walk_loop (\<lambda>m. go m q) (walk_targets ck ob p) vis of
             (True, v1) \<Rightarrow> (True, v1)
           | (False, v1) \<Rightarrow> union_loop ck go ob s refs v1))"

definition visit_key :: "string \<Rightarrow> string \<Rightarrow> string \<Rightarrow> string" where
  "visit_key ob r s = ob @ ''#'' @ r @ ''@'' @ s"

text \<open>\<open>fuel\<close> is 17 less the depth: at depth 17 the code gives up.\<close>

fun expand :: "checker \<Rightarrow> string \<Rightarrow> nat \<Rightarrow> string \<Rightarrow> string \<Rightarrow> visit" where
  "expand ck s 0 ob r vis = (False, vis)"
| "expand ck s (Suc fuel) ob r vis =
     (if list_ex (\<lambda>k. k = visit_key ob r s) vis then (False, vis)
      else let vis1 = visit_key ob r s # vis
           in if direct ck ob r s then (True, vis1)
              else (case map_of (ckDefs ck) (entityOf ob @ '':'' @ r) of
                  None \<Rightarrow> (False, vis1)
                | Some d \<Rightarrow> union_loop ck (expand ck s fuel) ob s (rdUnion d) vis1))"

definition checker_Check :: "checker \<Rightarrow> string \<Rightarrow> string \<Rightarrow> string \<Rightarrow> bool" where
  "checker_Check ck ob r s = fst (expand ck s 17 ob r [])"

section \<open>The client of the Permify server\<close>

text \<open>\<open>splitRef\<close>: a reference is a type, a colon and an identifier, neither empty.\<close>

definition splitRef :: "string \<Rightarrow> string + string \<times> string" where
  "splitRef x = (case index_char CHR '':'' x of
       None \<Rightarrow> Inl (''permify reference '' @ quoted x @ '' must be type:id'')
     | Some i \<Rightarrow> if i = 0 \<or> int i = int (length x) - 1
                then Inl (''permify reference '' @ quoted x @ '' must be type:id'')
                else Inr (take i x, drop (Suc i) x))"

record check_response =
  crCan :: string
  crAllowed :: "bool option"

text \<open>What an attempt meets: no response, or a status with a body that decodes or not.\<close>

datatype http_out = NoResponse string | Response int "check_response option"

text \<open>One attempt: the decision, or an error and whether to try again.\<close>

definition client_do :: "http_out \<Rightarrow> (string \<times> bool) + bool" where
  "client_do h = (case h of
       NoResponse e \<Rightarrow> Inl (''permify check transport: '' @ e, False)
     | Response status body \<Rightarrow>
         if status \<ge> 500 then Inl (''permify check status '' @ itoa status, True)
         else if status \<noteq> 200 then Inl (''permify check status '' @ itoa status, False)
         else (case body of
             None \<Rightarrow> Inl (''permify check decode'', False)
           | Some r \<Rightarrow> (case crAllowed r of
               Some b \<Rightarrow> Inr b | None \<Rightarrow> Inr (crCan r = ''RESULT_ALLOWED''))))"

text \<open>\<open>net\<close> gives what the n-th attempt meets for a request.\<close>

type_synonym permify_net = "nat \<Rightarrow> string \<times> string \<Rightarrow> string \<Rightarrow> string \<times> string \<Rightarrow> http_out"

fun check_attempts :: "(nat \<Rightarrow> http_out) \<Rightarrow> nat list \<Rightarrow> string \<Rightarrow> string + bool" where
  "check_attempts net [] lastErr = Inl lastErr"
| "check_attempts net (n # ns) lastErr = (case client_do (net n) of
       Inr allowed \<Rightarrow> Inr allowed
     | Inl (e, retryable) \<Rightarrow> if \<not> retryable then Inl e else check_attempts net ns e)"

definition client_Check :: "permify_net \<Rightarrow> string \<Rightarrow> string \<Rightarrow> string \<Rightarrow> string + bool" where
  "client_Check net entity permission subject = (case splitRef entity of
       Inl e \<Rightarrow> Inl e
     | Inr ent \<Rightarrow> (case splitRef subject of
         Inl e \<Rightarrow> Inl e
       | Inr sub \<Rightarrow> check_attempts (\<lambda>n. net n ent permission sub) [0, 1] ''''))"

section \<open>What it decides\<close>

text \<open>The reference: a subject holds a relation by a tuple, by a member of the union on the same
  object, or by a walk through a tuple to another object.\<close>

inductive holds :: "checker \<Rightarrow> string \<Rightarrow> string \<Rightarrow> string \<Rightarrow> bool" for ck s where
  tuple: "direct ck ob r s \<Longrightarrow> holds ck s ob r"
| member: "map_of (ckDefs ck) (entityOf ob @ '':'' @ r) = Some d \<Longrightarrow> ref \<in> set (rdUnion d)
    \<Longrightarrow> split_ref_dot ref = (p, None) \<Longrightarrow> holds ck s ob p \<Longrightarrow> holds ck s ob r"
| walk: "map_of (ckDefs ck) (entityOf ob @ '':'' @ r) = Some d \<Longrightarrow> ref \<in> set (rdUnion d)
    \<Longrightarrow> split_ref_dot ref = (p, Some q) \<Longrightarrow> t \<in> set (ckTuples ck) \<Longrightarrow> tpObject t = ob
    \<Longrightarrow> tpRelation t = p \<Longrightarrow> holds ck s (tpSubject t) q \<Longrightarrow> holds ck s ob r"

text \<open>The goals one goal is reduced to, in the order of the loops.\<close>

definition ref_goals :: "checker \<Rightarrow> string \<Rightarrow> string \<Rightarrow> (string \<times> string) list" where
  "ref_goals ck ob ref = (case split_ref_dot ref of (p, None) \<Rightarrow> [(ob, p)]
     | (p, Some q) \<Rightarrow> map (\<lambda>m. (m, q)) (walk_targets ck ob p))"

definition subgoals :: "checker \<Rightarrow> string \<Rightarrow> string \<Rightarrow> (string \<times> string) list" where
  "subgoals ck ob r = (case map_of (ckDefs ck) (entityOf ob @ '':'' @ r) of None \<Rightarrow> []
     | Some d \<Rightarrow> concat (map (ref_goals ck ob) (rdUnion d)))"

lemma subgoals_iff:
  "g \<in> set (subgoals ck ob r) \<longleftrightarrow> (\<exists>d ref. map_of (ckDefs ck) (entityOf ob @ '':'' @ r) = Some d
     \<and> ref \<in> set (rdUnion d) \<and> g \<in> set (ref_goals ck ob ref))"
  by (cases "map_of (ckDefs ck) (entityOf ob @ '':'' @ r)") (auto simp: subgoals_def)

lemma holds_subgoal:
  assumes "(o', r') \<in> set (subgoals ck ob r)" "holds ck s o' r'"
  shows "holds ck s ob r"
proof -
  obtain d ref where d: "map_of (ckDefs ck) (entityOf ob @ '':'' @ r) = Some d" "ref \<in> set (rdUnion d)"
    "(o', r') \<in> set (ref_goals ck ob ref)"
    using assms(1) by (auto simp: subgoals_iff)
  obtain p q where q: "split_ref_dot ref = (p, q)" by fastforce
  show ?thesis
  proof (cases q)
    case None
    with d(3) q have "o' = ob" "r' = p" by (simp_all add: ref_goals_def)
    with d q None assms(2) show ?thesis by (blast intro: member)
  next
    case (Some q')
    with d(3) q obtain t where "t \<in> set (ckTuples ck)" "tpObject t = ob" "tpRelation t = p" "o' = tpSubject t" "r' = q'"
      by (auto simp: ref_goals_def walk_targets_def)
    with d q Some assms(2) show ?thesis by (blast intro: walk)
  qed
qed

lemma holds_cases_subgoal:
  assumes "holds ck s ob r"
  shows "direct ck ob r s \<or> (\<exists>(o', r') \<in> set (subgoals ck ob r). holds ck s o' r')"
  using assms
proof cases
  case (member d ref p)
  then have "(ob, p) \<in> set (subgoals ck ob r)" by (force simp: subgoals_iff ref_goals_def)
  with member show ?thesis by blast
next
  case (walk d ref p q t)
  then have "(tpSubject t, q) \<in> set (subgoals ck ob r)"
    by (force simp: subgoals_iff ref_goals_def walk_targets_def)
  with walk show ?thesis by blast
qed simp

section \<open>The client fails closed\<close>

text \<open>An answer that allows.\<close>

definition allows :: "http_out \<Rightarrow> bool" where
  "allows h \<longleftrightarrow> (\<exists>r. h = Response 200 (Some r)
     \<and> (crAllowed r = Some True \<or> crAllowed r = None \<and> crCan r = ''RESULT_ALLOWED''))"

lemma client_do_allows: "client_do h = Inr True \<longleftrightarrow> allows h"
  by (auto simp: client_do_def allows_def split: http_out.splits option.splits if_splits)

text \<open>A permission is granted only on an allowing answer to one of at most two requests, the second
  one after a server error.\<close>

lemma client_Check_allows:
  "client_Check net entity p subject = Inr True \<longleftrightarrow>
   (\<exists>ent sub. splitRef entity = Inr ent \<and> splitRef subject = Inr sub
     \<and> (allows (net 0 ent p sub)
        \<or> (\<exists>status body. net 0 ent p sub = Response status body \<and> status \<ge> 500) \<and> allows (net 1 ent p sub)))"
proof -
  have att: "check_attempts f [0, 1] '''' = Inr True \<longleftrightarrow>
     allows (f 0) \<or> (\<exists>status body. f 0 = Response status body \<and> status \<ge> 500) \<and> allows (f 1)" for f
  proof (cases "client_do (f 0)")
    case (Inr b)
    then have "\<not> (\<exists>status body. f 0 = Response status body \<and> status \<ge> 500)"
      by (auto simp: client_do_def)
    with Inr show ?thesis using client_do_allows [of "f 0"] by auto
  next
    case (Inl e)
    then have "\<not> allows (f 0)" using client_do_allows [of "f 0"] by simp
    moreover have "snd e \<longleftrightarrow> (\<exists>status body. f 0 = Response status body \<and> status \<ge> 500)"
      using Inl by (auto simp: client_do_def split: http_out.splits if_splits option.splits)
    ultimately show ?thesis using Inl client_do_allows [of "f 1"]
      by (cases e; cases "client_do (f 1)") (auto split: if_splits)
  qed
  show ?thesis
    by (cases "splitRef entity"; cases "splitRef subject")
      (auto simp: client_Check_def att [unfolded One_nat_def] simp del: check_attempts.simps)
qed

section \<open>Soundness\<close>

lemma walk_loop_sound: "fst (walk_loop go ms vis) \<Longrightarrow> \<exists>m \<in> set ms. \<exists>v. fst (go m v)"
proof (induction ms arbitrary: vis)
  case (Cons m ms)
  then show ?case by (cases "go m vis"; cases "fst (go m vis)") fastforce+
qed simp

lemma union_loop_sound:
  "fst (union_loop ck go ob s refs vis) \<Longrightarrow>
   \<exists>(o', r') \<in> set (concat (map (ref_goals ck ob) refs)). (\<exists>v. fst (go o' r' v)) \<or> direct ck o' r' s"
proof (induction refs arbitrary: vis)
  case (Cons ref refs)
  obtain p q where q: "split_ref_dot ref = (p, q)" by fastforce
  have rest: ?case if "fst (union_loop ck go ob s refs v)" for v
    using Cons.IH [OF that] by auto
  show ?case
  proof (cases q)
    case None
    have g: "ref_goals ck ob ref = [(ob, p)]" by (simp add: ref_goals_def q None)
    obtain b v1 where b: "go ob p vis = (b, v1)" by fastforce
    show ?thesis
    proof (cases "b \<or> direct ck ob p s")
      case True
      then have "(\<exists>v. fst (go ob p v)) \<or> direct ck ob p s" using b by (metis fst_conv)
      then show ?thesis using g by auto
    next
      case False
      then show ?thesis using rest [of v1] Cons.prems b q None by simp
    qed
  next
    case (Some q')
    have g: "ref_goals ck ob ref = map (\<lambda>m. (m, q')) (walk_targets ck ob p)" by (simp add: ref_goals_def q Some)
    obtain b v1 where b: "walk_loop (\<lambda>m. go m q') (walk_targets ck ob p) vis = (b, v1)" by fastforce
    show ?thesis
    proof (cases b)
      case True
      then obtain m v where "m \<in> set (walk_targets ck ob p)" "fst (go m q' v)"
        using walk_loop_sound [of "\<lambda>m. go m q'" "walk_targets ck ob p" vis] b by auto
      then show ?thesis using g by auto
    next
      case False
      then show ?thesis using rest [of v1] Cons.prems b q Some by simp
    qed
  qed
qed simp

lemma expand_sound: "fst (expand ck s fuel ob r vis) \<Longrightarrow> holds ck s ob r"
proof (induction fuel arbitrary: ob r vis)
  case (Suc fuel)
  show ?case
  proof (cases "direct ck ob r s")
    case True
    then show ?thesis by (rule tuple)
  next
    case False
    with Suc.prems obtain d where d: "map_of (ckDefs ck) (entityOf ob @ '':'' @ r) = Some d"
      "fst (union_loop ck (expand ck s fuel) ob s (rdUnion d) (visit_key ob r s # vis))"
      by (auto simp: Let_def split: if_splits option.splits)
    have "subgoals ck ob r = concat (map (ref_goals ck ob) (rdUnion d))" using d(1) by (simp add: subgoals_def)
    with union_loop_sound [OF d(2)] obtain g where "g \<in> set (subgoals ck ob r)"
      "(\<exists>v. fst (expand ck s fuel (fst g) (snd g) v)) \<or> direct ck (fst g) (snd g) s"
      unfolding split_beta by metis
    then have "(fst g, snd g) \<in> set (subgoals ck ob r)" "holds ck s (fst g) (snd g)"
      using Suc.IH tuple by auto
    then show ?thesis by (rule holds_subgoal)
  qed
qed simp

section \<open>Completeness within the depth\<close>

text \<open>Over a finite set of goals that reduces to itself: what a failing search leaves visited is
  closed, as long as the fuel covers the goals not yet visited.\<close>

definition key_of :: "string \<Rightarrow> string \<times> string \<Rightarrow> string" where
  "key_of s n = visit_key (fst n) (snd n) s"

definition goal_space :: "checker \<Rightarrow> string \<Rightarrow> (string \<times> string) set \<Rightarrow> bool" where
  "goal_space ck s N \<longleftrightarrow> finite N \<and> (\<forall>n \<in> N. set (subgoals ck (fst n) (snd n)) \<subseteq> N) \<and> inj_on (key_of s) N"

definition unvisited :: "string \<Rightarrow> (string \<times> string) set \<Rightarrow> string list \<Rightarrow> nat" where
  "unvisited s N vis = card {n \<in> N. key_of s n \<notin> set vis}"

definition settled :: "checker \<Rightarrow> string \<Rightarrow> string list \<Rightarrow> string \<times> string \<Rightarrow> bool" where
  "settled ck s vis n \<longleftrightarrow> \<not> direct ck (fst n) (snd n) s
     \<and> (\<forall>m \<in> set (subgoals ck (fst n) (snd n)). key_of s m \<in> set vis)"

definition closes :: "checker \<Rightarrow> string \<Rightarrow> (string \<times> string) set \<Rightarrow> string list \<Rightarrow> string list \<Rightarrow> bool" where
  "closes ck s N vis vis' \<longleftrightarrow> set vis \<subseteq> set vis'
     \<and> (\<forall>n \<in> N. key_of s n \<in> set vis' - set vis \<longrightarrow> settled ck s vis' n)"

lemma closes_refl [simp]: "closes ck s N vis vis" by (simp add: closes_def)

lemma settled_mono: "settled ck s v n \<Longrightarrow> set v \<subseteq> set v' \<Longrightarrow> settled ck s v' n"
  unfolding settled_def by blast

lemma closes_trans:
  assumes "closes ck s N v v1" "closes ck s N v1 v2"
  shows "closes ck s N v v2"
proof -
  have "settled ck s v2 n" if "n \<in> N" "key_of s n \<in> set v2" "key_of s n \<notin> set v" for n
    using that assms settled_mono [of ck s v1 n v2] by (cases "key_of s n \<in> set v1") (auto simp: closes_def)
  with assms show ?thesis by (auto simp: closes_def)
qed

lemma unvisited_closes:
  assumes "finite N" "closes ck s N vis vis'"
  shows "unvisited s N vis' \<le> unvisited s N vis"
  unfolding unvisited_def using assms by (intro card_mono) (auto simp: closes_def)

lemma unvisited_Cons:
  assumes "finite N" "n \<in> N" "key_of s n \<notin> set vis"
  shows "Suc (unvisited s N (key_of s n # vis)) \<le> unvisited s N vis"
proof -
  have "insert n {m \<in> N. key_of s m \<notin> set (key_of s n # vis)} \<subseteq> {m \<in> N. key_of s m \<notin> set vis}"
    using assms by auto
  then have "card (insert n {m \<in> N. key_of s m \<notin> set (key_of s n # vis)}) \<le> unvisited s N vis"
    unfolding unvisited_def using assms(1) by (intro card_mono) auto
  then show ?thesis using assms(1) by (simp add: unvisited_def)
qed

text \<open>A call that searches \<open>N\<close> exhaustively with \<open>k\<close> goals unvisited.\<close>

definition searches :: "checker \<Rightarrow> string \<Rightarrow> (string \<times> string) set \<Rightarrow> nat \<Rightarrow> (string \<Rightarrow> string \<Rightarrow> visit) \<Rightarrow> bool" where
  "searches ck s N k go \<longleftrightarrow> (\<forall>n \<in> N. \<forall>vis v1. unvisited s N vis \<le> k \<longrightarrow> go (fst n) (snd n) vis = (False, v1)
     \<longrightarrow> closes ck s N vis v1 \<and> key_of s n \<in> set v1)"

lemma searchesD:
  "searches ck s N k go \<Longrightarrow> (ob, r) \<in> N \<Longrightarrow> unvisited s N vis \<le> k \<Longrightarrow> go ob r vis = (False, v1)
   \<Longrightarrow> closes ck s N vis v1 \<and> key_of s (ob, r) \<in> set v1"
  by (force simp: searches_def)

text \<open>One step of a loop, and the rest of it.\<close>

lemma closes_step:
  assumes "finite N" "closes ck s N vis v" "\<forall>m \<in> A. key_of s m \<in> set v" "unvisited s N vis \<le> k"
    and rest: "unvisited s N v \<le> k \<Longrightarrow> closes ck s N v v1 \<and> (\<forall>m \<in> B. key_of s m \<in> set v1)"
  shows "closes ck s N vis v1 \<and> (\<forall>m \<in> A \<union> B. key_of s m \<in> set v1)"
proof -
  have r: "closes ck s N v v1" "\<forall>m \<in> B. key_of s m \<in> set v1"
    using rest unvisited_closes [OF assms(1,2)] assms(4) by auto
  have "set v \<subseteq> set v1" using r(1) by (simp add: closes_def)
  with assms(3) r(2) closes_trans [OF assms(2) r(1)] show ?thesis by blast
qed

lemma walk_loop_closes:
  assumes "finite N" "searches ck s N k go"
  shows "set (map (\<lambda>m. (m, q)) ms) \<subseteq> N \<Longrightarrow> unvisited s N vis \<le> k
    \<Longrightarrow> walk_loop (\<lambda>m. go m q) ms vis = (False, v1)
    \<Longrightarrow> closes ck s N vis v1 \<and> (\<forall>m \<in> set (map (\<lambda>m. (m, q)) ms). key_of s m \<in> set v1)"
proof (induction ms arbitrary: vis)
  case (Cons m ms)
  from Cons.prems(3) obtain v where v: "go m q vis = (False, v)" "walk_loop (\<lambda>m. go m q) ms v = (False, v1)"
    by (auto split: prod.splits bool.splits)
  have "closes ck s N vis v \<and> key_of s (m, q) \<in> set v"
    using searchesD [OF assms(2) _ Cons.prems(2) v(1)] Cons.prems(1) by simp
  then have "closes ck s N vis v" "\<forall>x \<in> {(m, q)}. key_of s x \<in> set v" by simp_all
  from closes_step [OF assms(1) this Cons.prems(2) Cons.IH [OF _ _ v(2)]] Cons.prems(1)
  show ?case by simp
qed simp

lemma union_loop_closes:
  assumes "finite N" "searches ck s N k go"
  shows "set (concat (map (ref_goals ck ob) refs)) \<subseteq> N \<Longrightarrow> unvisited s N vis \<le> k
    \<Longrightarrow> union_loop ck go ob s refs vis = (False, v1)
    \<Longrightarrow> closes ck s N vis v1 \<and> (\<forall>m \<in> set (concat (map (ref_goals ck ob) refs)). key_of s m \<in> set v1)"
proof (induction refs arbitrary: vis)
  case (Cons ref refs)
  obtain p q where q: "split_ref_dot ref = (p, q)" by fastforce
  have goals: "set (ref_goals ck ob ref) \<subseteq> N" using Cons.prems(1) by simp
  have "\<exists>v. (closes ck s N vis v \<and> (\<forall>m \<in> set (ref_goals ck ob ref). key_of s m \<in> set v))
      \<and> union_loop ck go ob s refs v = (False, v1)"
  proof (cases q)
    case None
    then have g: "ref_goals ck ob ref = [(ob, p)]" by (simp add: ref_goals_def q)
    from Cons.prems(3) q None obtain v where v: "go ob p vis = (False, v)" "union_loop ck go ob s refs v = (False, v1)"
      by (auto split: prod.splits bool.splits if_splits)
    have "closes ck s N vis v \<and> key_of s (ob, p) \<in> set v"
      using searchesD [OF assms(2) _ Cons.prems(2) v(1)] goals g by simp
    with g v(2) show ?thesis by (intro exI [of _ v]) simp
  next
    case (Some q')
    then have g: "ref_goals ck ob ref = map (\<lambda>m. (m, q')) (walk_targets ck ob p)" by (simp add: ref_goals_def q)
    from Cons.prems(3) q Some obtain v where v: "walk_loop (\<lambda>m. go m q') (walk_targets ck ob p) vis = (False, v)"
      "union_loop ck go ob s refs v = (False, v1)"
      by (auto split: prod.splits bool.splits)
    show ?thesis
      using walk_loop_closes [OF assms _ Cons.prems(2) v(1)] goals v(2) unfolding g by (intro exI [of _ v]) simp
  qed
  then obtain v where v: "closes ck s N vis v" "\<forall>m \<in> set (ref_goals ck ob ref). key_of s m \<in> set v"
    "union_loop ck go ob s refs v = (False, v1)" by blast
  from closes_step [OF assms(1) v(1,2) Cons.prems(2) Cons.IH [OF _ _ v(3)]] Cons.prems(1)
  show ?case by simp
qed simp

lemma expand_Suc_fails:
  assumes "expand ck s (Suc fuel) ob r vis = (False, v1)" "key_of s (ob, r) \<notin> set vis"
  shows "\<not> direct ck ob r s"
    "subgoals ck ob r = [] \<and> v1 = key_of s (ob, r) # vis
     \<or> (\<exists>refs. subgoals ck ob r = concat (map (ref_goals ck ob) refs)
         \<and> union_loop ck (expand ck s fuel) ob s refs (key_of s (ob, r) # vis) = (False, v1))"
  using assms by (auto simp: key_of_def Let_def subgoals_def list_ex_iff split: if_splits option.splits)

lemma expand_searches:
  assumes "goal_space ck s N"
  shows "searches ck s N fuel (expand ck s fuel)"
proof (induction fuel)
  case 0
  have "key_of s n \<in> set vis" if "n \<in> N" "unvisited s N vis = 0" for n vis
    using that assms by (cases n) (auto simp: unvisited_def goal_space_def)
  then show ?case by (auto simp: searches_def)
next
  case (Suc fuel)
  have fin: "finite N" using assms by (simp add: goal_space_def)
  show ?case unfolding searches_def
  proof (intro ballI allI impI)
    fix n vis v1
    assume n: "n \<in> N" and l: "unvisited s N vis \<le> Suc fuel"
      and e: "expand ck s (Suc fuel) (fst n) (snd n) vis = (False, v1)"
    let ?v = "key_of s n # vis"
    show "closes ck s N vis v1 \<and> key_of s n \<in> set v1"
    proof (cases "key_of s n \<in> set vis")
      case True
      with e have "v1 = vis" by (auto simp: list_ex_iff key_of_def)
      with True show ?thesis by simp
    next
      case False
      have sub: "set (subgoals ck (fst n) (snd n)) \<subseteq> N" using assms n by (simp add: goal_space_def)
      have k: "key_of s (fst n, snd n) = key_of s n" by simp
      note f = expand_Suc_fails [OF e, unfolded k, OF False]
      have "unvisited s N ?v \<le> fuel" using unvisited_Cons [OF fin n False] l by simp
      then have c: "closes ck s N ?v v1 \<and> (\<forall>m \<in> set (subgoals ck (fst n) (snd n)). key_of s m \<in> set v1)"
        using f(2) sub union_loop_closes [OF fin Suc] by auto
      have "settled ck s v1 m" if m: "m \<in> N" "key_of s m \<in> set v1 - set vis" for m
      proof (cases "key_of s m = key_of s n")
        case True
        then have "m = n" using assms m(1) n by (auto simp: goal_space_def inj_on_def)
        with c f(1) show ?thesis by (simp add: settled_def)
      next
        case False
        with c m show ?thesis by (auto simp: closes_def)
      qed
      with c show ?thesis by (auto simp: closes_def)
    qed
  qed
qed

lemma expand_complete:
  assumes gs: "goal_space ck s N" and "(ob, r) \<in> N" "card N \<le> fuel" "holds ck s ob r"
  shows "fst (expand ck s fuel ob r [])"
proof (rule ccontr)
  assume "\<not> ?thesis"
  then obtain v1 where e: "expand ck s fuel ob r [] = (False, v1)" by (cases "expand ck s fuel ob r []") simp
  have "closes ck s N [] v1 \<and> key_of s (ob, r) \<in> set v1"
    using searchesD [OF expand_searches [OF gs] assms(2) _ e] assms(3) by (simp add: unvisited_def)
  then have d: "\<And>n. n \<in> N \<Longrightarrow> key_of s n \<in> set v1 \<Longrightarrow> settled ck s v1 n" "key_of s (ob, r) \<in> set v1"
    by (auto simp: closes_def)
  have step: "(o', r') \<in> N \<and> key_of s (o', r') \<in> set v1"
    if "(o', r') \<in> set (subgoals ck o1 r1)" "(o1, r1) \<in> N" "key_of s (o1, r1) \<in> set v1" for o' r' o1 r1
    using that gs d(1) [OF that(2,3)] by (force simp: settled_def goal_space_def)
  have "holds ck s o' r' \<Longrightarrow> (o', r') \<in> N \<Longrightarrow> key_of s (o', r') \<in> set v1 \<Longrightarrow> False" for o' r'
  proof (induction rule: holds.induct)
    case (tuple o1 r1)
    with d(1) [of "(o1, r1)"] show False by (simp add: settled_def)
  next
    case (member o1 r1 dd ref p)
    then have "(o1, p) \<in> set (subgoals ck o1 r1)" by (force simp: subgoals_iff ref_goals_def)
    from step [OF this] member show False by blast
  next
    case (walk o1 r1 dd ref p q t)
    then have "(tpSubject t, q) \<in> set (subgoals ck o1 r1)"
      by (force simp: subgoals_iff ref_goals_def walk_targets_def)
    from step [OF this] walk show False by blast
  qed
  with assms d(2) show False by blast
qed

text \<open>Distinct goals have distinct keys when no relation name has a hash sign.\<close>

definition goals_ok :: "checker \<Rightarrow> (string \<times> string) set \<Rightarrow> bool" where
  "goals_ok ck N \<longleftrightarrow> finite N \<and> (\<forall>n \<in> N. set (subgoals ck (fst n) (snd n)) \<subseteq> N \<and> CHR ''#'' \<notin> set (snd n))"

lemma append_sep_inj:
  "d \<notin> set r \<Longrightarrow> d \<notin> set r' \<Longrightarrow> a @ d # r = a' @ d # r' \<Longrightarrow> a = a' \<and> r = r'"
proof (induction a arbitrary: a')
  case Nil
  then show ?case by (cases a') auto
next
  case (Cons x a)
  then show ?case by (cases a') auto
qed

lemma goals_ok_space:
  assumes "goals_ok ck N"
  shows "goal_space ck s N"
proof -
  have "m = n" if "m \<in> N" "n \<in> N" "key_of s m = key_of s n" for m n
  proof -
    have "fst m @ CHR ''#'' # snd m = fst n @ CHR ''#'' # snd n"
      using that(3) by (simp add: visit_key_def key_of_def)
    moreover have "CHR ''#'' \<notin> set (snd m)" "CHR ''#'' \<notin> set (snd n)"
      using assms that(1,2) by (simp_all add: goals_ok_def)
    ultimately show ?thesis using append_sep_inj by (metis prod.collapse)
  qed
  with assms show ?thesis by (simp add: goal_space_def goals_ok_def inj_on_def)
qed

lemma checker_decides:
  assumes "goals_ok ck N" "(ob, r) \<in> N" "card N \<le> 17"
  shows "checker_Check ck ob r s \<longleftrightarrow> holds ck s ob r"
  unfolding checker_Check_def
  using expand_sound expand_complete [OF goals_ok_space [OF assms(1)] assms(2,3)] by blast

end
