(* ===== verification/DemoAdmin.thy ===== *)
theory DemoAdmin
  imports AdminInv RpRegistry Notification Permify
begin

text \<open>Concrete hosts, users, packs and tuples on which the properties of the admin service, the step-up
  package, the rule-pack registry, notification and the permission checker are instantiated.\<close>

section \<open>Cryptography\<close>

definition d_hmac :: keyed_sum where
  "d_hmac k m = take 32 (m @ k @ replicate 32 CHR ''0'')"

lemma d_sums32: "sums32 d_hmac"
  by (auto simp: sums32_def d_hmac_def min_def)

definition d_su_crypto :: su_crypto where
  "d_su_crypto = \<lparr>sha256_sum = (\<lambda>s. take 32 (s @ replicate 32 CHR ''0'')),
     hmac_sha1 = (\<lambda>k m. take 20 (rev m @ replicate 20 CHR ''1'')),
     gcm_seal = (\<lambda>_ _ p. p), gcm_open = (\<lambda>_ _ c. Some c)\<rparr>"

lemma d_gcm_opens: "gcm_opens d_su_crypto"
  by (simp add: gcm_opens_def d_su_crypto_def)

definition d_su_service :: su_service where
  "d_su_service = \<lparr>suSealer = \<lparr>slKey = replicate 32 CHR ''k'', slDevKey = False\<rparr>, Issuer = ''Meridian''\<rparr>"

lemma d_gcm_new: "gcm_new (suSealer d_su_service)"
  by (simp add: gcm_new_def d_su_service_def)

section \<open>An enrolled administrator\<close>

definition d_nonce :: string where "d_nonce = replicate 12 CHR ''n''"
definition d_totp_raw :: string where "d_totp_raw = replicate 20 CHR ''s''"
definition d_code :: string where "d_code = ''AAAA-BBBB''"

definition d_su_rec :: su_record where
  "d_su_rec = \<lparr>srActor = ''u1'', SealedSecret = raw_std_encode (d_nonce @ GenerateSecret d_totp_raw),
     RecoveryHashes = [HashRecoveryCode d_su_crypto d_code], srEnabled = True, srCreatedAt = 0,
     ConfirmedAt = Some 0\<rparr>"

lemma d_su_rec_opens: "sealer_Open d_su_crypto (suSealer d_su_service) (SealedSecret d_su_rec) = Inr (GenerateSecret d_totp_raw)"
proof (rule sealer_round_trip [OF d_gcm_opens])
  show "length d_nonce = NonceSize" by (simp add: d_nonce_def NonceSize_def)
  show "sealer_Seal d_su_crypto (suSealer d_su_service) d_nonce (GenerateSecret d_totp_raw) = Inr (SealedSecret d_su_rec)"
    using d_gcm_new by (simp add: sealer_Seal_def d_su_rec_def d_su_crypto_def)
qed

definition d_enrolled :: enrolments where "d_enrolled = [(''u1'', d_su_rec)]"

lemma d_enrolled_ok: "su_ok d_enrolled"
  by (simp add: su_ok_def d_enrolled_def su_rec_ok_def d_su_rec_def RecoveryCount_def)

lemma d_code_shape: "length (trim_space d_code) \<noteq> Digits"
  by (simp add: d_code_def trim_space_def is_space_def byte_of_def Digits_def)

lemma d_code_burns: "VerifyCode d_su_crypto d_su_service ''u1'' d_code t d_enrolled
    = (None, mem_Put (d_su_rec\<lparr>RecoveryHashes := []\<rparr>) d_enrolled)"
proof -
  have "map_of d_enrolled ''u1'' = Some d_su_rec" "srEnabled d_su_rec"
    by (simp_all add: d_enrolled_def d_su_rec_def)
  note v = VerifyCode_record [OF this d_su_rec_opens]
  have "\<not> Validate d_su_crypto (GenerateSecret d_totp_raw) d_code t"
    using d_code_shape by (auto simp: Validate_def Let_def split: sum.splits)
  moreover have "RecoveryHashes d_su_rec = [HashRecoveryCode d_su_crypto d_code]" by (simp add: d_su_rec_def)
  ultimately show ?thesis unfolding v by simp
qed

section \<open>A user and the service\<close>

definition d_user :: auser where
  "d_user = \<lparr>uID = ''u1'', uEmail = ''e'', uName = ''n'', uRoles = [''admin''], uTenantID = '''',
     uStatus = ''active'', uCreatedAt = '''', PasswordHash = the (HashPassword d_hmac ''salt'' ''pw''),
     ForcePasswordReset = False, MinTokenIAT = 0\<rparr>"

definition d_claims :: aclaims where
  "d_claims = \<lparr>acSub = ''u1'', acEmail = ''e'', acRoles = [''admin''], acTenantID = '''',
     acIssuer = ''admin-api-dev'', IssuedAt = 10, Expires = 100000\<rparr>"

definition d_ahost :: "string \<Rightarrow> string \<Rightarrow> admin_host" where
  "d_ahost mode profile = \<lparr>ahHmac = d_hmac, ahEnc = (\<lambda>_. ''claims''), ahDec = (\<lambda>_. Some (login_claims d_user 0 0)),
     ahSecret = ''secret'', ahMode = mode, ahKeycloak = Some (\<lambda>_. Inr d_claims), ahPerm = None,
     ahProfile = profile, ahCrypto = d_su_crypto, ahSteps = d_su_service, ahTicketKey = ''key'',
     ahDecTicket = (\<lambda>_. None), ahEncTicket = (\<lambda>_. ''''), ahHash = (\<lambda>s. s)\<rparr>"

definition d_draw :: adraw where
  "d_draw = \<lparr>adNow = 0, adRnd = [], adStamp = 0, adAck = True\<rparr>"

definition d_adm :: adm where
  "d_adm = \<lparr>Users = [(''e'', d_user)], pgTable = Some [(''e'', user_doc d_user)], Tenants = [],
     Services = [(''ledger'', \<lparr>seBaseURL = ''http://ledger'', seEnabled = True, HealthStatus = ''ok''\<rparr>)],
     Gates = [], Receipts = [], Forbidden = [], AuditEvents = [], auditQueue = [], inFlight = [],
     wormTrail = [], EvidenceObjs = [], LedgerAccounts = [], LedgerTransfers = [], WorkflowDefs = [],
     WorkflowRuns = [], Flags = [], APIKeys = [], WAFMode = ''detect'', enrolled = d_enrolled,
     usedTickets = []\<rparr>"

lemma d_users_ok: "users_ok (Users d_adm)"
  by (simp add: users_ok_def d_adm_def d_user_def)

definition d_areq :: areq where
  "d_areq = \<lparr>rqAuthorization = ''Bearer t'', rqDevRole = '''', rqStepupCode = d_code, rqStepupTicket = '''',
     rqBody = ''''\<rparr>"

lemma d_user_hash: "HashPassword d_hmac ''salt'' ''pw'' = Some (PasswordHash d_user)" "PasswordHash d_user \<noteq> ''''"
    "VerifyPassword d_hmac (PasswordHash d_user) ''pw'' = Some True"
proof -
  obtain dk where dk: "pbkdf2SHA256 d_hmac ''pw'' ''salt'' pbkdf2Iterations pbkdf2KeyLen = Some dk"
    using pbkdf2_blocks_return [OF d_sums32] unfolding pbkdf2SHA256_def by blast
  obtain e where e: "HashPassword d_hmac ''salt'' ''pw'' = Some e"
    "split_dollar e = [''pbkdf2'', ''100000'', raw_std_encode ''salt'', raw_std_encode dk]"
    by (rule HashPassword_parts [OF dk])
  then have p: "PasswordHash d_user = e" by (simp add: d_user_def)
  then show "HashPassword d_hmac ''salt'' ''pw'' = Some (PasswordHash d_user)" using e(1) by simp
  show "PasswordHash d_user \<noteq> ''''" using e(2) p by auto
  show "VerifyPassword d_hmac (PasswordHash d_user) ''pw'' = Some True"
    using VerifyPassword_hash [OF d_sums32 e(1), of "''pw''"] p by auto
qed

text \<open>The login of that user, and the request that uses its token.\<close>

definition d_token :: string where
  "d_token = issueJWT d_hmac (\<lambda>_. ''claims'') ''secret'' (login_claims d_user 0 0)"

lemma d_login: "\<exists>s'. handleLogin (d_ahost ''dev'' ''dev'') (Some \<lparr>lrEmail = ''e'', lrPassword = ''pw''\<rparr>) 0 0 d_draw d_adm
    = Some ((200, AToken d_token d_user), s')"
proof -
  have u: "map_of (Users d_adm) ''e'' = Some d_user" by (simp add: d_adm_def)
  have a: "uStatus d_user = ''active''" by (simp add: d_user_def)
  show ?thesis using u a d_user_hash(2,3) by (simp add: handleLogin_def d_ahost_def d_token_def Let_def)
qed

text \<open>An update that disables the user.\<close>

definition d_disable :: userReq where
  "d_disable = \<lparr>urEmail = '''', urName = '''', urRoles = [], urTenantID = '''', urStatus = ''disabled'',
     urForceReset = False, urMinTokenIAT = 0, urPassword = '''', urCurrentPassword = ''''\<rparr>"

lemma d_disabled:
  obtains r s' where "handleUserUpdate (d_ahost ''dev'' ''dev'') (Some d_disable) ''u1'' '''' (50 * second_ns) True
      d_claims d_draw d_adm = Some (r, s')" "fst r = 200"
proof -
  have "user_by_id ''u1'' (Users d_adm) = Some (''e'', d_user)"
    by (simp add: user_by_id_def d_adm_def d_user_def)
  then show ?thesis by (auto simp: handleUserUpdate_def d_disable_def Let_def intro: that)
qed

section \<open>Rule packs\<close>

definition d_provenance :: provenance where
  "d_provenance = \<lparr>AsPassed = ''act'', AsGazetted = None, SourceCitation = ''s 1''\<rparr>"

definition d_packrec :: "string \<Rightarrow> string \<Rightarrow> pack_rec" where
  "d_packrec v st = \<lparr>prID = ''rp-vat'', prVersion = v, prStatus = st, prEffectiveFrom = ''2024-01-01'',
     prEffectiveTo = None, prRegazette = False, prProvenance = d_provenance,
     prSigned = Some \<lparr>Algorithm = ''ed25519'', KeyID = ''board'', sgSignature = ''ab''\<rparr>, RuleCount = 1,
     prSHA256 = ''00'', YAML = ''y'', prPack = [(''rate'', YInt 75)], RegisteredAt = '''', PublishedAt = ''''\<rparr>"

text \<open>Two published versions and a draft.\<close>

definition d_packs :: pack_registry where
  "d_packs = \<lparr>rgStore = Open True [(''packs'',
       [(pack_key ''rp-vat'' ''1.9.0'', pack_doc (d_packrec ''1.9.0'' ''published'')),
        (pack_key ''rp-vat'' ''1.10.0'', pack_doc (d_packrec ''1.10.0'' ''published'')),
        (pack_key ''rp-vat'' ''2.0.0'', pack_doc (d_packrec ''2.0.0'' ''review''))])] (\<lambda>_. NoFault),
     rgOut = NewFileStore []\<rparr>"

definition d_regcfg :: registry_cfg where
  "d_regcfg = \<lparr>signKeys = [(''board'', replicate 32 1)], rgProd = True,
     rgCrypto = \<lparr>ed_verify = (\<lambda>_ _ _. True), canonical_yaml = (\<lambda>_. Inr ''c''),
       yaml_decode = (\<lambda>_. Inr [(''rate'', YInt 75)])\<rparr>,
     rgParse = (\<lambda>_. Inl ''no''), rgSum = (\<lambda>_. [])\<rparr>"

lemma d_pack_lookup:
  "lookup ''packs'' (pack_key ''rp-vat'' ''1.9.0'') (rgStore d_packs) = Some (pack_doc (d_packrec ''1.9.0'' ''published''))"
  "lookup ''packs'' (pack_key ''rp-vat'' ''2.0.0'') (rgStore d_packs) = Some (pack_doc (d_packrec ''2.0.0'' ''review''))"
  by (simp_all add: d_packs_def lookup_def coll_of_def Open_def pack_key_def)

definition d_board :: claims where
  "d_board = \<lparr>Sub = ''b'', Roles = [''board''], TenantID = '''', cExp = 0\<rparr>"

definition d_rp_ops :: "rp_op list" where
  "d_rp_ops = [RpPublish ''rp-vat'' ''1.9.0'' d_board 0 0 ''u'' ''t'' Wrote,
     RpPublish ''rp-vat'' ''2.0.0'' d_board 0 0 ''u'' ''t'' Wrote,
     RpPin (Some \<lparr>crConsumer = ''c'', crPackID = ''rp-vat'', crVersion = ''1.9.0''\<rparr>) 0]"

section \<open>Notifications\<close>

definition d_rails :: rails where
  "d_rails = \<lparr>rlSend = (\<lambda>n. if n < 3 then Inl ''down'' else Inr ''p''), rlClock = (\<lambda>_. 0)\<rparr>"

definition d_sent :: message where
  "d_sent = \<lparr>msID = ''msg-1'', msChannel = ''sms'', msTo = ''234'', msBody = ''hi'', TemplateID = '''', Params = [],
     IdempotencyKey = ''k'', msStatus = ''sent'', msProvider = ''p'', ProviderID = ''x'', msError = '''',
     msCreatedAt = '''', msUpdatedAt = ''''\<rparr>"

definition d_notifier :: notifier where
  "d_notifier = \<lparr>ntStore = Open True [(''by_key'', [(''k'', MsgDoc d_sent)])] (\<lambda>_. NoFault),
     ntWire = \<lparr>wrCalls = [], wrTick = 0\<rparr>\<rparr>"

lemma d_by_key: "lookup ''by_key'' ''k'' (ntStore d_notifier) = Some (MsgDoc d_sent)"
  by (simp add: d_notifier_def lookup_def coll_of_def Open_def)

definition d_send :: "string \<Rightarrow> sendReq" where
  "d_send k = \<lparr>sqChannel = ''sms'', sqTo = ''234'', sqBody = ''hi'', sqTemplateID = '''', sqParams = [], sqKey = k\<rparr>"

section \<open>Permissions\<close>

text \<open>The definition of \<open>operate\<close> on a tenant, and an administrator of it.\<close>

definition d_checker :: checker where
  "d_checker = NewChecker [\<lparr>tpObject = ''tenant:t1'', tpRelation = ''admin'', tpSubject = ''user:u1''\<rparr>]
     [\<lparr>rdEntity = ''tenant'', rdName = ''operate'', rdUnion = [''admin'', ''operator'']\<rparr>]"

definition d_goals :: "(string \<times> string) set" where
  "d_goals = {(''tenant:t1'', ''operate''), (''tenant:t1'', ''admin''), (''tenant:t1'', ''operator'')}"

lemma d_goals_ok: "goals_ok d_checker d_goals" "card d_goals \<le> 17"
proof -
  have e: "entityOf ''tenant:t1'' = ''tenant''" by code_simp
  have "subgoals d_checker ''tenant:t1'' ''admin'' = []" "subgoals d_checker ''tenant:t1'' ''operator'' = []"
    "subgoals d_checker ''tenant:t1'' ''operate'' = [(''tenant:t1'', ''admin''), (''tenant:t1'', ''operator'')]"
    by (simp_all add: subgoals_def e d_checker_def NewChecker_def ref_goals_def split_ref_dot_def)
  then show "goals_ok d_checker d_goals" by (simp add: goals_ok_def d_goals_def)
  show "card d_goals \<le> 17" by (simp add: d_goals_def)
qed

section \<open>A production registration\<close>

definition d_sig :: string where "d_sig = replicate 128 CHR ''0''"

definition d_pack :: pack where
  "d_pack = \<lparr>pkID = ''rp-vat'', pkVersion = ''1.0.0'', EffectiveFrom = ''2024-01-01'', EffectiveTo = None,
     pkStatus = ''published'', SubjectToRegazette = False, Provenance = d_provenance,
     Signed = Some \<lparr>Algorithm = ''ed25519'', KeyID = ''board'', sgSignature = d_sig\<rparr>,
     Rules = [\<lparr>ruID = ''r1'', ruWhen = Some [], ruThen = [''rate_bps'']\<rparr>], Raw = Some [(''rate'', YInt 75)]\<rparr>"

definition d_prodcfg :: registry_cfg where
  "d_prodcfg = d_regcfg\<lparr>rgParse := (\<lambda>_. Inr d_pack)\<rparr>"

definition d_register :: rp_op where
  "d_register = RpRegister (Some \<lparr>rqYAML = ''y'', rqPack = None\<rparr>) 0"

lemma d_pack_valid: "pack_Validate d_pack = []"
  by code_simp

lemma d_pack_verifies: "verifyPackOnWrite d_prodcfg d_pack ''y'' = None"
proof -
  have "hex_decode d_sig = Some (replicate 64 0)" by code_simp
  then obtain b where h: "hex_decode d_sig = Some b" "length b = 64" by simp
  show ?thesis
    by (simp add: verifyPackOnWrite_def d_pack_def VerifyPackYAMLArtifact_def VerifyPackSignature_def d_prodcfg_def
        d_regcfg_def bindCanonicalToPack_def kv_del_def h)
qed

lemma d_registered:
  "lookup ''packs'' (pack_key ''rp-vat'' ''1.0.0'') (rgStore (rp_run d_prodcfg [d_register]
      \<lparr>rgStore = Open True [] (\<lambda>_. NoFault), rgOut = NewFileStore []\<rparr>))
    = Some (PackDoc (new_pack_rec d_prodcfg d_pack ''y'' 0 \<lparr>prPack := json_raw [(''rate'', YInt 75)]\<rparr>))"
proof -
  let ?st = "Open True [] (\<lambda>_. NoFault) :: rp_doc docstore"
  have ff: "fault_free ?st" by (simp add: fault_free_def Open_def)
  have v: "ValidateYAML (rgParse d_prodcfg) ''y'' = (Some d_pack, [])"
    using d_pack_valid by (simp add: ValidateYAML_def d_prodcfg_def)
  have g: "GetRaw ''packs'' i ?st = Inl ErrNotFound" for i
    by (simp add: GetRaw_def Open_def coll_of_def)
  have p: "pkID d_pack = ''rp-vat''" "pkVersion d_pack = ''1.0.0''" "Raw d_pack = Some [(''rate'', YInt 75)]"
    by (simp_all add: d_pack_def)
  show ?thesis
    using Put_fault_free [OF ff] v g d_pack_verifies p
    by (simp add: rp_run_def d_register_def registerPack_def artifact_of_def Let_def pack_doc_def new_pack_rec_def)
qed

end
