(* ===== verification/Migration.thy ===== *)
theory Migration
  imports GoStd
begin

text \<open>
  Legacy data migration (\<open>services/migration/internal/mig/mig.go\<close>): the TIN rules, the row types
  and their canonical JSON, the CSV and JSONL readers, decoding, validation and the checks against the
  live TIN graph, and the reconciliation manifest. SHA-256, HMAC, \<open>strconv.Quote\<close>, the records
  \<open>encoding/csv\<close> delivers and what \<open>encoding/json\<close> reads are the fields of \<open>mig_host\<close>;
  what \<open>json.Marshal\<close> writes for a row is written out here.
\<close>

section \<open>TIN format and check digit\<close>

definition tinRe :: "string \<Rightarrow> bool" where
  "tinRe s \<longleftrightarrow> length s = 13 \<and> list_all is_digit (take 8 s) \<and> s ! 8 = CHR ''-''
     \<and> list_all is_digit (drop 9 s)"

definition mig_ValidTINFormat :: "string \<Rightarrow> bool" where
  "mig_ValidTINFormat tin = tinRe tin"

definition tin_digits :: "string \<Rightarrow> int list" where
  "tin_digits tin = map digit_val (filter is_digit tin)"

text \<open>The digit at index \<open>i\<close> of the payload, doubled at every second place from the right.\<close>

definition luhn_term :: "nat \<Rightarrow> int \<Rightarrow> int" where
  "luhn_term i d = (if (10 - i) mod 2 = 1 then (if 2 * d > 9 then 2 * d - 9 else 2 * d) else d)"

fun luhn_sum :: "nat \<Rightarrow> int list \<Rightarrow> int" where
  "luhn_sum i [] = 0"
| "luhn_sum i (d # ds) = luhn_term i d + luhn_sum (Suc i) ds"

definition check_digit :: "int list \<Rightarrow> int" where
  "check_digit ds = (10 - luhn_sum 0 (take 11 ds) mod 10) mod 10"

definition TINChecksumOK :: "string \<Rightarrow> bool" where
  "TINChecksumOK tin = (if \<not> mig_ValidTINFormat tin then False
     else check_digit (tin_digits tin) = tin_digits tin ! 11)"

section \<open>Host and row types\<close>

type_synonym kobo = "64 word" \<comment> \<open>an \<open>int64\<close>, read with \<open>sint\<close>: its sums wrap\<close>

datatype EntityKind = Taxpayers | Filings | Payments | OtherEntity string

primrec kind_text :: "EntityKind \<Rightarrow> string" where
  "kind_text Taxpayers = ''taxpayers''"
| "kind_text Filings = ''filings''"
| "kind_text Payments = ''payments''"
| "kind_text (OtherEntity e) = e"

datatype mig_mode = DryRun | Commit | OtherMode string

primrec mode_text :: "mig_mode \<Rightarrow> string" where
  "mode_text DryRun = ''dry_run''"
| "mode_text Commit = ''commit''"
| "mode_text (OtherMode x) = x"

record TaxpayerRow =
  tpTIN :: string
  tpName :: string
  tpType :: string
  tpRegistrationDate :: string
  tpStatus :: string

record FilingRow =
  flTIN :: string
  flPeriod :: string
  flTaxType :: string
  flAssessedKobo :: kobo

record PaymentRow =
  pmTIN :: string
  pmReference :: string
  pmAmountKobo :: kobo
  pmDate :: string
  pmChannel :: string

text \<open>A staged row is tagged by its entity and holds the one row pointer that tag names.\<close>

datatype mig_row = TaxpayerRowOf TaxpayerRow | FilingRowOf FilingRow | PaymentRowOf PaymentRow

record stagedRow =
  srRow :: mig_row
  srLine :: int
  srFile :: string

primrec row_kind :: "mig_row \<Rightarrow> EntityKind" where
  "row_kind (TaxpayerRowOf r) = Taxpayers"
| "row_kind (FilingRowOf r) = Filings"
| "row_kind (PaymentRowOf r) = Payments"

record RowError =
  reEntity :: EntityKind
  reFile :: string
  reLine :: int
  reErr :: string

record SourceFile =
  sfEntity :: EntityKind
  sfFormat :: string
  sfName :: string
  sfData :: string  \<comment> \<open>the bytes of the reader\<close>

datatype csv_read = CsvRecord "string list" | CsvError string | CsvEOF

datatype json_any = JString string | JNumber string | JAny string \<comment> \<open>its \<open>%v\<close> text\<close>

record storedDoc =
  sdBatchID :: string
  sdRowIndex :: int
  sdRowHash :: string
  sdEntity :: EntityKind
  sdRow :: string

record Manifest =
  mfVersion :: int
  mfBatchID :: string
  mfMode :: mig_mode
  mfCounts :: "(string, int) kv"
  mfSumsKobo :: "(string, kobo) kv"
  mfSHA256 :: string
  mfHashChainRoot :: string
  mfRowHashes :: "string list"
  mfRowCount :: int
  mfKeyID :: string
  mfSignature :: string
  mfNotes :: "string list"
  mfCommitted :: bool
  mfCreatedAt :: string

text \<open>
  \<open>mhCsv d n\<close> is what the \<open>n\<close>-th \<open>Read\<close> of the CSV reader over \<open>d\<close> returns;
  \<open>mhTaxpayer\<close>, \<open>mhFiling\<close> and \<open>mhPayment\<close> are what \<open>json.Unmarshal\<close> leaves in a
  fresh row whose error is ignored.
\<close>

record mig_host =
  mhSha :: "string \<Rightarrow> u8 list"
  mhHmac :: "string \<Rightarrow> string \<Rightarrow> u8 list"
  mhQuote :: "string \<Rightarrow> string"
  mhCsv :: "string \<Rightarrow> nat \<Rightarrow> csv_read"
  mhJsonLine :: "string \<Rightarrow> string + (string \<rightharpoonup> json_any)"
  mhDocJSON :: "storedDoc \<Rightarrow> string + string"
  mhDocParse :: "string \<Rightarrow> storedDoc option"
  mhManifestJSON :: "Manifest \<Rightarrow> string + string"
  mhManifestParse :: "string \<Rightarrow> Manifest option"
  mhTaxpayer :: "string \<Rightarrow> TaxpayerRow"
  mhFiling :: "string \<Rightarrow> FilingRow"
  mhPayment :: "string \<Rightarrow> PaymentRow"

definition TINWithCheckDigit :: "mig_host \<Rightarrow> string \<Rightarrow> string + string" where
  "TINWithCheckDigit h tin =
     (if \<not> mig_ValidTINFormat tin then Inl (''bad TIN format '' @ mhQuote h tin)
      else (let ds = (tin_digits tin)[11 := check_digit (tin_digits tin)];
                txt = map (\<lambda>d. char_of (nat (48 + d))) ds
            in Inr (take 8 txt @ ''-'' @ drop 8 txt)))"

section \<open>JSON strings\<close>

text \<open>
  Go strings are bytes. \<open>utf8_size\<close> is the length of the valid UTF-8 encoding a string starts
  with, 0 when it starts with none (\<open>utf8.DecodeRune\<close> then takes one byte as \<open>RuneError\<close>).
\<close>

definition cont_byte :: "char \<Rightarrow> bool" where
  "cont_byte c \<longleftrightarrow> 128 \<le> byte_of c \<and> byte_of c \<le> 191"

definition second_byte_ok :: "nat \<Rightarrow> nat \<Rightarrow> bool" where
  "second_byte_ok a b \<longleftrightarrow>
     (if a = 224 then 160 else if a = 240 then 144 else 128) \<le> b
     \<and> b \<le> (if a = 237 then 159 else if a = 244 then 143 else 191)"

fun utf8_size :: "string \<Rightarrow> nat" where
  "utf8_size [] = 0"
| "utf8_size (c # cs) =
     (let a = byte_of c in
      if a < 128 then 1
      else if 194 \<le> a \<and> a \<le> 223 then (case cs of b # _ \<Rightarrow> if cont_byte b then 2 else 0 | _ \<Rightarrow> 0)
      else if 224 \<le> a \<and> a \<le> 239 then
        (case cs of b # d # _ \<Rightarrow> if second_byte_ok a (byte_of b) \<and> cont_byte d then 3 else 0 | _ \<Rightarrow> 0)
      else if 240 \<le> a \<and> a \<le> 244 then
        (case cs of b # d # e # _ \<Rightarrow>
           if second_byte_ok a (byte_of b) \<and> cont_byte d \<and> cont_byte e then 4 else 0 | _ \<Rightarrow> 0)
      else 0)"

text \<open>The runes of a string: \<open>Some u\<close> a valid encoding, \<open>None\<close> a byte that starts none. The first
  argument counts the bytes of the current rune still to be passed over.\<close>

fun rune_units :: "nat \<Rightarrow> string \<Rightarrow> string option list" where
  "rune_units k [] = []"
| "rune_units (Suc k) (c # cs) = rune_units k cs"
| "rune_units 0 (c # cs) = (let n = utf8_size (c # cs) in
     (if n = 0 then None else Some (take n (c # cs))) # rune_units (n - 1) cs)"

definition hex4 :: "nat \<Rightarrow> string" where
  "hex4 n = ''00'' @ [hex_digit (n div 16), hex_digit (n mod 16)]"

definition json_ascii :: "char \<Rightarrow> string" where
  "json_ascii c = (let n = byte_of c in
     if n = 92 \<or> n = 34 then [CHR 0x5C, c]
     else if n = 8 then [CHR 0x5C, CHR ''b''] else if n = 12 then [CHR 0x5C, CHR ''f'']
     else if n = 10 then [CHR 0x5C, CHR ''n''] else if n = 13 then [CHR 0x5C, CHR ''r'']
     else if n = 9 then [CHR 0x5C, CHR ''t'']
     else if n < 32 \<or> n = 60 \<or> n = 62 \<or> n = 38 then CHR 0x5C # CHR ''u'' # hex4 n
     else [c])"

text \<open>An invalid byte becomes an escape of U+FFFD; U+2028 and U+2029 are escaped too.\<close>

definition json_unit :: "string option \<Rightarrow> string" where
  "json_unit u = (case u of
       None \<Rightarrow> CHR 0x5C # ''ufffd''
     | Some [c] \<Rightarrow> json_ascii c
     | Some r \<Rightarrow> if map byte_of r = [226, 128, 168] then CHR 0x5C # ''u2028''
                 else if map byte_of r = [226, 128, 169] then CHR 0x5C # ''u2029'' else r)"

definition json_string :: "string \<Rightarrow> string" where
  "json_string s = CHR 0x22 # concat (map json_unit (rune_units 0 s)) @ [CHR 0x22]"

text \<open>What a decoder gives back for an encoded string: each invalid byte has become U+FFFD.\<close>

definition to_valid_utf8 :: "string \<Rightarrow> string" where
  "to_valid_utf8 s = concat (map (\<lambda>u. case u of None \<Rightarrow> [CHR 0xEF, CHR 0xBF, CHR 0xBD] | Some r \<Rightarrow> r)
     (rune_units 0 s))"

definition valid_utf8 :: "string \<Rightarrow> bool" where
  "valid_utf8 s \<longleftrightarrow> None \<notin> set (rune_units 0 s)"

section \<open>Canonical rows\<close>

definition json_member :: "string \<Rightarrow> string \<Rightarrow> string" where
  "json_member k v = CHR 0x22 # k @ [CHR 0x22, CHR '':''] @ v"

definition taxpayer_json :: "TaxpayerRow \<Rightarrow> string" where
  "taxpayer_json r = CHR 0x7B # json_member ''tin'' (json_string (tpTIN r))
     @ '','' @ json_member ''name'' (json_string (tpName r))
     @ '','' @ json_member ''type'' (json_string (tpType r))
     @ '','' @ json_member ''registration_date'' (json_string (tpRegistrationDate r))
     @ '','' @ json_member ''status'' (json_string (tpStatus r)) @ [CHR 0x7D]"

definition filing_json :: "FilingRow \<Rightarrow> string" where
  "filing_json r = CHR 0x7B # json_member ''tin'' (json_string (flTIN r))
     @ '','' @ json_member ''period'' (json_string (flPeriod r))
     @ '','' @ json_member ''tax_type'' (json_string (flTaxType r))
     @ '','' @ json_member ''assessed_kobo'' (itoa (sint (flAssessedKobo r))) @ [CHR 0x7D]"

definition payment_json :: "PaymentRow \<Rightarrow> string" where
  "payment_json r = CHR 0x7B # json_member ''tin'' (json_string (pmTIN r))
     @ '','' @ json_member ''reference'' (json_string (pmReference r))
     @ '','' @ json_member ''amount_kobo'' (itoa (sint (pmAmountKobo r)))
     @ '','' @ json_member ''date'' (json_string (pmDate r))
     @ '','' @ json_member ''channel'' (json_string (pmChannel r)) @ [CHR 0x7D]"

primrec rowPayload :: "mig_row \<Rightarrow> string" where
  "rowPayload (TaxpayerRowOf r) = taxpayer_json r"
| "rowPayload (FilingRowOf r) = filing_json r"
| "rowPayload (PaymentRowOf r) = payment_json r"

text \<open>The entity tag binds the hash to the row type.\<close>

definition canonical_text :: "EntityKind \<Rightarrow> string \<Rightarrow> string" where
  "canonical_text e b = CHR 0x7B # json_member ''entity'' (CHR 0x22 # kind_text e @ [CHR 0x22])
     @ '','' @ json_member ''row'' b @ [CHR 0x7D]"

definition row_canonical :: "mig_row \<Rightarrow> string" where
  "row_canonical r = canonical_text (row_kind r) (rowPayload r)"

section \<open>Readers\<close>

definition parseKobo :: "mig_host \<Rightarrow> string \<Rightarrow> string + kobo" where
  "parseKobo h s0 = (let s = trim_space s0 in
     if s = '''' then Inl ''amount required''
     else if contains_any s ''.eE'' then Inl (''amount '' @ mhQuote h s @ '' is not integer kobo'')
     else (case parse_int64 s of
         None \<Rightarrow> Inl (''amount '' @ mhQuote h s @ '' is not integer kobo'')
       | Some v \<Rightarrow> if v < 0 then Inl (''amount '' @ itoa v @ '' is negative'')
                   else Inr (word_of_int v)))"

text \<open>The header maps a column name to its last position.\<close>

fun header_index :: "nat \<Rightarrow> string list \<Rightarrow> (string \<rightharpoonup> nat) \<Rightarrow> (string \<rightharpoonup> nat)" where
  "header_index i [] idx = idx"
| "header_index i (h # hs) idx = header_index (Suc i) hs (idx(to_lower (trim_space h) \<mapsto> i))"

definition csvHeaderIndex :: "string list \<Rightarrow> (string \<rightharpoonup> nat)" where
  "csvHeaderIndex header = header_index 0 header Map.empty"

definition csv_field :: "string list \<Rightarrow> (string \<rightharpoonup> nat) \<Rightarrow> string \<Rightarrow> string" where
  "csv_field rec idx name = (case idx name of
       None \<Rightarrow> ''''
     | Some i \<Rightarrow> if i \<ge> length rec then '''' else trim_space (rec ! i))"

definition csv_row :: "string list \<Rightarrow> (string \<rightharpoonup> nat) \<Rightarrow> (string \<rightharpoonup> string)" where
  "csv_row rec idx = (\<lambda>k. if idx k = None then None else Some (csv_field rec idx k))"

text \<open>
  The two readers thread the state \<open>'s\<close> of their caller: \<open>onerr\<close> adds to the error ledger,
  \<open>sink\<close> is the callback for a data row. The CSV loop ends only when the reader reports the
  end of its input.
\<close>

partial_function (option) csv_loop ::
  "(nat \<Rightarrow> csv_read) \<Rightarrow> (int \<Rightarrow> string \<Rightarrow> 's \<Rightarrow> 's) \<Rightarrow> (int \<Rightarrow> (string \<rightharpoonup> string) \<Rightarrow> 's \<Rightarrow> 's)
   \<Rightarrow> (string \<rightharpoonup> nat) \<Rightarrow> nat \<Rightarrow> int \<Rightarrow> 's \<Rightarrow> 's option" where
  "csv_loop rd onerr sink idx n line st = (case rd n of
       CsvEOF \<Rightarrow> Some st
     | CsvError e \<Rightarrow> csv_loop rd onerr sink idx (Suc n) (line + 1) (onerr (line + 1) (''csv: '' @ e) st)
     | CsvRecord rec \<Rightarrow>
         csv_loop rd onerr sink idx (Suc n) (line + 1) (sink (line + 1) (csv_row rec idx) st))"

definition parseCSV ::
  "(nat \<Rightarrow> csv_read) \<Rightarrow> string \<Rightarrow> (int \<Rightarrow> string \<Rightarrow> 's \<Rightarrow> 's) \<Rightarrow> (int \<Rightarrow> (string \<rightharpoonup> string) \<Rightarrow> 's \<Rightarrow> 's)
   \<Rightarrow> 's \<Rightarrow> (string + 's) option" where
  "parseCSV rd name onerr sink st = (case rd 0 of
       CsvEOF \<Rightarrow> Some (Inl (name @ '': read header: EOF''))
     | CsvError e \<Rightarrow> Some (Inl (name @ '': read header: '' @ e))
     | CsvRecord header \<Rightarrow>
         map_option Inr (csv_loop rd onerr sink (csvHeaderIndex header) 1 1 st))"

text \<open>\<open>bufio.ScanLines\<close>: a final newline ends the last line, a final carriage return is dropped;
  a line that does not fit the 8 MiB buffer stops the scan.\<close>

fun nl_split :: "string \<Rightarrow> string list" where
  "nl_split [] = []"
| "nl_split (c # cs) = (if c = CHR 0x0A then [] # nl_split cs
     else (case nl_split cs of [] \<Rightarrow> [[c]] | l # ls \<Rightarrow> (c # l) # ls))"

definition drop_cr :: "string \<Rightarrow> string" where
  "drop_cr l = (if l \<noteq> '''' \<and> last l = CHR 0x0D then butlast l else l)"

definition max_line :: nat where "max_line = 8388608"

primrec any_text :: "json_any \<Rightarrow> string" where
  "any_text (JString s) = s"
| "any_text (JNumber s) = s"
| "any_text (JAny s) = s"

fun jsonl_loop ::
  "mig_host \<Rightarrow> (int \<Rightarrow> string \<Rightarrow> 's \<Rightarrow> 's) \<Rightarrow> (int \<Rightarrow> (string \<rightharpoonup> string) \<Rightarrow> 's \<Rightarrow> 's)
   \<Rightarrow> int \<Rightarrow> string list \<Rightarrow> 's \<Rightarrow> string + 's" where
  "jsonl_loop h onerr sink line [] st = Inr st"
| "jsonl_loop h onerr sink line (l # ls) st =
     (if length l \<ge> max_line then Inl ''bufio.Scanner: token too long''
      else (let n = line + 1; raw = trim_space (drop_cr l) in
        jsonl_loop h onerr sink n ls
          (if raw = '''' then st
           else (case mhJsonLine h raw of
               Inl e \<Rightarrow> onerr n (''json: '' @ e) st
             | Inr m \<Rightarrow> sink n (map_option any_text \<circ> m) st))))"

definition parseJSONL ::
  "mig_host \<Rightarrow> string \<Rightarrow> (int \<Rightarrow> string \<Rightarrow> 's \<Rightarrow> 's) \<Rightarrow> (int \<Rightarrow> (string \<rightharpoonup> string) \<Rightarrow> 's \<Rightarrow> 's)
   \<Rightarrow> 's \<Rightarrow> string + 's" where
  "parseJSONL h d onerr sink st = jsonl_loop h onerr sink 0 (nl_split d) st"

section \<open>Decoding and validation\<close>

text \<open>Reading a missing key of a Go map of strings gives the empty string.\<close>

definition raw_get :: "(string \<rightharpoonup> string) \<Rightarrow> string \<Rightarrow> string" where
  "raw_get m k = (case m k of None \<Rightarrow> '''' | Some v \<Rightarrow> v)"

definition decodeRow ::
  "mig_host \<Rightarrow> EntityKind \<Rightarrow> (string \<rightharpoonup> string) \<Rightarrow> string + stagedRow" where
  "decodeRow h entity m =
     (let get = (\<lambda>k. trim_space (raw_get m k));
          staged = (\<lambda>r. \<lparr>srRow = r, srLine = 0, srFile = ''''\<rparr>)
      in case entity of
           Taxpayers \<Rightarrow> Inr (staged (TaxpayerRowOf
             \<lparr>tpTIN = get ''tin'', tpName = get ''name'', tpType = get ''type'',
              tpRegistrationDate = get ''registration_date'', tpStatus = get ''status''\<rparr>))
         | Filings \<Rightarrow> (case parseKobo h (raw_get m ''assessed_kobo'') of
             Inl e \<Rightarrow> Inl (''assessed_kobo: '' @ e)
           | Inr k \<Rightarrow> Inr (staged (FilingRowOf
               \<lparr>flTIN = get ''tin'', flPeriod = get ''period'', flTaxType = get ''tax_type'',
                flAssessedKobo = k\<rparr>)))
         | Payments \<Rightarrow> (case parseKobo h (raw_get m ''amount_kobo'') of
             Inl e \<Rightarrow> Inl (''amount_kobo: '' @ e)
           | Inr k \<Rightarrow> Inr (staged (PaymentRowOf
               \<lparr>pmTIN = get ''tin'', pmReference = get ''reference'', pmAmountKobo = k,
                pmDate = get ''date'', pmChannel = get ''channel''\<rparr>)))
         | OtherEntity e \<Rightarrow> Inl (''unknown entity '' @ mhQuote h e))"

definition checkTIN :: "mig_host \<Rightarrow> bool \<Rightarrow> string \<Rightarrow> string option" where
  "checkTIN h strict tin =
     (if \<not> mig_ValidTINFormat tin then Some (''tin '' @ mhQuote h tin @ '' fails format rule NNNNNNNN-NNNN'')
      else if strict \<and> \<not> TINChecksumOK tin then Some (''tin '' @ mhQuote h tin @ '' fails check-digit rule'')
      else None)"

primrec validateRow :: "mig_host \<Rightarrow> bool \<Rightarrow> mig_row \<Rightarrow> string option" where
  "validateRow h strict (TaxpayerRowOf r) =
     (case checkTIN h strict (tpTIN r) of Some e \<Rightarrow> Some e | None \<Rightarrow>
      if tpName r = '''' then Some ''name required''
      else if tpType r \<noteq> ''individual'' \<and> tpType r \<noteq> ''company'' then Some ''type must be individual|company''
      else if \<not> valid_date (tpRegistrationDate r)
        then Some (''registration_date '' @ mhQuote h (tpRegistrationDate r) @ '' must be YYYY-MM-DD'')
      else if tpStatus r = '''' then Some ''status required''
      else None)"
| "validateRow h strict (FilingRowOf r) =
     (case checkTIN h strict (flTIN r) of Some e \<Rightarrow> Some e | None \<Rightarrow>
      if \<not> valid_period (flPeriod r) then Some (''period '' @ mhQuote h (flPeriod r) @ '' must be YYYY-MM'')
      else if flTaxType r = '''' then Some ''tax_type required''
      else None)"
| "validateRow h strict (PaymentRowOf r) =
     (case checkTIN h strict (pmTIN r) of Some e \<Rightarrow> Some e | None \<Rightarrow>
      if pmReference r = '''' then Some ''reference required''
      else if \<not> valid_date (pmDate r) then Some (''date '' @ mhQuote h (pmDate r) @ '' must be YYYY-MM-DD'')
      else if pmChannel r = '''' then Some ''channel required''
      else None)"

primrec dedupKey :: "mig_row \<Rightarrow> string" where
  "dedupKey (TaxpayerRowOf r) = ''tp|'' @ tpTIN r"
| "dedupKey (FilingRowOf r) = ''fl|'' @ flTIN r @ ''|'' @ flPeriod r @ ''|'' @ flTaxType r"
| "dedupKey (PaymentRowOf r) = ''pm|'' @ pmReference r"

primrec rowTIN :: "mig_row \<Rightarrow> string" where
  "rowTIN (TaxpayerRowOf r) = tpTIN r"
| "rowTIN (FilingRowOf r) = flTIN r"
| "rowTIN (PaymentRowOf r) = pmTIN r"

section \<open>Staging\<close>

record mig_stage =
  sgRows :: "stagedRow list"
  sgErrs :: "RowError list"
  sgSeen :: "string list"

definition ledger_err :: "EntityKind \<Rightarrow> string \<Rightarrow> int \<Rightarrow> string \<Rightarrow> mig_stage \<Rightarrow> mig_stage" where
  "ledger_err entity name line e st = st\<lparr>sgErrs := sgErrs st @
     [\<lparr>reEntity = entity, reFile = name, reLine = line, reErr = e\<rparr>]\<rparr>"

definition addRow ::
  "mig_host \<Rightarrow> bool \<Rightarrow> EntityKind \<Rightarrow> string \<Rightarrow> int \<Rightarrow> (string \<rightharpoonup> string) \<Rightarrow> mig_stage \<Rightarrow> mig_stage" where
  "addRow h strict entity name line m st =
     (case decodeRow h entity m of
        Inl e \<Rightarrow> ledger_err entity name line e st
      | Inr sr \<Rightarrow> (case validateRow h strict (srRow sr) of
          Some e \<Rightarrow> ledger_err entity name line e st
        | None \<Rightarrow>
            if dedupKey (srRow sr) \<in> set (sgSeen st)
            then ledger_err entity name line ''duplicate row within batch'' st
            else st\<lparr>sgSeen := dedupKey (srRow sr) # sgSeen st, sgRows := sgRows st @ [sr]\<rparr>))"

fun ingest :: "mig_host \<Rightarrow> bool \<Rightarrow> SourceFile list \<Rightarrow> mig_stage \<Rightarrow> (string + mig_stage) option" where
  "ingest h strict [] st = Some (Inr st)"
| "ingest h strict (f # fs) st =
     (let e = sfEntity f; name = sfName f;
          step = (if sfFormat f = ''csv''
                  then parseCSV (mhCsv h (sfData f)) name (ledger_err e name) (addRow h strict e name) st
                  else if sfFormat f = ''jsonl''
                  then Some (parseJSONL h (sfData f) (ledger_err e name) (addRow h strict e name) st)
                  else Some (Inl (name @ '': unknown format '' @ mhQuote h (sfFormat f) @ '' (csv|jsonl)'')))
      in case step of
           None \<Rightarrow> None
         | Some (Inl err) \<Rightarrow> Some (Inl err)
         | Some (Inr st1) \<Rightarrow> ingest h strict fs st1)"

section \<open>Checks against the live TIN graph\<close>

text \<open>\<open>live i tin\<close> is what \<open>LookupTIN\<close> answers for the \<open>i\<close>-th staged row: at most one call is
  made per row. Without an index (\<open>None\<close>) nothing is looked up.\<close>

type_synonym live_index = "(nat \<Rightarrow> string \<Rightarrow> string + bool \<times> string) option"

definition batch_tins :: "stagedRow list \<Rightarrow> string list" where
  "batch_tins rows = map (\<lambda>r. rowTIN (srRow r)) (filter (\<lambda>r. row_kind (srRow r) = Taxpayers) rows)"

definition live_error :: "stagedRow \<Rightarrow> string \<Rightarrow> RowError" where
  "live_error r e = \<lparr>reEntity = row_kind (srRow r), reFile = srFile r, reLine = srLine r, reErr = e\<rparr>"

text \<open>The verdict on one row: an error of the whole import, an entry of the error ledger, or accepted.\<close>

definition live_check :: "live_index \<Rightarrow> string list \<Rightarrow> nat \<Rightarrow> stagedRow \<Rightarrow> string + RowError option" where
  "live_check live tins i r =
     (let tin = rowTIN (srRow r);
          failed = (\<lambda>e. ''fail-closed: live tin-graph lookup for '' @ tin @ '': '' @ e)
      in if row_kind (srRow r) = Taxpayers then
           (case live of None \<Rightarrow> Inr None
            | Some lk \<Rightarrow> (case lk i tin of
                Inl e \<Rightarrow> Inl (failed e)
              | Inr (ex, eid) \<Rightarrow>
                  Inr (if ex then Some (live_error r
                         (''duplicate TIN already live in tin-graph (entity '' @ eid @ '')'')) else None)))
         else if tin \<in> set tins then Inr None
         else (let missing = live_error r (''referential check failed: no taxpayer for TIN '' @ tin) in
           case live of None \<Rightarrow> Inr (Some missing)
            | Some lk \<Rightarrow> (case lk i tin of
                Inl e \<Rightarrow> Inl (failed e)
              | Inr (ex, eid) \<Rightarrow> Inr (if ex then None else Some missing))))"

fun live_filter ::
  "live_index \<Rightarrow> string list \<Rightarrow> nat \<Rightarrow> stagedRow list \<Rightarrow> RowError list
   \<Rightarrow> string + stagedRow list \<times> RowError list" where
  "live_filter live tins i [] errs = Inr ([], errs)"
| "live_filter live tins i (r # rs) errs =
     (case live_check live tins i r of
        Inl e \<Rightarrow> Inl e
      | Inr (Some re) \<Rightarrow> live_filter live tins (Suc i) rs (errs @ [re])
      | Inr None \<Rightarrow> (case live_filter live tins (Suc i) rs errs of
            Inl e \<Rightarrow> Inl e
          | Inr (ok, errs1) \<Rightarrow> Inr (r # ok, errs1)))"

section \<open>The manifest\<close>

definition hashChainSeed :: string where "hashChainSeed = ''meridian-mig-v1''"

definition bytes_text :: "u8 list \<Rightarrow> string" where
  "bytes_text bs = map (\<lambda>b. char_of (unat b)) bs"

text \<open>The running totals of the loops of \<open>buildManifest\<close> and \<open>Verify\<close>; \<open>ag_payload\<close> is what the
  payload digest has been fed so far.\<close>

record mig_tally =
  ag_payload :: string
  ag_chain :: "u8 list"
  ag_counts :: "(string, int) kv"
  ag_sums :: "(string, kobo) kv"

definition kv_at :: "'v::zero \<Rightarrow> (string, 'v) kv \<Rightarrow> string \<Rightarrow> 'v" where
  "kv_at d m k = (case map_of m k of None \<Rightarrow> d | Some v \<Rightarrow> v)"

definition kv_add :: "string \<Rightarrow> 'v::monoid_add \<Rightarrow> (string, 'v) kv \<Rightarrow> (string, 'v) kv" where
  "kv_add k v m = kv_put k (kv_at 0 m k + v) m"

definition zero_counts :: "(string, int) kv" where
  "zero_counts = kv_put ''payments'' 0 (kv_put ''filings'' 0 (kv_put ''taxpayers'' 0 []))"

definition zero_sums :: "(string, kobo) kv" where
  "zero_sums = kv_put ''payments_kobo'' 0 (kv_put ''assessed_kobo'' 0 [])"

definition start_tally :: "mig_host \<Rightarrow> (string, int) kv \<Rightarrow> mig_tally" where
  "start_tally h counts = \<lparr>ag_payload = hashChainSeed, ag_chain = mhSha h hashChainSeed,
     ag_counts = counts, ag_sums = zero_sums\<rparr>"

text \<open>The amount a row adds, with the total it adds it to.\<close>

primrec row_amount :: "mig_row \<Rightarrow> (string \<times> kobo) option" where
  "row_amount (TaxpayerRowOf r) = None"
| "row_amount (FilingRowOf r) = Some (''assessed_kobo'', flAssessedKobo r)"
| "row_amount (PaymentRowOf r) = Some (''payments_kobo'', pmAmountKobo r)"

definition tally_step ::
  "mig_host \<Rightarrow> string \<Rightarrow> EntityKind \<Rightarrow> (string \<times> kobo) option \<Rightarrow> mig_tally \<Rightarrow> mig_tally" where
  "tally_step h canon e amt t =
     \<lparr>ag_payload = ag_payload t @ canon,
      ag_chain = mhSha h (bytes_text (ag_chain t) @ canon),
      ag_counts = kv_add (kind_text e) 1 (ag_counts t),
      ag_sums = (case amt of None \<Rightarrow> ag_sums t | Some (k, v) \<Rightarrow> kv_add k v (ag_sums t))\<rparr>"

fun manifest_loop :: "mig_host \<Rightarrow> stagedRow list \<Rightarrow> mig_tally \<Rightarrow> string list \<times> mig_tally" where
  "manifest_loop h [] t = ([], t)"
| "manifest_loop h (r # rs) t =
     (let t1 = tally_step h (row_canonical (srRow r)) (row_kind (srRow r)) (row_amount (srRow r)) t;
          (hs, t2) = manifest_loop h rs t1
      in (hex_encode (ag_chain t1) # hs, t2))"

definition buildManifest ::
  "mig_host \<Rightarrow> stagedRow list \<Rightarrow> RowError list \<Rightarrow> mig_mode \<Rightarrow> string list \<Rightarrow> instant \<Rightarrow> Manifest" where
  "buildManifest h rows errs mode notes now =
     (let counts = kv_put ''rejected'' (int (length errs)) zero_counts;
          (hashes, t) = manifest_loop h rows (start_tally h counts);
          digest = hex_encode (mhSha h (ag_payload t));
          batchSum = mhSha h (''batch:'' @ digest)
      in \<lparr>mfVersion = 1, mfBatchID = ''migb-'' @ hex_encode (take 16 batchSum), mfMode = mode,
          mfCounts = ag_counts t, mfSumsKobo = ag_sums t, mfSHA256 = digest,
          mfHashChainRoot = (if hashes \<noteq> [] then last hashes else hex_encode (ag_chain t)),
          mfRowHashes = hashes, mfRowCount = int (length rows), mfKeyID = '''', mfSignature = '''',
          mfNotes = notes, mfCommitted = False, mfCreatedAt = format_rfc3339 now\<rparr>)"

definition docID :: "mig_host \<Rightarrow> string \<Rightarrow> mig_row \<Rightarrow> string" where
  "docID h batch r = batch @ ''-'' @ hex_encode (take 8 (mhSha h (row_canonical r)))"

definition collFor :: "EntityKind \<Rightarrow> string" where
  "collFor e = ''mig_'' @ kind_text e"

section \<open>Signatures\<close>

text \<open>The members of a JSON object, the elements of an array.\<close>

fun comma_sep :: "string list \<Rightarrow> string" where
  "comma_sep [] = ''''"
| "comma_sep [x] = x"
| "comma_sep (x # y # ys) = x @ '','' @ comma_sep (y # ys)"

definition json_object :: "(string \<times> string) list \<Rightarrow> string" where
  "json_object ms = CHR 0x7B # comma_sep (map (\<lambda>(k, v). json_string k @ '':'' @ v) ms) @ [CHR 0x7D]"

definition json_array :: "string list \<Rightarrow> string" where
  "json_array vs = CHR 0x5B # comma_sep vs @ [CHR 0x5D]"

definition signedPayload :: "Manifest \<Rightarrow> string" where
  "signedPayload m = json_object
     [(''version'', itoa (mfVersion m)), (''batch_id'', json_string (mfBatchID m)),
      (''mode'', json_string (mode_text (mfMode m))),
      (''counts'', json_object (map (\<lambda>(k, v). (k, itoa v)) (mfCounts m))),
      (''sums_kobo'', json_object (map (\<lambda>(k, v). (k, itoa (sint v))) (mfSumsKobo m))),
      (''sha256'', json_string (mfSHA256 m)), (''hash_chain_root'', json_string (mfHashChainRoot m)),
      (''row_hashes'', json_array (map json_string (mfRowHashes m))),
      (''row_count'', itoa (mfRowCount m)), (''key_id'', json_string (mfKeyID m)),
      (''committed'', if mfCommitted m then ''true'' else ''false'')]"

definition SignManifest :: "mig_host \<Rightarrow> string \<Rightarrow> Manifest \<Rightarrow> Manifest" where
  "SignManifest h key m = m\<lparr>mfSignature := hex_encode (mhHmac h key (signedPayload m))\<rparr>"

definition VerifySignature :: "mig_host \<Rightarrow> string \<Rightarrow> Manifest \<Rightarrow> bool" where
  "VerifySignature h key m = (let want = mhHmac h key (signedPayload m) in
     case hex_decode (mfSignature m) of None \<Rightarrow> False | Some got \<Rightarrow> want = got)"

section \<open>Proof documents\<close>

record mig_check =
  ckName :: string
  ckExpected :: string
  ckActual :: string
  ckOK :: bool

record mig_proof =
  prBatchID :: string
  prVerdict :: string
  prChecks :: "mig_check list"
  prSummary :: string
  prCreatedAt :: string

definition pad_right :: "nat \<Rightarrow> string \<Rightarrow> string" where
  "pad_right w s = s @ replicate (w - length s) (CHR '' '')"

definition check_line :: "mig_check \<Rightarrow> string" where
  "check_line c = ''  - '' @ pad_right 22 (ckName c) @ '' ''
     @ pad_right 9 (if ckOK c then ''ok'' else ''MISMATCH'') @ '' expected='' @ ckExpected c
     @ '' actual='' @ ckActual c @ [CHR 0x0A]"

definition finishProof :: "Manifest \<Rightarrow> mig_check list \<Rightarrow> instant \<Rightarrow> mig_proof" where
  "finishProof m checks now =
     (let verdict = (if list_all ckOK checks then ''PASS'' else ''FAIL'');
          cnt = (\<lambda>k. itoa (kv_at 0 (mfCounts m) k)); sum = (\<lambda>k. itoa (sint (kv_at 0 (mfSumsKobo m) k)))
      in \<lparr>prBatchID = mfBatchID m, prVerdict = verdict, prChecks = checks,
          prSummary = ''reconciliation proof for batch '' @ mfBatchID m @ '': '' @ verdict @ [CHR 0x0A]
            @ ''  rows: '' @ itoa (mfRowCount m) @ '' committed ('' @ cnt ''taxpayers'' @ '' taxpayers, ''
            @ cnt ''filings'' @ '' filings, '' @ cnt ''payments'' @ '' payments, ''
            @ cnt ''rejected'' @ '' rejected at ingest)'' @ [CHR 0x0A]
            @ ''  sums: assessed='' @ sum ''assessed_kobo'' @ '' kobo, payments='' @ sum ''payments_kobo''
            @ '' kobo'' @ [CHR 0x0A] @ concat (map check_line checks),
          prCreatedAt = format_rfc3339 now\<rparr>)"

end
