(* ===== verification/MigStore.thy ===== *)
theory MigStore
  imports Migration
begin

text \<open>
  The import and verification of \<open>services/migration/internal/mig/mig.go\<close> over the \<open>Store\<close>
  interface, the file-backed store of \<open>services/migration/main.go\<close> that implements it, and the HTTP
  handlers. A store is a record of its four operations over a state; the locale \<open>mig_store\<close> is the
  contract the importer relies on, interpreted on the file store, whose state carries the files and a
  plan saying which of its file operations fail.
\<close>

section \<open>The interface\<close>

record 's store_ops =
  stGet :: "string \<Rightarrow> string \<Rightarrow> 's \<Rightarrow> (string + string) \<times> 's"
  stPut :: "string \<Rightarrow> string \<Rightarrow> string \<Rightarrow> 's \<Rightarrow> string option \<times> 's"
  stDelete :: "string \<Rightarrow> string \<Rightarrow> 's \<Rightarrow> string option \<times> 's"
  stList :: "string \<Rightarrow> 's \<Rightarrow> (string + string list) \<times> 's"

section \<open>Committing a batch\<close>

text \<open>The rollback ignores the errors of its deletes.\<close>

fun rollback_docs :: "'s store_ops \<Rightarrow> (string \<times> string) list \<Rightarrow> 's \<Rightarrow> 's" where
  "rollback_docs st [] s = s"
| "rollback_docs st ((c, i) # ws) s = rollback_docs st ws (snd (stDelete st c i s))"

definition rollback_error :: "(string \<times> string) list \<Rightarrow> string \<Rightarrow> string" where
  "rollback_error written cause = ''batch transaction failed, rolled back ''
     @ itoa (int (length written)) @ '' docs: '' @ cause"

definition row_doc :: "Manifest \<Rightarrow> nat \<Rightarrow> stagedRow \<Rightarrow> storedDoc" where
  "row_doc m i r = \<lparr>sdBatchID = mfBatchID m, sdRowIndex = int i, sdRowHash = mfRowHashes m ! i,
     sdEntity = row_kind (srRow r), sdRow = rowPayload (srRow r)\<rparr>"

fun commit_loop ::
  "'s store_ops \<Rightarrow> mig_host \<Rightarrow> Manifest \<Rightarrow> nat \<Rightarrow> stagedRow list \<Rightarrow> (string \<times> string) list \<Rightarrow> 's
   \<Rightarrow> string option \<times> 's" where
  "commit_loop st h m i [] written s = (None, s)"
| "commit_loop st h m i (r # rs) written s =
     (case mhDocJSON h (row_doc m i r) of
        Inl e \<Rightarrow> (Some (rollback_error written e), rollback_docs st written s)
      | Inr b \<Rightarrow>
          (let coll = collFor (row_kind (srRow r)); did = docID h (mfBatchID m) (srRow r)
           in case stPut st coll did b s of
                (Some e, s1) \<Rightarrow> (Some (rollback_error written e), rollback_docs st written s1)
              | (None, s1) \<Rightarrow> commit_loop st h m (Suc i) rs (written @ [(coll, did)]) s1))"

definition commitBatch ::
  "'s store_ops \<Rightarrow> mig_host \<Rightarrow> Manifest \<Rightarrow> stagedRow list \<Rightarrow> 's \<Rightarrow> string option \<times> 's" where
  "commitBatch st h m rows s = commit_loop st h m 0 rows [] s"

section \<open>Import\<close>

record mig_deps =
  dpLive :: live_index
  dpSigningKey :: string
  dpKeyID :: string

record mig_result =
  rsManifest :: Manifest
  rsErrors :: "RowError list"

definition no_live_note :: string where
  "no_live_note = ''live tin-graph checks skipped (no index configured) [simulated]''"

definition rerun_note :: string where
  "rerun_note = ''idempotent re-run: batch already committed, no duplicates written''"

definition persist_manifest ::
  "'s store_ops \<Rightarrow> mig_host \<Rightarrow> Manifest \<Rightarrow> 's \<Rightarrow> string option \<times> 's" where
  "persist_manifest st h m s = (case mhManifestJSON h m of
       Inl e \<Rightarrow> (Some e, s)
     | Inr b \<Rightarrow> stPut st ''mig_batches'' (mfBatchID m) b s)"

definition already_imported :: "mig_host \<Rightarrow> string + string \<Rightarrow> Manifest option" where
  "already_imported h got = (case got of Inl e \<Rightarrow> None | Inr raw \<Rightarrow> mhManifestParse h raw)"

text \<open>The commit branch, on the accepted rows and their manifest.\<close>

definition import_commit ::
  "'s store_ops \<Rightarrow> mig_host \<Rightarrow> string \<Rightarrow> Manifest \<Rightarrow> stagedRow list \<Rightarrow> RowError list \<Rightarrow> 's
   \<Rightarrow> (string + mig_result) \<times> 's" where
  "import_commit st h key m rows errs s =
     (let (got, s1) = stGet st ''mig_batches'' (mfBatchID m) s
      in case already_imported h got of
           Some ex \<Rightarrow> (Inr \<lparr>rsManifest = ex\<lparr>mfNotes := mfNotes ex @ [rerun_note]\<rparr>, rsErrors = errs\<rparr>, s1)
         | None \<Rightarrow> (case commitBatch st h m rows s1 of
             (Some e, s2) \<Rightarrow> (Inl e, s2)
           | (None, s2) \<Rightarrow>
               (let m1 = SignManifest h key (m\<lparr>mfCommitted := True\<rparr>)
                in case persist_manifest st h m1 s2 of
                     (Some e, s3) \<Rightarrow> (Inl (''persist manifest: '' @ e), s3)
                   | (None, s3) \<Rightarrow> (Inr \<lparr>rsManifest = m1, rsErrors = errs\<rparr>, s3))))"

text \<open>What is done once every file has been read into the stage.\<close>

definition import_staged ::
  "'s store_ops \<Rightarrow> mig_host \<Rightarrow> mig_deps \<Rightarrow> mig_mode \<Rightarrow> instant \<Rightarrow> mig_stage \<Rightarrow> 's
   \<Rightarrow> (string + mig_result) \<times> 's" where
  "import_staged st h d mode now sg s =
     (case live_filter (dpLive d) (batch_tins (sgRows sg)) 0 (sgRows sg) (sgErrs sg) of
        Inl e \<Rightarrow> (Inl e, s)
      | Inr (valid, errs) \<Rightarrow>
          (let notes = (if dpLive d = None then [no_live_note] else []);
               m = (buildManifest h valid errs mode notes now)\<lparr>mfKeyID := dpKeyID d\<rparr>
           in if mode = Commit then import_commit st h (dpSigningKey d) m valid errs s
              else (Inr \<lparr>rsManifest = (if dpSigningKey d \<noteq> '''' then SignManifest h (dpSigningKey d) m else m),
                         rsErrors = errs\<rparr>, s)))"

definition empty_stage :: mig_stage where
  "empty_stage = \<lparr>sgRows = [], sgErrs = [], sgSeen = []\<rparr>"

text \<open>\<open>None\<close> when a reader never reports the end of its input.\<close>

definition Import ::
  "'s store_ops \<Rightarrow> mig_host \<Rightarrow> mig_deps \<Rightarrow> SourceFile list \<Rightarrow> mig_mode \<Rightarrow> bool \<Rightarrow> instant \<Rightarrow> 's
   \<Rightarrow> ((string + mig_result) \<times> 's) option" where
  "Import st h d files mode strict now s =
     (if mode \<noteq> DryRun \<and> mode \<noteq> Commit then Some (Inl ''mode must be dry_run or commit'', s)
      else if mode = Commit \<and> dpSigningKey d = ''''
        then Some (Inl ''fail-closed: signing key required for commit mode'', s)
      else if files = [] then Some (Inl ''at least one source file required'', s)
      else (case ingest h strict files empty_stage of
          None \<Rightarrow> None
        | Some (Inl e) \<Rightarrow> Some (Inl e, s)
        | Some (Inr sg) \<Rightarrow> Some (import_staged st h d mode now sg s)))"

section \<open>Verification\<close>

primrec decode_stored :: "mig_host \<Rightarrow> EntityKind \<Rightarrow> string \<Rightarrow> mig_row option" where
  "decode_stored h Taxpayers b = Some (TaxpayerRowOf (mhTaxpayer h b))"
| "decode_stored h Filings b = Some (FilingRowOf (mhFiling h b))"
| "decode_stored h Payments b = Some (PaymentRowOf (mhPayment h b))"
| "decode_stored h (OtherEntity e) b = None"

text \<open>A document of another entity decodes to a nil payment, which marshals to \<open>null\<close>.\<close>

definition canonicalStored :: "mig_host \<Rightarrow> storedDoc \<Rightarrow> string" where
  "canonicalStored h d = canonical_text (sdEntity d)
     (case decode_stored h (sdEntity d) (sdRow d) of None \<Rightarrow> ''null'' | Some r \<Rightarrow> rowPayload r)"

definition stored_amount :: "mig_host \<Rightarrow> storedDoc \<Rightarrow> (string \<times> kobo) option" where
  "stored_amount h d = Option.bind (decode_stored h (sdEntity d) (sdRow d)) row_amount"

definition batch_docs :: "mig_host \<Rightarrow> string \<Rightarrow> string list \<Rightarrow> storedDoc list" where
  "batch_docs h batch raws = filter (\<lambda>d. sdBatchID d = batch) (List.map_filter (mhDocParse h) raws)"

fun gather :: "'s store_ops \<Rightarrow> mig_host \<Rightarrow> string \<Rightarrow> EntityKind list \<Rightarrow> 's
  \<Rightarrow> (string + storedDoc list) \<times> 's" where
  "gather st h batch [] s = (Inr [], s)"
| "gather st h batch (e # es) s = (case stList st (collFor e) s of
       (Inl err, s1) \<Rightarrow> (Inl err, s1)
     | (Inr raws, s1) \<Rightarrow> (case gather st h batch es s1 of
           (Inl err, s2) \<Rightarrow> (Inl err, s2)
         | (Inr ds, s2) \<Rightarrow> (Inr (batch_docs h batch raws @ ds), s2)))"

text \<open>The chain over the stored documents, and whether every link is the manifest's and the document's.\<close>

fun recheck :: "mig_host \<Rightarrow> Manifest \<Rightarrow> nat \<Rightarrow> storedDoc list \<Rightarrow> mig_tally \<Rightarrow> bool \<times> mig_tally" where
  "recheck h m i [] t = (True, t)"
| "recheck h m i (d # ds) t =
     (let t1 = tally_step h (canonicalStored h d) (sdEntity d) (stored_amount h d) t;
          link = hex_encode (ag_chain t1);
          ok = (i < length (mfRowHashes m) \<and> mfRowHashes m ! i = link \<and> sdRowHash d = link);
          (oks, t2) = recheck h m (Suc i) ds t1
      in (ok \<and> oks, t2))"

definition signature_check :: "mig_host \<Rightarrow> string option \<Rightarrow> Manifest \<Rightarrow> mig_check list" where
  "signature_check h key m = (case key of None \<Rightarrow> [] | Some k \<Rightarrow>
     [\<lparr>ckName = ''manifest_signature'', ckExpected = ''valid HMAC-SHA256'',
       ckActual = (if VerifySignature h k m then ''valid'' else ''INVALID''), ckOK = VerifySignature h k m\<rparr>])"

definition store_checks :: "mig_host \<Rightarrow> Manifest \<Rightarrow> storedDoc list \<Rightarrow> mig_check list" where
  "store_checks h m ds =
     (let docs = sort_key sdRowIndex ds;
          (chainOK, t) = recheck h m 0 docs (start_tally h zero_counts);
          n = int (length docs);
          digest = hex_encode (mhSha h (ag_payload t));
          root = hex_encode (ag_chain t);
          count = (\<lambda>k. (let x = kv_at 0 (mfCounts m) k; y = kv_at 0 (ag_counts t) k
            in \<lparr>ckName = ''count_'' @ k, ckExpected = itoa x, ckActual = itoa y, ckOK = (x = y)\<rparr>));
          total = (\<lambda>k. (let x = kv_at 0 (mfSumsKobo m) k; y = kv_at 0 (ag_sums t) k
            in \<lparr>ckName = ''sum_'' @ k, ckExpected = itoa (sint x), ckActual = itoa (sint y), ckOK = (x = y)\<rparr>))
      in [\<lparr>ckName = ''row_count'', ckExpected = itoa (mfRowCount m), ckActual = itoa n,
            ckOK = (mfRowCount m = n)\<rparr>,
          count ''taxpayers'', count ''filings'', count ''payments'',
          total ''assessed_kobo'', total ''payments_kobo'',
          \<lparr>ckName = ''payload_sha256'', ckExpected = mfSHA256 m, ckActual = digest, ckOK = (mfSHA256 m = digest)\<rparr>,
          \<lparr>ckName = ''hash_chain_root'', ckExpected = mfHashChainRoot m, ckActual = root,
            ckOK = (mfHashChainRoot m = root \<and> chainOK)\<rparr>,
          \<lparr>ckName = ''per_row_hash_chain'', ckExpected = ''intact'',
            ckActual = (if chainOK then ''intact'' else ''BROKEN''), ckOK = chainOK\<rparr>])"

text \<open>\<open>sort.Slice\<close> leaves the order of documents with the same row index open; it is the order of
  the listing here.\<close>

definition Verify_batch ::
  "'s store_ops \<Rightarrow> mig_host \<Rightarrow> Manifest \<Rightarrow> string option \<Rightarrow> instant \<Rightarrow> 's \<Rightarrow> mig_proof \<times> 's" where
  "Verify_batch st h m key now s =
     (let sig = signature_check h key m
      in case gather st h (mfBatchID m) [Taxpayers, Filings, Payments] s of
           (Inl e, s1) \<Rightarrow> (finishProof m (sig @ [\<lparr>ckName = ''store_read'', ckExpected = ''ok'',
                              ckActual = e, ckOK = False\<rparr>]) now, s1)
         | (Inr ds, s1) \<Rightarrow> (finishProof m (sig @ store_checks h m ds) now, s1))"

section \<open>The file store\<close>

text \<open>
  \<open>jfFiles\<close> maps a path below the store's directory to the file's bytes; \<open>jfPlan n\<close> is how the
  \<open>n\<close>-th operation's system calls end: \<open>IoFail\<close> fails any operation, the other two the writing
  of the temporary file, which may keep part of the document, and its rename.
\<close>

datatype io_fault = IoOK | IoFail string | IoWriteFail string string | IoRenameFail string

record json_store =
  jfFiles :: "(string, string) kv"
  jfOps :: nat
  jfPlan :: "nat \<Rightarrow> io_fault"

definition safe_id :: "string \<Rightarrow> string" where
  "safe_id i = filter (\<lambda>c. c \<noteq> CHR ''/'' \<and> c \<noteq> CHR 0x5C \<and> c \<noteq> CHR 0x00) i"

definition store_path :: "string \<Rightarrow> string \<Rightarrow> string" where
  "store_path coll i = coll @ ''/'' @ safe_id i @ ''.json''"

definition next_op :: "json_store \<Rightarrow> io_fault \<times> json_store" where
  "next_op s = (jfPlan s (jfOps s), s\<lparr>jfOps := Suc (jfOps s)\<rparr>)"

definition mig_ErrNotFound :: string where "mig_ErrNotFound = ''not found''"

definition js_Get :: "string \<Rightarrow> string \<Rightarrow> json_store \<Rightarrow> (string + string) \<times> json_store" where
  "js_Get coll i s = (let (f, s1) = next_op s in
     (case f of
        IoFail e \<Rightarrow> Inl e
      | _ \<Rightarrow> (case map_of (jfFiles s) (store_path coll i) of
            None \<Rightarrow> Inl mig_ErrNotFound | Some b \<Rightarrow> Inr b), s1))"

definition js_Put :: "string \<Rightarrow> string \<Rightarrow> string \<Rightarrow> json_store \<Rightarrow> string option \<times> json_store" where
  "js_Put coll i doc s =
     (let (f, s1) = next_op s; p = store_path coll i; tmp = p @ ''.tmp''
      in case f of
           IoFail e \<Rightarrow> (Some e, s1)
         | IoWriteFail e part \<Rightarrow> (Some e, s1\<lparr>jfFiles := kv_put tmp part (jfFiles s)\<rparr>)
         | IoRenameFail e \<Rightarrow> (Some e, s1\<lparr>jfFiles := kv_put tmp doc (jfFiles s)\<rparr>)
         | IoOK \<Rightarrow> (None, s1\<lparr>jfFiles := kv_put p doc (kv_del tmp (kv_put tmp doc (jfFiles s)))\<rparr>))"

definition js_Delete :: "string \<Rightarrow> string \<Rightarrow> json_store \<Rightarrow> string option \<times> json_store" where
  "js_Delete coll i s = (let (f, s1) = next_op s in
     (case f of
        IoFail e \<Rightarrow> (Some e, s1)
      | _ \<Rightarrow> (None, s1\<lparr>jfFiles := kv_del (store_path coll i) (jfFiles s)\<rparr>)))"

definition in_dir :: "string \<Rightarrow> string \<Rightarrow> bool" where
  "in_dir coll p \<longleftrightarrow> take (length coll + 1) p = coll @ ''/''
     \<and> drop (length p - 5) p = ''.json'' \<and> length coll + 6 \<le> length p"

definition js_List :: "string \<Rightarrow> json_store \<Rightarrow> (string + string list) \<times> json_store" where
  "js_List coll s = (let (f, s1) = next_op s in
     (case f of
        IoFail e \<Rightarrow> Inl e
      | _ \<Rightarrow> Inr (map snd (filter (\<lambda>p. in_dir coll (fst p)) (jfFiles s))), s1))"

definition jsonStore :: "json_store store_ops" where
  "jsonStore = \<lparr>stGet = js_Get, stPut = js_Put, stDelete = js_Delete, stList = js_List\<rparr>"

section \<open>The service\<close>

text \<open>\<open>httpLiveIndex\<close>: the answer of the POST is a transport error or a status with a body, and
  \<open>dec\<close> decodes the body into \<open>valid\<close> and \<open>entity_id\<close>.\<close>

definition LookupTIN ::
  "(string \<Rightarrow> string \<Rightarrow> string option \<Rightarrow> string + int \<times> string) \<Rightarrow> (string \<Rightarrow> string + bool \<times> string)
   \<Rightarrow> string \<Rightarrow> string \<Rightarrow> string \<Rightarrow> string + bool \<times> string" where
  "LookupTIN post dec base token tin =
     (case post (base @ ''/v1/verify/tin'') (json_object [(''tin'', json_string tin)])
             (if token \<noteq> '''' then Some (''Bearer '' @ token) else None) of
        Inl e \<Rightarrow> Inl e
      | Inr (status, body) \<Rightarrow>
          if status \<noteq> 200 then Inl (''tin-graph verify status '' @ itoa status) else dec body)"

text \<open>\<open>None\<close>: the process refuses to start.\<close>

definition signingKey :: "(string \<Rightarrow> string) \<Rightarrow> (string \<times> string) option" where
  "signingKey env = (let k = env ''MIGRATION_SIGNING_KEY'' in
     if k = '''' then (if env ''PROFILE'' = ''prod'' then None
       else Some (''meridian-dev-migration-signing-key'', ''dev-hmac [simulated]''))
     else Some (k, ''env:migration-signing-key''))"

definition strip_slashes :: "string \<Rightarrow> string" where
  "strip_slashes s = rev (dropWhile (\<lambda>c. c = CHR ''/'') (rev s))"

text \<open>The dependencies \<open>main\<close> builds from the environment: \<open>lk base token\<close> is the HTTP index.\<close>

definition boot_deps ::
  "(string \<Rightarrow> string) \<Rightarrow> (string \<Rightarrow> string \<Rightarrow> nat \<Rightarrow> string \<Rightarrow> string + bool \<times> string) \<Rightarrow> mig_deps option" where
  "boot_deps env lk =
     (let base = env ''TIN_GRAPH_URL''
      in if base = '''' \<and> env ''PROFILE'' = ''prod'' then None
         else map_option (\<lambda>(k, kid). \<lparr>dpLive = (if base \<noteq> '''' then Some (lk (strip_slashes base) (env ''TIN_GRAPH_TOKEN'')) else None),
                dpSigningKey = k, dpKeyID = kid\<rparr>) (signingKey env))"

datatype mig_body =
    MigResult mig_result
  | ManifestBody Manifest
  | ProofBody mig_proof
  | TextBody string
  | MigProblem string string

type_synonym mig_response = "int \<times> mig_body"

text \<open>A form part: absent, or a file name with its bytes or the error reading them.\<close>

record mig_request =
  mqMode :: string
  mqStrict :: string
  mqForm :: "string option"  \<comment> \<open>the error of \<open>ParseMultipartForm\<close>\<close>
  mqPart :: "string \<Rightarrow> (string \<times> (string + string)) option"

definition mode_of :: "string \<Rightarrow> mig_mode" where
  "mode_of q = (if q = '''' \<or> q = ''dry_run'' then DryRun else if q = ''commit'' then Commit else OtherMode q)"

definition has_suffix :: "string \<Rightarrow> string \<Rightarrow> bool" where
  "has_suffix s suf \<longleftrightarrow> length suf \<le> length s \<and> drop (length s - length suf) s = suf"

definition part_format :: "string \<Rightarrow> string option" where
  "part_format name = (if has_suffix name ''.csv'' then Some ''csv''
     else if has_suffix name ''.jsonl'' \<or> has_suffix name ''.ndjson'' then Some ''jsonl'' else None)"

fun form_files :: "(string \<Rightarrow> (string \<times> (string + string)) option) \<Rightarrow> EntityKind list
  \<Rightarrow> string + SourceFile list" where
  "form_files part [] = Inr []"
| "form_files part (e # es) = (case part (kind_text e) of
       None \<Rightarrow> form_files part es
     | Some (name, data) \<Rightarrow> (case part_format name of
         None \<Rightarrow> Inl (name @ '': extension must be .csv or .jsonl'')
       | Some fmt \<Rightarrow> (case data of
           Inl err \<Rightarrow> Inl err
         | Inr b \<Rightarrow> (case form_files part es of
             Inl err \<Rightarrow> Inl err
           | Inr fs \<Rightarrow> Inr (\<lparr>sfEntity = e, sfFormat = fmt, sfName = name, sfData = b\<rparr> # fs)))))"

definition importBatch ::
  "'s store_ops \<Rightarrow> mig_host \<Rightarrow> mig_deps \<Rightarrow> mig_request \<Rightarrow> instant \<Rightarrow> 's \<Rightarrow> (mig_response \<times> 's) option" where
  "importBatch st h d rq now s =
     (case mqForm rq of
        Some e \<Rightarrow> Some ((400, MigProblem ''bad_request'' (''multipart form required: '' @ e)), s)
      | None \<Rightarrow> (case form_files (mqPart rq) [Taxpayers, Filings, Payments] of
          Inl e \<Rightarrow> Some ((400, MigProblem ''bad_request'' e), s)
        | Inr files \<Rightarrow> map_option (\<lambda>(r, s1). (case r of
              Inl e \<Rightarrow> (400, MigProblem ''import_failed'' e)
            | Inr res \<Rightarrow> (if mode_of (mqMode rq) = Commit then 201 else 200, MigResult res), s1))
            (Import st h d files (mode_of (mqMode rq)) (mqStrict rq = ''true'') now s)))"

definition loadManifest ::
  "'s store_ops \<Rightarrow> mig_host \<Rightarrow> string \<Rightarrow> 's \<Rightarrow> (mig_response + Manifest) \<times> 's" where
  "loadManifest st h i s = (case stGet st ''mig_batches'' i s of
       (Inl e, s1) \<Rightarrow> (Inl (404, MigProblem ''not_found'' (''batch '' @ i)), s1)
     | (Inr raw, s1) \<Rightarrow> (case mhManifestParse h raw of
         None \<Rightarrow> (Inl (500, MigProblem ''internal_error'' (''corrupt manifest '' @ i)), s1)
       | Some m \<Rightarrow> (Inr m, s1)))"

definition getManifest :: "'s store_ops \<Rightarrow> mig_host \<Rightarrow> string \<Rightarrow> 's \<Rightarrow> mig_response \<times> 's" where
  "getManifest st h i s = (case loadManifest st h i s of
       (Inl r, s1) \<Rightarrow> (r, s1)
     | (Inr m, s1) \<Rightarrow> ((200, ManifestBody m), s1))"

definition verifyBatch ::
  "'s store_ops \<Rightarrow> mig_host \<Rightarrow> mig_deps \<Rightarrow> string \<Rightarrow> instant \<Rightarrow> 's \<Rightarrow> mig_response \<times> 's" where
  "verifyBatch st h d i now s = (case loadManifest st h i s of
       (Inl r, s1) \<Rightarrow> (r, s1)
     | (Inr m, s1) \<Rightarrow>
         (let (p, s2) = Verify_batch st h m (Some (dpSigningKey d)) now s1
          in ((if prVerdict p = ''FAIL'' then 409 else 200, ProofBody p), s2)))"

definition getProof ::
  "'s store_ops \<Rightarrow> mig_host \<Rightarrow> mig_deps \<Rightarrow> string \<Rightarrow> string \<Rightarrow> instant \<Rightarrow> 's \<Rightarrow> mig_response \<times> 's" where
  "getProof st h d i format now s = (case loadManifest st h i s of
       (Inl r, s1) \<Rightarrow> (r, s1)
     | (Inr m, s1) \<Rightarrow>
         (let (p, s2) = Verify_batch st h m (Some (dpSigningKey d)) now s1
          in ((200, if format = ''text'' then TextBody (prSummary p) else ProofBody p), s2)))"

end
