(* ===== verification/MigInv.thy ===== *)
theory MigInv
  imports MigStore "HOL-Library.Sublist" "HOL-Library.Multiset"
begin

text \<open>
  What the migration tool guarantees: the CSV reader ends exactly when its input does; staged rows are
  valid, carry distinct keys and are accounted for; a failed commit leaves the documents as they were; a
  committed batch verifies, and a batch that verifies holds the rows the manifest was built from. The
  facts about commits and listings are proved once, in the locale of the \<open>Store\<close> contract.
\<close>

section \<open>Check digits\<close>

lemma luhn_term_range: "0 \<le> d \<Longrightarrow> d \<le> 9 \<Longrightarrow> 0 \<le> luhn_term i d \<and> luhn_term i d \<le> 9"
  by (auto simp: luhn_term_def)

text \<open>Within one position, two different digits contribute different terms.\<close>

lemma luhn_term_inj:
  assumes "0 \<le> d" "d \<le> 9" "0 \<le> e" "e \<le> 9" "luhn_term i d = luhn_term i e"
  shows "d = e"
proof (cases "(10 - i) mod 2 = 1")
  case True
  with assms(5) have "(if 2 * d > 9 then 2 * d - 9 else 2 * d) = (if 2 * e > 9 then 2 * e - 9 else 2 * e)"
    by (simp add: luhn_term_def)
  with assms(1-4) show ?thesis by presburger
next
  case False
  with assms(5) show ?thesis by (simp add: luhn_term_def)
qed

lemma luhn_sum_update:
  "j < length ds \<Longrightarrow> luhn_sum i (ds[j := e]) = luhn_sum i ds - luhn_term (i + j) (ds ! j) + luhn_term (i + j) e"
proof (induction ds arbitrary: i j)
  case (Cons d ds)
  then show ?case by (cases j) simp_all
qed simp

lemma check_digit_range: "0 \<le> check_digit ds \<and> check_digit ds \<le> 9"
  by (simp add: check_digit_def)

lemma luhn_residue:
  fixes S a b :: int
  assumes "(10 - (S - a + b) mod 10) mod 10 = (10 - S mod 10) mod 10" "0 \<le> a \<and> a \<le> 9" "0 \<le> b \<and> b \<le> 9"
  shows "b = a"
proof -
  have "(10 - (S - a + b)) mod 10 = (10 - S) mod 10"
    using assms(1) by (simp only: mod_diff_right_eq)
  then have "10 dvd (10 - (S - a + b)) - (10 - S)" by (simp only: mod_eq_dvd_iff)
  then have "10 dvd a - b" by simp
  with assms(2,3) show ?thesis by presburger
qed

text \<open>Replacing one payload digit by another changes the check digit.\<close>

lemma check_digit_detects:
  assumes "j < 11" "length ds = 12" "\<forall>d \<in> set ds. 0 \<le> d \<and> d \<le> 9" "0 \<le> e" "e \<le> 9"
    and "check_digit (ds[j := e]) = check_digit ds"
  shows "e = ds ! j"
proof -
  let ?S = "luhn_sum 0 (take 11 ds)" and ?a = "luhn_term j (ds ! j)" and ?b = "luhn_term j e"
  have d: "0 \<le> ds ! j" "ds ! j \<le> 9" using assms(1,2,3) by auto
  have "take 11 (ds[j := e]) = (take 11 ds)[j := e]" by (simp add: take_update_swap)
  then have S: "luhn_sum 0 (take 11 (ds[j := e])) = ?S - ?a + ?b"
    using luhn_sum_update [of j "take 11 ds" 0 e] assms(1,2) by simp
  have "(10 - (?S - ?a + ?b) mod 10) mod 10 = (10 - ?S mod 10) mod 10"
    using assms(6) unfolding check_digit_def S .
  then have "?b = ?a"
    using luhn_term_range [OF d, of j] luhn_term_range [OF assms(4,5), of j] by (rule luhn_residue)
  then show ?thesis by (rule luhn_term_inj [OF assms(4,5) d])
qed

lemma digit_val_byte: "digit_val c = int (byte_of c) - 48"
  by (simp add: digit_val_def byte_of_def of_char_def)

lemma digit_val_range: "is_digit c \<Longrightarrow> 0 \<le> digit_val c \<and> digit_val c \<le> 9"
  by (simp add: digit_val_byte is_digit_def)

lemma digit_val_eq: "digit_val c = digit_val d \<longleftrightarrow> c = d"
  by (simp add: digit_val_byte byte_of_def)

lemma tin_digits_valid:
  assumes "tinRe tin"
  shows "tin_digits tin = map digit_val (take 8 tin @ drop 9 tin)"
proof -
  have "tin = take 8 tin @ tin ! 8 # drop 9 tin"
    using assms id_take_nth_drop [of 8 tin] by (simp add: tinRe_def)
  moreover have "filter is_digit (take 8 tin @ tin ! 8 # drop 9 tin) = take 8 tin @ drop 9 tin"
    using assms by (auto simp: tinRe_def list_all_iff filter_id_conv is_digit_def byte_of_def)
  ultimately show ?thesis unfolding tin_digits_def by metis
qed

lemma tin_digits_range:
  assumes "tinRe tin"
  shows "length (tin_digits tin) = 12" "\<forall>d \<in> set (tin_digits tin). 0 \<le> d \<and> d \<le> 9"
proof -
  have "list_all is_digit (take 8 tin @ drop 9 tin)" using assms by (simp add: tinRe_def)
  then show "length (tin_digits tin) = 12" "\<forall>d \<in> set (tin_digits tin). 0 \<le> d \<and> d \<le> 9"
    using assms digit_val_range by (auto simp: tin_digits_valid tinRe_def list_all_iff)
qed

text \<open>Replacing a digit of a TIN replaces one digit of its list.\<close>

definition digit_index :: "nat \<Rightarrow> nat" where
  "digit_index i = (if i < 8 then i else i - 1)"

lemma tin_replace:
  assumes "tinRe tin" "i < 13" "i \<noteq> 8" "is_digit c"
  shows "tinRe (tin[i := c])" "tin_digits (tin[i := c]) = (tin_digits tin)[digit_index i := digit_val c]"
proof -
  have parts: "take 8 (tin[i := c]) @ drop 9 (tin[i := c]) = (take 8 tin @ drop 9 tin)[digit_index i := c]"
    using assms(1-3) by (auto simp: tinRe_def digit_index_def list_update_append take_update_swap drop_update_swap list_update_beyond
        intro!: arg_cong [where f = "\<lambda>j. (drop 9 tin)[j := c]"])
  have all: "list_all is_digit (take 8 tin @ drop 9 tin)" using assms(1) by (simp add: tinRe_def)
  have "list_all is_digit ((take 8 tin @ drop 9 tin)[digit_index i := c])"
    using all assms(4) by (auto simp: list_all_iff dest!: set_update_subset_insert [THEN subsetD])
  then have "list_all is_digit (take 8 (tin[i := c]) @ drop 9 (tin[i := c]))" by (simp only: parts)
  then show re: "tinRe (tin[i := c])" using assms(1,3) by (simp add: tinRe_def)
  show "tin_digits (tin[i := c]) = (tin_digits tin)[digit_index i := digit_val c]"
    unfolding tin_digits_valid [OF re] tin_digits_valid [OF assms(1)] parts by (simp add: map_update)
qed

lemma checksum_detects:
  assumes "TINChecksumOK tin" "i < 13" "i \<noteq> 8" "is_digit c" "c \<noteq> tin ! i"
  shows "\<not> TINChecksumOK (tin[i := c])"
proof
  assume ok: "TINChecksumOK (tin[i := c])"
  have re: "tinRe tin" using assms(1) by (simp add: TINChecksumOK_def mig_ValidTINFormat_def split: if_splits)
  note r = tin_replace [OF re assms(2-4)] and d = tin_digits_range [OF re]
  let ?ds = "tin_digits tin" and ?j = "digit_index i"
  have old: "check_digit ?ds = ?ds ! 11"
    using assms(1) by (simp add: TINChecksumOK_def split: if_splits)
  have new: "check_digit (?ds[?j := digit_val c]) = ?ds[?j := digit_val c] ! 11"
    using ok r by (simp add: TINChecksumOK_def split: if_splits)
  have at: "?ds ! ?j = digit_val (tin ! i)"
    using re assms(2,3) by (auto simp: tin_digits_valid tinRe_def digit_index_def nth_append)
  have j: "?j < 12" using assms(2,3) by (auto simp: digit_index_def)
  have "digit_val c = ?ds ! ?j"
  proof (cases "?j = 11")
    case True
    with old new d(1) show ?thesis by (simp add: check_digit_def)
  next
    case False
    with j have "?j < 11" by simp
    moreover have "check_digit (?ds[?j := digit_val c]) = check_digit ?ds" using old new False by simp
    ultimately show ?thesis using check_digit_detects d digit_val_range [OF assms(4)] by blast
  qed
  with at assms(5) show False by (simp add: digit_val_eq)
qed

lemma digit_char: "0 \<le> d \<Longrightarrow> d \<le> 9 \<Longrightarrow> is_digit (char_of (nat (48 + d))) \<and> digit_val (char_of (nat (48 + d))) = d"
proof -
  assume "0 \<le> d" "d \<le> 9"
  then have "d \<in> set [0, 1, 2, 3, 4, 5, 6, 7, 8, 9]" by simp presburger
  moreover have "list_all (\<lambda>d. is_digit (char_of (nat (48 + d))) \<and> digit_val (char_of (nat (48 + d))) = d)
    [0, 1, 2, 3, 4, 5, 6, 7, 8, 9]" by code_simp
  ultimately show ?thesis unfolding list_all_iff by blast
qed

text \<open>The corrected TIN passes the check and differs in its last digit only.\<close>

lemma corrected_tin:
  assumes "TINWithCheckDigit h tin = Inr t"
  shows "TINChecksumOK t" "take 12 t = take 12 tin"
proof -
  have re: "tinRe tin" using assms by (simp add: TINWithCheckDigit_def mig_ValidTINFormat_def split: if_splits)
  let ?ds = "tin_digits tin" and ?c = "char_of (nat (48 + check_digit (tin_digits tin)))"
  note d = tin_digits_range [OF re] and k = check_digit_range [of "tin_digits tin"]
  have chars: "map (\<lambda>d. char_of (nat (48 + d))) ?ds = take 8 tin @ drop 9 tin"
  proof -
    have "char_of (nat (48 + digit_val c)) = c" if "is_digit c" for c
      using digit_char [of "digit_val c"] digit_val_range [OF that] digit_val_eq by blast
    moreover have "list_all is_digit (take 8 tin @ drop 9 tin)" using re by (simp add: tinRe_def)
    ultimately show ?thesis by (auto simp: tin_digits_valid [OF re] list_all_iff comp_def intro!: map_idI)
  qed
  have t: "t = tin[12 := ?c]"
  proof -
    have digs: "map (\<lambda>d. char_of (nat (48 + d))) (?ds[11 := check_digit ?ds]) = (take 8 tin @ drop 9 tin)[11 := ?c]"
      using chars by (simp add: map_update)
    obtain A B where ab: "tin = A @ CHR ''-'' # B" "length A = 8"
    proof
      show "tin = take 8 tin @ CHR ''-'' # drop 9 tin" "length (take 8 tin) = 8"
        using re id_take_nth_drop [of 8 tin] by (simp_all add: tinRe_def)
    qed
    have "t = take 8 ((take 8 tin @ drop 9 tin)[11 := ?c]) @ ''-'' @ drop 8 ((take 8 tin @ drop 9 tin)[11 := ?c])"
      using assms re by (simp add: TINWithCheckDigit_def mig_ValidTINFormat_def Let_def digs split: if_splits)
    with ab show ?thesis by (simp add: list_update_append)
  qed
  show "take 12 t = take 12 tin" by (simp add: t)
  have "is_digit ?c" using digit_char k by blast
  note r = tin_replace [OF re _ _ this, of 12]
  have "tin_digits t = ?ds[11 := check_digit ?ds]"
    using r(2) digit_char k by (simp add: t digit_index_def)
  moreover have "check_digit (?ds[11 := x]) = check_digit ?ds" for x by (simp add: check_digit_def)
  ultimately show "TINChecksumOK t" using r(1) d(1) by (simp add: TINChecksumOK_def mig_ValidTINFormat_def t)
qed

section \<open>The CSV reader ends with its input\<close>

declare csv_loop.simps [simp del]

lemma csv_loop_ends:
  assumes "rd k = CsvEOF" "n \<le> k"
  shows "\<exists>st'. csv_loop rd onerr sink idx n line st = Some st'"
  using assms(2)
proof (induction "k - n" arbitrary: n line st)
  case 0
  with assms(1) show ?case by (simp add: csv_loop.simps)
next
  case (Suc d)
  show ?case
  proof (cases "rd n")
    case (CsvRecord x)
    have "\<exists>st'. csv_loop rd onerr sink idx (Suc n) (line + 1) (sink (line + 1) (csv_row x idx) st) = Some st'"
      by (rule Suc.hyps(1)) (use Suc in auto)
    with CsvRecord show ?thesis by (simp add: csv_loop.simps [where n = n])
  next
    case (CsvError e)
    have "\<exists>st'. csv_loop rd onerr sink idx (Suc n) (line + 1) (onerr (line + 1) (''csv: '' @ e) st) = Some st'"
      by (rule Suc.hyps(1)) (use Suc in auto)
    with CsvError show ?thesis by (simp add: csv_loop.simps [where n = n])
  qed (simp add: csv_loop.simps)
qed

lemma csv_loop_ended:
  assumes "csv_loop rd onerr sink idx n line st = Some st'"
  shows "\<exists>k \<ge> n. rd k = CsvEOF"
proof (rule csv_loop.raw_induct
    [where P = "\<lambda>rd onerr sink idx n line st y. \<exists>k \<ge> n. rd k = CsvEOF", OF _ assms])
  fix loop and rd :: "nat \<Rightarrow> csv_read" and onerr :: "int \<Rightarrow> string \<Rightarrow> 'a \<Rightarrow> 'a"
    and sink :: "int \<Rightarrow> (string \<rightharpoonup> string) \<Rightarrow> 'a \<Rightarrow> 'a" and idx n line st r
  assume ih: "\<And>rd onerr sink idx n line st y. loop rd onerr sink idx n line st = Some (y :: 'a)
      \<Longrightarrow> \<exists>k \<ge> n. rd k = CsvEOF"
    and eq: "(case rd n of
      CsvRecord rec \<Rightarrow> loop rd onerr sink idx (Suc n) (line + 1) (sink (line + 1) (csv_row rec idx) st)
    | CsvError e \<Rightarrow> loop rd onerr sink idx (Suc n) (line + 1) (onerr (line + 1) (''csv: '' @ e) st)
    | CsvEOF \<Rightarrow> Some st) = Some r"
  have step: "\<exists>k \<ge> n. rd k = CsvEOF" if "\<exists>k \<ge> Suc n. rd k = CsvEOF"
    using that Suc_leD by blast
  show "\<exists>k \<ge> n. rd k = CsvEOF"
  proof (cases "rd n")
    case (CsvRecord x)
    with eq show ?thesis using step [OF ih] by fastforce
  next
    case (CsvError e)
    with eq show ?thesis using step [OF ih] by fastforce
  qed auto
qed

section \<open>Staged rows\<close>

text \<open>A parsed amount is never negative.\<close>

definition amount_ok :: "mig_row \<Rightarrow> bool" where
  "amount_ok r \<longleftrightarrow> (\<forall>k v. row_amount r = Some (k, v) \<longrightarrow> 0 \<le> sint v)"

lemma parseKobo_range:
  assumes "parseKobo h s = Inr k"
  shows "0 \<le> sint k"
proof -
  obtain v where v: "parse_int64 (trim_space s) = Some v" "0 \<le> v" "k = word_of_int v"
    using assms by (auto simp: parseKobo_def Let_def split: if_splits option.splits)
  have "signed_take_bit 63 v = v"
    using parse_int64_range [OF v(1)] by (intro signed_take_bit_int_eq_self) auto
  then have "sint (word_of_int v :: kobo) = v" by (simp add: sint_sbintrunc')
  with v show ?thesis by simp
qed

lemma decodeRow_amount: "decodeRow h e m = Inr sr \<Longrightarrow> amount_ok (srRow sr)"
  by (cases e) (auto simp: decodeRow_def amount_ok_def Let_def dest: parseKobo_range split: sum.splits)

text \<open>Every accepted row passed validation, its key is on record once, and it carries no position.\<close>

definition stage_ok :: "mig_host \<Rightarrow> bool \<Rightarrow> mig_stage \<Rightarrow> bool" where
  "stage_ok h strict st \<longleftrightarrow>
     (\<forall>r \<in> set (sgRows st). validateRow h strict (srRow r) = None \<and> amount_ok (srRow r)
        \<and> srFile r = '''' \<and> srLine r = 0)
     \<and> distinct (map (dedupKey \<circ> srRow) (sgRows st))
     \<and> set (sgSeen st) = (dedupKey \<circ> srRow) ` set (sgRows st)"

definition handled :: "mig_stage \<Rightarrow> nat" where
  "handled st = length (sgRows st) + length (sgErrs st)"

lemma decodeRow_position: "decodeRow h e m = Inr sr \<Longrightarrow> srFile sr = '''' \<and> srLine sr = 0"
  by (cases e) (auto simp: decodeRow_def Let_def split: sum.splits)

lemma ledger_err_ok [simp]:
  "stage_ok h strict (ledger_err e f l x st) = stage_ok h strict st"
  "handled (ledger_err e f l x st) = Suc (handled st)"
  by (simp_all add: ledger_err_def stage_ok_def handled_def)

lemma addRow_ok:
  assumes "stage_ok h strict st"
  shows "stage_ok h strict (addRow h strict e f l m st)"
  using assms decodeRow_position [of h e m] decodeRow_amount [of h e m]
  by (auto simp: addRow_def stage_ok_def ledger_err_def split: sum.splits option.splits)

lemma addRow_handled [simp]: "handled (addRow h strict e f l m st) = Suc (handled st)"
  by (simp add: addRow_def handled_def ledger_err_def split: sum.splits option.splits)

text \<open>What every callback keeps, the readers keep; what every callback counts, they count.\<close>

lemma csv_loop_keeps:
  assumes "csv_loop rd onerr sink idx n line st = Some st'" "P st"
    and "\<And>l e s. P s \<Longrightarrow> P (onerr l e s)" "\<And>l m s. P s \<Longrightarrow> P (sink l m s)"
  shows "P st'"
proof -
  obtain k where k: "n \<le> k" "rd k = CsvEOF" using csv_loop_ended [OF assms(1)] by blast
  from assms(1,2) k(1) show ?thesis
  proof (induction "k - n" arbitrary: n line st)
    case 0
    with k(2) have "rd n = CsvEOF" by simp
    with 0 show ?case by (simp add: csv_loop.simps)
  next
    case (Suc d)
    have d: "d = k - Suc n" "Suc n \<le> k \<or> rd n = CsvEOF" using Suc.hyps(2) by auto
    show ?case
    proof (cases "rd n")
      case (CsvRecord x)
      with Suc.prems show ?thesis
        by (intro Suc.hyps(1) [OF d(1), of "line + 1" "sink (line + 1) (csv_row x idx) st"])
          (use d in \<open>auto simp: csv_loop.simps [where n = n] intro: assms(4)\<close>)
    next
      case (CsvError e)
      with Suc.prems show ?thesis
        by (intro Suc.hyps(1) [OF d(1), of "line + 1" "onerr (line + 1) (''csv: '' @ e) st"])
          (use d in \<open>auto simp: csv_loop.simps [where n = n] intro: assms(3)\<close>)
    next
      case CsvEOF
      with Suc.prems show ?thesis by (simp add: csv_loop.simps [where n = n])
    qed
  qed
qed

lemma csv_loop_counts:
  assumes "rd k = CsvEOF" "\<forall>j. n \<le> j \<and> j < k \<longrightarrow> rd j \<noteq> CsvEOF" "n \<le> k"
    and "\<And>l e s. f (onerr l e s) = Suc (f s)" "\<And>l m s. f (sink l m s) = Suc (f s)"
    and "csv_loop rd onerr sink idx n line st = Some st'"
  shows "f st' = f st + (k - n)"
  using assms(2,3,6)
proof (induction "k - n" arbitrary: n line st)
  case 0
  with assms(1) show ?case by (simp add: csv_loop.simps)
next
  case (Suc d)
  have d: "d = k - Suc n" "Suc n \<le> k" "n < k" using Suc.hyps(2) by auto
  have later: "\<forall>j. Suc n \<le> j \<and> j < k \<longrightarrow> rd j \<noteq> CsvEOF" using Suc.prems(1) by auto
  note ih = Suc.hyps(1) [OF d(1) later d(2)]
  show ?case
  proof (cases "rd n")
    case (CsvRecord x)
    with ih [of "line + 1" "sink (line + 1) (csv_row x idx) st"] Suc.prems(3) d assms(5) show ?thesis
      by (simp add: csv_loop.simps [where n = n])
  next
    case (CsvError e)
    with ih [of "line + 1" "onerr (line + 1) (''csv: '' @ e) st"] Suc.prems(3) d assms(4) show ?thesis
      by (simp add: csv_loop.simps [where n = n])
  qed (use Suc.prems(1) d(3) in auto)
qed

lemma jsonl_loop_keeps:
  assumes "jsonl_loop h onerr sink line ls st = Inr st'" "P st"
    and "\<And>l e s. P s \<Longrightarrow> P (onerr l e s)" "\<And>l m s. P s \<Longrightarrow> P (sink l m s)"
  shows "P st'"
  using assms(1,2)
proof (induction ls arbitrary: line st)
  case (Cons l ls)
  then show ?case
    by (auto simp: Let_def assms(3,4) split: if_splits sum.splits intro!: Cons.IH)
qed simp

definition blank_line :: "string \<Rightarrow> bool" where
  "blank_line l \<longleftrightarrow> trim_space (drop_cr l) = ''''"

lemma jsonl_loop_counts:
  assumes "\<And>l e s. f (onerr l e s) = Suc (f s)" "\<And>l m s. f (sink l m s) = Suc (f s)"
  shows "jsonl_loop h onerr sink line ls st = Inr st'
    \<Longrightarrow> f st' = f st + length (filter (Not \<circ> blank_line) ls)"
proof (induction ls arbitrary: line st)
  case (Cons l ls)
  then show ?case
    by (auto simp: Let_def assms blank_line_def split: if_splits sum.splits dest!: Cons.IH)
qed simp

lemma ingest_ok:
  "ingest h strict fs st = Some (Inr st') \<Longrightarrow> stage_ok h strict st \<Longrightarrow> stage_ok h strict st'"
proof (induction fs arbitrary: st)
  case (Cons f fs)
  note csv = csv_loop_keeps [where P = "stage_ok h strict" and sink = "addRow h strict (sfEntity f) (sfName f)"
      and onerr = "ledger_err (sfEntity f) (sfName f)"]
  note jsonl = jsonl_loop_keeps [where P = "stage_ok h strict" and sink = "addRow h strict (sfEntity f) (sfName f)"
      and onerr = "ledger_err (sfEntity f) (sfName f)"]
  from Cons.prems show ?case
    by (auto simp: Let_def parseCSV_def parseJSONL_def addRow_ok
        split: if_splits csv_read.splits option.splits sum.splits
        dest!: csv jsonl intro!: Cons.IH)
qed simp

text \<open>\<open>file_records h f n\<close>: the file delivers \<open>n\<close> data records.\<close>

definition file_records :: "mig_host \<Rightarrow> SourceFile \<Rightarrow> nat \<Rightarrow> bool" where
  "file_records h f n \<longleftrightarrow>
     (if sfFormat f = ''csv''
      then mhCsv h (sfData f) (Suc n) = CsvEOF \<and> (\<forall>j. 1 \<le> j \<and> j < Suc n \<longrightarrow> mhCsv h (sfData f) j \<noteq> CsvEOF)
      else n = length (filter (Not \<circ> blank_line) (nl_split (sfData f))))"

lemma ingest_counts:
  "ingest h strict fs st = Some (Inr st') \<Longrightarrow> list_all2 (file_records h) fs ns
   \<Longrightarrow> handled st' = handled st + sum_list ns"
proof (induction fs arbitrary: st ns)
  case (Cons f fs)
  from Cons.prems(2) obtain n ms where ns: "ns = n # ms" "file_records h f n" "list_all2 (file_records h) fs ms"
    by (auto simp: list_all2_Cons1)
  let ?err = "ledger_err (sfEntity f) (sfName f)" and ?add = "addRow h strict (sfEntity f) (sfName f)"
  obtain st1 where rest: "ingest h strict fs st1 = Some (Inr st')"
    and step: "(if sfFormat f = ''csv'' then parseCSV (mhCsv h (sfData f)) (sfName f) ?err ?add st
      else Some (parseJSONL h (sfData f) ?err ?add st)) = Some (Inr st1)"
    using Cons.prems(1) by (auto simp: Let_def split: if_splits option.splits sum.splits)
  have "handled st1 = handled st + n"
  proof (cases "sfFormat f = ''csv''")
    case True
    with step obtain hd where "csv_loop (mhCsv h (sfData f)) ?err ?add (csvHeaderIndex hd) 1 1 st = Some st1"
      by (auto simp: parseCSV_def split: csv_read.splits)
    from csv_loop_counts [where f = handled, OF _ _ _ _ _ this, of "Suc n"] ns(2) True show ?thesis
      by (simp add: file_records_def)
  next
    case False
    with step have "jsonl_loop h ?err ?add 0 (nl_split (sfData f)) st = Inr st1"
      by (simp add: parseJSONL_def)
    from jsonl_loop_counts [where f = handled, OF _ _ this] ns(2) False show ?thesis
      by (simp add: file_records_def)
  qed
  with Cons.IH [OF rest ns(3)] ns(1) show ?case by simp
qed simp

section \<open>The live checks\<close>

text \<open>Which rows pass: a taxpayer not yet live, a row whose taxpayer is in the batch or live.\<close>

definition backed :: "live_index \<Rightarrow> string list \<Rightarrow> stagedRow \<Rightarrow> bool" where
  "backed live tins r \<longleftrightarrow>
     (if row_kind (srRow r) = Taxpayers
      then (case live of None \<Rightarrow> True | Some lk \<Rightarrow> \<exists>i e. lk i (rowTIN (srRow r)) = Inr (False, e))
      else rowTIN (srRow r) \<in> set tins
        \<or> (case live of None \<Rightarrow> False | Some lk \<Rightarrow> \<exists>i e. lk i (rowTIN (srRow r)) = Inr (True, e)))"

lemma live_check_backed: "live_check live tins i r = Inr None \<Longrightarrow> backed live tins r"
  by (auto simp: live_check_def backed_def Let_def split: if_splits option.splits sum.splits prod.splits)

lemma live_check_error:
  "live_check live tins i r = Inr (Some e) \<Longrightarrow> reFile e = srFile r \<and> reLine e = srLine r"
  by (auto simp: live_check_def live_error_def Let_def split: if_splits option.splits sum.splits)

lemma live_filter_spec:
  "live_filter live tins i rows errs = Inr (ok, errs1) \<Longrightarrow>
    length ok + length errs1 = length rows + length errs \<and> subseq ok rows
    \<and> (\<forall>r \<in> set ok. backed live tins r)
    \<and> (\<exists>es. errs1 = errs @ es \<and> (\<forall>e \<in> set es. \<exists>r \<in> set rows. reFile e = srFile r \<and> reLine e = srLine r))"
proof (induction rows arbitrary: i errs ok)
  case (Cons r rows)
  show ?case
  proof (cases "live_check live tins i r")
    case (Inr v)
    show ?thesis
    proof (cases v)
      case None
      with Inr Cons.prems obtain ok' where ok': "ok = r # ok'"
        "live_filter live tins (Suc i) rows errs = Inr (ok', errs1)" by (auto split: sum.splits)
      have "backed live tins r" using live_check_backed Inr None by simp
      with Cons.IH [OF ok'(2)] ok'(1) show ?thesis by auto
    next
      case (Some e)
      with Inr Cons.prems have f: "live_filter live tins (Suc i) rows (errs @ [e]) = Inr (ok, errs1)" by simp
      obtain es where es: "errs1 = (errs @ [e]) @ es"
        "\<forall>x \<in> set es. \<exists>q \<in> set rows. reFile x = srFile q \<and> reLine x = srLine q"
        using Cons.IH [OF f] by blast
      have "reFile e = srFile r \<and> reLine e = srLine r" using live_check_error Inr Some by simp
      with es have "\<exists>es. errs1 = errs @ es \<and> (\<forall>x \<in> set es. \<exists>q \<in> set (r # rows). reFile x = srFile q \<and> reLine x = srLine q)"
        by (intro exI [of _ "e # es"]) auto
      moreover have "subseq ok (r # rows)" using Cons.IH [OF f] by (simp add: list_emb_Cons)
      moreover have "length ok + length errs1 = length (r # rows) + length errs" "\<forall>r \<in> set ok. backed live tins r"
        using Cons.IH [OF f] by simp_all
      ultimately show ?thesis by blast
    qed
  qed (use Cons.prems in simp)
qed simp

section \<open>Manifest totals\<close>

lemma kv_at_add [simp]: "kv_at 0 (kv_add k v m) j = (if j = k then kv_at 0 m k + v else kv_at 0 m j)"
  by (simp add: kv_add_def kv_at_def)

lemma kv_at_put [simp]: "kv_at d (kv_put k v m) j = (if j = k then v else kv_at d m j)"
  by (simp add: kv_at_def)

lemma kv_at_Nil [simp]: "kv_at d [] j = d"
  by (simp add: kv_at_def)

lemma tally_step_simps [simp]:
  "ag_payload (tally_step h c e a t) = ag_payload t @ c"
  "ag_chain (tally_step h c e a t) = mhSha h (bytes_text (ag_chain t) @ c)"
  "kv_at 0 (ag_counts (tally_step h c e a t)) k = kv_at 0 (ag_counts t) k + (if k = kind_text e then 1 else 0)"
  "kv_at 0 (ag_sums (tally_step h c e a t)) k
    = kv_at 0 (ag_sums t) k + (case a of None \<Rightarrow> 0 | Some (j, v) \<Rightarrow> if k = j then v else 0)"
  by (auto simp: tally_step_def split: option.splits)

lemma start_tally_simps [simp]:
  "ag_payload (start_tally h c) = hashChainSeed" "ag_chain (start_tally h c) = mhSha h hashChainSeed"
  "ag_counts (start_tally h c) = c" "ag_sums (start_tally h c) = zero_sums"
  by (simp_all add: start_tally_def)

lemma zero_at [simp]: "kv_at 0 zero_counts k = 0" "kv_at 0 zero_sums k = 0"
  by (simp_all add: zero_counts_def zero_sums_def del: kv_put.simps)

definition amount_in :: "string \<Rightarrow> mig_row \<Rightarrow> kobo" where
  "amount_in k r = (case row_amount r of None \<Rightarrow> 0 | Some (j, v) \<Rightarrow> if k = j then v else 0)"

lemma manifest_loop_totals:
  "manifest_loop h rows t = (hs, t') \<Longrightarrow>
     length hs = length rows
     \<and> ag_payload t' = ag_payload t @ concat (map (row_canonical \<circ> srRow) rows)
     \<and> (hs \<noteq> [] \<longrightarrow> last hs = hex_encode (ag_chain t')) \<and> (hs = [] \<longrightarrow> t' = t)
     \<and> kv_at 0 (ag_counts t') k
         = kv_at 0 (ag_counts t) k + int (length (filter (\<lambda>r. kind_text (row_kind (srRow r)) = k) rows))
     \<and> kv_at 0 (ag_sums t') k = kv_at 0 (ag_sums t) k + sum_list (map (amount_in k \<circ> srRow) rows)"
proof (induction rows arbitrary: t hs)
  case (Cons r rows)
  let ?t1 = "tally_step h (row_canonical (srRow r)) (row_kind (srRow r)) (row_amount (srRow r)) t"
  obtain hs2 t2 where rest: "manifest_loop h rows ?t1 = (hs2, t2)" by fastforce
  with Cons.prems have hs: "hs = hex_encode (ag_chain ?t1) # hs2" "t' = t2" by (simp_all add: Let_def)
  from Cons.IH [of ?t1 hs2] rest hs show ?case
    by (auto simp: amount_in_def algebra_simps)
qed simp

text \<open>Within the range of an \<open>int64\<close> the sum of the words is the sum of the amounts.\<close>

lemma sum_words_exact:
  assumes "\<forall>w \<in> set ws. 0 \<le> sint (w :: kobo)" "sum_list (map sint ws) < 2 ^ 63"
  shows "sint (sum_list ws) = sum_list (map sint ws)"
  using assms
proof (induction ws)
  case (Cons w ws)
  have nn: "0 \<le> sum_list (map sint ws)" using Cons.prems(1) by (intro sum_list_nonneg) auto
  with Cons have ih: "sint (sum_list ws) = sum_list (map sint ws)" by simp
  have "sint (w + sum_list ws) = signed_take_bit 63 (sint w + sint (sum_list ws))"
    by (simp add: signed_take_bit_int_eq_self sint_word_ariths(1) signed_take_bit_eq_take_bit_shift)
  also have "\<dots> = sint w + sint (sum_list ws)"
    using Cons.prems nn ih by (intro signed_take_bit_int_eq_self) auto
  finally show ?case using ih by simp
qed simp

section \<open>The Store contract\<close>

text \<open>
  What the importer relies on. \<open>docs\<close> are the documents a state holds, by the key \<open>nm c i\<close> of
  identifier \<open>i\<close> in collection \<open>c\<close>; \<open>calm\<close> is a state whose operations do not fail, \<open>mends\<close> one
  whose deletes do not.
\<close>

locale mig_store =
  fixes st :: "'s store_ops"
    and docs :: "'s \<Rightarrow> 'k \<Rightarrow> string option"
    and nm :: "string \<Rightarrow> string \<Rightarrow> 'k"
    and in_coll :: "string \<Rightarrow> 'k \<Rightarrow> bool"
    and coll_ok :: "string \<Rightarrow> bool"
    and id_ok :: "string \<Rightarrow> bool"
    and calm :: "'s \<Rightarrow> bool"
    and mends :: "'s \<Rightarrow> bool"
  assumes get_docs: "docs (snd (stGet st c i s)) = docs s"
    and get_calm: "calm s \<Longrightarrow> calm (snd (stGet st c i s))"
    and get_mends: "mends s \<Longrightarrow> mends (snd (stGet st c i s))"
    and get_hit: "fst (stGet st c i s) = Inr b \<Longrightarrow> docs s (nm c i) = Some b"
    and get_found: "calm s \<Longrightarrow> docs s (nm c i) = Some b \<Longrightarrow> fst (stGet st c i s) = Inr b"
    and put_done: "stPut st c i b s = (None, s') \<Longrightarrow> docs s' = (docs s)(nm c i \<mapsto> b)"
    and put_failed: "stPut st c i b s = (Some e, s') \<Longrightarrow> docs s' = docs s"
    and put_calm: "calm s \<Longrightarrow> fst (stPut st c i b s) = None \<and> calm (snd (stPut st c i b s))"
    and put_mends: "mends s \<Longrightarrow> mends (snd (stPut st c i b s))"
    and delete_mends: "mends s \<Longrightarrow> docs (snd (stDelete st c i s)) = (docs s)(nm c i := None)
      \<and> mends (snd (stDelete st c i s))"
    and list_docs: "docs (snd (stList st c s)) = docs s"
    and list_calm: "calm s \<Longrightarrow> is_ok (fst (stList st c s)) \<and> calm (snd (stList st c s))"
    and list_all_docs: "calm s \<Longrightarrow> fst (stList st c s) = Inr bs \<Longrightarrow> \<exists>ks. distinct ks
      \<and> set ks = {k. docs s k \<noteq> None \<and> in_coll c k} \<and> bs = map (\<lambda>k. the (docs s k)) ks"
    and nm_coll: "coll_ok c \<Longrightarrow> coll_ok c' \<Longrightarrow> in_coll c (nm c' i) \<longleftrightarrow> c = c'"
    and nm_inj: "coll_ok c \<Longrightarrow> id_ok i \<Longrightarrow> id_ok j \<Longrightarrow> nm c i = nm c j \<Longrightarrow> i = j"
begin

definition row_key :: "mig_host \<Rightarrow> string \<Rightarrow> stagedRow \<Rightarrow> 'k" where
  "row_key h batch r = nm (collFor (row_kind (srRow r))) (docID h batch (srRow r))"

lemma rollback_removes:
  assumes "mends s"
  shows "docs (rollback_docs st ws s) = (\<lambda>k. if k \<in> (\<lambda>(c, i). nm c i) ` set ws then None else docs s k)"
  using assms
proof (induction ws arbitrary: s)
  case (Cons w ws)
  obtain c i where w: "w = (c, i)" by fastforce
  from Cons.IH [of "snd (stDelete st c i s)"] delete_mends [OF Cons.prems, of c i] show ?case
    by (auto simp: w fun_eq_iff)
qed simp

text \<open>A failed batch leaves nothing behind when its rows were not there before.\<close>

lemma commit_loop_failed:
  assumes "commit_loop st h m i rows written s = (Some e, s')" "mends s"
    and "\<forall>r \<in> set rows. docs s0 (row_key h (mfBatchID m) r) = None"
    and "\<forall>(c, j) \<in> set written. docs s0 (nm c j) = None"
    and "\<forall>k. k \<notin> (\<lambda>(c, j). nm c j) ` set written \<longrightarrow> docs s k = docs s0 k"
  shows "docs s' = docs s0"
  using assms
proof (induction rows arbitrary: i written s)
  case (Cons r rows)
  let ?c = "collFor (row_kind (srRow r))" and ?d = "docID h (mfBatchID m) (srRow r)"
  have restored: "docs (rollback_docs st written t) = docs s0" if "mends t" "docs t = docs s" for t
    using rollback_removes [OF that(1), of written] that(2) Cons.prems(4,5)
    by (fastforce simp: fun_eq_iff)
  show ?case
  proof (cases "mhDocJSON h (row_doc m i r)")
    case (Inl x)
    with Cons.prems(1) restored [OF Cons.prems(2) refl] show ?thesis by auto
  next
    case (Inr b)
    obtain x s1 where put: "stPut st ?c ?d b s = (x, s1)" by fastforce
    have m1: "mends s1" using put_mends [OF Cons.prems(2), of ?c ?d b] put by simp
    show ?thesis
    proof (cases x)
      case (Some err)
      with Cons.prems(1) Inr put have "s' = rollback_docs st written s1" by simp
      with restored [OF m1] put_failed put Some show ?thesis by simp
    next
      case None
      with Cons.prems(1) Inr put have run: "commit_loop st h m (Suc i) rows (written @ [(?c, ?d)]) s1 = (Some e, s')"
        by simp
      have d1: "docs s1 = (docs s)(nm ?c ?d \<mapsto> b)" using put_done put None by simp
      show ?thesis
        by (rule Cons.IH [OF run m1])
          (use Cons.prems(3,4,5) d1 in \<open>auto simp: row_key_def\<close>)
    qed
  qed
qed simp

lemma commitBatch_failed:
  assumes "commitBatch st h m rows s = (Some e, s')" "mends s"
    and "\<forall>r \<in> set rows. docs s (row_key h (mfBatchID m) r) = None"
  shows "docs s' = docs s"
  using assms unfolding commitBatch_def by (intro commit_loop_failed [where s = s and s0 = s]) auto

text \<open>A batch that goes through has written each row's document under its key.\<close>

lemma commit_loop_done:
  "commit_loop st h m i rows written s = (None, s') \<Longrightarrow>
    \<exists>bs. length bs = length rows
      \<and> (\<forall>j < length rows. mhDocJSON h (row_doc m (i + j) (rows ! j)) = Inr (bs ! j))
      \<and> docs s' = (docs s)(map (row_key h (mfBatchID m)) rows [\<mapsto>] bs)"
proof (induction rows arbitrary: i written s)
  case (Cons r rows)
  let ?c = "collFor (row_kind (srRow r))" and ?d = "docID h (mfBatchID m) (srRow r)"
  obtain b where b: "mhDocJSON h (row_doc m i r) = Inr b" using Cons.prems by (auto split: sum.splits)
  obtain s1 where put: "stPut st ?c ?d b s = (None, s1)"
    and run: "commit_loop st h m (Suc i) rows (written @ [(?c, ?d)]) s1 = (None, s')"
    using Cons.prems b by (auto simp: Let_def split: prod.splits option.splits)
  from Cons.IH [OF run] obtain bs where bs: "length bs = length rows"
    "\<forall>j < length rows. mhDocJSON h (row_doc m (Suc i + j) (rows ! j)) = Inr (bs ! j)"
    "docs s' = (docs s1)(map (row_key h (mfBatchID m)) rows [\<mapsto>] bs)" by blast
  have "mhDocJSON h (row_doc m (i + j) ((r # rows) ! j)) = Inr ((b # bs) ! j)" if "j < Suc (length rows)" for j
    using b bs(2) that by (cases j) auto
  with bs(1,3) put_done [OF put] show ?case
    by (intro exI [of _ "b # bs"]) (simp add: row_key_def [symmetric])
qed simp

lemma commit_loop_calm:
  "calm s \<Longrightarrow> \<forall>j < length rows. is_ok (mhDocJSON h (row_doc m (i + j) (rows ! j)))
   \<Longrightarrow> fst (commit_loop st h m i rows written s) = None \<and> calm (snd (commit_loop st h m i rows written s))"
proof (induction rows arbitrary: i written s)
  case (Cons r rows)
  let ?c = "collFor (row_kind (srRow r))" and ?d = "docID h (mfBatchID m) (srRow r)"
  obtain b where b: "mhDocJSON h (row_doc m i r) = Inr b"
    using Cons.prems(2) [rule_format, of 0] by (auto simp: is_ok_ex)
  obtain s1 where put: "stPut st ?c ?d b s = (None, s1)" "calm s1"
    using put_calm [OF Cons.prems(1), of ?c ?d b] by (cases "stPut st ?c ?d b s") auto
  have "\<forall>j < length rows. is_ok (mhDocJSON h (row_doc m (Suc i + j) (rows ! j)))"
    using Cons.prems(2) by force
  from Cons.IH [OF put(2) this] b put(1) show ?case by simp
qed simp

end

section \<open>Reading a batch back\<close>

lemma map_upds_lookup:
  assumes "distinct ks" "length bs = length ks" "j < length ks"
  shows "(f(ks [\<mapsto>] bs)) (ks ! j) = Some (bs ! j)"
proof -
  have "distinct (map fst (rev (zip ks bs)))" using assms(1,2) by (simp add: rev_map [symmetric])
  moreover have "(ks ! j, bs ! j) \<in> set (rev (zip ks bs))"
    using assms(2,3) by (auto simp: set_zip)
  ultimately have "map_of (rev (zip ks bs)) (ks ! j) = Some (bs ! j)" by (rule map_of_is_SomeI)
  then show ?thesis by (simp add: map_upds_def map_add_Some_iff)
qed

lemma sort_key_unique:
  assumes "mset xs = mset ys" "inj_on f (set ys)" "sorted (map f ys)"
  shows "sort_key f xs = ys"
proof (rule properties_for_sort_key [OF assms(1) [symmetric] _ assms(3)])
  fix k assume k: "k \<in> set ys"
  have "filter (\<lambda>x. f k = f x) zs = replicate (count (mset zs) k) k" if "set zs = set ys" for zs
  proof -
    have "filter (\<lambda>x. f k = f x) zs = filter ((=) k) zs"
      using assms(2) k that by (intro filter_cong) (auto dest: inj_onD)
    then show ?thesis by (simp only: replicate_count_mset_eq_filter_eq)
  qed
  moreover have "set xs = set ys" using assms(1) by (metis set_mset_mset)
  ultimately show "filter (\<lambda>x. f k = f x) ys = filter (\<lambda>x. f k = f x) xs" using assms(1) by simp
qed

lemma row_kind_cases: "row_kind r \<in> {Taxpayers, Filings, Payments}"
  by (cases r) simp_all

lemma collFor_inj: "e \<in> {Taxpayers, Filings, Payments} \<Longrightarrow> row_kind r = e \<longleftrightarrow> collFor e = collFor (row_kind r)"
  by (cases r) (auto simp: collFor_def)

lemma batch_docs_listing:
  assumes "\<And>k. k \<in> set ks \<Longrightarrow> k \<in> K \<Longrightarrow> mhDocParse h (f k) = Some (dec k) \<and> sdBatchID (dec k) = b"
    and "\<And>k d. k \<in> set ks \<Longrightarrow> k \<notin> K \<Longrightarrow> mhDocParse h (f k) = Some d \<Longrightarrow> sdBatchID d \<noteq> b"
  shows "batch_docs h b (map f ks) = map dec (filter (\<lambda>k. k \<in> K) ks)"
  using assms
proof (induction ks)
  case (Cons k ks)
  have ih: "batch_docs h b (map f ks) = map dec (filter (\<lambda>k. k \<in> K) ks)"
    by (rule Cons.IH) (use Cons.prems in auto)
  show ?case
  proof (cases "k \<in> K")
    case True
    with Cons.prems(1) [of k] ih show ?thesis by (simp add: batch_docs_def List.map_filter_simps)
  next
    case False
    with Cons.prems(2) [of k] ih show ?thesis
      by (cases "mhDocParse h (f k)") (simp_all add: batch_docs_def List.map_filter_simps)
  qed
qed (simp add: batch_docs_def List.map_filter_simps)

context mig_store
begin

text \<open>The documents of a batch, listed collection by collection.\<close>

lemma gather_docs:
  assumes "calm s" "docs s = D"
    and "\<And>k. k \<in> K \<Longrightarrow> D k \<noteq> None \<and> mhDocParse h (the (D k)) = Some (dec k) \<and> sdBatchID (dec k) = b"
    and "\<And>e k x d. e \<in> set es \<Longrightarrow> in_coll (collFor e) k \<Longrightarrow> k \<notin> K \<Longrightarrow> D k = Some x
      \<Longrightarrow> mhDocParse h x = Some d \<Longrightarrow> sdBatchID d \<noteq> b"
    and "distinct es"
    and "\<And>k e e'. k \<in> K \<Longrightarrow> e \<in> set es \<Longrightarrow> e' \<in> set es \<Longrightarrow> in_coll (collFor e) k \<Longrightarrow> in_coll (collFor e') k \<Longrightarrow> e = e'"
  shows "\<exists>ks s'. gather st h b es s = (Inr (map dec ks), s') \<and> distinct ks
    \<and> set ks = {k \<in> K. \<exists>e \<in> set es. in_coll (collFor e) k}"
  using assms(1,2,4,5,6)
proof (induction es arbitrary: s)
  case (Cons e es)
  obtain raws s1 where l: "stList st (collFor e) s = (Inr raws, s1)" "calm s1"
    using list_calm [OF Cons.prems(1), of "collFor e"]
    by (cases "stList st (collFor e) s") (auto simp: is_ok_ex)
  have d1: "docs s1 = D" using list_docs [of "collFor e" s] l(1) Cons.prems(2) by simp
  obtain ks where ks: "distinct ks" "set ks = {k. D k \<noteq> None \<and> in_coll (collFor e) k}"
    "raws = map (\<lambda>k. the (D k)) ks"
    using list_all_docs [OF Cons.prems(1), of "collFor e" raws] l(1) Cons.prems(2) by auto
  have raws: "batch_docs h b raws = map dec (filter (\<lambda>k. k \<in> K) ks)"
    unfolding ks(3)
  proof (rule batch_docs_listing)
    show "sdBatchID d \<noteq> b" if "k \<in> set ks" "k \<notin> K" "mhDocParse h (the (D k)) = Some d" for k d
      using Cons.prems(3) [of e k _ d] ks(2) that by auto
  qed (use assms(3) in auto)
  obtain js s2 where g: "gather st h b es s1 = (Inr (map dec js), s2)" "distinct js"
    "set js = {k \<in> K. \<exists>e \<in> set es. in_coll (collFor e) k}"
  proof (atomize_elim, rule Cons.IH [OF l(2) d1])
    show "sdBatchID d \<noteq> b" if "e' \<in> set es" "in_coll (collFor e') k" "k \<notin> K" "D k = Some x"
      "mhDocParse h x = Some d" for e' k x d
      using Cons.prems(3) [OF _ that(2-5)] that(1) by simp
  qed (use Cons.prems(4,5) in auto)
  have "k \<notin> set js" if "k \<in> set ks" "k \<in> K" for k
    using Cons.prems(4,5) g(3) ks(2) that by auto
  then have "distinct (filter (\<lambda>k. k \<in> K) ks @ js)" using ks(1) g(2) by auto
  moreover have "set (filter (\<lambda>k. k \<in> K) ks @ js) = {k \<in> K. \<exists>e' \<in> set (e # es). in_coll (collFor e') k}"
    using ks(2) g(3) assms(3) by auto
  ultimately show ?case using l(1) g(1) raws
    by (intro exI [of _ "filter (\<lambda>k. k \<in> K) ks @ js"] exI [of _ s2]) simp
qed simp

text \<open>The stored batch, sorted by row index, is the row documents in order.\<close>

lemma gather_batch:
  assumes "calm s" "docs s = D0(map (row_key h (mfBatchID m)) rows [\<mapsto>] bs)" "length bs = length rows"
    and parsed: "\<forall>j < length rows. mhDocParse h (bs ! j) = Some (row_doc m j (rows ! j))"
    and dist: "distinct (map (row_key h (mfBatchID m)) rows)"
    and fresh: "\<And>e k x d. e \<in> {Taxpayers, Filings, Payments} \<Longrightarrow> in_coll (collFor e) k \<Longrightarrow> D0 k = Some x
      \<Longrightarrow> mhDocParse h x = Some d \<Longrightarrow> sdBatchID d \<noteq> mfBatchID m"
    and colls: "\<And>e. e \<in> {Taxpayers, Filings, Payments} \<Longrightarrow> coll_ok (collFor e)"
  shows "\<exists>ds s'. gather st h (mfBatchID m) [Taxpayers, Filings, Payments] s = (Inr ds, s')
    \<and> sort_key sdRowIndex ds = map (\<lambda>j. row_doc m j (rows ! j)) [0..<length rows]"
proof -
  let ?K = "map (row_key h (mfBatchID m)) rows" and ?doc = "\<lambda>j. row_doc m j (rows ! j)"
  let ?dec = "\<lambda>k. the (mhDocParse h (the (docs s k)))"
  have at: "docs s (?K ! j) = Some (bs ! j)" if "j < length rows" for j
    using map_upds_lookup [OF dist, of bs j D0] assms(2,3) that by simp
  have dec: "?dec (?K ! j) = ?doc j" if "j < length rows" for j using at [OF that] parsed that by simp
  have kind: "in_coll (collFor e) (row_key h (mfBatchID m) r) \<longleftrightarrow> e = row_kind (srRow r)"
    if "e \<in> {Taxpayers, Filings, Payments}" for e r
  proof -
    have "coll_ok (collFor e)" "coll_ok (collFor (row_kind (srRow r)))"
      using that colls row_kind_cases by blast+
    then show ?thesis using nm_coll collFor_inj [OF that, of "srRow r"] by (auto simp: row_key_def)
  qed
  have rest: "docs s k = D0 k" if "k \<notin> set ?K" for k using assms(2) that by (simp add: map_upds_apply_nontin)
  obtain ks s' where g: "gather st h (mfBatchID m) [Taxpayers, Filings, Payments] s = (Inr (map ?dec ks), s')"
    "distinct ks" "set ks = {k \<in> set ?K. \<exists>e \<in> set [Taxpayers, Filings, Payments]. in_coll (collFor e) k}"
  proof (atomize_elim, rule gather_docs [OF assms(1) refl])
    show "docs s k \<noteq> None \<and> mhDocParse h (the (docs s k)) = Some (?dec k) \<and> sdBatchID (?dec k) = mfBatchID m"
      if "k \<in> set ?K" for k
      using that at dec parsed by (auto simp: in_set_conv_nth row_doc_def)
    show "sdBatchID d \<noteq> mfBatchID m" if "e \<in> set [Taxpayers, Filings, Payments]" "in_coll (collFor e) k"
      "k \<notin> set ?K" "docs s k = Some x" "mhDocParse h x = Some d" for e k x d
      using fresh [of e k x d] rest [OF that(3)] that by simp
    show "e = e'" if "k \<in> set ?K" "e \<in> set [Taxpayers, Filings, Payments]"
      "e' \<in> set [Taxpayers, Filings, Payments]" "in_coll (collFor e) k" "in_coll (collFor e') k" for k e e'
      using that kind by auto
  qed simp
  have "\<exists>e \<in> set [Taxpayers, Filings, Payments]. in_coll (collFor e) k" if "k \<in> set ?K" for k
  proof -
    from that obtain r where r: "k = row_key h (mfBatchID m) r" by auto
    have "in_coll (collFor (row_kind (srRow r))) k" using kind [OF row_kind_cases] r by simp
    then show ?thesis using row_kind_cases [of "srRow r"] by (intro bexI [of _ "row_kind (srRow r)"]) auto
  qed
  with g(3) have "set ks = set ?K" by blast
  then have "mset ks = mset ?K" by (simp only: set_eq_iff_mset_eq_distinct [OF g(2) dist])
  then have "mset (map ?dec ks) = mset (map ?dec ?K)" by (metis mset_map)
  moreover have "map ?dec ?K = map ?doc [0..<length rows]"
    by (rule nth_equalityI) (use dec in auto)
  ultimately have ms: "mset (map ?dec ks) = mset (map ?doc [0..<length rows])" by (simp only:)
  have "sort_key sdRowIndex (map ?dec ks) = map ?doc [0..<length rows]"
    by (rule sort_key_unique [OF ms]) (auto simp: inj_on_def row_doc_def comp_def sorted_iff_nth_mono)
  with g(1) show ?thesis by blast
qed

end

section \<open>The file store keeps the contract\<close>

definition js_docs :: "json_store \<Rightarrow> string \<Rightarrow> string option" where
  "js_docs s p = (if drop (length p - 5) p = ''.json'' then map_of (jfFiles s) p else None)"

definition js_calm :: "json_store \<Rightarrow> bool" where
  "js_calm s \<longleftrightarrow> (\<forall>n. jfPlan s n = IoOK) \<and> kv_ok (jfFiles s)"

text \<open>Only writes fail.\<close>

definition js_mends :: "json_store \<Rightarrow> bool" where
  "js_mends s \<longleftrightarrow> (\<forall>n e. jfPlan s n \<noteq> IoFail e)"

definition no_slash :: "string \<Rightarrow> bool" where
  "no_slash c \<longleftrightarrow> CHR ''/'' \<notin> set c"

lemma drop_suffix: "length t = n \<Longrightarrow> drop (length (xs @ t) - n) (xs @ t) = t"
  by simp

lemma suffix_json: "drop (length (store_path c i) - 5) (store_path c i) = ''.json''"
proof -
  have p: "store_path c i = (c @ ''/'' @ safe_id i) @ ''.json''" by (simp add: store_path_def)
  show ?thesis unfolding p by (rule drop_suffix) simp
qed

lemma suffix_tmp: "drop (length (p @ ''.tmp'') - 5) (p @ ''.tmp'') \<noteq> ''.json''"
proof
  assume e: "drop (length (p @ ''.tmp'') - 5) (p @ ''.tmp'') = ''.json''"
  have "last (drop (length (p @ ''.tmp'') - 5) (p @ ''.tmp'')) = CHR ''p''" by (subst last_drop) auto
  with e show False by simp
qed

lemma js_Put_docs:
  "js_Put c i b s = (None, s') \<Longrightarrow> js_docs s' = (js_docs s)(store_path c i \<mapsto> b)"
  "js_Put c i b s = (Some e, s') \<Longrightarrow> js_docs s' = js_docs s"
  using suffix_json [of c i] suffix_tmp [of "store_path c i"]
  by (auto simp: js_Put_def js_docs_def next_op_def Let_def fun_eq_iff split: io_fault.splits)

lemma store_path_split:
  "no_slash c \<Longrightarrow> no_slash c' \<Longrightarrow> c @ CHR ''/'' # x = c' @ CHR ''/'' # y \<Longrightarrow> c = c' \<and> x = y"
  by (auto simp: no_slash_def append_eq_append_conv2 append_eq_Cons_conv Cons_eq_append_conv)

lemma in_dir_path:
  assumes "no_slash c" "no_slash c'"
  shows "in_dir c (store_path c' i) \<longleftrightarrow> c = c'"
proof
  assume "in_dir c (store_path c' i)"
  then have "take (length c + 1) (store_path c' i) = c @ ''/''" by (simp add: in_dir_def)
  then have "store_path c' i = c @ CHR ''/'' # drop (length c + 1) (store_path c' i)"
    by (metis append_take_drop_id append.assoc append_Cons append_Nil)
  moreover have "store_path c' i = c' @ CHR ''/'' # safe_id i @ ''.json''" by (simp add: store_path_def)
  ultimately show "c = c'" using store_path_split [OF assms] by metis
next
  assume "c = c'"
  then show "in_dir c (store_path c' i)"
    using suffix_json [of c' i] by (simp add: in_dir_def) (simp add: store_path_def)
qed

interpretation js: mig_store jsonStore js_docs store_path in_dir no_slash "\<lambda>i. safe_id i = i" js_calm js_mends
proof unfold_locales
  fix c c' i j :: string and b :: string and bs e and s s' :: json_store
  show "js_docs (snd (stGet jsonStore c i s)) = js_docs s" "js_calm s \<Longrightarrow> js_calm (snd (stGet jsonStore c i s))"
    "js_mends s \<Longrightarrow> js_mends (snd (stGet jsonStore c i s))"
    by (auto simp: jsonStore_def js_Get_def next_op_def Let_def js_docs_def js_calm_def js_mends_def fun_eq_iff)
  show "fst (stGet jsonStore c i s) = Inr b \<Longrightarrow> js_docs s (store_path c i) = Some b"
    "js_calm s \<Longrightarrow> js_docs s (store_path c i) = Some b \<Longrightarrow> fst (stGet jsonStore c i s) = Inr b"
    using suffix_json [of c i]
    by (auto simp: jsonStore_def js_Get_def next_op_def Let_def js_docs_def js_calm_def
        split: io_fault.splits option.splits)
  show "stPut jsonStore c i b s = (None, s') \<Longrightarrow> js_docs s' = (js_docs s)(store_path c i \<mapsto> b)"
    "stPut jsonStore c i b s = (Some e, s') \<Longrightarrow> js_docs s' = js_docs s"
    using js_Put_docs by (auto simp: jsonStore_def)
  show "js_calm s \<Longrightarrow> fst (stPut jsonStore c i b s) = None \<and> js_calm (snd (stPut jsonStore c i b s))"
    "js_mends s \<Longrightarrow> js_mends (snd (stPut jsonStore c i b s))"
    by (auto simp: jsonStore_def js_Put_def next_op_def Let_def js_calm_def js_mends_def split: io_fault.splits)
  show "js_mends s \<Longrightarrow> js_docs (snd (stDelete jsonStore c i s)) = (js_docs s)(store_path c i := None)
      \<and> js_mends (snd (stDelete jsonStore c i s))"
    by (auto simp: jsonStore_def js_Delete_def next_op_def Let_def js_mends_def js_docs_def fun_eq_iff
        split: io_fault.splits)
  show "js_docs (snd (stList jsonStore c s)) = js_docs s"
    "js_calm s \<Longrightarrow> is_ok (fst (stList jsonStore c s)) \<and> js_calm (snd (stList jsonStore c s))"
    by (auto simp: jsonStore_def js_List_def next_op_def Let_def js_docs_def js_calm_def fun_eq_iff)
  show "no_slash c \<Longrightarrow> no_slash c' \<Longrightarrow> in_dir c (store_path c' i) \<longleftrightarrow> c = c'"
    by (rule in_dir_path)
  show "no_slash c \<Longrightarrow> safe_id i = i \<Longrightarrow> safe_id j = j \<Longrightarrow> store_path c i = store_path c j \<Longrightarrow> i = j"
    by (simp add: store_path_def)
  show "\<exists>ks. distinct ks \<and> set ks = {k. js_docs s k \<noteq> None \<and> in_dir c k} \<and> bs = map (\<lambda>k. the (js_docs s k)) ks"
    if "js_calm s" "fst (stList jsonStore c s) = Inr bs"
  proof -
    let ?fs = "filter (\<lambda>p. in_dir c (fst p)) (jfFiles s)"
    have k: "kv_ok (jfFiles s)" and bs: "bs = map snd ?fs"
      using that by (auto simp: js_calm_def jsonStore_def js_List_def next_op_def Let_def)
    have at: "js_docs s (fst p) = Some (snd p)" if "p \<in> set ?fs" for p
      using that kv_mem_iff [OF k, of "fst p" "snd p"] by (auto simp: js_docs_def in_dir_def)
    have "distinct (map fst ?fs)" using kv_ok_distinct [OF k] by (rule distinct_map_filter)
    moreover have "fst ` set ?fs = {k. js_docs s k \<noteq> None \<and> in_dir c k}"
      using kv_mem_iff [OF k] by (force simp: js_docs_def in_dir_def image_iff)
    moreover have "bs = map (\<lambda>k. the (js_docs s k)) (map fst ?fs)" using at by (simp add: bs)
    ultimately show ?thesis by (intro exI [of _ "map fst ?fs"]) simp
  qed
qed

end
