(* ===== verification/MigProof.thy ===== *)
theory MigProof
  imports MigInv
begin

text \<open>
  The reconciliation proof of the migration tool: what is assumed of \<open>encoding/json\<close>
  (\<open>codec_ok\<close>), a committed batch read back and verified, and what a passed verification says of
  the stored rows.
\<close>

section \<open>UTF-8\<close>

lemma rune_units_skip: "rune_units k s = rune_units 0 (drop k s)"
  by (induction k s rule: rune_units.induct) (auto simp: Let_def drop_Cons')

lemma rune_units_head:
  assumes "utf8_size s \<noteq> 0"
  shows "rune_units 0 s = Some (take (utf8_size s) s) # rune_units 0 (drop (utf8_size s) s)"
  using assms
proof (cases s)
  case (Cons c cs)
  obtain n where n: "utf8_size s = Suc n" using assms not0_implies_Suc by blast
  then show ?thesis using Cons rune_units_skip [of n cs] by (simp del: utf8_size.simps)
qed simp

lemma valid_utf8_same:
  "valid_utf8 s \<Longrightarrow> to_valid_utf8 s = s"
proof (induction "length s" arbitrary: s rule: less_induct)
  case less
  show ?case
  proof (cases s)
    case (Cons c cs)
    have n: "utf8_size s \<noteq> 0"
      using less.prems Cons by (simp add: valid_utf8_def Let_def del: utf8_size.simps split: if_splits)
    note u = rune_units_head [OF n]
    then have "valid_utf8 (drop (utf8_size s) s)" using less.prems by (simp add: valid_utf8_def)
    moreover have "length (drop (utf8_size s) s) < length s" using n Cons by simp
    ultimately have "to_valid_utf8 (drop (utf8_size s) s) = drop (utf8_size s) s" by (intro less.hyps)
    then show ?thesis using u by (simp add: to_valid_utf8_def)
  qed (simp add: to_valid_utf8_def)
qed

section \<open>What is assumed of the JSON codec\<close>

primrec scrub :: "mig_row \<Rightarrow> mig_row" where
  "scrub (TaxpayerRowOf r) = TaxpayerRowOf \<lparr>tpTIN = to_valid_utf8 (tpTIN r), tpName = to_valid_utf8 (tpName r),
     tpType = to_valid_utf8 (tpType r), tpRegistrationDate = to_valid_utf8 (tpRegistrationDate r),
     tpStatus = to_valid_utf8 (tpStatus r)\<rparr>"
| "scrub (FilingRowOf r) = FilingRowOf \<lparr>flTIN = to_valid_utf8 (flTIN r), flPeriod = to_valid_utf8 (flPeriod r),
     flTaxType = to_valid_utf8 (flTaxType r), flAssessedKobo = flAssessedKobo r\<rparr>"
| "scrub (PaymentRowOf r) = PaymentRowOf \<lparr>pmTIN = to_valid_utf8 (pmTIN r),
     pmReference = to_valid_utf8 (pmReference r), pmAmountKobo = pmAmountKobo r,
     pmDate = to_valid_utf8 (pmDate r), pmChannel = to_valid_utf8 (pmChannel r)\<rparr>"

primrec row_strings :: "mig_row \<Rightarrow> string list" where
  "row_strings (TaxpayerRowOf r) = [tpTIN r, tpName r, tpType r, tpRegistrationDate r, tpStatus r]"
| "row_strings (FilingRowOf r) = [flTIN r, flPeriod r, flTaxType r]"
| "row_strings (PaymentRowOf r) = [pmTIN r, pmReference r, pmDate r, pmChannel r]"

definition clean_row :: "mig_row \<Rightarrow> bool" where
  "clean_row r \<longleftrightarrow> list_all valid_utf8 (row_strings r)"

lemma scrub_clean: "clean_row r \<Longrightarrow> scrub r = r"
  by (cases r) (simp_all add: clean_row_def valid_utf8_same)

text \<open>
  \<open>encoding/json\<close> on the documents of one batch: the document of a row, whose raw row is itself
  the output of \<open>json.Marshal\<close>, and the manifest decode to what was encoded; a row decodes to the
  row with every invalid byte replaced by U+FFFD.
\<close>

definition rows_decode :: "mig_host \<Rightarrow> stagedRow list \<Rightarrow> bool" where
  "rows_decode h rows \<longleftrightarrow>
     (\<forall>r \<in> set rows. decode_stored h (row_kind (srRow r)) (rowPayload (srRow r)) = Some (scrub (srRow r)))"

definition docs_decode :: "mig_host \<Rightarrow> Manifest \<Rightarrow> stagedRow list \<Rightarrow> bool" where
  "docs_decode h m rows \<longleftrightarrow> (\<forall>i < length rows. \<exists>b. mhDocJSON h (row_doc m i (rows ! i)) = Inr b
     \<and> mhDocParse h b = Some (row_doc m i (rows ! i)))"

definition manifest_decodes :: "mig_host \<Rightarrow> Manifest \<Rightarrow> bool" where
  "manifest_decodes h m \<longleftrightarrow> (\<exists>b. mhManifestJSON h m = Inr b \<and> mhManifestParse h b = Some m)"

lemma stored_canonical:
  assumes "decode_stored h (row_kind (srRow r)) (rowPayload (srRow r)) = Some (scrub (srRow r))"
  shows "canonicalStored h (row_doc m i r) = row_canonical (scrub (srRow r))"
    and "stored_amount h (row_doc m i r) = row_amount (srRow r)"
proof -
  have k: "row_kind (scrub q) = row_kind q" "row_amount (scrub q) = row_amount q" for q
    by (cases q; simp)+
  show "canonicalStored h (row_doc m i r) = row_canonical (scrub (srRow r))"
    using assms by (simp add: canonicalStored_def row_doc_def row_canonical_def k)
  show "stored_amount h (row_doc m i r) = row_amount (srRow r)"
    using assms by (simp add: stored_amount_def row_doc_def k)
qed

section \<open>Rechecking the chain\<close>

fun row_docs :: "Manifest \<Rightarrow> nat \<Rightarrow> stagedRow list \<Rightarrow> storedDoc list" where
  "row_docs m i [] = []"
| "row_docs m i (r # rs) = row_doc m i r # row_docs m (Suc i) rs"

lemma row_docs_upt: "map (\<lambda>j. row_doc m (i + j) (rows ! j)) [0..<length rows] = row_docs m i rows"
proof (induction rows arbitrary: i)
  case (Cons r rows)
  have "map (\<lambda>j. row_doc m (i + j) ((r # rows) ! j)) [0..<length (r # rows)]
      = row_doc m i r # map (\<lambda>j. row_doc m (Suc i + j) (rows ! j)) [0..<length rows]"
    by (simp add: upt_conv_Cons map_Suc_upt [symmetric] del: upt_Suc)
  with Cons.IH [of "Suc i"] show ?case by simp
qed simp

lemma length_row_docs [simp]: "length (row_docs m i rows) = length rows"
  by (induction rows arbitrary: i) simp_all

definition tally_like :: "mig_tally \<Rightarrow> mig_tally \<Rightarrow> bool" where
  "tally_like t u \<longleftrightarrow> ag_payload t = ag_payload u \<and> ag_chain t = ag_chain u
     \<and> (\<forall>k. kv_at 0 (ag_sums t) k = kv_at 0 (ag_sums u) k)
     \<and> (\<forall>k \<in> {''taxpayers'', ''filings'', ''payments''}. kv_at 0 (ag_counts t) k = kv_at 0 (ag_counts u) k)"

lemma recheck_same:
  assumes "rows_decode h rows" "\<forall>r \<in> set rows. clean_row (srRow r)"
    and "manifest_loop h rows t = (hs, t')" "mfRowHashes m = pre @ hs" "tally_like t u"
  shows "\<exists>u'. recheck h m (length pre) (row_docs m (length pre) rows) u = (True, u') \<and> tally_like t' u'"
  using assms
proof (induction rows arbitrary: t u hs pre)
  case (Cons r rows)
  let ?step = "tally_step h (row_canonical (srRow r)) (row_kind (srRow r)) (row_amount (srRow r))"
  obtain hs2 where rest: "manifest_loop h rows (?step t) = (hs2, t')"
    and hs: "hs = hex_encode (ag_chain (?step t)) # hs2"
    using Cons.prems(3) by (auto simp: Let_def split: prod.splits)
  have like: "tally_like (?step t) (?step u)" using Cons.prems(5) by (simp add: tally_like_def)
  have pre: "mfRowHashes m = (pre @ [hex_encode (ag_chain (?step t))]) @ hs2"
    using Cons.prems(4) hs by simp
  obtain u' where u': "recheck h m (Suc (length pre)) (row_docs m (Suc (length pre)) rows) (?step u) = (True, u')"
    "tally_like t' u'"
    using Cons.IH [OF _ _ rest pre like] Cons.prems(1,2) by (auto simp: rows_decode_def)
  have "ag_chain (?step t) = ag_chain (?step u)" using like by (simp add: tally_like_def)
  then have "mfRowHashes m ! length pre = hex_encode (ag_chain (?step u))" using pre by (simp add: nth_append)
  moreover have "length pre < length (mfRowHashes m)" using pre by simp
  moreover have "decode_stored h (row_kind (srRow r)) (rowPayload (srRow r)) = Some (scrub (srRow r))"
    using Cons.prems(1) by (simp add: rows_decode_def)
  note same = stored_canonical [OF this, of m "length pre"]
  moreover have "scrub (srRow r) = srRow r" using Cons.prems(2) by (simp add: scrub_clean)
  ultimately show ?case using u' by (simp add: row_doc_def)
qed simp

section \<open>A proof over the manifest's own rows\<close>

text \<open>The fields of \<open>m\<close> that the proof compares are the totals over \<open>rows\<close>.\<close>

definition built_from :: "mig_host \<Rightarrow> Manifest \<Rightarrow> stagedRow list \<Rightarrow> bool" where
  "built_from h m rows \<longleftrightarrow> (\<exists>n hs t.
     manifest_loop h rows (start_tally h (kv_put ''rejected'' n zero_counts)) = (hs, t)
     \<and> mfRowHashes m = hs \<and> mfRowCount m = int (length rows) \<and> mfCounts m = ag_counts t
     \<and> mfSumsKobo m = ag_sums t \<and> mfSHA256 m = hex_encode (mhSha h (ag_payload t))
     \<and> mfHashChainRoot m = hex_encode (ag_chain t))"

lemma buildManifest_built:
  "built_from h ((buildManifest h rows errs mode notes now)\<lparr>mfKeyID := kid\<rparr>) rows"
proof -
  obtain hs t where l: "manifest_loop h rows (start_tally h (kv_put ''rejected'' (int (length errs)) zero_counts)) = (hs, t)"
    by fastforce
  have "hs \<noteq> [] \<Longrightarrow> last hs = hex_encode (ag_chain t)" using manifest_loop_totals [OF l] by simp
  with l show ?thesis by (auto simp: built_from_def buildManifest_def Let_def)
qed

lemma built_from_sign [simp]:
  "built_from h (SignManifest h key m) rows = built_from h m rows"
  "built_from h (m\<lparr>mfCommitted := c\<rparr>) rows = built_from h m rows"
  by (simp_all add: built_from_def SignManifest_def)

lemma store_checks_pass:
  assumes "rows_decode h rows" "\<forall>r \<in> set rows. clean_row (srRow r)" "built_from h m rows"
    and "sort_key sdRowIndex ds = row_docs m 0 rows"
  shows "list_all ckOK (store_checks h m ds)"
proof -
  from assms(3) obtain n hs t where
    l: "manifest_loop h rows (start_tally h (kv_put ''rejected'' n zero_counts)) = (hs, t)"
    and m: "mfRowHashes m = hs" "mfRowCount m = int (length rows)" "mfCounts m = ag_counts t"
      "mfSumsKobo m = ag_sums t" "mfSHA256 m = hex_encode (mhSha h (ag_payload t))"
      "mfHashChainRoot m = hex_encode (ag_chain t)" unfolding built_from_def by blast
  have start: "tally_like (start_tally h (kv_put ''rejected'' n zero_counts)) (start_tally h zero_counts)"
    by (simp add: tally_like_def)
  obtain u where u: "recheck h m 0 (row_docs m 0 rows) (start_tally h zero_counts) = (True, u)" "tally_like t u"
    using recheck_same [OF assms(1,2) l _ start, of m "[]"] m(1) by auto
  with m assms(4) show ?thesis
    by (simp add: store_checks_def Let_def tally_like_def)
qed

lemma signature_valid [simp]: "VerifySignature h key (SignManifest h key m)"
proof -
  have "signedPayload (SignManifest h key m) = signedPayload m"
    by (simp add: signedPayload_def SignManifest_def)
  then show ?thesis by (simp add: VerifySignature_def Let_def) (simp add: SignManifest_def)
qed

lemma row_docs_cong:
  "mfBatchID m' = mfBatchID m \<Longrightarrow> mfRowHashes m' = mfRowHashes m \<Longrightarrow> row_docs m' i rows = row_docs m i rows"
  by (induction rows arbitrary: i) (simp_all add: row_doc_def)

section \<open>A committed batch, read back\<close>

context mig_store
begin

text \<open>The batch is new: no listed document is of it, and no manifest of it is stored.\<close>

definition new_batch :: "mig_host \<Rightarrow> string \<Rightarrow> 's \<Rightarrow> bool" where
  "new_batch h b s \<longleftrightarrow> docs s (nm ''mig_batches'' b) = None
     \<and> (\<forall>e k x d. e \<in> {Taxpayers, Filings, Payments} \<longrightarrow> in_coll (collFor e) k \<longrightarrow> docs s k = Some x
          \<longrightarrow> mhDocParse h x = Some d \<longrightarrow> sdBatchID d \<noteq> b)"

lemma import_commit_stores:
  assumes "docs_decode h m rows" "calm s" "new_batch h (mfBatchID m) s"
    and "distinct (map (row_key h (mfBatchID m)) rows)"
    and "manifest_decodes h (SignManifest h key (m\<lparr>mfCommitted := True\<rparr>))"
    and colls: "\<And>e. e \<in> {Taxpayers, Filings, Payments} \<Longrightarrow> coll_ok (collFor e)" "coll_ok ''mig_batches''"
  defines "m1 \<equiv> SignManifest h key (m\<lparr>mfCommitted := True\<rparr>)"
  shows "\<exists>s1 b. import_commit st h key m rows errs s = (Inr \<lparr>rsManifest = m1, rsErrors = errs\<rparr>, s1)
    \<and> calm s1 \<and> docs s1 (nm ''mig_batches'' (mfBatchID m)) = Some b \<and> mhManifestParse h b = Some m1
    \<and> (\<forall>s1'. calm s1' \<longrightarrow> docs s1' = docs s1 \<longrightarrow> (\<exists>ds s2.
         gather st h (mfBatchID m) [Taxpayers, Filings, Payments] s1' = (Inr ds, s2)
         \<and> sort_key sdRowIndex ds = row_docs m 0 rows))"
proof -
  let ?B = "mfBatchID m" and ?K = "map (row_key h (mfBatchID m)) rows"
  obtain got s0 where g: "stGet st ''mig_batches'' ?B s = (got, s0)" by fastforce
  have s0: "calm s0" "docs s0 = docs s" using get_calm [OF assms(2)] get_docs g by (metis snd_conv)+
  have none: "already_imported h got = None"
    using get_hit [of "''mig_batches''" ?B s] g assms(3) by (cases got) (auto simp: already_imported_def new_batch_def)
  have doc: "\<exists>b. mhDocJSON h (row_doc m j (rows ! j)) = Inr b \<and> mhDocParse h b = Some (row_doc m j (rows ! j))"
    if "j < length rows" for j
    using assms(1) that by (simp add: docs_decode_def)
  then have "\<forall>j < length rows. is_ok (mhDocJSON h (row_doc m (0 + j) (rows ! j)))" by (force simp: is_ok_ex)
  from commit_loop_calm [OF s0(1) this, of "[]"] obtain s1 where
    c: "commitBatch st h m rows s0 = (None, s1)" "calm s1"
    unfolding commitBatch_def by (metis prod.collapse)
  obtain bs where bs: "length bs = length rows" "docs s1 = (docs s)(?K [\<mapsto>] bs)"
    "\<forall>j < length rows. mhDocJSON h (row_doc m j (rows ! j)) = Inr (bs ! j)"
    using commit_loop_done [of h m 0 rows "[]" s0 s1] c(1) s0(2) by (auto simp: commitBatch_def)
  obtain b where b: "mhManifestJSON h m1 = Inr b" "mhManifestParse h b = Some m1"
    using assms(5) unfolding manifest_decodes_def m1_def by blast
  obtain s2 where p: "stPut st ''mig_batches'' ?B b s1 = (None, s2)" "calm s2"
    using put_calm [OF c(2), of "''mig_batches''" ?B b] by (metis prod.collapse)
  have B1: "mfBatchID m1 = ?B" by (simp add: m1_def SignManifest_def)
  have run: "import_commit st h key m rows errs s = (Inr \<lparr>rsManifest = m1, rsErrors = errs\<rparr>, s2)"
    using g none c(1) b(1) p(1) B1 by (simp add: import_commit_def persist_manifest_def Let_def m1_def)
  have "nm ''mig_batches'' ?B \<noteq> row_key h ?B r" for r
  proof -
    have "coll_ok (collFor (row_kind (srRow r)))" using colls(1) row_kind_cases by blast
    moreover have "collFor (row_kind (srRow r)) \<noteq> ''mig_batches''" by (cases "srRow r") (simp_all add: collFor_def)
    ultimately show ?thesis using nm_coll colls(2) unfolding row_key_def by metis
  qed
  then have d2: "docs s2 = ((docs s)(nm ''mig_batches'' ?B \<mapsto> b))(?K [\<mapsto>] bs)" (is "_ = ?D(?K [\<mapsto>] bs)")
    using put_done [OF p(1)] bs(2) by (auto simp: map_upds_twist image_iff)
  have stored: "\<exists>ds s3. gather st h ?B [Taxpayers, Filings, Payments] s' = (Inr ds, s3)
      \<and> sort_key sdRowIndex ds = row_docs m 0 rows" if "calm s'" "docs s' = docs s2" for s'
  proof -
    have "docs s' = ?D(?K [\<mapsto>] bs)" using that(2) d2 by simp
    then have "\<exists>ds s3. gather st h ?B [Taxpayers, Filings, Payments] s' = (Inr ds, s3)
      \<and> sort_key sdRowIndex ds = map (\<lambda>j. row_doc m j (rows ! j)) [0..<length rows]"
    proof (rule gather_batch [OF that(1) _ bs(1) _ assms(4) _ colls(1)])
      show "\<forall>j < length rows. mhDocParse h (bs ! j) = Some (row_doc m j (rows ! j))"
      proof (intro allI impI)
        fix j assume "j < length rows"
        with doc [of j] bs(3) show "mhDocParse h (bs ! j) = Some (row_doc m j (rows ! j))" by auto
      qed
      show "sdBatchID d \<noteq> ?B" if "e \<in> {Taxpayers, Filings, Payments}" "in_coll (collFor e) k" "?D k = Some x"
        "mhDocParse h x = Some d" for e k x d
      proof -
        have "\<not> in_coll (collFor e) (nm ''mig_batches'' ?B)"
          using nm_coll [OF colls(1) [OF that(1)] colls(2)] that(1) by (auto simp: collFor_def)
        with that assms(3) show ?thesis by (auto simp: new_batch_def split: if_splits)
      qed
    qed
    then show ?thesis using row_docs_upt [of m 0 rows] by simp
  qed
  have "docs s2 (nm ''mig_batches'' ?B) = Some b" using put_done [OF p(1)] by simp
  with run p(2) b(2) stored show ?thesis by blast
qed

text \<open>The verification of such a batch through the service passes.\<close>

lemma verify_stored:
  assumes "rows_decode h rows" "\<forall>r \<in> set rows. clean_row (srRow r)" "built_from h m rows"
    and "calm s" "docs s (nm ''mig_batches'' b) = Some raw" "mhManifestParse h raw = Some m1"
    and "m1 = SignManifest h (dpSigningKey d) m" "mfBatchID m = b"
    and "\<forall>s'. calm s' \<longrightarrow> docs s' = docs s \<longrightarrow> (\<exists>ds s2.
         gather st h b [Taxpayers, Filings, Payments] s' = (Inr ds, s2)
         \<and> sort_key sdRowIndex ds = row_docs m 0 rows)"
  shows "\<exists>p s2. verifyBatch st h d b now s = ((200, ProofBody p), s2) \<and> prVerdict p = ''PASS''"
proof -
  obtain got s1 where g: "stGet st ''mig_batches'' b s = (got, s1)" by fastforce
  have got: "got = Inr raw" using get_found [OF assms(4,5)] g by simp
  have s1: "calm s1" "docs s1 = docs s" using get_calm [OF assms(4)] get_docs g by (metis snd_conv)+
  obtain ds s2 where ds: "gather st h b [Taxpayers, Filings, Payments] s1 = (Inr ds, s2)"
    "sort_key sdRowIndex ds = row_docs m 0 rows" using assms(9) s1 by blast
  have "row_docs m1 0 rows = row_docs m 0 rows"
    by (rule row_docs_cong) (simp_all add: assms(7) SignManifest_def)
  then have "list_all ckOK (store_checks h m1 ds)"
    using store_checks_pass [OF assms(1,2), of m1 ds] assms(3,7) ds(2) by simp
  moreover have "mfBatchID m1 = b" using assms(7,8) by (simp add: SignManifest_def)
  ultimately show ?thesis
    using g got assms(6,7) ds(1)
    by (simp add: verifyBatch_def loadManifest_def Verify_batch_def signature_check_def finishProof_def Let_def)
qed

end

section \<open>Import, end to end\<close>

text \<open>The manifest of a committed batch before and after it is signed, the path of a row's document,
  and a store that holds nothing of the batch.\<close>

definition batch_manifest :: "mig_host \<Rightarrow> mig_deps \<Rightarrow> stagedRow list \<Rightarrow> RowError list \<Rightarrow> instant \<Rightarrow> Manifest" where
  "batch_manifest h d rows errs now = (buildManifest h rows errs Commit
     (if dpLive d = None then [no_live_note] else []) now)\<lparr>mfKeyID := dpKeyID d\<rparr>"

definition committed_manifest :: "mig_host \<Rightarrow> mig_deps \<Rightarrow> stagedRow list \<Rightarrow> RowError list \<Rightarrow> instant \<Rightarrow> Manifest" where
  "committed_manifest h d rows errs now =
     SignManifest h (dpSigningKey d) ((batch_manifest h d rows errs now)\<lparr>mfCommitted := True\<rparr>)"

definition batch_of :: "mig_host \<Rightarrow> stagedRow list \<Rightarrow> string" where
  "batch_of h rows = mfBatchID (buildManifest h rows [] Commit [] 0)"

definition row_path :: "mig_host \<Rightarrow> stagedRow list \<Rightarrow> stagedRow \<Rightarrow> string" where
  "row_path h rows r = store_path (collFor (row_kind (srRow r))) (docID h (batch_of h rows) (srRow r))"

definition batch_is_new :: "mig_host \<Rightarrow> stagedRow list \<Rightarrow> json_store \<Rightarrow> bool" where
  "batch_is_new h rows s \<longleftrightarrow> js_docs s (store_path ''mig_batches'' (batch_of h rows)) = None
     \<and> (\<forall>e \<in> {Taxpayers, Filings, Payments}. \<forall>k x d. in_dir (collFor e) k \<longrightarrow> js_docs s k = Some x
          \<longrightarrow> mhDocParse h x = Some d \<longrightarrow> sdBatchID d \<noteq> batch_of h rows)"

lemma buildManifest_id:
  "mfBatchID (buildManifest h rows errs mode notes now) = ''migb-'' @ hex_encode (take 16 (mhSha h
     (''batch:'' @ hex_encode (mhSha h (hashChainSeed @ concat (map (row_canonical \<circ> srRow) rows))))))"
  using manifest_loop_totals [of h rows "start_tally h (kv_put ''rejected'' (int (length errs)) zero_counts)"]
  by (simp add: buildManifest_def Let_def split: prod.splits)

lemma batch_of_build [simp]: "mfBatchID (buildManifest h rows errs mode notes now) = batch_of h rows"
  by (simp only: batch_of_def buildManifest_id)

lemma batch_manifest_simps [simp]:
  "mfBatchID (batch_manifest h d rows errs now) = batch_of h rows"
  "mfBatchID (committed_manifest h d rows errs now) = batch_of h rows"
  "mfCommitted (committed_manifest h d rows errs now)"
  "mfRowCount (committed_manifest h d rows errs now) = int (length rows)"
  "built_from h (batch_manifest h d rows errs now) rows"
  by (simp_all add: batch_manifest_def committed_manifest_def SignManifest_def buildManifest_built)
    (simp add: buildManifest_def Let_def split: prod.splits)

lemma js_colls: "e \<in> {Taxpayers, Filings, Payments} \<Longrightarrow> no_slash (collFor e)" "no_slash ''mig_batches''"
  by (auto simp: no_slash_def collFor_def)

lemma import_then_verify:
  fixes s :: json_store
  assumes "js_calm s" "files \<noteq> []" "dpSigningKey d \<noteq> ''''"
    and "ingest h strict files empty_stage = Some (Inr sg)"
    and "live_filter (dpLive d) (batch_tins (sgRows sg)) 0 (sgRows sg) (sgErrs sg) = Inr (rows, errs)"
    and "rows_decode h rows" "docs_decode h (batch_manifest h d rows errs now) rows"
    and "manifest_decodes h (committed_manifest h d rows errs now)"
    and clean: "\<forall>r \<in> set rows. clean_row (srRow r)"
    and "distinct (map (row_path h rows) rows)" "batch_is_new h rows s"
  shows "\<exists>s1 b p s2. Import jsonStore h d files Commit strict now s
        = Some (Inr \<lparr>rsManifest = committed_manifest h d rows errs now, rsErrors = errs\<rparr>, s1)
    \<and> js_calm s1 \<and> js_docs s1 (store_path ''mig_batches'' (batch_of h rows)) = Some b
    \<and> mhManifestParse h b = Some (committed_manifest h d rows errs now)
    \<and> verifyBatch jsonStore h d (batch_of h rows) now2 s1 = ((200, ProofBody p), s2) \<and> prVerdict p = ''PASS''"
proof -
  let ?m = "batch_manifest h d rows errs now" and ?m1 = "committed_manifest h d rows errs now"
  let ?c = "?m\<lparr>mfCommitted := True\<rparr>" and ?B = "batch_of h rows"
  have key: "js.row_key h ?B = row_path h rows" by (simp add: js.row_key_def row_path_def fun_eq_iff)
  have new: "js.new_batch h ?B s" using assms(11) by (auto simp: js.new_batch_def batch_is_new_def)
  obtain s1 b where run: "import_commit jsonStore h (dpSigningKey d) ?m rows errs s = (Inr \<lparr>rsManifest = ?m1, rsErrors = errs\<rparr>, s1)"
    and s1: "js_calm s1" "js_docs s1 (store_path ''mig_batches'' ?B) = Some b" "mhManifestParse h b = Some ?m1"
    and got: "\<forall>s1'. js_calm s1' \<longrightarrow> js_docs s1' = js_docs s1 \<longrightarrow> (\<exists>ds s2.
         gather jsonStore h ?B [Taxpayers, Filings, Payments] s1' = (Inr ds, s2)
         \<and> sort_key sdRowIndex ds = row_docs ?m 0 rows)"
    using js.import_commit_stores [of h ?m rows s "dpSigningKey d" errs] assms(1,7,8,10) new js_colls key
    by (auto simp: committed_manifest_def)
  have imp: "Import jsonStore h d files Commit strict now s = Some (Inr \<lparr>rsManifest = ?m1, rsErrors = errs\<rparr>, s1)"
    using assms(2-5) run by (simp add: Import_def import_staged_def batch_manifest_def Let_def)
  have got': "\<forall>s1'. js_calm s1' \<longrightarrow> js_docs s1' = js_docs s1 \<longrightarrow> (\<exists>ds s2.
         gather jsonStore h ?B [Taxpayers, Filings, Payments] s1' = (Inr ds, s2)
         \<and> sort_key sdRowIndex ds = row_docs ?c 0 rows)"
    using got row_docs_cong [of ?c ?m 0 rows] by simp
  have c: "built_from h ?c rows" "mfBatchID ?c = ?B" by simp_all
  from js.verify_stored [OF assms(6) clean c(1) s1 committed_manifest_def c(2) got']
  show ?thesis using imp s1 by blast
qed

section \<open>What a passed proof says\<close>

text \<open>Under a hash without collisions, the chain determines the canonical rows.\<close>

lemma recheck_pins:
  assumes "inj (mhSha h)" "length ds = length rows" "manifest_loop h rows t = (hs, t')"
    and "mfRowHashes m = pre @ hs" "ag_chain t = ag_chain u" "fst (recheck h m (length pre) ds u)"
  shows "map (canonicalStored h) ds = map (\<lambda>r. row_canonical (srRow r)) rows"
  using assms(2-6)
proof (induction ds arbitrary: rows t u hs pre)
  case (Cons d ds)
  then obtain r rs where rows: "rows = r # rs" "length ds = length rs" by (cases rows) auto
  let ?t1 = "tally_step h (row_canonical (srRow r)) (row_kind (srRow r)) (row_amount (srRow r)) t"
  let ?u1 = "tally_step h (canonicalStored h d) (sdEntity d) (stored_amount h d) u"
  obtain hs2 where rest: "manifest_loop h rs ?t1 = (hs2, t')" and hs: "hs = hex_encode (ag_chain ?t1) # hs2"
    using Cons.prems(2) rows(1) by (auto simp: Let_def split: prod.splits)
  have ok: "mfRowHashes m ! length pre = hex_encode (ag_chain ?u1)" "fst (recheck h m (Suc (length pre)) ds ?u1)"
    using Cons.prems(5) by (auto simp: Let_def split: prod.splits)
  have chain: "ag_chain ?t1 = ag_chain ?u1"
    using ok(1) Cons.prems(3) hs by (simp add: nth_append hex_encode_inj)
  then have "canonicalStored h d = row_canonical (srRow r)"
    using injD [OF assms(1)] Cons.prems(4) by fastforce
  moreover have "map (canonicalStored h) ds = map (\<lambda>r. row_canonical (srRow r)) rs"
    by (rule Cons.IH [OF rows(2) rest _ chain, of "pre @ [hex_encode (ag_chain ?t1)]"])
      (use Cons.prems(3) hs ok(2) in simp_all)
  ultimately show ?case using rows(1) by simp
qed simp

lemma passed_checks:
  assumes "prVerdict (finishProof m cs now) = ''PASS''"
  shows "list_all ckOK cs"
  using assms by (simp add: finishProof_def Let_def split: if_splits)

lemma verdict_cases: "prVerdict (finishProof m cs now) = ''PASS'' \<or> prVerdict (finishProof m cs now) = ''FAIL''"
  by (simp add: finishProof_def Let_def)

lemma Verify_proof: "\<exists>cs. fst (Verify_batch st h m key now s) = finishProof m cs now"
  by (cases "gather st h (mfBatchID m) [Taxpayers, Filings, Payments] s" rule: prod.exhaust)
    (auto simp: Verify_batch_def Let_def split: sum.splits)

lemma verify_pins:
  assumes "inj (mhSha h)" "built_from h m rows" "Verify_batch st h m (Some key) now s = (p, s1)" "prVerdict p = ''PASS''"
  shows "VerifySignature h key m \<and> (\<exists>ds. gather st h (mfBatchID m) [Taxpayers, Filings, Payments] s = (Inr ds, s1)
     \<and> map (canonicalStored h) (sort_key sdRowIndex ds) = map (\<lambda>r. row_canonical (srRow r)) rows)"
proof -
  obtain g s2 where g: "gather st h (mfBatchID m) [Taxpayers, Filings, Payments] s = (g, s2)" by fastforce
  obtain n hs t where l: "manifest_loop h rows (start_tally h (kv_put ''rejected'' n zero_counts)) = (hs, t)"
    "mfRowHashes m = hs" "mfRowCount m = int (length rows)" using assms(2) unfolding built_from_def by blast
  show ?thesis
  proof (cases g)
    case (Inl e)
    with g assms(3) have "p = finishProof m (signature_check h (Some key) m
        @ [\<lparr>ckName = ''store_read'', ckExpected = ''ok'', ckActual = e, ckOK = False\<rparr>]) now"
      by (simp add: Verify_batch_def Let_def)
    with assms(4) passed_checks show ?thesis by fastforce
  next
    case (Inr ds)
    with g assms(3) have p: "p = finishProof m (signature_check h (Some key) m @ store_checks h m ds) now" "s1 = s2"
      by (simp_all add: Verify_batch_def Let_def)
    have ok: "list_all ckOK (signature_check h (Some key) m @ store_checks h m ds)"
      using passed_checks assms(4) p(1) by blast
    then have sig: "VerifySignature h key m" by (simp add: signature_check_def)
    have "fst (recheck h m 0 (sort_key sdRowIndex ds) (start_tally h zero_counts))"
      and len: "length ds = length rows"
      using ok l(3) by (auto simp: store_checks_def Let_def split: prod.splits)
    with recheck_pins [OF assms(1) _ l(1), of "sort_key sdRowIndex ds" m "[]" "start_tally h zero_counts"] l(2)
    show ?thesis using sig g Inr p(2) by auto
  qed
qed

text \<open>A row whose text changes when it is read back makes every later verification fail.\<close>

lemma scrubbed_row_fails:
  assumes "inj (mhSha h)" "built_from h m rows" "rows_decode h rows" "r \<in> set rows"
    and "row_canonical (scrub (srRow r)) \<noteq> row_canonical (srRow r)"
    and "sort_key sdRowIndex ds = row_docs m 0 rows"
  shows "\<not> list_all ckOK (store_checks h m ds)"
proof
  assume ok: "list_all ckOK (store_checks h m ds)"
  obtain n hs t where l: "manifest_loop h rows (start_tally h (kv_put ''rejected'' n zero_counts)) = (hs, t)"
    "mfRowHashes m = hs" using assms(2) unfolding built_from_def by blast
  have "fst (recheck h m 0 (row_docs m 0 rows) (start_tally h zero_counts))"
    using ok assms(6) by (auto simp: store_checks_def Let_def split: prod.splits)
  with recheck_pins [OF assms(1) _ l(1), of "row_docs m 0 rows" m "[]" "start_tally h zero_counts"] l(2)
  have same: "map (canonicalStored h) (row_docs m 0 rows) = map (\<lambda>r. row_canonical (srRow r)) rows" by simp
  have "map (canonicalStored h) (row_docs m i rs) = map (\<lambda>r. row_canonical (scrub (srRow r))) rs"
    if "rows_decode h rs" for i rs
    using that by (induction rs arbitrary: i) (auto simp: rows_decode_def stored_canonical)
  with same assms(3) have "map (\<lambda>r. row_canonical (scrub (srRow r))) rows = map (\<lambda>r. row_canonical (srRow r)) rows"
    by simp
  with assms(4,5) show False by simp
qed

section \<open>Refused and repeated imports\<close>

lemma Import_dry: "Import st h d files DryRun strict now s = Some (r, s1) \<Longrightarrow> s1 = s"
  by (auto simp: Import_def import_staged_def Let_def split: if_splits option.splits sum.splits)

lemma Import_keyless: "dpSigningKey d = '''' \<Longrightarrow> \<exists>e. Import st h d files Commit strict now s = Some (Inl e, s)"
  by (simp add: Import_def)

text \<open>The manifest of a dry run accounts for every record the files deliver.\<close>

lemma dry_run_counts:
  assumes "Import st h d files DryRun strict now s = Some (Inr res, s1)" "list_all2 (file_records h) files ns"
  shows "mfRowCount (rsManifest res) + kv_at 0 (mfCounts (rsManifest res)) ''rejected'' = int (sum_list ns)"
    and "mfRowCount (rsManifest res) = kv_at 0 (mfCounts (rsManifest res)) ''taxpayers''
      + kv_at 0 (mfCounts (rsManifest res)) ''filings'' + kv_at 0 (mfCounts (rsManifest res)) ''payments''"
proof -
  obtain sg where sg: "ingest h strict files empty_stage = Some (Inr sg)"
    and st: "import_staged st h d DryRun now sg s = (Inr res, s1)"
    using assms(1) by (auto simp: Import_def split: if_splits option.splits sum.splits)
  obtain ok errs where lf: "live_filter (dpLive d) (batch_tins (sgRows sg)) 0 (sgRows sg) (sgErrs sg) = Inr (ok, errs)"
    and m: "rsManifest res = (let m = (buildManifest h ok errs DryRun (if dpLive d = None then [no_live_note] else []) now)
         \<lparr>mfKeyID := dpKeyID d\<rparr> in if dpSigningKey d \<noteq> '''' then SignManifest h (dpSigningKey d) m else m)"
    using st by (auto simp: import_staged_def Let_def split: sum.splits)
  obtain hs t where l: "manifest_loop h ok (start_tally h (kv_put ''rejected'' (int (length errs)) zero_counts)) = (hs, t)"
    by fastforce
  have fields: "mfRowCount (rsManifest res) = int (length ok)" "mfCounts (rsManifest res) = ag_counts t"
    using m l by (auto simp: SignManifest_def buildManifest_def Let_def)
  have cnt: "kv_at 0 (ag_counts t) k = kv_at 0 (kv_put ''rejected'' (int (length errs)) zero_counts) k
      + int (length (filter (\<lambda>r. kind_text (row_kind (srRow r)) = k) ok))" for k
    using manifest_loop_totals [OF l, of k] by (simp del: kv_at_put)
  have "kind_text (row_kind r) \<noteq> ''rejected''" for r by (cases r) simp_all
  then have rej: "kv_at 0 (ag_counts t) ''rejected'' = int (length errs)" using cnt [of "''rejected''"] by simp
  have "length ok + length errs = handled sg" using live_filter_spec [OF lf] by (simp add: handled_def)
  moreover have "handled sg = sum_list ns"
    using ingest_counts [OF sg assms(2)] by (simp add: handled_def empty_stage_def)
  ultimately show "mfRowCount (rsManifest res) + kv_at 0 (mfCounts (rsManifest res)) ''rejected'' = int (sum_list ns)"
    using fields rej by simp
  have "length ok = length (filter (\<lambda>r. kind_text (row_kind (srRow r)) = ''taxpayers'') ok)
      + length (filter (\<lambda>r. kind_text (row_kind (srRow r)) = ''filings'') ok)
      + length (filter (\<lambda>r. kind_text (row_kind (srRow r)) = ''payments'') ok)"
  proof (induction ok)
    case (Cons r ok)
    then show ?case by (cases "srRow r") simp_all
  qed simp
  then show "mfRowCount (rsManifest res) = kv_at 0 (mfCounts (rsManifest res)) ''taxpayers''
      + kv_at 0 (mfCounts (rsManifest res)) ''filings'' + kv_at 0 (mfCounts (rsManifest res)) ''payments''"
    using fields cnt [of "''taxpayers''"] cnt [of "''filings''"] cnt [of "''payments''"] by simp
qed

text \<open>Committing again rows whose manifest is stored writes nothing.\<close>

lemma import_again:
  assumes "js_calm s" "files \<noteq> []" "dpSigningKey d \<noteq> ''''"
    and "ingest h strict files empty_stage = Some (Inr sg)"
    and "live_filter (dpLive d) (batch_tins (sgRows sg)) 0 (sgRows sg) (sgErrs sg) = Inr (rows, errs)"
    and "js_docs s (store_path ''mig_batches'' (batch_of h rows)) = Some b" "mhManifestParse h b = Some m"
  shows "\<exists>s1. Import jsonStore h d files Commit strict now s
        = Some (Inr \<lparr>rsManifest = m\<lparr>mfNotes := mfNotes m @ [rerun_note]\<rparr>, rsErrors = errs\<rparr>, s1)
    \<and> js_docs s1 = js_docs s"
proof -
  obtain got s1 where g: "stGet jsonStore ''mig_batches'' (batch_of h rows) s = (got, s1)" by fastforce
  have "got = Inr b" using js.get_found [OF assms(1,6)] g by simp
  moreover have "js_docs s1 = js_docs s" using js.get_docs g by (metis snd_conv)
  ultimately show ?thesis
    using assms(2-5,7) g by (simp add: Import_def import_staged_def import_commit_def already_imported_def Let_def)
qed

text \<open>
  When only writes fail, a commit that reports an error has left the documents as they were, except
  when the error is that of the manifest itself: then the rows' documents stay.
\<close>

lemma import_failed:
  assumes "js_mends s" "Import jsonStore h d files Commit strict now s = Some (Inl e, s1)"
    and "ingest h strict files empty_stage = Some (Inr sg)"
    and "live_filter (dpLive d) (batch_tins (sgRows sg)) 0 (sgRows sg) (sgErrs sg) = Inr (rows, errs)"
    and "\<forall>r \<in> set rows. js_docs s (row_path h rows r) = None"
  shows "js_docs s1 = js_docs s \<or> (\<exists>x. e = ''persist manifest: '' @ x)"
proof -
  let ?m = "batch_manifest h d rows errs now"
  have key: "js.row_key h (batch_of h rows) = row_path h rows" by (simp add: js.row_key_def row_path_def fun_eq_iff)
  obtain got s0 where g: "stGet jsonStore ''mig_batches'' (mfBatchID ?m) s = (got, s0)" by fastforce
  have s0: "js_mends s0" "js_docs s0 = js_docs s" using js.get_mends [OF assms(1)] js.get_docs g by (metis snd_conv)+
  have cases: "s1 = s \<or> import_commit jsonStore h (dpSigningKey d) ?m rows errs s = (Inl e, s1)"
    using assms(2-4) by (auto simp: Import_def import_staged_def batch_manifest_def Let_def split: if_splits)
  show ?thesis
  proof (cases "s1 = s")
    case False
    with cases have run: "import_commit jsonStore h (dpSigningKey d) ?m rows errs s = (Inl e, s1)" by blast
    obtain r s2 where c: "commitBatch jsonStore h ?m rows s0 = (r, s2)" by fastforce
    show ?thesis
    proof (cases r)
      case None
      with run g c show ?thesis
        by (auto simp: import_commit_def Let_def split: option.splits prod.splits)
    next
      case (Some x)
      with run g c have "s1 = s2" by (simp add: import_commit_def Let_def split: option.splits)
      moreover have "js_docs s2 = js_docs s0"
        using js.commitBatch_failed [OF c [unfolded Some] s0(1)] assms(5) s0(2) key by simp
      ultimately show ?thesis using s0(2) by simp
    qed
  qed simp
qed

text \<open>Every accepted row passed the checks, and no two have the same key.\<close>

lemma accepted_rows:
  assumes "ingest h strict files empty_stage = Some (Inr sg)"
    and "live_filter live (batch_tins (sgRows sg)) 0 (sgRows sg) (sgErrs sg) = Inr (rows, errs)"
  shows "\<forall>r \<in> set rows. validateRow h strict (srRow r) = None \<and> amount_ok (srRow r)
      \<and> backed live (batch_tins (sgRows sg)) r"
    and "distinct (map (\<lambda>r. dedupKey (srRow r)) rows)"
    and "\<exists>es. errs = sgErrs sg @ es \<and> (\<forall>e \<in> set es. reFile e = '''' \<and> reLine e = 0)"
proof -
  have ok: "stage_ok h strict sg"
    by (rule ingest_ok [OF assms(1)]) (simp add: stage_ok_def empty_stage_def)
  note lf = live_filter_spec [OF assms(2)]
  then have "set rows \<subseteq> set (sgRows sg)" by (auto dest: list_emb_set)
  then show "\<forall>r \<in> set rows. validateRow h strict (srRow r) = None \<and> amount_ok (srRow r)
      \<and> backed live (batch_tins (sgRows sg)) r"
    using ok lf by (auto simp: stage_ok_def)
  have "subseq (map (dedupKey \<circ> srRow) rows) (map (dedupKey \<circ> srRow) (sgRows sg))"
    using lf subseq_map by blast
  then have "distinct (map (dedupKey \<circ> srRow) rows)"
    using ok unfolding stage_ok_def by (metis in_set_subseqs subseqs_distinctD)
  then show "distinct (map (\<lambda>r. dedupKey (srRow r)) rows)" by (simp add: comp_def)
  show "\<exists>es. errs = sgErrs sg @ es \<and> (\<forall>e \<in> set es. reFile e = '''' \<and> reLine e = 0)"
    using lf ok by (fastforce simp: stage_ok_def)
qed

text \<open>Totals below \<open>2 ^ 63\<close> kobo are the sums of the amounts; beyond it they wrap.\<close>

definition amount_int :: "string \<Rightarrow> mig_row \<Rightarrow> int" where
  "amount_int k r = (case row_amount r of None \<Rightarrow> 0 | Some (j, v) \<Rightarrow> if k = j then sint v else 0)"

lemma manifest_sums:
  assumes "built_from h m rows" "\<forall>r \<in> set rows. amount_ok (srRow r)"
    and "sum_list (map (\<lambda>r. amount_int k (srRow r)) rows) < 2 ^ 63"
  shows "sint (kv_at 0 (mfSumsKobo m) k) = sum_list (map (\<lambda>r. amount_int k (srRow r)) rows)"
proof -
  from assms(1) obtain n hs t where
    l: "manifest_loop h rows (start_tally h (kv_put ''rejected'' n zero_counts)) = (hs, t)" "mfSumsKobo m = ag_sums t"
    unfolding built_from_def by blast
  let ?ws = "map (amount_in k \<circ> srRow) rows"
  have i: "map sint ?ws = map (\<lambda>r. amount_int k (srRow r)) rows"
    by (auto simp: amount_in_def amount_int_def split: option.splits)
  have "\<forall>w \<in> set ?ws. 0 \<le> sint w"
    using assms(2) by (auto simp: amount_in_def amount_ok_def split: option.splits)
  from sum_words_exact [OF this, unfolded i, OF assms(3)]
  have "sint (sum_list ?ws) = sum_list (map (\<lambda>r. amount_int k (srRow r)) rows)" .
  with manifest_loop_totals [OF l(1), of k] l(2) show ?thesis by simp
qed

text \<open>A manifest depends on the host through its hash and its MAC only.\<close>

lemma manifest_loop_cong: "mhSha h = mhSha h' \<Longrightarrow> manifest_loop h rows t = manifest_loop h' rows t"
  by (induction rows arbitrary: t) (simp_all add: tally_step_def)

lemma batch_manifest_cong:
  "mhSha h = mhSha h' \<Longrightarrow> batch_manifest h d rows errs now = batch_manifest h' d rows errs now"
  by (simp add: batch_manifest_def buildManifest_def start_tally_def manifest_loop_cong [of h h'])

lemma committed_manifest_cong:
  "mhSha h = mhSha h' \<Longrightarrow> mhHmac h = mhHmac h'
   \<Longrightarrow> committed_manifest h d rows errs now = committed_manifest h' d rows errs now"
  by (simp add: committed_manifest_def SignManifest_def batch_manifest_cong [of h h'])

end
