(* ===== verification/DemoMig.thy ===== *)
theory DemoMig
  imports MigProof Encoding
begin

text \<open>
  A taxpayer file and a payment file, the batch they make, and the host and store on which the
  properties of the migration tool are instantiated.
\<close>

definition d_tp :: "string \<Rightarrow> TaxpayerRow" where
  "d_tp n = \<lparr>tpTIN = ''12345678-0001'', tpName = n, tpType = ''company'',
     tpRegistrationDate = ''2020-02-29'', tpStatus = ''active''\<rparr>"

definition d_pm :: PaymentRow where
  "d_pm = \<lparr>pmTIN = ''12345678-0001'', pmReference = ''R1'', pmAmountKobo = 500,
     pmDate = ''2024-05-06'', pmChannel = ''bank''\<rparr>"

definition d_mrows :: "string \<Rightarrow> stagedRow list" where
  "d_mrows n = [\<lparr>srRow = TaxpayerRowOf (d_tp n), srLine = 0, srFile = ''''\<rparr>,
     \<lparr>srRow = PaymentRowOf d_pm, srLine = 0, srFile = ''''\<rparr>]"

definition d_sheet :: "string \<Rightarrow> string \<Rightarrow> string list list" where
  "d_sheet n d = (if d = ''T''
     then [[''TIN'', ''Name'', ''Type'', ''Registration_Date'', ''Status''],
           [''12345678-0001'', n, ''company'', ''2020-02-29'', ''active'']]
     else [[''reference'', ''tin'', ''amount_kobo'', ''date'', ''channel''],
           [''R1'', ''12345678-0001'', '' 500 '', ''2024-05-06'', ''bank'']])"

definition d_mig0 :: "string \<Rightarrow> mig_host" where
  "d_mig0 n = \<lparr>mhSha = map (\<lambda>c. of_nat (byte_of c)), mhHmac = (\<lambda>k m. map (\<lambda>c. of_nat (byte_of c)) (k @ m)),
     mhQuote = quoted,
     mhCsv = (\<lambda>d i. if i < length (d_sheet n d) then CsvRecord (d_sheet n d ! i) else CsvEOF),
     mhJsonLine = (\<lambda>_. Inl ''unexpected end''),
     mhDocJSON = (\<lambda>d. Inr (if sdEntity d = Taxpayers then ''T'' else ''P'')), mhDocParse = (\<lambda>_. None),
     mhManifestJSON = (\<lambda>_. Inr ''M''), mhManifestParse = (\<lambda>_. None),
     mhTaxpayer = (\<lambda>_. d_tp (to_valid_utf8 n)), mhFiling = (\<lambda>_. \<lparr>flTIN = '''', flPeriod = '''', flTaxType = '''', flAssessedKobo = 0\<rparr>),
     mhPayment = (\<lambda>_. d_pm)\<rparr>"

definition d_mdeps :: mig_deps where
  "d_mdeps = \<lparr>dpLive = Some (\<lambda>_ _. Inr (False, '''')), dpSigningKey = ''k'', dpKeyID = ''env:migration-signing-key''\<rparr>"

definition d_mig :: "string \<Rightarrow> mig_host" where
  "d_mig n = (d_mig0 n)\<lparr>
     mhDocParse := (\<lambda>b. let i = (if b = ''T'' then 0 else 1)
        in Some (row_doc (batch_manifest (d_mig0 n) d_mdeps (d_mrows n) [] 0) i (d_mrows n ! i))),
     mhManifestParse := (\<lambda>_. Some (committed_manifest (d_mig0 n) d_mdeps (d_mrows n) [] 0))\<rparr>"

definition d_mfiles :: "SourceFile list" where
  "d_mfiles = [\<lparr>sfEntity = Taxpayers, sfFormat = ''csv'', sfName = ''t.csv'', sfData = ''T''\<rparr>,
     \<lparr>sfEntity = Payments, sfFormat = ''csv'', sfName = ''p.csv'', sfData = ''P''\<rparr>]"

definition d_mstage :: "string \<Rightarrow> mig_stage" where
  "d_mstage n = \<lparr>sgRows = d_mrows n, sgErrs = [], sgSeen = [''pm|R1'', ''tp|12345678-0001'']\<rparr>"

definition d_mstore :: "(nat \<Rightarrow> io_fault) \<Rightarrow> json_store" where
  "d_mstore p = \<lparr>jfFiles = [], jfOps = 0, jfPlan = p\<rparr>"

definition d_latin1 :: string where "d_latin1 = [CHR ''J'', CHR 0xE9]"

lemma d_add_taxpayer:
  "addRow h False Taxpayers ''t.csv'' 2
      (csv_row (d_sheet ''Ada'' ''T'' ! 1) (csvHeaderIndex (d_sheet ''Ada'' ''T'' ! 0))) empty_stage
    = \<lparr>sgRows = take 1 (d_mrows ''Ada''), sgErrs = [], sgSeen = [''tp|12345678-0001'']\<rparr>"
  by code_simp

lemma d_add_payment:
  "addRow h False Payments ''p.csv'' 2
      (csv_row (d_sheet ''Ada'' ''P'' ! 1) (csvHeaderIndex (d_sheet ''Ada'' ''P'' ! 0)))
      \<lparr>sgRows = take 1 (d_mrows ''Ada''), sgErrs = [], sgSeen = [''tp|12345678-0001'']\<rparr>
    = d_mstage ''Ada''"
  by code_simp

text \<open>Reading a sheet of one record.\<close>

lemma parse_one:
  assumes "rd 0 = CsvRecord hdr" "rd 1 = CsvRecord x" "rd 2 = CsvEOF"
  shows "parseCSV rd name onerr sink st = Some (Inr (sink 2 (csv_row x (csvHeaderIndex hdr)) st))"
proof -
  have "csv_loop rd onerr sink idx 2 l s = Some s" for idx l s
    using assms(3) by (simp add: csv_loop.simps)
  then have "csv_loop rd onerr sink (csvHeaderIndex hdr) 1 1 st = Some (sink 2 (csv_row x (csvHeaderIndex hdr)) st)"
    using assms(2) by (simp add: csv_loop.simps [of _ _ _ _ "1 :: nat"] csv_loop.simps [of _ _ _ _ "Suc 0"] numeral_2_eq_2)
  with assms(1) show ?thesis by (simp add: parseCSV_def)
qed

lemma d_ingest: "ingest (d_mig ''Ada'') False d_mfiles empty_stage = Some (Inr (d_mstage ''Ada''))"
proof -
  have rd: "mhCsv (d_mig ''Ada'') d i = (if i < length (d_sheet ''Ada'' d) then CsvRecord (d_sheet ''Ada'' d ! i) else CsvEOF)" for d i
    by (simp add: d_mig_def d_mig0_def)
  have len: "length (d_sheet ''Ada'' d) = 2" for d by (simp add: d_sheet_def)
  show ?thesis
    using d_add_taxpayer d_add_payment
    by (simp add: d_mfiles_def Let_def parse_one [OF _ _ _] rd len)
qed

lemma d_live: "live_filter (dpLive d_mdeps) (batch_tins (sgRows (d_mstage n))) 0 (sgRows (d_mstage n)) (sgErrs (d_mstage n))
    = Inr (d_mrows n, [])"
  by (simp add: d_mdeps_def d_mstage_def d_mrows_def live_check_def batch_tins_def d_tp_def d_pm_def Let_def)

lemma d_sha [simp]: "mhSha (d_mig n) = mhSha (d_mig0 n)" "mhHmac (d_mig n) = mhHmac (d_mig0 n)"
  by (simp_all add: d_mig_def)

lemma d_inj: "inj (mhSha (d_mig n))"
  using byte_inj by (simp add: d_mig0_def)

lemma d_ascii_strings: "list_all (\<lambda>s. to_valid_utf8 s = s) [''12345678-0001'', ''company'', ''2020-02-29'', ''active'',
    ''R1'', ''2024-05-06'', ''bank'']"
  by code_simp

lemma d_rows_decode: "rows_decode (d_mig n) (d_mrows n)"
  using d_ascii_strings by (simp add: rows_decode_def d_mrows_def d_mig_def d_mig0_def d_tp_def d_pm_def)

lemma d_docs_decode: "docs_decode (d_mig n) (batch_manifest (d_mig n) d_mdeps (d_mrows n) [] 0) (d_mrows n)"
  unfolding batch_manifest_cong [OF d_sha(1)]
  by (auto simp: docs_decode_def d_mrows_def d_mig_def d_mig0_def row_doc_def less_Suc_eq)

lemma d_manifest_decodes: "manifest_decodes (d_mig n) (committed_manifest (d_mig n) d_mdeps (d_mrows n) [] 0)"
  unfolding committed_manifest_cong [OF d_sha] by (simp add: manifest_decodes_def d_mig_def d_mig0_def)

lemma d_clean: "\<forall>r \<in> set (d_mrows ''Ada''). clean_row (srRow r)"
  by code_simp

lemma d_paths: "distinct (map (row_path h (d_mrows n)) (d_mrows n))"
  by (simp add: d_mrows_def row_path_def store_path_def collFor_def)

lemma d_new: "batch_is_new h rows (d_mstore p)"
  by (simp add: batch_is_new_def js_docs_def d_mstore_def)

lemma d_calm: "js_calm (d_mstore (\<lambda>_. IoOK))"
  by (simp add: js_calm_def d_mstore_def)

text \<open>The third operation of a commit, the write of the payment, fails half way.\<close>

lemma d_failing:
  "\<exists>s1. Import jsonStore (d_mig ''Ada'') d_mdeps d_mfiles Commit False 0
      (d_mstore (\<lambda>n. if n = 2 then IoWriteFail ''disk full'' ''half'' else IoOK))
    = Some (Inl (rollback_error [(''mig_taxpayers'',
        docID (d_mig ''Ada'') (batch_of (d_mig ''Ada'') (d_mrows ''Ada'')) (TaxpayerRowOf (d_tp ''Ada'')))] ''disk full''), s1)"
proof -
  let ?h = "d_mig ''Ada''" and ?m = "batch_manifest (d_mig ''Ada'') d_mdeps (d_mrows ''Ada'') [] 0"
  let ?s = "d_mstore (\<lambda>n. if n = 2 then IoWriteFail ''disk full'' ''half'' else IoOK)"
  have nk: "d_mfiles \<noteq> []" "dpSigningKey d_mdeps \<noteq> ''''" by (simp_all add: d_mfiles_def d_mdeps_def)
  have j: "mhDocJSON ?h x = Inr (if sdEntity x = Taxpayers then ''T'' else ''P'')" for x
    by (simp add: d_mig_def d_mig0_def)
  have "\<exists>s1. import_commit jsonStore ?h ''k'' ?m (d_mrows ''Ada'') [] ?s
      = (Inl (rollback_error [(''mig_taxpayers'',
        docID ?h (batch_of ?h (d_mrows ''Ada'')) (TaxpayerRowOf (d_tp ''Ada'')))] ''disk full''), s1)"
    by (simp add: import_commit_def already_imported_def jsonStore_def js_Get_def js_Put_def next_op_def d_mstore_def
        commitBatch_def d_mrows_def j collFor_def Let_def)
  then show ?thesis
    using nk d_ingest d_live [of "''Ada''"]
    by (simp add: Import_def import_staged_def batch_manifest_def Let_def) (simp add: d_mdeps_def)
qed

lemma d_latin1_differs:
  "row_canonical (scrub (srRow (hd (d_mrows d_latin1)))) \<noteq> row_canonical (srRow (hd (d_mrows d_latin1)))"
  by code_simp

end
