(* ===== verification/Spec2Isabelle.thy ===== *)
theory Spec2Isabelle
  imports Demo LedgerApi MoneyAdapter Dedup DocStore DemoTin DemoPrivacy DemoAdmin DemoMig
begin

text \<open>
  The core services of the Meridian platform: a double-entry ledger with its HTTP service and money
  workflows, the event plumbing under it, the registry of taxpayer identification numbers (TINs), the
  consent and breach registers, the audit-evidence service, the admin console, the rule-pack registry and
  notification. The Go sources are under \<open>src/services\<close>
  and \<open>src/packages\<close>. A definition carries the name of the function or type it models, as far as
  Isabelle allows, and follows its source branch by branch.

  \<^bold>\<open>How the parts interact.\<close> Requests pass the authentication middleware and role, step-up or
  permission gates before a handler runs. The ledger service keeps accounts and transfers in the
  development ledger, tells the threshold tracker about every event and appends events to an outbox,
  from which a relay publishes them on the bus; consumers deduplicate what they receive. The money
  workflows run as sagas over the ledger. The TIN service stores entities, registrations, merges and
  lifecycle records in the document store and asks the consent service before it tells anything about
  a TIN. The consent service stores its records in another document store; the audit service keeps an
  append-only log and a write-once store. The admin console authenticates its own users, guards the
  ledger routes it offers with a role and a second factor, and hands every event to the audit service
  through a queue. The rule-pack registry keeps signed packs in the document store and announces their
  publication through the outbox; notification walks a chain of providers. The migration tool reads
  legacy files, checks their rows against the TIN service and commits them as signed batches to a store
  of its own.

  \<^bold>\<open>Theories and sources.\<close>
  \<^item> \<open>Prelude\<close>: machine integers, keyed collections (the model of a Go map listed in key order), sums over
    them; \<open>GoStd\<close>: the parts of the Go library in use (hexadecimal, decimal, strings, time).
  \<^item> \<open>Ledger\<close>, \<open>LedgerInv\<close>: \<open>services/ledger/internal/tb/tb.go\<close>; every operation of the in-memory ledger
    with its hooks, amounts as 64-bit words; the balance invariant, sound posting and refusal.
  \<^item> \<open>Thresholds\<close>: \<open>services/ledger/thresholds.go\<close>, refined to the plain history of transfers.
  \<^item> \<open>Saga\<close>: \<open>packages/temporal-sdkx/sdkx.go\<close>; \<open>Money\<close>: \<open>packages/temporal-sdkx/money/money.go\<close>, the three
    workflows over a port; \<open>MoneyAdapter\<close>: \<open>services/ledger/money_workflows.go\<close>, the port on the ledger.
  \<^item> \<open>Access\<close>: \<open>packages/events/auth/auth.go\<close>, \<open>packages/stepup/ticket.go\<close> and \<open>store.go\<close>,
    \<open>services/ledger/stepup.go\<close>; tokens, the middleware, step-up tickets.
  \<^item> \<open>LedgerApi\<close>: \<open>services/ledger/main.go\<close>, all routes with their gates, events and the expiry sweep.
  \<^item> \<open>Bus\<close>, \<open>Dedup\<close>, \<open>Outbox\<close>: \<open>packages/events/bus\<close>, \<open>packages/events/envelope\<close> and
    \<open>packages/events/outbox\<close>.
  \<^item> \<open>DocStore\<close>: \<open>packages/events/store/store.go\<close>, the document store and the append-only log; the outcome
    of each file write is given by a fault plan. Its locale \<open>doc_store\<close> is the interface the TIN and
    consent services use: what a lookup gives back after a write, and how documents evolve.
  \<^item> \<open>Lifecycle\<close>, \<open>TinApi\<close>: \<open>services/tin-graph\<close>; the status machine, merging and undoing
    (\<open>internal/graph/lifecycle.go\<close>), the TIN format, the entity index, the gates and the handlers.
  \<^item> \<open>Consent\<close>, \<open>Privacy\<close>, \<open>PrivacyInv\<close>: \<open>services/consent\<close>; consents with receipts, the check, the breach
    register and the rights of data subjects. \<open>TinConsent\<close> composes the TIN service with it.
  \<^item> \<open>Evidence\<close>, \<open>EvidenceInv\<close>: \<open>services/audit-evidence\<close>; the hash chain, the write-once store, the sealed
    trail and the handlers.
  \<^item> \<open>Encoding\<close>: base64 and base32 with their round trips. \<open>StepUp\<close>: \<open>packages/stepup\<close>; time-based and
    recovery codes, sealing, the life of an enrolment.
  \<^item> \<open>AdminAuth\<close>, \<open>AdminApi\<close>, \<open>AdminData\<close>, \<open>AdminInv\<close>: \<open>services/admin-api\<close>; passwords and tokens
    (\<open>pbkdf2.go\<close>, \<open>auth.go\<close>), users and their Postgres copy, step-up, the ledger routes, the audit queue, the
    other tables, and what holds of their runs.
  \<^item> \<open>Permify\<close>: \<open>packages/permify-models\<close>; the development checker and the client of the server.
  \<^item> \<open>RulePack\<close>: \<open>packages/rulepack-schema\<close>, the grammar and the signature policy; \<open>RpRegistry\<close>:
    \<open>services/rp-registry\<close>, a client of \<open>doc_store\<close>. \<open>Notification\<close>: \<open>services/notification\<close>, another.
  \<^item> \<open>Migration\<close>: \<open>services/migration/internal/mig/mig.go\<close>, rows from file to manifest; \<open>MigStore\<close>: the
    import and the verification over the \<open>Store\<close> interface, the file store and handlers of
    \<open>services/migration/main.go\<close>; \<open>MigInv\<close>: readers, staging and the locale \<open>mig_store\<close>, the contract of
    that interface; \<open>MigProof\<close>: what commits and verifications guarantee.
  \<^item> \<open>Demo\<close>, \<open>DemoTin\<close>, \<open>DemoPrivacy\<close>, \<open>DemoAdmin\<close>, \<open>DemoMig\<close>: concrete states on which the properties are shown to apply.

  \<^bold>\<open>What the lemmas show.\<close> For the ledger: reachable states keep every account's pending and posted sums
  equal to its transfers, money is conserved, refused calls change nothing, replays are recognised, and
  through sagas, workflows and the HTTP service the books stay balanced. For access: only verified
  principals with the right role and a fresh single-use ticket move money. For events: what is accepted
  reaches the outbox and the bus at least once, and consumers apply it once. For the TIN registry: the
  audit history always replays to the status, an undone merge restores the store, the index agrees with
  a scan, verification rests on a stored consent. For privacy: withdrawn consents stay withdrawn, erasure
  unlinks the subject, breaches follow their workflow. For evidence: the chain of a fault-free log
  verifies and pins its content, stored objects stay as they are. For the console: hashing and checking
  passwords end, a login opens a session and a credential change ends it for good, used recovery codes
  stay used, no audit event is lost. For rule packs and notifications: registered packs never change,
  production holds signed ones only, a chain sends at most once, a recorded key sends no more. For migration: readers end when their input does,
  every record is accounted for, a failed commit leaves nothing, a committed batch verifies and a batch
  that verifies is the one committed. Properties of kind \<open>error\<close> state where
  the code departs from what its comments promise; theorems without a claim number are further facts of
  the same kind.

  \<^bold>\<open>Conventions.\<close> Strings are byte lists; errors are the left side of a sum; effects pass an explicit
  state. Clock readings, fresh identifiers, hashes, message authentication codes and JSON encoders are
  arguments; so are services outside the repository (Keycloak, Permify, the Kafka cluster). Concurrency
  is reduced to sequences of operations, each of which the code runs under its lock. Loops are
  structural recursions over the data they walk, so no fuel is needed except in the retry loop, whose
  bound is the number of attempts, and in the sweep and relay loops, which walk the finite list read
  before they start. The block loop of the password derivation and the CSV loop are partial
  functions, shown to return (the latter when its input ends);
  the permission checker recurses on the levels left of its depth limit.

  \<^bold>\<open>Not modelled.\<close> Network clients and drivers (TigerBeetle, Kafka, Postgres, MinIO, Keycloak, Temporal),
  process start-up and telemetry, floating-point scoring and geometry, third-party parsers, and for now
  the read-only views of the console, and in the TIN service provisioning, NIN and CAC verification, KYB
  and taxpayer 360.
\<close>


section \<open>The ledger client\<close>

text \<open>
  C1: In every state the client can reach, every operation the service can issue returns (no nil
  account is dereferenced, the sweep included) and leaves the books balanced: each counter of
  each account is the total of the records filed against it.
\<close>
theorem ledger_run_sound:
  assumes "reachable s" "admissible p"
  shows "\<exists>s'. ledger_exec p s = Some s' \<and> ledger_inv s'"
  using ledger_exec_inv [OF reachable_inv [OF assms(1)] assms(2)] .

theorem ledger_run_sound_witness:
  "\<exists>s'. ledger_exec (OpPost ''t2'' (MkID 0 7) 300 0) d_s2 = Some s' \<and> ledger_inv s'"
  by (rule ledger_run_sound [OF d_s2_reachable]) simp

text \<open>
  C2: Double entry: in every reachable state the posted debits of all accounts sum to the posted
  credits of all accounts, and the pending debits to the pending credits, as exact (unwrapped)
  totals.
\<close>
theorem books_balance:
  assumes "reachable s"
  shows "kv_sum (\<lambda>a. unat (DebitsPosted a)) (accounts s)
      = kv_sum (\<lambda>a. unat (CreditsPosted a)) (accounts s)
    \<and> kv_sum (\<lambda>a. unat (DebitsPending a)) (accounts s)
      = kv_sum (\<lambda>a. unat (CreditsPending a)) (accounts s)"
  using conservation [OF reachable_inv [OF assms]] by blast

theorem books_balance_witness:
  "kv_sum (\<lambda>a. unat (DebitsPosted a)) (accounts d_s3)
     = kv_sum (\<lambda>a. unat (CreditsPosted a)) (accounts d_s3)
   \<and> kv_sum (\<lambda>a. unat (DebitsPending a)) (accounts d_s3)
     = kv_sum (\<lambda>a. unat (CreditsPending a)) (accounts d_s3)"
  by (rule books_balance [OF d_s3_reachable])

text \<open>
  A successful capture of a pending transfer releases the whole reservation on both accounts,
  posts the captured amount (the full one when 0 is asked, never more than reserved) without
  wrapping, leaves every other account alone, and replaces the pending record by a posted one
  that is no longer open.
\<close>
theorem capture_effect:
  assumes inv: "ledger_inv s" and t: "map_of (transfers s) pid = Some pt"
    and run: "PostPending now_s pid amount code s = Some (r, s')" "Code r = OK"
  shows "\<exists>d c am. am = (if amount = 0 then Amount pt else amount) \<and> am \<le> Amount pt \<and> open_pending pt
    \<and> map_of (accounts s) (DebitAccountID pt) = Some d
    \<and> map_of (accounts s) (CreditAccountID pt) = Some c
    \<and> (\<forall>j. map_of (accounts s') j =
        (if j = CreditAccountID pt then Some (c\<lparr>CreditsPending := CreditsPending c - Amount pt,
              CreditsPosted := CreditsPosted c + am\<rparr>)
         else if j = DebitAccountID pt then Some (d\<lparr>DebitsPending := DebitsPending d - Amount pt,
              DebitsPosted := DebitsPosted d + am\<rparr>)
         else map_of (accounts s) j))
    \<and> unat (DebitsPosted d + am) = unat (DebitsPosted d) + unat am
    \<and> unat (CreditsPosted c + am) = unat (CreditsPosted c) + unat am
    \<and> map_of (transfers s') pid = Some (post_record pid pid pt am now_s)"
proof -
  let ?am = "if amount = 0 then Amount pt else amount"
  from run obtain s2 where b: "post_pending_body now_s pid amount code s = Some (r, s2)"
    and s': "s' = runHooks s2" by (auto simp: PostPending_body)
  from b t run(2) obtain r1 s1 where op: "open_pending pt" "?am \<le> Amount pt"
    and st: "settle_pending pt ?am s = Some (r1, s1)"
    and rp: "record_post pid pid pt (post_record pid pid pt ?am now_s) (r1, s1) = (r, s2)"
    by (auto simp: post_pending_body_def open_pending_def Let_def split: if_splits)
  from record_post_cases [OF rp] run(2) have ok: "Code r1 = OK"
    and s2: "accounts s2 = accounts s1"
      "map_of (transfers s2) pid = Some (post_record pid pid pt ?am now_s)"
    by (auto split: if_splits)
  from settle_ok [OF inv t st ok] obtain d c where
    "map_of (accounts s) (DebitAccountID pt) = Some d"
    "map_of (accounts s) (CreditAccountID pt) = Some c"
    "\<And>j. map_of (accounts s1) j =
       (if j = CreditAccountID pt then Some (c\<lparr>CreditsPending := CreditsPending c - Amount pt,
            CreditsPosted := CreditsPosted c + ?am\<rparr>)
        else if j = DebitAccountID pt then Some (d\<lparr>DebitsPending := DebitsPending d - Amount pt,
            DebitsPosted := DebitsPosted d + ?am\<rparr>)
        else map_of (accounts s) j)"
    "unat (DebitsPosted d + ?am) = unat (DebitsPosted d) + unat ?am"
    "unat (CreditsPosted c + ?am) = unat (CreditsPosted c) + unat ?am" by metis
  with op s2 show ?thesis unfolding s' by (intro exI [of _ d] exI [of _ c] exI [of _ ?am]) simp
qed

theorem capture_effect_witness:
  "\<exists>pt. map_of (transfers d_s2) (MkID 0 7) = Some pt \<and> Amount pt = 500
     \<and> map_of (transfers d_s3) (MkID 0 7) = Some (post_record (MkID 0 7) (MkID 0 7) pt 300 ''t2'')"
proof -
  have t: "map_of (transfers d_s2) (MkID 0 7) = Some (reservation ''t1'' 0 (d_tr 7 1 2 500))" by code_simp
  have run: "PostPending ''t2'' (MkID 0 7) 300 0 d_s2 = Some (res OK, d_s3)"
    using d_eval unfolding d_s3_def by (metis option.collapse prod.collapse)
  have "Amount (reservation ''t1'' 0 (d_tr 7 1 2 500)) = 500" by (simp add: reservation_def d_tr_def Let_def)
  with capture_effect [OF reachable_inv [OF d_s2_reachable] t run] t show ?thesis by auto
qed

text \<open>
  Every transfer operation that answers with a code other than ok leaves all accounts and all
  transfer records exactly as they were, also when a capture was refused after its reservation
  had been released.
\<close>
theorem refused_is_noop:
  assumes "ledger_inv s"
  shows "(Transfer now_s t s = (r, s') \<and> Code r \<noteq> OK
      \<or> PendingTransfer now_s now_t t s = (r, s') \<and> Code r \<noteq> OK
      \<or> PostPending now_s pid am code s = Some (r, s') \<and> Code r \<noteq> OK
      \<or> PostPendingAs now_s pid i am code s = Some (r, s') \<and> Code r \<noteq> OK
      \<or> VoidPending now_s pid code s = Some (r, s') \<and> Code r \<noteq> OK)
    \<Longrightarrow> accounts s' = accounts s \<and> transfers s' = transfers s"
proof (elim disjE conjE)
  assume "Transfer now_s t s = (r, s')" "Code r \<noteq> OK"
  with transfer_body_cases [of now_s t s] show ?thesis
    by (cases "transfer_body now_s t s") (auto simp: Transfer_def)
next
  assume "PendingTransfer now_s now_t t s = (r, s')" "Code r \<noteq> OK"
  with pending_body_cases [of now_s now_t t s] show ?thesis
    by (cases "pending_body now_s now_t t s") (auto simp: PendingTransfer_def)
next
  assume a: "PostPending now_s pid am code s = Some (r, s')" "Code r \<noteq> OK"
  then obtain s2 where b: "post_pending_body now_s pid am code s = Some (r, s2)" "s' = runHooks s2"
    by (auto simp: PostPending_body)
  from post_pending_refused [OF assms b(1) a(2)] b(2) show ?thesis by simp
next
  assume a: "PostPendingAs now_s pid i am code s = Some (r, s')" "Code r \<noteq> OK"
  then obtain s2 where b: "post_pending_as_body now_s pid i am code s = Some (r, s2)"
      "s' = runHooks s2" by (auto simp: PostPendingAs_def)
  from post_pending_as_refused [OF assms b(1) a(2)] b(2) show ?thesis by simp
next
  assume "VoidPending now_s pid code s = Some (r, s')" "Code r \<noteq> OK"
  then show ?thesis
    by (auto simp: VoidPending_def void_pending_body_def Let_def split: option.splits if_splits)
qed

theorem refused_is_noop_witness:
  "accounts (snd (Transfer ''t'' (d_tr 9 1 3 5) d_s2)) = accounts d_s2
   \<and> transfers (snd (Transfer ''t'' (d_tr 9 1 3 5) d_s2)) = transfers d_s2"
proof (rule refused_is_noop [OF reachable_inv [OF d_s2_reachable]], rule disjI1, rule conjI)
  show "Transfer ''t'' (d_tr 9 1 3 5) d_s2
      = (fst (Transfer ''t'' (d_tr 9 1 3 5) d_s2), snd (Transfer ''t'' (d_tr 9 1 3 5) d_s2))" by simp
  show "Code (fst (Transfer ''t'' (d_tr 9 1 3 5) d_s2)) \<noteq> OK" by code_simp
qed

text \<open>
  C3: Replaying an operation that succeeded moves no money a second time: the same transfer or
  the same open reservation answers exists, the same capture under a caller-chosen post id
  answers ok, and accounts and records stay as they were.
\<close>
theorem replay_is_idempotent:
  "(Transfer now_s t s = (r, s1) \<and> Code r = OK \<longrightarrow>
      Transfer now_s' t s1 = (res Exists, runHooks s1))
   \<and> (PendingTransfer now_s now_t t s = (r, s1) \<and> Code r = OK \<and> \<not> Resolved t \<longrightarrow>
      PendingTransfer now_s' now_t' t s1 = (res Exists, runHooks s1))
   \<and> (PostPendingAs now_s pid i am code s = Some (r, s1) \<and> Code r = OK \<and> pid \<noteq> i \<longrightarrow>
      PostPendingAs now_s' pid i am' code s1 = Some (res OK, runHooks s1))"
proof (intro conjI impI; elim conjE)
  assume a: "Transfer now_s t s = (r, s1)" "Code r = OK"
  obtain s2 where b: "transfer_body now_s t s = (r, s2)" "s1 = runHooks s2"
    using a(1) by (cases "transfer_body now_s t s") (auto simp: Transfer_def)
  from transfer_body_cases [OF b(1)] a(2) show "Transfer now_s' t s1 = (res Exists, runHooks s1)"
    by (auto simp: Transfer_def transfer_body_def b(2) sameAttrs_def Let_def)
next
  assume a: "PendingTransfer now_s now_t t s = (r, s1)" "Code r = OK" "\<not> Resolved t"
  obtain s2 where b: "pending_body now_s now_t t s = (r, s2)" "s1 = runHooks s2"
    using a(1) by (cases "pending_body now_s now_t t s") (auto simp: PendingTransfer_def)
  from pending_body_cases [OF b(1)] a(2,3)
  show "PendingTransfer now_s' now_t' t s1 = (res Exists, runHooks s1)"
    by (auto simp: PendingTransfer_def pending_body_def b(2) sameAttrs_def Let_def reservation_def)
next
  assume a: "PostPendingAs now_s pid i am code s = Some (r, s1)" "Code r = OK" "pid \<noteq> i"
  then obtain s2 where b: "post_pending_as_body now_s pid i am code s = Some (r, s2)" "s1 = runHooks s2"
    by (auto simp: PostPendingAs_def)
  from post_pending_as_replay [OF b(1) a(2,3), of s1 now_s' am']
  show "PostPendingAs now_s' pid i am' code s1 = Some (res OK, runHooks s1)"
    by (simp add: PostPendingAs_def b(2))
qed

theorem replay_is_idempotent_witness:
  "fst (Transfer ''t3'' (d_tr 8 1 2 40) (snd (Transfer ''t2'' (d_tr 8 1 2 40) d_s1))) = res Exists"
proof -
  have "Code (fst (Transfer ''t2'' (d_tr 8 1 2 40) d_s1)) = OK" by code_simp
  with replay_is_idempotent [of "''t2''" "d_tr 8 1 2 40" d_s1 "fst (Transfer ''t2'' (d_tr 8 1 2 40) d_s1)"
      "snd (Transfer ''t2'' (d_tr 8 1 2 40) d_s1)" "''t3''"]
  show ?thesis by simp
qed

text \<open>
  C4: After an accepted transfer or reservation, a debited account flagged
  DEBITS_MUST_NOT_EXCEED_CREDITS has posted plus reserved debits at most its posted plus
  reserved credits, provided both sums fit in 64 bits.
\<close>
theorem debit_limit_kept:
  assumes "Transfer now_s t s = (r, s') \<or> PendingTransfer now_s now_t t s = (r, s')" "Code r = OK"
    and "map_of (accounts s') (DebitAccountID t) = Some a"
    and "aFlags a AND FlagDebitsMustNotExceedCredits \<noteq> 0"
    and "unat (DebitsPending a) + unat (DebitsPosted a) < 2 ^ 64"
    and "unat (CreditsPending a) + unat (CreditsPosted a) < 2 ^ 64"
  shows "unat (DebitsPending a) + unat (DebitsPosted a)
    \<le> unat (CreditsPending a) + unat (CreditsPosted a)"
proof -
  have "DebitsPending a + DebitsPosted a \<le> CreditsPending a + CreditsPosted a"
    using assms(1)
  proof
    assume "Transfer now_s t s = (r, s')"
    then obtain s1 where b: "transfer_body now_s t s = (r, s1)" "s' = runHooks s1"
      by (cases "transfer_body now_s t s") (auto simp: Transfer_def)
    from transfer_body_cases [OF b(1)] assms(2) obtain dr cr where
      v: "validateParties s t = Inr (dr, cr)" and ck: "checkConstraints dr 0 (Amount t) 0 0 = OK"
      and s1: "accounts s1 = accounts (upd_account (CreditAccountID t)
                      (\<lambda>a. a\<lparr>CreditsPosted := CreditsPosted a + Amount t\<rparr>)
                      (upd_account (DebitAccountID t)
                        (\<lambda>a. a\<lparr>DebitsPosted := DebitsPosted a + Amount t\<rparr>) s))"
      by (auto simp: Let_def)
    from validateParties_Inr [OF v] assms(3) have "a = dr\<lparr>DebitsPosted := DebitsPosted dr + Amount t\<rparr>"
      by (simp add: b(2) s1 accounts_upd)
    with ck assms(4) show ?thesis by (auto simp: checkConstraints_def Let_def split: if_splits)
  next
    assume "PendingTransfer now_s now_t t s = (r, s')"
    then obtain s1 where b: "pending_body now_s now_t t s = (r, s1)" "s' = runHooks s1"
      by (cases "pending_body now_s now_t t s") (auto simp: PendingTransfer_def)
    from pending_body_cases [OF b(1)] assms(2) obtain dr cr where
      v: "validateParties s t = Inr (dr, cr)" and ck: "checkConstraints dr (Amount t) 0 0 0 = OK"
      and s1: "accounts s1 = accounts (upd_account (CreditAccountID t)
                      (\<lambda>a. a\<lparr>CreditsPending := CreditsPending a + Amount t\<rparr>)
                      (upd_account (DebitAccountID t)
                        (\<lambda>a. a\<lparr>DebitsPending := DebitsPending a + Amount t\<rparr>) s))"
      by (auto simp: Let_def)
    from validateParties_Inr [OF v] assms(3) have "a = dr\<lparr>DebitsPending := DebitsPending dr + Amount t\<rparr>"
      by (simp add: b(2) s1 accounts_upd)
    with ck assms(4) show ?thesis by (auto simp: checkConstraints_def Let_def split: if_splits)
  qed
  then have "unat (DebitsPending a + DebitsPosted a) \<le> unat (CreditsPending a + CreditsPosted a)"
    by (simp add: word_le_nat_alt)
  with assms(5,6) show ?thesis by (simp add: unat_word_ariths)
qed

theorem debit_limit_kept_witness:
  "\<exists>a. map_of (accounts (snd (Transfer ''t2'' (d_tr 9 3 2 40) d_f1))) (MkID 100 3) = Some a
     \<and> DebitsPosted a = 40 \<and> unat (DebitsPending a) + unat (DebitsPosted a)
         \<le> unat (CreditsPending a) + unat (CreditsPosted a)"
proof -
  let ?a = "(d_acct 3 1)\<lparr>aCreatedAt := ''t0'', CreditsPosted := 100, DebitsPosted := 40\<rparr>"
  have a: "map_of (accounts (snd (Transfer ''t2'' (d_tr 9 3 2 40) d_f1))) (DebitAccountID (d_tr 9 3 2 40))
      = Some ?a" by code_simp
  have ok: "Code (fst (Transfer ''t2'' (d_tr 9 3 2 40) d_f1)) = OK" by code_simp
  have "unat (DebitsPending ?a) + unat (DebitsPosted ?a)
      \<le> unat (CreditsPending ?a) + unat (CreditsPosted ?a)"
    by (rule debit_limit_kept [OF disjI1 [OF prod.collapse [symmetric]] ok a])
      (simp_all add: d_acct_def FlagDebitsMustNotExceedCredits_def)
  with a show ?thesis by (simp add: d_tr_def)
qed

text \<open>
  The limit check adds posted and reserved debits in 64 bits: in a reachable state a flagged
  account with 100 kobo of credits and 100 of posted debits is allowed to reserve 2^64 - 100
  kobo more.
\<close>
theorem debit_limit_bypassed:
  "reachable d_f2 \<and> (\<exists>a. map_of (accounts d_f2) (MkID 100 3) = Some a
     \<and> aFlags a = FlagDebitsMustNotExceedCredits
     \<and> unat (CreditsPending a) + unat (CreditsPosted a) = 100 \<and> unat (DebitsPosted a) = 100)
   \<and> fst (PendingTransfer ''t3'' 0 (d_tr 10 3 2 (- 100)) d_f2) = res OK"
proof (intro conjI exI)
  show "reachable d_f2" by (rule d_f2_reachable)
  show "map_of (accounts d_f2) (MkID 100 3)
      = Some ((d_acct 3 1)\<lparr>aCreatedAt := ''t0'', CreditsPosted := 100, DebitsPosted := 100\<rparr>)"
    by code_simp
  show "fst (PendingTransfer ''t3'' 0 (d_tr 10 3 2 (- 100)) d_f2) = res OK" by code_simp
qed (simp_all add: d_acct_def FlagDebitsMustNotExceedCredits_def)

text \<open>
  Voiding releases reserved credits without checking the limit again: from a reachable state
  where a flagged account has spent against a reserved credit, the accepted void leaves it with
  100 kobo of debits and no credits.
\<close>
theorem void_breaks_limit:
  "reachable d_v3 \<and> (\<exists>s' a. VoidPending ''t4'' (MkID 0 21) 0 d_v3 = Some (res OK, s')
     \<and> map_of (accounts s') (MkID 100 3) = Some a \<and> aFlags a = FlagDebitsMustNotExceedCredits
     \<and> DebitsPosted a = 100 \<and> CreditsPending a = 0 \<and> CreditsPosted a = 0)"
proof (intro conjI exI)
  show "reachable d_v3" by (rule d_v3_reachable)
  let ?s = "snd (the (VoidPending ''t4'' (MkID 0 21) 0 d_v3))"
  have "VoidPending ''t4'' (MkID 0 21) 0 d_v3 \<noteq> None"
    "fst (the (VoidPending ''t4'' (MkID 0 21) 0 d_v3)) = res OK" by code_simp+
  then show "VoidPending ''t4'' (MkID 0 21) 0 d_v3 = Some (res OK, ?s)"
    by (metis option.collapse prod.collapse)
  show "map_of (accounts ?s) (MkID 100 3)
      = Some ((d_acct 3 1)\<lparr>aCreatedAt := ''t0'', DebitsPosted := 100\<rparr>)" by code_simp
qed (simp_all add: d_acct_def FlagDebitsMustNotExceedCredits_def)

text \<open>
  The sweep voids exactly the open pending transfers whose expiry has passed, reports exactly
  those, leaves every other record alone, keeps the books balanced, and finds nothing more to do
  when run again at the same instant.
\<close>
theorem expiry_sweep:
  assumes inv: "ledger_inv s"
  shows "\<exists>ex s'. ExpirePendings t now_s s = Some (ex, s') \<and> ledger_inv s'
    \<and> (\<forall>i. map_of (transfers s') i = (case map_of (transfers s) i of None \<Rightarrow> None
         | Some pt \<Rightarrow> Some (if expired_at t pt then voided_record pt CodeVoid (now_s (tID pt)) else pt)))
    \<and> set ex = (\<lambda>pt. voided_record pt CodeVoid (now_s (tID pt)))
         ` {pt \<in> set (map snd (transfers s)). expired_at t pt}
    \<and> (\<forall>now_s'. ExpirePendings t now_s' s' = Some ([], runHooks s'))"
  by (rule ExpirePendings_spec [OF inv])

theorem expiry_sweep_witness:
  "\<exists>ex s'. ExpirePendings (61 * second_ns) (\<lambda>_. ''t9'') d_s2 = Some (ex, s') \<and> length ex = 1
     \<and> ledger_inv s'"
proof -
  obtain ex s' where e: "ExpirePendings (61 * second_ns) (\<lambda>_. ''t9'') d_s2 = Some (ex, s')" "ledger_inv s'"
    using expiry_sweep [OF reachable_inv [OF d_s2_reachable]] by blast
  have "length (fst (the (ExpirePendings (61 * second_ns) (\<lambda>_. ''t9'') d_s2))) = 1" by code_simp
  with e show ?thesis by simp
qed

text \<open>
  A 128-bit identifier printed as 32 hexadecimal digits parses back to itself.
\<close>
theorem id_round_trip: "ParseID (ID_String i) = Inr i \<and> length (ID_String i) = 32"
  by (simp add: ParseID_String) (simp add: ID_String_def)

section \<open>Bank-threshold monitoring\<close>



text \<open>
  The structuring alerts raised for one account over a stream of transfers lie more than 24
  hours apart from one another and from an alert already on record.
\<close>
theorem alerts_at_most_daily:
  assumes "observe_all xs tt = (es, tt')"
  shows "spaced structuringWindow ((case map_of (flagged tt) key of None \<Rightarrow> [] | Some l \<Rightarrow> [l])
       @ map fst (filter (raised_for key) es))"
  by (rule alerts_spaced [OF assms])

theorem alerts_at_most_daily_witness:
  "spaced structuringWindow (map fst (filter (raised_for (ID_String (MkID 100 1)))
     (fst (observe_all [(0, d_tr 1 1 2 500000000), (1, d_tr 2 1 2 400000000), (2, d_tr 3 1 2 300000000),
        (3, d_tr 4 1 2 300000000)] newThresholdTracker))))"
proof -
  have "flagged newThresholdTracker = []" by (simp add: newThresholdTracker_def)
  then show ?thesis
    using alerts_at_most_daily [where tt = newThresholdTracker, OF prod.collapse [symmetric]]
    by (simp only: map_of.simps option.case append_Nil)
qed

section \<open>Sagas and money workflows\<close>

text \<open>
  A saga runs its steps in order; when one fails, the steps before it that have a compensation
  are compensated exactly once each, from the last to the first, also when a compensation fails,
  and no later step runs.
\<close>
theorem compensation_order:
  assumes "saga_run (map logged sts) i (s, []) = (r, (s', l))"
  shows "(case r of None \<Rightarrow> l = map (\<lambda>st. Inl (Name st)) sts
     | Some e \<Rightarrow> \<exists>k < length sts. Step e = Name (sts ! k)
         \<and> l = map (\<lambda>st. Inl (Name st)) (take (Suc k) sts) @ comp_calls (take k sts))"
  using saga_loop_log [of sts "[]" i s "[]" r s' l] assms by (cases r) (simp_all add: saga_run_def)

theorem compensation_order_witness:
  "\<exists>e. fst (saga_run (map logged [d_add ''a'' 1, d_add ''b'' 2, d_fail]) () (0, [])) = Some e
     \<and> snd (snd (saga_run (map logged [d_add ''a'' 1, d_add ''b'' 2, d_fail]) () (0, [])))
       = [Inl ''a'', Inl ''b'', Inl ''fail'', Inr ''b'', Inr ''a'']"
proof -
  let ?sts = "[d_add ''a'' 1, d_add ''b'' 2, d_fail]"
  let ?run = "saga_run (map logged ?sts) () (0, [])"
  obtain r s' l where run: "?run = (r, (s', l))" by (metis prod.collapse)
  have r: "r = Some \<lparr>Step = ''fail'', Err = ''no'', CompensationErrors = []\<rparr>"
    using run by (auto simp: saga_run_def logged_def d_add_def d_fail_def)
  from compensation_order [OF run] obtain k where k: "k < length ?sts" "''fail'' = Name (?sts ! k)"
    "l = map (\<lambda>st. Inl (Name st)) (take (Suc k) ?sts) @ comp_calls (take k ?sts)"
    unfolding r by auto
  then have "k = 2" by (auto simp: less_Suc_eq d_add_def)
  with k(3) r run show ?thesis
    by (simp add: d_add_def d_fail_def comp_calls_def numeral_2_eq_2)
qed

text \<open>
  An activity is attempted at least once and at most MaximumAttempts times; a final error means
  every attempt was made; stopping early happens only when the context was cancelled between two
  attempts.
\<close>
theorem retry_bound:
  assumes "ExecuteActivity reg cancelled n name i (s, 0) = (r, (s', calls))"
    and "Saga.Get name reg = Some (counting act)"
  shows "1 \<le> calls \<and> calls \<le> nat (max 1 n)
    \<and> ((\<exists>e. r = Inl (FailedAfter name (nat (max 1 n)) e)) \<longrightarrow> calls = nat (max 1 n))
    \<and> (r = Inl ContextDone \<longrightarrow> (\<exists>k \<ge> 1. k < nat (max 1 n) \<and> cancelled k))"
proof -
  define m where "m = nat (max 1 n)"
  have m: "(if n \<le> 0 then 1 else nat n) = m" and m1: "1 \<le> m" by (auto simp: m_def)
  have "retry_loop name (counting act) cancelled m 1 m i (s, 0) = (r, (s', calls))"
    using assms unfolding ExecuteActivity_def Let_def m by simp
  from retry_loop_calls [OF this _ m1] show ?thesis unfolding m_def [symmetric] by auto
qed

theorem retry_bound_witness:
  "snd (snd (ExecuteActivity [(''x'', counting (\<lambda>(_::unit) s. (Inl ''e'' :: string + unit, s)))]
     (\<lambda>_. False) 3 ''x'' () ((), 0))) = 3"
proof -
  let ?x = "ExecuteActivity [(''x'', counting (\<lambda>(_::unit) s. (Inl ''e'' :: string + unit, s)))]
     (\<lambda>_. False) 3 ''x'' () ((), 0)"
  obtain r s' c where x: "?x = (r, (s', c))" by (metis prod.collapse)
  have "r = Inl (FailedAfter ''x'' 3 ''e'')"
    using x by (auto simp: ExecuteActivity_def Saga.Get_def Let_def eval_nat_numeral)
  moreover have "nat (max 1 3) = 3" by simp
  ultimately have r: "r = Inl (FailedAfter ''x'' (nat (max 1 3)) ''e'')" by (simp only:)
  have "c = nat (max 1 3)" using retry_bound [OF x] r by (auto simp: Saga.Get_def)
  with x show ?thesis by simp
qed



text \<open>
  A refund whose reservation id is new and which fails with no compensation error leaves the
  ledger counting the same money: the same account balances and the same open and posted
  transfers as before.
\<close>
theorem refund_failure_clean:
  assumes "ledger_inv (fst w)" "fresh_pending sha inp w" "CompensationErrors e = []"
    and "RefundWorkflow sha (tbMoneyAdapter clk) (Some inp) w = (Inl (SagaFailed e), w1)"
  shows "live_view w1 = live_view w"
  using refund_failure_restores [OF _ assms(2-4)] assms(1) by (simp add: w_inv_def)

theorem refund_failure_clean_witness:
  "live_view (snd (RefundWorkflow d_sha (tbMoneyAdapter d_clk) (Some d_refund_bad) (d_s1, 0)))
     = live_view (d_s1, 0)"
proof -
  let ?x = "RefundWorkflow d_sha (tbMoneyAdapter d_clk) (Some d_refund_bad) (d_s1, 0)"
  have "(case fst ?x of Inl (SagaFailed e) \<Rightarrow> CompensationErrors e = [] | _ \<Rightarrow> False)
    \<and> fresh_pending d_sha d_refund_bad (d_s1, 0)" by code_simp
  then obtain e where "fst ?x = Inl (SagaFailed e)" "CompensationErrors e = []"
    "fresh_pending d_sha d_refund_bad (d_s1, 0)"
    by (auto split: sum.splits wf_error.splits)
  then have "?x = (Inl (SagaFailed e), snd ?x)" by (metis prod.collapse)
  from refund_failure_clean [OF _ \<open>fresh_pending _ _ _\<close> \<open>CompensationErrors e = []\<close> this]
  show ?thesis using reachable_inv [OF d_s1_reachable] by simp
qed

text \<open>
  Running a refund that succeeded once more, from the state it left, succeeds with the same
  output and changes neither accounts nor transfer records.
\<close>
theorem refund_replay_safe:
  assumes "ledger_inv (fst w)"
    and "RefundWorkflow sha (tbMoneyAdapter clk) (Some inp) w = (Inr out, w1)"
  shows "\<exists>w2. RefundWorkflow sha (tbMoneyAdapter clk) (Some inp) w1 = (Inr out, w2)
    \<and> accounts (fst w2) = accounts (fst w1) \<and> transfers (fst w2) = transfers (fst w1)"
  using tb.refund_replay [OF _ assms(2)] assms(1) by (simp add: w_inv_def w_money_def)

theorem refund_replay_safe_witness:
  "let w1 = snd (RefundWorkflow d_sha (tbMoneyAdapter d_clk) (Some d_refund) (d_s1, 0))
   in \<exists>out w2. RefundWorkflow d_sha (tbMoneyAdapter d_clk) (Some d_refund) w1 = (Inr out, w2)
      \<and> accounts (fst w2) = accounts (fst w1)"
proof -
  have "is_ok (fst (RefundWorkflow d_sha (tbMoneyAdapter d_clk) (Some d_refund) (d_s1, 0)))" by code_simp
  then obtain out where
    "RefundWorkflow d_sha (tbMoneyAdapter d_clk) (Some d_refund) (d_s1, 0)
      = (Inr out, snd (RefundWorkflow d_sha (tbMoneyAdapter d_clk) (Some d_refund) (d_s1, 0)))"
    unfolding is_ok_ex by (metis prod.collapse)
  from refund_replay_safe [OF _ this] show ?thesis
    using reachable_inv [OF d_s1_reachable] by (auto simp: Let_def)
qed

text \<open>
  The capture saga's reversal looks the capture up under its post id, but the adapter records it
  under the pending id: when the fee leg fails, the saga reports a failure with no compensation
  error while the payer stays debited.
\<close>
theorem failed_fee_keeps_capture:
  "case CaptureSaga d_sha (tbMoneyAdapter d_clk) (Some d_capture) (d_s1, 0) of
     (Inl (SagaFailed e), w) \<Rightarrow> Step e = ''fee-leg'' \<and> CompensationErrors e = []
       \<and> (case map_of (accounts (fst w)) (MkID 100 1) of Some a \<Rightarrow> DebitsPosted a = 500 | None \<Rightarrow> False)
   | _ \<Rightarrow> False"
  by code_simp

text \<open>
  With TEMPORAL_URL set, the ledger boots its money workflows only on a Temporal worker that was
  created and started without error (the generic selector would fall back to the in-process
  runner); it registers the capture and refund workflows and no remittance.
\<close>
theorem prod_runner_fails_closed:
  assumes "url \<noteq> ''''" "initMoneyWorkflows sha clk url ie se = Inr (k, rn)"
  shows "k = TemporalKind \<and> ie = None \<and> se = None
    \<and> WorkflowNames rn = [''CaptureSaga'', ''RefundWorkflow'']"
  using assms
  by (auto simp: initMoneyWorkflows_def money_NewRunnerFromEnv_def money_Register_def
      RegisterWorkflow_def WorkflowNames_def NewInprocRunner_def Let_def
      split: option.splits if_splits)

theorem prod_runner_fails_closed_witness:
  "\<exists>rn. initMoneyWorkflows d_sha d_clk ''temporal:7233'' None None = Inr (TemporalKind, rn)
     \<and> WorkflowNames rn = [''CaptureSaga'', ''RefundWorkflow'']
     \<and> sdkx_NewRunnerFromEnv ''temporal:7233'' (Some ''refused'') None = InprocKind"
proof -
  obtain k rn where i: "initMoneyWorkflows d_sha d_clk ''temporal:7233'' None None = Inr (k, rn)"
    by (simp add: initMoneyWorkflows_def money_NewRunnerFromEnv_def)
  from prod_runner_fails_closed [OF _ i] i show ?thesis
    by (simp add: sdkx_NewRunnerFromEnv_def)
qed

section \<open>Access control and the HTTP layer\<close>

text \<open>
  C7: Whatever request arrives, with whatever headers, body and identifiers, the ledger server
  answers without a panic and its ledger keeps balanced books.
\<close>
theorem api_keeps_books:
  assumes "ledger_inv (sdev sv)"
  shows "ledger_inv (sdev (snd (serve h hdr body r sv))) \<and> snd (fst (serve h hdr body r sv)) \<noteq> Aborted"
  using serve_safe [OF assms prod.collapse [symmetric]] by simp

theorem api_keeps_books_witness:
  "snd (fst (serve d_host d_settle_hdr '''' (RPost ''00000000000000000000000000000007'' None) d_server))
     \<noteq> Aborted"
  using api_keeps_books [of d_server d_host d_settle_hdr "''''" "RPost ''00000000000000000000000000000007'' None"]
    reachable_inv [OF d_s2_reachable] by (simp add: d_server_def)



text \<open>
  A service token grants exactly one of the maker role and the settle role, never the admin
  role, even when both environment names hold the same value.
\<close>
theorem service_tokens_separated:
  assumes "ServiceClaims env r = Some c"
  shows "(HasRole c ''ledger:post'' \<longleftrightarrow> \<not> HasRole c ''ledger:settle'') \<and> \<not> HasRole c ''ledger:admin''
    \<and> hServiceToken r \<noteq> ''''"
  using assms by (auto simp: ServiceClaims_def HasRole_def Let_def split: if_splits)

theorem service_tokens_separated_witness:
  "\<exists>c. ServiceClaims (d_env\<lparr>MakerTokens := [''s3'']\<rparr>) d_settle_hdr = Some c \<and> \<not> HasRole c ''ledger:settle''"
proof -
  obtain c where c: "ServiceClaims (d_env\<lparr>MakerTokens := [''s3'']\<rparr>) d_settle_hdr = Some c"
    "HasRole c ''ledger:post''"
    by (simp add: ServiceClaims_def d_env_def d_settle_hdr_def HasRole_def)
  with service_tokens_separated [OF c(1)] show ?thesis by blast
qed

text \<open>
  With PROFILE=prod a request is let through only in keycloak mode, with a bearer token the
  Keycloak verifier accepted; development roles, HS256 tokens and service tokens are never
  honoured.
\<close>
theorem prod_accepts_keycloak_only:
  assumes "PROFILE env = ''prod''" "Middleware hmac dec keycloak env now r = Inr c"
  shows "AUTH_MODE env = ''keycloak'' \<and> (\<exists>verify token. keycloak = Some verify
    \<and> strip_bearer (hAuthorization r) = Some token \<and> verify token = Inr c)"
  by (rule Middleware_prod [OF assms(2,1)])

theorem prod_accepts_keycloak_only_witness:
  "\<exists>c. Middleware (\<lambda>k s. s) (\<lambda>s. None) (Some (\<lambda>t. Inr \<lparr>Sub = t, Roles = [], TenantID = '''', cExp = 0\<rparr>))
      (d_env\<lparr>PROFILE := ''prod'', AUTH_MODE := ''keycloak'', JWT_SECRET := ''x''\<rparr>) 0
      (d_settle_hdr\<lparr>hAuthorization := ''Bearer tok''\<rparr>) = Inr c \<and> Sub c = ''tok''"
proof -
  let ?e = "d_env\<lparr>PROFILE := ''prod'', AUTH_MODE := ''keycloak'', JWT_SECRET := ''x''\<rparr>"
  let ?h = "d_settle_hdr\<lparr>hAuthorization := ''Bearer tok''\<rparr>"
  let ?k = "Some (\<lambda>t. Inr \<lparr>Sub = t, Roles = [], TenantID = '''', cExp = 0\<rparr>)"
  obtain c where c: "Middleware (\<lambda>k s. s) (\<lambda>s. None) ?k ?e 0 ?h = Inr c"
    by (simp add: Middleware_def ProdMisconfigured_def devSecretDefault_def strip_bearer_def
        eval_nat_numeral)
  from prod_accepts_keycloak_only [OF _ c] show ?thesis
    using c by (auto simp: strip_bearer_def eval_nat_numeral)
qed

text \<open>
  A minted step-up ticket, presented before its expiry with the actor, action and payload it was
  minted for and an id not used before, is accepted and its id is put on record, for any JSON
  codec that decodes what it encoded and any MAC.
\<close>
theorem ticket_round_trip:
  assumes "t0 = \<lparr>JTI = jti, Actor = actor, tkAction = action, PayloadSHA256 = ph,
        Exp = unix (now + TicketTTL)\<rparr>" "dec (enc t0) = Some t0" "map_of m jti = None"
    and "now \<le> now2" "unix now2 \<le> unix (now + TicketTTL)"
  shows "\<exists>m1. VerifyTicket hmac dec key sn (MintTicket hmac enc key jti actor action ph now)
      actor action ph now2 m = (Inr t0, m1) \<and> map_of m1 jti = Some (unix_time (Exp t0))"
proof -
  let ?b = "b64_encode (enc t0)"
  have split: "split_dot (MintTicket hmac enc key jti actor action ph now) = [?b, b64_encode (hmac key ?b)]"
    by (simp add: MintTicket_def Let_def assms(1) split_dot_join [OF b64_encode_no_dot]
        split_dot_plain [OF b64_encode_no_dot])
  have "unix (now + TicketTTL) \<le> unix (now2 + TicketTTL)"
    using assms(4) unfolding unix_def second_ns_def by (intro zdiv_mono1) simp_all
  moreover have "map_of (filter (\<lambda>p. \<not> sn > snd p) m) jti = None"
    using assms(3) by (induction m) (auto split: if_splits)
  ultimately show ?thesis
    using assms(2,5) by (simp add: VerifyTicket_def split ConsumeTicket_def Let_def) (simp add: assms(1))
qed

theorem ticket_round_trip_witness:
  "\<exists>m1. VerifyTicket (\<lambda>k s. k @ s) (\<lambda>s. Some d_tk) ''k'' 5 d_tok ''a'' ''x'' ''p'' 5 [] = (Inr d_tk, m1)"
proof -
  have "d_tk = \<lparr>JTI = ''j'', Actor = ''a'', tkAction = ''x'', PayloadSHA256 = ''p'',
      Exp = unix (0 + TicketTTL)\<rparr>" by (simp add: d_tk_def unix_def TicketTTL_def second_ns_def)
  from ticket_round_trip [OF this, of "\<lambda>s. Some d_tk" "\<lambda>t. ''T''" "[]" 5 "\<lambda>k s. k @ s" "''k''" 5]
  obtain m1 where "VerifyTicket (\<lambda>k s. k @ s) (\<lambda>s. Some d_tk) ''k'' 5 d_tok ''a'' ''x'' ''p'' 5 []
      = (Inr d_tk, m1)"
    unfolding d_tok_def by (auto simp: unix_def TicketTTL_def second_ns_def)
  then show ?thesis by blast
qed

text \<open>
  C9: Once a ticket was accepted it is not accepted again, under any actor, action or payload,
  as long as the store's clock is before its expiry, whatever other tickets were consumed in
  between.
\<close>
theorem ticket_single_use:
  assumes "VerifyTicket hmac dec key sn tok actor action ph now m = (Inr t, m1)"
    and "\<forall>c \<in> set later. fst c < unix_time (Exp t)" "sn2 < unix_time (Exp t)"
  shows "\<not> is_ok (fst (VerifyTicket hmac dec key sn2 tok actor2 action2 ph2 now2 (consume_all later m1)))"
proof -
  have "map_of m1 (JTI t) = Some (unix_time (Exp t))"
    by (rule VerifyTicket_ok [OF assms(1)]) (rule ConsumeTicket_records)
  from consume_all_keeps [OF this assms(2)] VerifyTicket_again [OF assms(1) _ assms(3)]
  show ?thesis by blast
qed

theorem ticket_single_use_witness:
  "\<exists>m1. \<not> is_ok (fst (VerifyTicket (\<lambda>k s. k @ s) (\<lambda>s. Some d_tk) ''k'' 9 d_tok ''a'' ''x'' ''p'' 9
     (consume_all [(7, ''other'', 400 * second_ns)] m1))) \<and> map_of m1 ''j'' \<noteq> None"
proof -
  let ?v = "VerifyTicket (\<lambda>k s. k @ s) (\<lambda>s. Some d_tk) ''k'' 5 d_tok ''a'' ''x'' ''p'' 5 []"
  have "fst ?v = Inr d_tk \<and> map_of (snd ?v) ''j'' \<noteq> None" by code_simp
  then obtain m1 where v: "?v = (Inr d_tk, m1)" "map_of m1 ''j'' \<noteq> None" by (metis prod.collapse)
  have "\<not> is_ok (fst (VerifyTicket (\<lambda>k s. k @ s) (\<lambda>s. Some d_tk) ''k'' 9 d_tok ''a'' ''x'' ''p'' 9
      (consume_all [(7, ''other'', 400 * second_ns)] m1)))"
    by (rule ticket_single_use [OF v(1)]) (simp_all add: d_tk_def unix_time_def second_ns_def)
  with v(2) show ?thesis by blast
qed

text \<open>
  Expiry is compared in whole seconds but a used id is forgotten at the exact expiry instant:
  during the last second in which a ticket still counts as valid, one that was already used is
  accepted again.
\<close>
theorem ticket_replay_in_last_second:
  assumes "VerifyTicket hmac dec key sn tok actor action ph now m = (Inr t, m1)"
    and "unix now2 = Exp t" "unix_time (Exp t) \<le> sn2" "kv_ok m"
  shows "fst (VerifyTicket hmac dec key sn2 tok actor action ph now2 m1) = Inr t"
  by (rule VerifyTicket_replayed [OF assms])

theorem ticket_replay_in_last_second_witness:
  "let m1 = snd (VerifyTicket (\<lambda>k s. k @ s) (\<lambda>s. Some d_tk) ''k'' 5 d_tok ''a'' ''x'' ''p'' 5 [])
   in fst (VerifyTicket (\<lambda>k s. k @ s) (\<lambda>s. Some d_tk) ''k'' (300 * second_ns) d_tok ''a'' ''x'' ''p''
        (300 * second_ns) m1) = Inr d_tk"
proof -
  let ?v = "VerifyTicket (\<lambda>k s. k @ s) (\<lambda>s. Some d_tk) ''k'' 5 d_tok ''a'' ''x'' ''p'' 5 []"
  have "fst ?v = Inr d_tk" by code_simp
  then have "?v = (Inr d_tk, snd ?v)" by (metis prod.collapse)
  from ticket_replay_in_last_second [OF this] show ?thesis
    by (simp add: Let_def d_tk_def unix_def unix_time_def second_ns_def)
qed

text \<open>
  When the server answers 201 to a transfer request, the transfer is on record under a new id
  with the requested amount, and the outbox has gained exactly its transfer event followed by
  the threshold events observed for it (when outbox writes succeed).
\<close>
theorem transfer_reaches_outbox:
  assumes "\<And>n. hWrite h n = Wrote" "quiet (sdev sv)"
    and "createTransfer h (Some req) sv = ((201, b), sv')"
  shows "\<exists>t now. Amount t = trAmountKobo req \<and> \<not> Pending t
    \<and> map_of (transfers (sdev sv)) (tID t) = None \<and> map_of (transfers (sdev sv')) (tID t) = Some t
    \<and> outbox_of sv' = outbox_of sv @ (''nrs.ledger.transfers.v1'', transfer_payload t)
       # alerts_of (fst (Observe now t (sthresh sv)))"
  by (rule createTransfer_event [OF assms]) blast

theorem transfer_reaches_outbox_witness:
  "\<exists>t. outbox_of (snd (createTransfer d_host (Some d_treq) d_server2))
     = [(''nrs.ledger.transfers.v1'', transfer_payload t)] \<and> Amount t = 50"
proof -
  let ?x = "createTransfer d_host (Some d_treq) d_server2"
  have x: "?x = ((201, snd (fst ?x)), snd ?x)" "quiet (sdev d_server2)"
    "length (outbox_of (snd ?x)) = 1" "outbox_of d_server2 = []" using d_server2_transfers by (metis prod.collapse)+
  have "hWrite d_host n = Wrote" for n by (simp add: d_host_def)
  from transfer_reaches_outbox [OF this x(2,1)] x(3,4) show ?thesis by (auto simp: d_treq_def)
qed

section \<open>The admin console: passwords, sessions and audit\<close>

text \<open>
  C10: With a message authentication code of 32 bytes the block loop of the key derivation
  always ends: hashing a password and checking one against any stored string both return, a hash
  accepts the password it was made from, and it accepts exactly the passwords that derive the
  same key.
\<close>
theorem pbkdf2_returns:
  assumes "sums32 hmac"
  shows "(\<exists>e dk. HashPassword hmac salt pw = Some e
        \<and> pbkdf2SHA256 hmac pw salt pbkdf2Iterations pbkdf2KeyLen = Some dk
        \<and> VerifyPassword hmac e pw = Some True
        \<and> VerifyPassword hmac e pw' = Some (pbkdf2SHA256 hmac pw' salt pbkdf2Iterations pbkdf2KeyLen = Some dk))
    \<and> VerifyPassword hmac encoded pw \<noteq> None"
proof
  obtain dk where dk: "pbkdf2SHA256 hmac pw salt pbkdf2Iterations pbkdf2KeyLen = Some dk"
    using pbkdf2_blocks_return [OF assms] unfolding pbkdf2SHA256_def by blast
  obtain e where e: "HashPassword hmac salt pw = Some e" using HashPassword_parts [OF dk] by metis
  show "\<exists>e dk. HashPassword hmac salt pw = Some e
        \<and> pbkdf2SHA256 hmac pw salt pbkdf2Iterations pbkdf2KeyLen = Some dk
        \<and> VerifyPassword hmac e pw = Some True
        \<and> VerifyPassword hmac e pw' = Some (pbkdf2SHA256 hmac pw' salt pbkdf2Iterations pbkdf2KeyLen = Some dk)"
    using e dk VerifyPassword_hash [OF assms e, of pw] VerifyPassword_hash [OF assms e, of pw'] by auto
  show "VerifyPassword hmac encoded pw \<noteq> None" by (rule VerifyPassword_total [OF assms])
qed

theorem pbkdf2_returns_witness:
  "\<exists>e. HashPassword d_hmac ''salt'' ''pw'' = Some e \<and> VerifyPassword d_hmac e ''pw'' = Some True
     \<and> VerifyPassword d_hmac ''pbkdf2$9$x$y'' ''pw'' \<noteq> None"
  using pbkdf2_returns [OF d_sums32, of "''salt''" "''pw''" "''other''" "''pbkdf2$9$x$y''"] by blast

text \<open>
  The token a login answers with passes the authentication middleware until its twelve hours are
  over, and gives back exactly the claims of the user who logged in.
\<close>
theorem login_opens_session:
  assumes "users_ok (Users s)"
    and "handleLogin h (Some rq) t1 t2 d s = Some ((200, AToken tok u), s')"
    and "ahDec h (ahEnc h (login_claims u t1 t2)) = Some (login_claims u t1 t2)"
    and "ahMode h \<noteq> ''keycloak''" "strip_bearer (rqAuthorization r) = Some tok" "unix t3 \<le> unix (t2 + 12 * hour_ns)"
  shows "requireAuth (ahHmac h) (ahDec h) (ahKeycloak h) (ahMode h) (ahSecret h) t3 (Users s') r
      = Inr (login_claims u t1 t2)
    \<and> acSub (login_claims u t1 t2) = uID u \<and> acRoles (login_claims u t1 t2) = uRoles u
    \<and> map_of (Users s) (lrEmail rq) = Some u"
proof -
  have "map_of (Users s) (lrEmail rq) = Some u"
    by (rule handleLogin_ok [OF assms(2)]) simp
  then show ?thesis using login_accepted [OF assms] by (simp add: login_claims_fields)
qed

theorem login_opens_session_witness:
  "\<exists>s' :: adm. requireAuth d_hmac (ahDec (d_ahost ''dev'' ''dev'')) None ''dev'' ''secret'' 0 (Users s')
      (d_areq\<lparr>rqAuthorization := ''Bearer '' @ d_token\<rparr>) = Inr (login_claims d_user 0 0)"
proof -
  let ?h = "(d_ahost ''dev'' ''dev'')\<lparr>ahKeycloak := None\<rparr>"
  obtain s' where l: "handleLogin ?h (Some \<lparr>lrEmail = ''e'', lrPassword = ''pw''\<rparr>) 0 0 d_draw d_adm
      = Some ((200, AToken d_token d_user), s')"
    using d_login by (auto simp: handleLogin_def Let_def split: option.splits bool.splits if_splits)
  have m: "ahDec ?h (ahEnc ?h (login_claims d_user 0 0)) = Some (login_claims d_user 0 0)" "ahMode ?h \<noteq> ''keycloak''"
    by (simp_all add: d_ahost_def)
  have b: "strip_bearer (rqAuthorization (d_areq\<lparr>rqAuthorization := ''Bearer '' @ d_token\<rparr>)) = Some d_token"
    by (simp add: strip_bearer_def)
  have t: "unix 0 \<le> unix (0 + 12 * hour_ns)" by (simp add: unix_def hour_ns_def second_ns_def)
  from login_opens_session [OF d_users_ok l m b t]
  have "requireAuth d_hmac (ahDec (d_ahost ''dev'' ''dev'')) None ''dev'' ''secret'' 0 (Users s')
      (d_areq\<lparr>rqAuthorization := ''Bearer '' @ d_token\<rparr>) = Inr (login_claims d_user 0 0)"
    by (simp add: d_ahost_def)
  then show ?thesis by blast
qed



text \<open>
  The Postgres copy of a user leaves the password hash out, and a restart takes its users from
  there: once the table has users, every login after a restart is refused, whatever operations
  and restarts came before.
\<close>
theorem restart_forgets_passwords:
  assumes "pg_run h s" "pgTable s = Some tab" "tab \<noteq> []"
  shows "handleLogin h' (Some rq) t1 t2 d (restart boot s)
     = Some ((401, AProblem ''invalid credentials''), restart boot s)"
  using restart_no_login [OF pg_run_ok [OF assms(1)] assms(2,3)] .

theorem restart_forgets_passwords_witness:
  "\<exists>s. pgTable s \<noteq> None \<and> handleLogin (d_ahost ''dev'' ''dev'') (Some \<lparr>lrEmail = ''e'', lrPassword = ''pw''\<rparr>) 0 0
      d_draw (restart d_adm s) = Some ((401, AProblem ''invalid credentials''), restart d_adm s)"
proof -
  let ?s = "restart d_adm (d_adm\<lparr>pgTable := Some []\<rparr>)"
  have r: "pg_run (d_ahost ''dev'' ''dev'') ?s"
    by (rule pg_run.again [OF pg_run.fresh]) simp
  have t: "pgTable ?s = Some [(''e'', user_doc d_user)]"
    by (simp add: restart_def hydrate_def d_adm_def d_user_def)
  from restart_forgets_passwords [OF r t] t show ?thesis by (intro exI [of _ ?s]) simp
qed



section \<open>Step-up and the money routes of the console\<close>





text \<open>
  C15: In production a request to a money route of the console that succeeds, or that changes
  the ledger tables or the audit trail, came from an authenticated caller with the role of that
  route and a step-up credential (a valid code, or a ticket for that action and body) that
  verified.
\<close>
theorem admin_money_guarded:
  assumes "ahProfile h = ''prod''" "admin_money_route h q r answer now sn d s = ((status, b), s')"
    and "status \<in> {200, 201} \<or> \<not> same_books s s'"
  shows "\<exists>c. requireAuth (ahHmac h) (ahDec h) (ahKeycloak h) (ahMode h) (ahSecret h) now (Users s) r = Inr c
     \<and> admin_requireRole (ahPerm h) c (money_role q) = None
     \<and> stepped_up h (money_action q) r now sn c s"
  using money_route_guarded [OF assms] .

theorem admin_money_guarded_witness:
  "admin_requireRole None d_claims ''admin'' = None
     \<and> stepped_up (d_ahost ''keycloak'' ''prod'') ''admin.ledger.post'' d_areq 0 0 d_claims d_adm"
proof -
  let ?h = "d_ahost ''keycloak'' ''prod''"
  have a: "requireAuth (ahHmac ?h) (ahDec ?h) (ahKeycloak ?h) (ahMode ?h) (ahSecret ?h) 0 (Users d_adm) d_areq = Inr d_claims"
    by (simp add: requireAuth_def d_ahost_def d_areq_def strip_bearer_def)
  have r: "admin_requireRole (ahPerm ?h) d_claims (money_role (MPost ''t'')) = None"
    by (simp add: admin_requireRole_def authorizeRole_def admin_hasRole_def d_claims_def d_ahost_def)
  have l: "live_ledger (Some ''ok'') (d_adm\<lparr>enrolled := m\<rparr>) = Some ''ok''" for m
    by (simp add: live_ledger_def serviceURL_def d_adm_def)
  have v: "VerifyCode (ahCrypto ?h) (ahSteps ?h) (acSub d_claims) (rqStepupCode d_areq) 0 (enrolled d_adm)
      = (None, mem_Put (d_su_rec\<lparr>RecoveryHashes := []\<rparr>) d_enrolled)"
    using d_code_burns by (simp add: d_ahost_def d_claims_def d_areq_def d_adm_def)
  have n: "rqStepupCode d_areq \<noteq> ''''" by (simp add: d_areq_def d_code_def)
  obtain s' where p: "admin_money_route ?h (MPost ''t'') d_areq (Some ''ok'') 0 0 d_draw d_adm = ((200, ALive ''ok''), s')"
    unfolding admin_money_route_def a using r v n l
    by (simp add: with_role_def admin_requireStepUp_def money_handler_def settleTransfer_def)
  have "ahProfile ?h = ''prod''" by (simp add: d_ahost_def)
  from admin_money_guarded [OF this p disjI1] a r show ?thesis
    by (auto simp: money_role_def money_action_def d_ahost_def)
qed

text \<open>
  A bearer token with the admin role is enough to replace the step-up secret of an administrator
  who is already enrolled: enrolling again and confirming with the secret just handed out asks
  for no earlier credential, and codes of the new secret then open the money guard.
\<close>
theorem re_enrolment_takes_over:
  assumes "gcm_opens (ahCrypto h)" "gcm_new (suSealer (ahSteps h))"
    and "length (dwNonce dw) = NonceSize" "length (dwSecret dw) = SecretBytes" "admin_hasRole c ''admin''"
    and "handleStepupEnroll h dw t0 c s = (a1, s1)" "handleStepupConfirm h (Some code1) t1 c s1 = (a2, s2)"
    and "Code_at (ahCrypto h) (GenerateSecret (dwSecret dw)) t1 = Inr code1"
    and "Code_at (ahCrypto h) (GenerateSecret (dwSecret dw)) t2 = Inr (rqStepupCode r)"
  shows "(\<exists>codes. a1 = (200, AEnrol (OTPAuthURI (Issuer (ahSteps h)) (acSub c) (GenerateSecret (dwSecret dw))) codes))
    \<and> a2 = (200, ADone) \<and> admin_requireStepUp h action r t2 sn c inner s2 = inner s2"
  using enrol_again(1) [OF assms] enrol_again(2) [OF assms] enrol_again(3) [OF assms] by blast

theorem re_enrolment_takes_over_witness:
  "\<exists>a1 s1 a2 s2 code. handleStepupEnroll (d_ahost ''keycloak'' ''prod'') \<lparr>dwSecret = d_totp_raw, dwNonce = d_nonce, dwCodes = []\<rparr>
        0 d_claims d_adm = (a1, s1)
    \<and> handleStepupConfirm (d_ahost ''keycloak'' ''prod'') (Some code) 0 d_claims s1 = (a2, s2)
    \<and> admin_requireStepUp (d_ahost ''keycloak'' ''prod'') ''admin.ledger.post'' (d_areq\<lparr>rqStepupCode := code\<rparr>) 0 0 d_claims
        (\<lambda>s. ((200, ADone), s)) s2 = ((200, ADone), s2)"
proof -
  let ?h = "d_ahost ''keycloak'' ''prod''" and ?dw = "\<lparr>dwSecret = d_totp_raw, dwNonce = d_nonce, dwCodes = []\<rparr>"
  obtain a1 s1 where e: "handleStepupEnroll ?h ?dw 0 d_claims d_adm = (a1, s1)" by fastforce
  have "10 \<le> length d_totp_raw" by (simp add: d_totp_raw_def)
  then obtain code where code: "Code_at (ahCrypto ?h) (GenerateSecret (dwSecret ?dw)) 0 = Inr code"
    using Code_at_generated [of d_totp_raw "ahCrypto ?h" 0] by auto
  obtain a2 s2 where c: "handleStepupConfirm ?h (Some code) 0 d_claims s1 = (a2, s2)" by fastforce
  have g: "gcm_opens (ahCrypto ?h)" "gcm_new (suSealer (ahSteps ?h))"
    using d_gcm_opens d_gcm_new by (simp_all add: d_ahost_def)
  have l: "length (dwNonce ?dw) = NonceSize" "length (dwSecret ?dw) = SecretBytes" "admin_hasRole d_claims ''admin''"
    by (simp_all add: d_nonce_def d_totp_raw_def NonceSize_def SecretBytes_def d_claims_def admin_hasRole_def)
  have r: "Code_at (ahCrypto ?h) (GenerateSecret (dwSecret ?dw)) 0 = Inr (rqStepupCode (d_areq\<lparr>rqStepupCode := code\<rparr>))"
    using code by simp
  from re_enrolment_takes_over [where action = "''admin.ledger.post''" and sn = 0 and inner = "\<lambda>s. ((200, ADone), s)",
      OF g l e c code r] e c
  show ?thesis by blast
qed

section \<open>Data migration\<close>

text \<open>
  C16: When no file operation fails, committing files whose accepted rows are UTF-8 text and new
  to the store succeeds, the verification of the batch over HTTP then answers 200 with the
  verdict PASS, and committing the same rows again answers the stored manifest and leaves every
  document as it was.
\<close>
theorem committed_batch_verifies:
  assumes "js_calm s" "files \<noteq> []" "dpSigningKey d \<noteq> ''''"
    and "ingest h strict files empty_stage = Some (Inr sg)"
    and "live_filter (dpLive d) (batch_tins (sgRows sg)) 0 (sgRows sg) (sgErrs sg) = Inr (rows, errs)"
    and "rows_decode h rows" "docs_decode h (batch_manifest h d rows errs now) rows"
    and "manifest_decodes h (committed_manifest h d rows errs now)"
    and "\<forall>r \<in> set rows. clean_row (srRow r)"
    and "distinct (map (row_path h rows) rows)" "batch_is_new h rows s"
  shows "\<exists>s1 p s2 s3. Import jsonStore h d files Commit strict now s
        = Some (Inr \<lparr>rsManifest = committed_manifest h d rows errs now, rsErrors = errs\<rparr>, s1)
    \<and> verifyBatch jsonStore h d (batch_of h rows) now2 s1 = ((200, ProofBody p), s2) \<and> prVerdict p = ''PASS''
    \<and> Import jsonStore h d files Commit strict now3 s1
        = Some (Inr \<lparr>rsManifest = (committed_manifest h d rows errs now)\<lparr>mfNotes := mfNotes (committed_manifest h d rows errs now)
             @ [rerun_note]\<rparr>, rsErrors = errs\<rparr>, s3)
    \<and> js_docs s3 = js_docs s1"
proof -
  obtain s1 b p s2 where c: "Import jsonStore h d files Commit strict now s
        = Some (Inr \<lparr>rsManifest = committed_manifest h d rows errs now, rsErrors = errs\<rparr>, s1)"
    and s1: "js_calm s1" "js_docs s1 (store_path ''mig_batches'' (batch_of h rows)) = Some b"
      "mhManifestParse h b = Some (committed_manifest h d rows errs now)"
    and v: "verifyBatch jsonStore h d (batch_of h rows) now2 s1 = ((200, ProofBody p), s2)" "prVerdict p = ''PASS''"
    using import_then_verify [OF assms] by blast
  from import_again [OF s1(1) assms(2-5) s1(2,3)] c v show ?thesis by blast
qed

theorem committed_batch_verifies_witness:
  "\<exists>s1 p s2. verifyBatch jsonStore (d_mig ''Ada'') d_mdeps (batch_of (d_mig ''Ada'') (d_mrows ''Ada'')) 9 s1
      = ((200, ProofBody p), s2) \<and> prVerdict p = ''PASS''
    \<and> Import jsonStore (d_mig ''Ada'') d_mdeps d_mfiles Commit False 0 (d_mstore (\<lambda>_. IoOK))
      = Some (Inr \<lparr>rsManifest = committed_manifest (d_mig ''Ada'') d_mdeps (d_mrows ''Ada'') [] 0, rsErrors = []\<rparr>, s1)"
proof -
  have "d_mfiles \<noteq> []" "dpSigningKey d_mdeps \<noteq> ''''" by (simp_all add: d_mfiles_def d_mdeps_def)
  from committed_batch_verifies [OF d_calm this d_ingest d_live d_rows_decode d_docs_decode d_manifest_decodes
      d_clean d_paths d_new, of 9 5] show ?thesis by blast
qed

text \<open>
  C17: Under a hash without collisions, when a verification answers 200 with the manifest of a
  batch, then the manifest's signature is valid and the documents stored for the batch, in row
  order, are canonically the rows the manifest was built from: none is missing, added, changed
  or moved.
\<close>
theorem verified_batch_is_intact:
  assumes "inj (mhSha h)" "loadManifest jsonStore h b s = (Inr m, s0)" "built_from h m rows"
    and "verifyBatch jsonStore h d b now s = ((200, body), s1)"
  shows "VerifySignature h (dpSigningKey d) m
    \<and> (\<exists>ds. gather jsonStore h (mfBatchID m) [Taxpayers, Filings, Payments] s0 = (Inr ds, s1)
        \<and> map (canonicalStored h) (sort_key sdRowIndex ds) = map (\<lambda>r. row_canonical (srRow r)) rows)"
proof -
  obtain p s2 where v: "Verify_batch jsonStore h m (Some (dpSigningKey d)) now s0 = (p, s2)" by fastforce
  with assms(2,4) have "prVerdict p \<noteq> ''FAIL''" "s2 = s1" by (auto simp: verifyBatch_def split: if_splits)
  moreover have "prVerdict p = ''PASS'' \<or> prVerdict p = ''FAIL''"
    using Verify_proof [of jsonStore h m "Some (dpSigningKey d)" now s0] verdict_cases v by fastforce
  ultimately show ?thesis using verify_pins [OF assms(1,3) v] by simp
qed

theorem verified_batch_is_intact_witness:
  "\<exists>s0 ds s1. gather jsonStore (d_mig ''Ada'') (batch_of (d_mig ''Ada'') (d_mrows ''Ada''))
       [Taxpayers, Filings, Payments] s0 = (Inr ds, s1)
    \<and> map (canonicalStored (d_mig ''Ada'')) (sort_key sdRowIndex ds) = map (\<lambda>r. row_canonical (srRow r)) (d_mrows ''Ada'')"
proof -
  let ?h = "d_mig ''Ada''" and ?m = "committed_manifest (d_mig ''Ada'') d_mdeps (d_mrows ''Ada'') [] 0"
  let ?B = "batch_of (d_mig ''Ada'') (d_mrows ''Ada'')"
  have nk: "d_mfiles \<noteq> []" "dpSigningKey d_mdeps \<noteq> ''''" by (simp_all add: d_mfiles_def d_mdeps_def)
  obtain s1 b p s2 where s1: "js_calm s1" "js_docs s1 (store_path ''mig_batches'' ?B) = Some b" "mhManifestParse ?h b = Some ?m"
    and v: "verifyBatch jsonStore ?h d_mdeps ?B 9 s1 = ((200, ProofBody p), s2)"
    using import_then_verify [OF d_calm nk d_ingest d_live d_rows_decode d_docs_decode d_manifest_decodes
        d_clean d_paths d_new, of 9] by blast
  obtain got s0 where g: "stGet jsonStore ''mig_batches'' ?B s1 = (got, s0)" by fastforce
  have "got = Inr b" using js.get_found [OF s1(1,2)] g by simp
  then have l: "loadManifest jsonStore ?h ?B s1 = (Inr ?m, s0)" using g s1(3) by (simp add: loadManifest_def)
  have "built_from ?h ?m (d_mrows ''Ada'')" by (simp add: committed_manifest_def)
  from verified_batch_is_intact [OF d_inj l this v] show ?thesis by auto
qed



text \<open>
  C19: A dry run that answers has not touched the store, and its manifest accounts for every
  record the files delivered: the rows accepted and the rows rejected add up to the number of
  records read, and the accepted ones to the counts per entity.
\<close>
theorem records_accounted:
  assumes "Import st h d files DryRun strict now s = Some (Inr mres, s1)" "list_all2 (file_records h) files ns"
  shows "s1 = s
    \<and> mfRowCount (rsManifest mres) + kv_at 0 (mfCounts (rsManifest mres)) ''rejected'' = int (sum_list ns)
    \<and> mfRowCount (rsManifest mres) = kv_at 0 (mfCounts (rsManifest mres)) ''taxpayers''
      + kv_at 0 (mfCounts (rsManifest mres)) ''filings'' + kv_at 0 (mfCounts (rsManifest mres)) ''payments''"
  using Import_dry [OF assms(1)] dry_run_counts [OF assms] by simp

theorem records_accounted_witness:
  "\<exists>mres s1. Import jsonStore (d_mig ''Ada'') d_mdeps d_mfiles DryRun False 0 (d_mstore (\<lambda>_. IoOK)) = Some (Inr mres, s1)
    \<and> mfRowCount (rsManifest mres) + kv_at 0 (mfCounts (rsManifest mres)) ''rejected'' = 2"
proof -
  have nk: "d_mfiles \<noteq> []" by (simp add: d_mfiles_def)
  obtain mres s1 where r: "Import jsonStore (d_mig ''Ada'') d_mdeps d_mfiles DryRun False 0 (d_mstore (\<lambda>_. IoOK)) = Some (Inr mres, s1)"
    using d_ingest d_live [of "''Ada''"] nk by (simp add: Import_def import_staged_def Let_def)
  have "list_all2 (file_records (d_mig ''Ada'')) d_mfiles [1, 1]"
    by (simp add: d_mfiles_def file_records_def d_mig_def d_mig0_def d_sheet_def)
  from records_accounted [OF r this] r show ?thesis by auto
qed

text \<open>
  C20: Every row a batch accepts passed the validation of its entity, no two have the same key,
  each one is backed (a taxpayer not live yet; a filing or payment whose taxpayer is in the
  batch's files or live), its amount is not negative, and totals below 2^63 kobo in the manifest
  are the exact sums of the amounts.
\<close>
theorem accepted_rows_checked:
  assumes "ingest h strict files empty_stage = Some (Inr sg)"
    and "live_filter livef (batch_tins (sgRows sg)) 0 (sgRows sg) (sgErrs sg) = Inr (rows, errs)"
    and "sum_list (map (\<lambda>r. amount_int k (srRow r)) rows) < 2 ^ 63"
  shows "(\<forall>r \<in> set rows. validateRow h strict (srRow r) = None \<and> amount_ok (srRow r) \<and> backed livef (batch_tins (sgRows sg)) r)
    \<and> distinct (map (\<lambda>r. dedupKey (srRow r)) rows)
    \<and> sint (kv_at 0 (mfSumsKobo (buildManifest h rows errs mode notes now)) k)
        = sum_list (map (\<lambda>r. amount_int k (srRow r)) rows)"
proof -
  note a = accepted_rows [OF assms(1,2)]
  have "built_from h ((buildManifest h rows errs mode notes now)\<lparr>mfKeyID := ''''\<rparr>) rows" by (rule buildManifest_built)
  from manifest_sums [OF this _ assms(3)] a(1)
  have "sint (kv_at 0 (mfSumsKobo (buildManifest h rows errs mode notes now)) k)
      = sum_list (map (\<lambda>r. amount_int k (srRow r)) rows)" by simp
  with a show ?thesis by blast
qed

theorem accepted_rows_checked_witness:
  "sint (kv_at 0 (mfSumsKobo (buildManifest (d_mig ''Ada'') (d_mrows ''Ada'') [] DryRun [] 0)) ''payments_kobo'') = 500"
proof -
  have e: "sum_list (map (\<lambda>r. amount_int ''payments_kobo'' (srRow r)) (d_mrows ''Ada'')) = 500"
    by (simp add: amount_int_def d_mrows_def d_pm_def)
  with accepted_rows_checked [OF d_ingest d_live, of "''payments_kobo''"] show ?thesis by simp
qed

text \<open>
  C21: After a header the CSV reader returns exactly when its input ever ends: an input that
  keeps answering with an error other than the end of the file makes the loop of the import run
  for ever, because a malformed row never aborts it.
\<close>
theorem csv_reader_ends:
  "(\<exists>st'. parseCSV (\<lambda>n. if n = 0 then CsvRecord header else rd n) name onerr sink st = Some (Inr st'))
     \<longleftrightarrow> (\<exists>k \<ge> 1. rd k = CsvEOF)"
proof
  let ?rd = "\<lambda>n. if n = 0 then CsvRecord header else rd n"
  assume "\<exists>st'. parseCSV ?rd name onerr sink st = Some (Inr st')"
  then obtain st' where "csv_loop ?rd onerr sink (csvHeaderIndex header) 1 1 st = Some st'"
    by (auto simp: parseCSV_def)
  from csv_loop_ended [OF this] show "\<exists>k \<ge> 1. rd k = CsvEOF" by auto
next
  let ?rd = "\<lambda>n. if n = 0 then CsvRecord header else rd n"
  assume "\<exists>k \<ge> 1. rd k = CsvEOF"
  then obtain k where "k \<ge> 1" "?rd k = CsvEOF" by auto
  from csv_loop_ends [of ?rd k 1, OF this(2,1)] show "\<exists>st'. parseCSV ?rd name onerr sink st = Some (Inr st')"
    by (simp add: parseCSV_def)
qed

text \<open>
  C22: A TIN with a corrected check digit passes the check-digit rule and differs from the TIN
  given in its last digit only; and in a TIN that passes the rule, replacing any one digit by
  another is always noticed.
\<close>
theorem check_digit_sound:
  assumes "TINWithCheckDigit h tin = Inr t" "i < 13" "i \<noteq> 8" "is_digit c" "c \<noteq> t ! i"
  shows "TINChecksumOK t \<and> take 12 t = take 12 tin \<and> \<not> TINChecksumOK (t[i := c])"
  using corrected_tin [OF assms(1)] checksum_detects [OF _ assms(2-5)] by simp

theorem check_digit_sound_witness:
  "TINWithCheckDigit (d_mig ''Ada'') ''12345678-0001'' = Inr ''12345678-0002'' \<and> \<not> TINChecksumOK ''92345678-0002''"
proof -
  have c: "TINWithCheckDigit (d_mig ''Ada'') ''12345678-0001'' = Inr ''12345678-0002''"
    by (simp add: TINWithCheckDigit_def mig_ValidTINFormat_def) code_simp
  from check_digit_sound [OF c, of 0 "CHR ''9''"] have "\<not> TINChecksumOK ''92345678-0002''"
    by (simp add: is_digit_def byte_of_def)
  with c show ?thesis by simp
qed



section \<open>Events and storage\<close>

text \<open>
  Publishing on an open bus runs every handler subscribed to the topic exactly once and in
  order, whatever the others return, adds one dead letter for the topic per failing handler and
  none elsewhere, and changes no subscription.
\<close>
theorem publish_reaches_all:
  assumes "\<not> closed b" "Publish topic env b s = (r, b1, s1)"
  shows "r = None \<and> subs b1 = subs b \<and> s1 = snd (run_all (at_key topic (subs b)) env s)
    \<and> (\<forall>t. DLQ t b1 = DLQ t b @ (if t = topic
         then replicate (failures (fst (run_all (at_key topic (subs b)) env s))) env else []))"
  using Publish_spec [OF assms] by blast

theorem publish_reaches_all_witness:
  "let b = snd (Subscribe ''t'' (d_h 2 False) (snd (Subscribe ''t'' (d_h 1 True) NewInproc)))
   in snd (snd (Publish ''t'' d_ev b [])) = [1, 2] \<and> DLQ ''t'' (fst (snd (Publish ''t'' d_ev b []))) = [d_ev]"
proof -
  let ?b = "snd (Subscribe ''t'' (d_h 2 False) (snd (Subscribe ''t'' (d_h 1 True) NewInproc)))"
  obtain r b1 s1 where p: "Publish ''t'' d_ev ?b [] = (r, b1, s1)" by (metis prod.collapse)
  have b: "\<not> closed ?b" "DLQ ''t'' ?b = []" "at_key ''t'' (subs ?b) = [d_h 1 True, d_h 2 False]"
    by (simp_all add: Subscribe_def NewInproc_def at_key_def DLQ_def)
  have "run_all [d_h 1 True, d_h 2 False] d_ev [] = ([Some ''e'', None], [1, 2])"
    by (simp add: d_h_def)
  with publish_reaches_all [OF b(1) p] p b show ?thesis by (simp add: failures_def Let_def)
qed

text \<open>
  Handlers are told apart by their code pointer, which all handlers built by the dedup wrapper
  share: cancelling the second of two such subscriptions removes the first, so the cancelled
  handler keeps receiving events and the other one stops.
\<close>
theorem cancel_removes_another:
  "let h1 = Wrap (inproc_ops 0) 7 ''t'' (d_h 1 False);
       h2 = Wrap (inproc_ops 0) 7 ''t'' (d_h 2 False);
       b = snd (Subscribe ''t'' h2 (snd (Subscribe ''t'' h1 NewInproc)))
   in snd (snd (snd (Publish ''t'' d_ev (cancel_sub ''t'' h2 b) ([], [])))) = [2]"
  by (simp add: Let_def Wrap_def d_h_def d_ev_def Subscribe_def cancel_sub_def NewInproc_def at_key_def
      Publish_def Handle_def HandleKey_def inproc_ops_def inproc_Seen_def inproc_Claim_def
      inproc_Complete_def EventKey_def)



text \<open>
  A claim whose handler took effect before the process died looks like one whose handler never
  ran: after the sweep of stale claims a redelivery runs the handler a second time.
\<close>
theorem crash_then_reclaim_repeats:
  "snd (consumer_run d_ev [Crash 0 ''k'' True, Reclaim 10, Deliver 11 ''k'' True]
     (NewInprocProcessedStore, [])) = [''k'', ''k'']"
  by (simp add: consumer_run_def NewInprocProcessedStore_def HandleKey_inproc inproc_Claim_def
      ReclaimStale_def)





text \<open>
  When memory and disk agree and a Put reports success, the document is readable, every other
  document is unchanged, memory and disk still agree, and a process that reopens the directory
  reads the same documents.
\<close>
theorem accepted_write_is_durable:
  assumes "synced s" "Put c i v s = (None, s1)"
  shows "GetRaw c i s1 = Inr v \<and> synced s1
    \<and> (\<forall>c' i'. (c', i') \<noteq> (c, i) \<longrightarrow> lookup c' i' s1 = lookup c' i' s)
    \<and> (\<forall>p c' i'. lookup c' i' (Open True (disk s1) p) = lookup c' i' s1)"
proof -
  have "lookup c i s1 = Some v" using Put_lookup [OF assms(2), of c i] by simp
  then have "GetRaw c i s1 = Inr v" by (simp add: GetRaw_def lookup_def)
  moreover have "\<forall>c' i'. (c', i') \<noteq> (c, i) \<longrightarrow> lookup c' i' s1 = lookup c' i' s"
    using Put_lookup [OF assms(2)] by auto
  moreover have "\<forall>p c' i'. lookup c' i' (Open True (disk s1) p) = lookup c' i' s1"
    using synced_reopen [OF synced_Put [OF assms]] by blast
  ultimately show ?thesis using synced_Put [OF assms] by blast
qed

theorem accepted_write_is_durable_witness:
  "lookup ''c'' ''i'' (Open True (disk (snd (Put ''c'' ''i'' (5::nat) (Open True [] (\<lambda>_. NoFault))))) (\<lambda>_. NoFault))
     = Some 5"
proof -
  let ?p = "Put ''c'' ''i'' (5::nat) (Open True [] (\<lambda>_. NoFault))"
  have "fst ?p = None" by (simp add: Put_def persistLocked_def Open_def set_coll_def Let_def)
  then have p: "?p = (None, snd ?p)" by (metis prod.collapse)
  from accepted_write_is_durable [OF synced_open p] have
    "GetRaw ''c'' ''i'' (snd ?p) = Inr 5"
    "lookup ''c'' ''i'' (Open True (disk (snd ?p)) (\<lambda>_. NoFault)) = lookup ''c'' ''i'' (snd ?p)" by auto
  then show ?thesis by (simp add: GetRaw_def lookup_def split: option.splits)
qed

text \<open>
  An insert whose file write fails stays in memory: retried, it reports that the document was
  already there and no error, although the disk never received it.
\<close>
theorem failed_insert_looks_done:
  assumes "lookup c i s = None" "PutIfAbsent c i v s = ((ins, Some e), s1)"
  shows "ins \<and> fst (PutIfAbsent c i v s1) = (False, None) \<and> disk s1 = disk s"
proof -
  note l = PutIfAbsent_lookup [OF assms(2), of c i]
  then have "ins" "lookup c i s1 = Some v" using assms(1) by auto
  moreover have "disk s1 = disk s"
    using assms persist_err [of c "set_coll c (kv_put i v (coll_of c s)) s"]
    by (auto simp: PutIfAbsent_def lookup_def set_coll_def Let_def split: if_splits prod.splits)
  ultimately show ?thesis by (simp add: PutIfAbsent_def lookup_def)
qed

theorem failed_insert_looks_done_witness:
  "\<exists>s1 :: nat docstore. fst (PutIfAbsent ''c'' ''i'' 5 s1) = (False, None) \<and> disk s1 = []"
proof -
  let ?s = "Open True [] (\<lambda>_. WriteFault ''disk full'') :: nat docstore"
  let ?p = "PutIfAbsent ''c'' ''i'' 5 ?s"
  have "fst ?p = (True, Some ''disk full'')" "lookup ''c'' ''i'' ?s = None"
    by (simp_all add: PutIfAbsent_def persistLocked_def Open_def set_coll_def coll_of_def lookup_def Let_def)
  moreover from this(1) have "?p = ((True, Some ''disk full''), snd ?p)" by (metis prod.collapse)
  ultimately show ?thesis
    using failed_insert_looks_done [of "''c''" "''i''" ?s 5 True "''disk full''" "snd ?p"]
    by (auto simp: Open_def)
qed

section \<open>TIN lifecycle\<close>





text \<open>
  The status endpoint lets an officer set merged_into directly; no merge is recorded, so nothing
  the service can do afterwards, undo included, ever changes that TIN's status again or lets it
  file.
\<close>
theorem merged_by_hand_is_final:
  assumes "tin_path (Open True [] (\<lambda>_. NoFault)) s" "10 \<le> length at1"
    "Transition s h StatusMergedInto ed reason actor at1 = (Inr rec, s1)" "tin_path s1 t"
  shows "lStatus (life_of t h) = StatusMergedInto \<and> \<not> fst (FilingAllowed (lStatus (life_of t h)))
    \<and> (\<forall>off at2 window stamp. 10 \<le> length at2 \<longrightarrow>
        (\<exists>e. fst (UnmergeTINs t h off at2 window stamp) = Inl e))"
proof -
  have s1: "stranded h s1" "tin_inv s1"
    using stranded_by_transition [OF tin_inv_path [OF assms(1) tin_inv_empty] assms(2,3)] by auto
  have t: "stranded h t" "tin_inv t" using stranded_path [OF assms(4) s1(2,1)] tin_inv_path [OF assms(4) s1(2)] by auto
  have "\<exists>e. fst (UnmergeTINs t h off at2 window stamp) = Inl e" for off at2 window stamp
    using UnmergeTINs_cases [OF t(2) prod.collapse [symmetric], of h off at2 window stamp] t(1)
    unfolding stranded_def by blast
  then show ?thesis using t(1) by (simp add: stranded_def FilingAllowed_def)
qed

theorem merged_by_hand_is_final_witness:
  "lStatus (life_of d_tin_hand ''hb'') = StatusMergedInto
   \<and> (\<exists>e. fst (UnmergeTINs d_tin_hand ''hb'' ''o'' d_at2 1000 ''z'') = Inl e)"
proof -
  obtain rec where "Transition d_tin ''hb'' StatusMergedInto '''' ''dup'' ''o'' d_at = (Inr rec, d_tin_hand)"
    using d_tin_by_hand by blast
  from merged_by_hand_is_final [OF d_tin_path d_at_facts(1) this tin_path.stay] d_at_facts(2) show ?thesis by blast
qed

section \<open>The TIN service\<close>

text \<open>
  C29: After any interleaving of writes through the wrapped store and of lookups, the index
  answers a lookup by TIN hash with the same entity as a scan of the stored entities, and so
  does a lookup by id as long as the stored ids are distinct.
\<close>
theorem index_equals_scan:
  assumes "fold index_step ps (s0, new_index) = (s, x)" "h \<noteq> ''''"
  shows "fst (findByTINHash s h x) = entityByTINHash s h \<and> fst (index_all s x) = stored_entities s
    \<and> (distinct (map nID (stored_entities s)) \<longrightarrow> fst (findByID s i x) = findEntity s i)"
  using find_by_index [of s x] index_ok_run [OF index_ok_new, of ps s0] assms by simp

theorem index_equals_scan_witness:
  "\<exists>s x. fold index_step [IPut ''entities'' ''a'' (DEntity (d_ent ''a'' ''ha'')), IFindTIN ''hb'',
      IPut ''entities'' ''b'' (DEntity (d_ent ''b'' ''hb''))] (Open True [] (\<lambda>_. NoFault), new_index) = (s, x)
    \<and> map_option nID (fst (findByTINHash s ''hb'' x)) = Some ''b''"
proof -
  let ?s = "written ''entities'' ''b'' (DEntity (d_ent ''b'' ''hb''))
    (written ''entities'' ''a'' (DEntity (d_ent ''a'' ''ha'')) (Open True [] (\<lambda>_. NoFault)))"
  have ff: "fault_free (Open True [] (\<lambda>_. NoFault) :: tin_store)" by (simp add: fault_free_def Open_def)
  obtain x where run: "fold index_step [IPut ''entities'' ''a'' (DEntity (d_ent ''a'' ''ha'')), IFindTIN ''hb'',
      IPut ''entities'' ''b'' (DEntity (d_ent ''b'' ''hb''))] (Open True [] (\<lambda>_. NoFault), new_index) = (?s, x)"
    by (simp add: entityStore_Put_def findByTINHash_def Put_fault_free ff Let_def)
  have "map_option nID (entityByTINHash ?s ''hb'') = Some ''b''"
    by (simp add: entityByTINHash_def stored_entities_def ListInto_def ListDocs_def dec_entity_def d_ent_def
        Open_def coll_of_def [of _ "\<lparr>hasDir = True, cols = [], disk = [], writes = 0, plan = \<lambda>_. NoFault\<rparr>"])
  with index_equals_scan [OF run] run show ?thesis by fastforce
qed

text \<open>
  A number is issued exactly for an 11-digit NIN or, without a NIN, for a well-formed
  registration number, whatever the hash of the seed is; and every number issued passes the
  format check of the endpoints that later receive it.
\<close>
theorem issued_tin_valid:
  "is_ok (ProvisionTIN sum8 nin rc) = (if nin \<noteq> '''' then matches_ninRe nin
      else rc \<noteq> '''' \<and> matches_rcRe (map to_upper_char (trim_space rc)))
   \<and> (case ProvisionTIN sum8 nin rc of Inl e \<Rightarrow> True | Inr tin \<Rightarrow> ValidateTIN tin)"
  using ProvisionTIN_valid [of sum8 nin rc] by (auto simp: ProvisionTIN_def Let_def split: sum.splits)



text \<open>
  In production a merge, an undo or a status request that is not refused with 403, or that
  changes the store at all, comes from a named principal whom the permission service positively
  allowed to operate the tenant; and each such request is a step of the audited lifecycle.
\<close>
theorem tin_changes_need_permission:
  assumes "permifyFromEnv ''prod'' pserver = Inr (tPerm h)" "tin_serve h c r s = (resp, s1)"
    "fst resp \<noteq> 403 \<or> s1 \<noteq> s" "tin_path s0 s" "10 \<le> length (tNow h)"
    "lookup ''merges'' (''merge-'' @ tULID h) s = None"
  shows "(\<exists>check cl. pserver = Some check \<and> c = Some cl \<and> Sub cl \<noteq> ''''
      \<and> check (''tenant:'' @ (if TenantID cl = '''' then ''core'' else TenantID cl)) ''operate''
          (''user:'' @ Sub cl) = Inr True)
    \<and> tin_path s0 s1"
proof -
  have "canAdministerTIN (tPerm h) c"
  proof (rule ccontr)
    assume "\<not> canAdministerTIN (tPerm h) c"
    from tin_serve_denied [OF this] assms(2,3) show False by auto
  qed
  with canAdministerTIN_prod [OF assms(1)] tin_serve_path [OF assms(4-6), of c r] assms(2) show ?thesis by simp
qed

theorem tin_changes_need_permission_witness:
  "tin_path (Open True [] (\<lambda>_. NoFault)) d_tin_hand"
proof -
  let ?p = "Some (\<lambda>_ _ _. Inr True)"
  let ?h = "\<lparr>tHash = \<lambda>_. ''hb'', tNow = d_at, tULID = ''1'', tStamp = '''', tWindow = '''', tPerm = ?p\<rparr>"
  let ?c = "Some \<lparr>Sub = ''o'', Roles = [], TenantID = '''', cExp = 0\<rparr>"
  let ?r = "QStatus ''t'' (Some \<lparr>qStatus = ''merged_into'', qEffective = '''', qWhy = ''dup''\<rparr>)"
  obtain rec where t: "Transition d_tin ''hb'' StatusMergedInto '''' ''dup'' ''o'' d_at = (Inr rec, d_tin_hand)"
    using d_tin_by_hand by blast
  have "ParseStatus ''merged_into'' = Inr StatusMergedInto" by code_simp
  with t have "tin_serve ?h ?c ?r d_tin = ((200, life_body rec), d_tin_hand)"
    by (simp add: setLifecycle_def canAdministerTIN_def actorOf_def)
  from tin_changes_need_permission [OF _ this _ d_tin_path, of ?p] d_at_facts(1) d_tin_lookups(3)
  show ?thesis by (simp add: permifyFromEnv_def)
qed

section \<open>Consent, privacy rights and breaches\<close>

text \<open>
  C31: A consent that has been withdrawn stays withdrawn, with its withdrawal time, through any
  sequence of requests to the service, renewal and erasure included, and no later consent check
  ever answers with it.
\<close>
theorem revoked_is_final:
  assumes "privacy_path k sha s t" "consents_ok s" "lookup ''consents'' i s = Some (DConsent c)"
    "cStatus c = ''revoked''"
  shows "(\<exists>c'. lookup ''consents'' i t = Some (DConsent c') \<and> cStatus c' = ''revoked''
      \<and> cGranted c' = cGranted c \<and> cRevokedAt c' = cRevokedAt c)
    \<and> fst (consent_check q (Some req) t) \<noteq> (200, PCheck True su pu (Some (i, b, x)))"
proof -
  from revoked_for_ever [OF assms] obtain c' where ok: "consents_ok t"
    and c': "lookup ''consents'' i t = Some (DConsent c')" "cStatus c' = ''revoked''"
      "cGranted c' = cGranted c" "cRevokedAt c' = cRevokedAt c" by blast
  have "fst (consent_check q (Some req) t) \<noteq> (200, PCheck True su pu (Some (i, b, x)))"
    using check_names_active [OF ok] c'(1,2) by fastforce
  with c' show ?thesis by blast
qed

theorem revoked_is_final_witness:
  "\<exists>c'. lookup ''consents'' ''con-0'' (snd (privacy_serve d_privacy_crypto d_priv_sha d_priv_req (RRenew ''con-0'' (Some '''')) d_privacy))
      = Some (DConsent c') \<and> cStatus c' = ''revoked''"
proof -
  have "privacy_path d_privacy_crypto d_priv_sha d_privacy
    (snd (privacy_serve d_privacy_crypto d_priv_sha d_priv_req (RRenew ''con-0'' (Some '''')) d_privacy))"
    by (rule privacy_path.serve [OF privacy_path.here]) simp
  moreover have "cStatus d_withdrawn = ''revoked''" by (simp add: d_withdrawn_def)
  ultimately show ?thesis using revoked_is_final [OF _ d_privacy_ok d_lookups(1)] by blast
qed

text \<open>
  C32: An erasure that reports success left no consent under the subject, reports exactly how
  many it rewrote, and touched neither anybody else's consents nor the receipts.
\<close>
theorem erasure_unlinks:
  assumes "consents_ok s" "dsrErasure sha q subject s = ((200, r), t)" "anonymisedSubject sha subject \<noteq> subject"
  shows "r = PErased subject (anonymisedSubject sha subject)
        (length (filter (\<lambda>c. cSubject c = subject) (consents_of s)))
    \<and> (lookup ''consents'' i t = Some (DConsent c) \<longrightarrow> cSubject c \<noteq> subject)
    \<and> (lookup ''consents'' i s = Some (DConsent c) \<and> cSubject c \<noteq> subject \<longrightarrow>
        lookup ''consents'' i t = Some (DConsent c))
    \<and> lookup ''receipts'' i t = lookup ''receipts'' i s"
  using erasure_spec [OF assms] by blast

theorem erasure_unlinks_witness:
  "\<exists>t. dsrErasure d_priv_sha d_priv_req ''s'' d_privacy = ((200, PErased ''s'' (anonymisedSubject d_priv_sha ''s'') 2), t)
    \<and> (\<forall>i c. lookup ''consents'' i t = Some (DConsent c) \<longrightarrow> cSubject c \<noteq> ''s'')"
proof -
  have ff: "fault_free d_privacy" by (simp add: fault_free_def d_privacy_def Open_def)
  have hold: "\<not> underLegalHold ''s'' d_privacy"
    by (simp add: underLegalHold_def ListInto_def ListDocs_def d_consents)
  have cs: "consents_of d_privacy = [d_withdrawn, d_consent]"
    by (simp add: consents_of_def ListDocs_def d_consents)
  have a: "dsrAuthorize (the_claims d_priv_req) ''s''" by (simp add: dsrAuthorize_def the_claims_def d_priv_req_def)
  obtain t r where e: "dsrErasure d_priv_sha d_priv_req ''s'' d_privacy = ((200, r), t)"
    using erasure_succeeds [OF d_privacy_ok ff a hold] by blast
  have n: "anonymisedSubject d_priv_sha ''s'' \<noteq> ''s''" by (simp add: anonymisedSubject_def)
  have "length (filter (\<lambda>c. cSubject c = ''s'') (consents_of d_privacy)) = 2"
    unfolding cs by (simp add: d_withdrawn_def d_consent_def)
  then have "r = PErased ''s'' (anonymisedSubject d_priv_sha ''s'') 2"
    using erasure_unlinks [OF d_privacy_ok e n, THEN conjunct1] by (simp only:)
  moreover have "lookup ''consents'' i t = Some (DConsent c) \<longrightarrow> cSubject c \<noteq> ''s''" for i c
    using erasure_unlinks [OF d_privacy_ok e n, of i c] by (elim conjE)
  ultimately show ?thesis using e by blast
qed

text \<open>
  Every breach in the register has moved one step at a time through detected, assessed, notified
  and closed, its history records exactly these steps, its deadline is 72 hours after detection,
  and the late flag says whether the notification came after the deadline.
\<close>
theorem breach_life:
  assumes "lookup ''breaches'' i (fold breach_exec ps (Open True [] pl)) = Some d"
  shows "\<exists>b n. d = DBreach b \<and> bID b = i \<and> n \<in> {1, 2, 3, 4}
     \<and> map (\<lambda>x. (btFrom x, btTo x)) (bHistory b) = take n breach_chain
     \<and> bStatus b = btTo (last (bHistory b))
     \<and> (\<exists>t. DetectedAt b = format_rfc3339 t \<and> NotifyDeadline b = format_rfc3339 (t + 72 * hour_ns))
     \<and> (if n < 3 then NotifiedAt b = '''' \<and> \<not> LateNotification b
        else \<exists>now. NotifiedAt b = format_rfc3339 now \<and> LateNotification b =
          ((case parse_rfc3339 (NotifyDeadline b) of Some u \<Rightarrow> u | None \<Rightarrow> zero_time) < now))"
proof -
  obtain b n where b: "d = DBreach b" "bID b = i" "breach_at n b"
    using breach_run_ok [OF breaches_ok_empty] assms unfolding breaches_ok_def by blast
  then show ?thesis
    using breach_at_last [OF b(3)] unfolding breach_at_def ndpcNotifyWindow_def by blast
qed

theorem breach_life_witness:
  "\<exists>b n. lookup ''breaches'' ''brc-A'' (fold breach_exec [BCreate False d_priv_req (Some \<lparr>brTitle = ''leak'',
      brDescription = '''', brAffected = [''s''], brSeverity = ''high'', brDetectedAt = ''''\<rparr>),
      BTransition d_priv_req (Some ''assessed'') ''brc-A''] (Open True [] (\<lambda>_. NoFault))) = Some (DBreach b)
    \<and> map (\<lambda>x. (btFrom x, btTo x)) (bHistory b) = take n breach_chain"
proof -
  let ?ps = "[BCreate False d_priv_req (Some \<lparr>brTitle = ''leak'', brDescription = '''', brAffected = [''s''],
      brSeverity = ''high'', brDetectedAt = ''''\<rparr>), BTransition d_priv_req (Some ''assessed'') ''brc-A'']"
  have ff: "fault_free (Open True [] (\<lambda>_. NoFault) :: privacy_store)" by (simp add: fault_free_def Open_def)
  have "bStatus (new_breach d_priv_req r u) = ''detected''" "bID (new_breach d_priv_req r u) = ''brc-A''" for r u
    by (simp_all add: new_breach_def Let_def d_priv_req_def)
  then obtain d where "lookup ''breaches'' ''brc-A'' (fold breach_exec ?ps (Open True [] (\<lambda>_. NoFault))) = Some d"
    by (simp add: breachCreate_def breachTransition_def emitBreachAlert_def breachSeverities_def breachWorkflow_def
        Put_fault_free ff Let_def DocStore.Get_def dec_breach_def)
  from breach_life [OF this] this show ?thesis by blast
qed

section \<open>Audit evidence\<close>



text \<open>
  C34: Two logs that verify under the same key and end in the same hash contain the same events,
  field by field as far as they enter the hash, unless an event is numbered zero or the keyed
  sum collides on two of the messages involved.
\<close>
theorem tamper_evident:
  assumes "VerifyChain k al = 0" "VerifyChain k al2 = 0" "alKey al2 = alKey al"
    "\<forall>e \<in> set (AllEvents al) \<union> set (AllEvents al2). aeSeq e \<noteq> 0"
    "last_hash '''' (AllEvents al2) = last_hash '''' (AllEvents al)" "\<forall>m. chain_sum k (alKey al) m \<noteq> []"
    "inj_on (chain_sum k (alKey al)) (chain_message k ` (set (AllEvents al) \<union> set (AllEvents al2)))"
  shows "map (sealed_content k) (AllEvents al) = map (sealed_content k) (AllEvents al2)"
proof (rule chain_pinned)
  show "chained k (alKey al) '''' (AllEvents al)" "chained k (alKey al) '''' (AllEvents al2)"
    using verifies_chained [of k "alKey al"] assms(1-4) by (auto simp: VerifyChain_def)
qed (use assms(5-7) in auto)

theorem tamper_evident_witness: "VerifyChain d_audit d_forged \<noteq> 0"
proof
  assume f: "VerifyChain d_audit d_forged = 0"
  have "chain_sum d_audit ''k'' m \<noteq> []" for m by (simp add: d_sum)
  then have "map (sealed_content d_audit) (AllEvents d_log) = map (sealed_content d_audit) (AllEvents d_forged)"
    using tamper_evident [OF audit_ok_verifies f d_forged_facts(1,3,2)] d_log_ok d_sum_inj by simp
  then have "canonical d_audit e = canonical d_audit (e\<lparr>aeSubject := ''x''\<rparr>)" if "e \<in> set (AllEvents d_log)" for e
    using that by (simp add: d_forged_events sealed_content_def)
  then have "aeSubject e = ''x''" if "e \<in> set (AllEvents d_log)" for e
    using canonical_subject [of "''x''" e] that by simp
  then have "\<forall>w \<in> set (map who_did_what (AllEvents d_log)). fst (snd (snd w)) = ''x''" by (simp add: who_did_what_def)
  then show False unfolding d_log_events by simp
qed

text \<open>
  When one write to the log file fails, the next event is stored under another number than the
  one its hash covers: from then on, through every later append and restart, the intact log is
  reported as broken at that event (unless the sum collides).
\<close>
theorem lost_write_breaks_chain:
  assumes "audit_ok k al" "f = OpenFault err \<or> f = AppendWriteFault err"
    "audit_Append k f now ulid e al = (r, al1)" "audit_Append k AppendOK now2 ulid2 e2 al1 = ((b, None), al2)"
    "computeHash k (alKey al) (b\<lparr>aeSeq := aeSeq b + 1, aeDetails := (if aeDetails b = Some [] then None else aeDetails b)\<rparr>)
      \<noteq> computeHash k (alKey al) b"
  shows "VerifyChain k (fold (audit_exec k) ps al2) = alNext al + 1 \<and> 0 < alNext al"
proof -
  from lost_write_breaks [OF assms] have l: "VerifyChain k al2 = alNext al + 1" "log_ok al2" by auto
  have n: "0 < alNext al" using assms(1) by (simp add: audit_ok_def)
  with broken_for_ever [OF l(2)] l(1) show ?thesis by auto
qed

theorem lost_write_breaks_chain_witness:
  "\<exists>al2. VerifyChain d_audit (fold (audit_exec d_audit) [AReopen, AAppend AppendOK 0 ''D'' (d_event ''e5'')] al2) = 4"
proof -
  obtain r al1 where u: "audit_Append d_audit (OpenFault ''disk full'') 0 ''C'' (d_event ''e3'') d_log = (r, al1)" by fastforce
  obtain b al2 where v: "audit_Append d_audit AppendOK 0 ''C'' (d_event ''e4'') al1 = ((b, None), al2)"
    by (simp add: audit_Append_def Log_Append_def Let_def)
  have b: "b = sealed_event d_audit 0 ''C'' (d_event ''e4'') al1" "alNext al1 = 3"
    using audit_Append_cases [OF u] audit_Append_cases [OF v] d_log_next by auto
  then have "aeSeq b = 3" "aeDetails b = None" by (simp_all add: d_event_def)
  then have "chain_message d_audit (b\<lparr>aeSeq := aeSeq b + 1, aeDetails := None\<rparr>) \<noteq> chain_message d_audit b"
    by (simp add: chain_message_def canonical_def d_audit_def itoa_def dec_width.simps)
  then have "computeHash d_audit (alKey d_log)
      (b\<lparr>aeSeq := aeSeq b + 1, aeDetails := (if aeDetails b = Some [] then None else aeDetails b)\<rparr>)
      \<noteq> computeHash d_audit (alKey d_log) b"
    using d_log_ok by (simp only: d_hash_eq \<open>aeDetails b = None\<close> option.distinct if_False simp_thms)
  from lost_write_breaks_chain [OF conjunct1 [OF d_log_ok] disjI1 [OF refl] u v this] d_log_next
  have "VerifyChain d_audit (fold (audit_exec d_audit) [AReopen, AAppend AppendOK 0 ''D'' (d_event ''e5'')] al2) = 3 + 1"
    by (simp only:)
  then show ?thesis by (intro exI) simp
qed

text \<open>
  Verification reports the number of the first broken event, with 0 for none. A single line with
  sequence number 0 and some previous hash, put anywhere into the file, is itself the first
  broken event, so the endpoint calls the chain valid whatever else was changed in it.
\<close>
theorem zero_event_hides_tampering:
  assumes "file = xs @ Some l # ys" "lSeq l = 0" "PrevHash (lBody l) \<noteq> ''''"
    "\<forall>r. Some r \<in> set (xs @ ys) \<longrightarrow> 0 < lSeq r"
  shows "verifyChain k (OpenAuditLog file key) = (200, AChain True 0)"
proof -
  have "llines (alLog (OpenAuditLog file key)) = file"
    by (simp add: OpenAuditLog_def Let_def OpenAppendLog_def split: option.split)
  from zero_hides [OF this [unfolded assms(1)] assms(2,3)] assms(1,4) show ?thesis by (simp add: verifyChain_def)
qed

theorem zero_event_hides_tampering_witness:
  "verifyChain d_audit (OpenAuditLog ([] @ Some \<lparr>lSeq = 0, lBody = (d_event ''z'')\<lparr>PrevHash := ''x''\<rparr>\<rparr>
     # [Some \<lparr>lSeq = 7, lBody = d_event ''forged''\<rparr>]) ''k'') = (200, AChain True 0)"
  by (rule zero_event_hides_tampering [OF refl]) auto

text \<open>
  C35: An evidence object stored under an identifier without a slash keeps its record and its
  bytes, and verifies, through every later upload under such identifiers, every write fault and
  every restart; storing its identifier again is refused and changes nothing.
\<close>
theorem evidence_write_once:
  assumes "worm_Put k f ulid now i content ctype meta w = (Inr obj, w1)"
    "plain_id (evidence_id k ulid content i)" "wDir w \<in> set (wDirs w)" "hasDir (wDocs w)" "list_all (plain_op k) ps"
  shows "let w2 = fold (worm_exec k) ps w1
    in worm_Get (oID obj) w2 = Inr obj \<and> worm_Content (oID obj) w2 = Inr content
      \<and> SHA256 obj = content_hash k content \<and> worm_Verify k (oID obj) w2 = Inr (True, SHA256 obj)
      \<and> worm_Put k f2 ulid2 now2 (oID obj) content2 ctype2 meta2 w2 = (Inl ErrImmutable, w2)"
proof -
  from worm_Put_stores [OF assms(1-4)] have s: "stored obj content w1" "SHA256 obj = content_hash k content"
    "oID obj \<noteq> ''''" by (auto simp: evidence_id_def)
  note st = stored_run [OF s(1) assms(5)]
  from stored_reads [OF st s(2)] stored_refuses [OF st s(3)] s(2) show ?thesis by (simp add: Let_def)
qed

theorem evidence_write_once_witness:
  "\<exists>obj w1. worm_Put d_audit BlobOK '''' 0 ''a'' ''x'' ''text'' '''' d_worm = (Inr obj, w1)
    \<and> worm_Verify d_audit (oID obj) (fold (worm_exec d_audit) [WPut BlobOK '''' 0 ''b'' ''y'' ''text'' '''',
        WReopen (\<lambda>_. NoFault)] w1) = Inr (True, SHA256 obj)"
proof -
  obtain obj w1 where p: "worm_Put d_audit BlobOK '''' 0 ''a'' ''x'' ''text'' '''' d_worm = (Inr obj, w1)"
    using d_worm_put by blast
  have "list_all (plain_op d_audit) [WPut BlobOK '''' 0 ''b'' ''y'' ''text'' '''', WReopen (\<lambda>_. NoFault)]"
    "plain_id (evidence_id d_audit '''' ''x'' ''a'')" "wDir d_worm \<in> set (wDirs d_worm)" "hasDir (wDocs d_worm)"
    by (simp_all add: plain_op_def plain_id_def evidence_id_def d_worm_def Open_def)
  from evidence_write_once [OF p this(2-4,1)] p show ?thesis unfolding Let_def by blast
qed

text \<open>
  The identifier of an upload becomes part of a file name unchecked: an upload under "./" and
  the identifier of a stored object is accepted and replaces that object's bytes, after which
  the object no longer verifies (unless the two contents have the same hash).
\<close>
theorem alias_overwrites_evidence:
  assumes "worm_Put k f ulid now i content ctype meta w = (Inr obj, w1)"
    "plain_id (evidence_id k ulid content i)" "wDir w \<in> set (wDirs w)" "hasDir (wDocs w)"
    "worm_Put k f2 ulid2 now2 (''./'' @ oID obj) content2 ctype2 meta2 w1 = (Inr obj2, w2)"
    "content_hash k content2 \<noteq> content_hash k content"
  shows "worm_Get (oID obj) w2 = Inr obj \<and> worm_Verify k (oID obj) w2 = Inr (False, content_hash k content2)"
proof -
  from worm_Put_stores [OF assms(1-4)] have s: "stored obj content w1" "SHA256 obj = content_hash k content" by auto
  from alias_overwrites [OF s(1) assms(5)] s(2) assms(6) show ?thesis by simp
qed

theorem alias_overwrites_evidence_witness:
  "\<exists>obj w1 obj2 w2. worm_Put d_audit BlobOK '''' 0 ''a'' ''x'' ''text'' '''' d_worm = (Inr obj, w1)
    \<and> worm_Put d_audit BlobOK '''' 0 (''./'' @ oID obj) ''y'' ''text'' '''' w1 = (Inr obj2, w2)
    \<and> worm_Verify d_audit (oID obj) w2 = Inr (False, content_hash d_audit ''y'')"
proof -
  obtain obj w1 obj2 w2 where p: "worm_Put d_audit BlobOK '''' 0 ''a'' ''x'' ''text'' '''' d_worm = (Inr obj, w1)"
    "worm_Put d_audit BlobOK '''' 0 (''./'' @ oID obj) ''y'' ''text'' '''' w1 = (Inr obj2, w2)"
    using d_worm_put d_worm_alias by blast
  have "content_hash d_audit ''y'' \<noteq> content_hash d_audit ''x''"
    by (simp add: content_hash_def hex_encode_inj d_audit_def byte_of_def)
  from alias_overwrites_evidence [OF p(1) _ _ _ p(2) this] p show ?thesis
    by (fastforce simp: plain_id_def evidence_id_def d_worm_def Open_def)
qed

section \<open>Rule packs, notifications and permissions\<close>

text \<open>
  C36: A registered pack version keeps its identity, bytes, hash, signature and registration
  time through any sequence of registrations, publications and consumer pins, and once it is
  published or retired its record never changes again.
\<close>
theorem packs_immutable:
  assumes "lookup ''packs'' k (rgStore s) = Some (PackDoc r)"
  shows "\<exists>r'. lookup ''packs'' k (rgStore (rp_run g ops s)) = Some (PackDoc r')
    \<and> prID r' = prID r \<and> prVersion r' = prVersion r \<and> prSHA256 r' = prSHA256 r \<and> YAML r' = YAML r
    \<and> prSigned r' = prSigned r \<and> RegisteredAt r' = RegisteredAt r
    \<and> (prStatus r \<in> {''published'', ''retired''} \<longrightarrow> r' = r)"
proof -
  from rp_run_keeps [of s g ops] assms obtain d where d: "lookup ''packs'' k (rgStore (rp_run g ops s)) = Some d"
    "pack_keeps (PackDoc r) d" by (auto simp: ds.evolves_def)
  then obtain r' where "d = PackDoc r'" by (cases d) (auto simp: pack_keeps_def)
  with d show ?thesis by (auto simp: pack_keeps_def)
qed

theorem packs_immutable_witness:
  "\<exists>r'. lookup ''packs'' (pack_key ''rp-vat'' ''1.9.0'') (rgStore (rp_run d_regcfg d_rp_ops d_packs)) = Some (PackDoc r')
    \<and> YAML r' = ''y'' \<and> prStatus r' = ''published''"
  using packs_immutable [OF d_pack_lookup(1) [unfolded pack_doc_def], of d_regcfg d_rp_ops]
  by (auto simp: d_packrec_def)

text \<open>
  C37: A registry that booted in production only ever holds packs whose stored bytes parse to a
  pack that passes the whole grammar check, is filed under its own identifier and version with
  the hash of these bytes, and carries an ed25519 signature of a pinned key over the canonical
  form of these bytes.
\<close>
theorem production_packs_signed:
  assumes "registry_boot (signKeys g) (rgProd g) = None" "rgProd g"
    and "rgStore s = Open True [] pl" "lookup ''packs'' k (rgStore (rp_run g ops s)) = Some (PackDoc r)"
  shows "k = pack_key (prID r) (prVersion r) \<and> prSHA256 r = hex_encode (rgSum g (YAML r))
    \<and> (\<exists>p canon sg pub sig. rgParse g (YAML r) = Inr p \<and> pack_Validate p = [] \<and> prID r = pkID p \<and> prVersion r = pkVersion p
        \<and> canonical_yaml (rgCrypto g) (YAML r) = Inr canon \<and> Signed p = Some sg \<and> map_of (signKeys g) (KeyID sg) = Some pub
        \<and> hex_decode (sgSignature sg) = Some sig \<and> length sig = 64 \<and> ed_verify (rgCrypto g) pub canon sig)"
proof -
  have "all_vouched g s" using assms(3) by (simp add: all_vouched_def lookup_def Open_def coll_of_def)
  from rp_run_vouched [OF assms(1,2) this] assms(4)
  have v: "k = pack_key (prID r) (prVersion r)" "vouched g r" by (auto simp: all_vouched_def)
  then obtain p where p: "rgParse g (YAML r) = Inr p" "pack_Validate p = []" "prID r = pkID p" "prVersion r = pkVersion p"
    "prSHA256 r = hex_encode (rgSum g (YAML r))" "VerifyPackYAMLArtifact (rgCrypto g) p (YAML r) (signKeys g) = None"
    by (auto simp: vouched_def)
  show ?thesis using v(1) p(1-5) by (rule_tac VerifyPackSignature_ok [OF p(6)]) blast
qed

theorem production_packs_signed_witness:
  "\<exists>r. lookup ''packs'' (pack_key ''rp-vat'' ''1.0.0'') (rgStore (rp_run d_prodcfg [d_register]
        \<lparr>rgStore = Open True [] (\<lambda>_. NoFault), rgOut = NewFileStore []\<rparr>)) = Some (PackDoc r)
     \<and> prSHA256 r = hex_encode (rgSum d_prodcfg (YAML r))"
proof -
  have b: "registry_boot (signKeys d_prodcfg) (rgProd d_prodcfg) = None" "rgProd d_prodcfg"
    by (simp_all add: registry_boot_def d_prodcfg_def d_regcfg_def)
  show ?thesis using production_packs_signed [OF b _ d_registered(1)] d_registered(1) by auto
qed

text \<open>
  A signed pack with an integer anywhere in it can be registered as a draft but never promoted:
  its stored content has been through JSON, where every integer becomes a floating-point number,
  and the binding check compares that with the integers of the signed bytes.
\<close>
theorem signed_draft_stuck:
  assumes "lookup ''packs'' (pack_key i v) (rgStore s) = Some (pack_doc r)"
    and "prStatus r \<notin> {''published'', ''retired''}" "prSigned r \<noteq> None"
    and "canonical_yaml (rgCrypto g) (YAML r) = Inr b" "yaml_decode (rgCrypto g) b = Inr (kv_del ''signed'' (prPack r))"
    and "\<exists>p \<in> set (kv_del ''signed'' (prPack r)). has_int (snd p)"
  shows "publishPack g i v c now now2 u tr w s = ((422, RProblem ''pack_signature_invalid''), s)"
  using publish_blocked [OF assms] .

theorem signed_draft_stuck_witness:
  "publishPack d_regcfg ''rp-vat'' ''2.0.0'' d_board 0 0 ''u'' ''t'' Wrote d_packs
     = ((422, RProblem ''pack_signature_invalid''), d_packs)"
proof (rule signed_draft_stuck [OF d_pack_lookup(2)])
  show "prStatus (d_packrec ''2.0.0'' ''review'') \<notin> {''published'', ''retired''}"
    "prSigned (d_packrec ''2.0.0'' ''review'') \<noteq> None" by (simp_all add: d_packrec_def)
  show "canonical_yaml (rgCrypto d_regcfg) (YAML (d_packrec ''2.0.0'' ''review'')) = Inr ''c''"
    "yaml_decode (rgCrypto d_regcfg) ''c'' = Inr (kv_del ''signed'' (prPack (d_packrec ''2.0.0'' ''review'')))"
    "\<exists>p \<in> set (kv_del ''signed'' (prPack (d_packrec ''2.0.0'' ''review''))). has_int (snd p)"
    by (simp_all add: d_regcfg_def d_packrec_def kv_del_def)
qed

text \<open>
  What the registry serves as the latest version of a pack is a stored, published version of it,
  and no published version of that pack has higher version numbers.
\<close>
theorem latest_is_newest:
  assumes "colls_ok (rgStore s)" "latestPublished i s = Some b"
  shows "(\<exists>k. lookup ''packs'' k (rgStore s) = Some (PackDoc b)) \<and> prID b = i \<and> prStatus b = ''published''
    \<and> (\<forall>k r. lookup ''packs'' k (rgStore s) = Some (PackDoc r) \<and> prID r = i \<and> prStatus r = ''published''
         \<longrightarrow> \<not> semverLess (prVersion b) (prVersion r))"
  using latest_spec [OF assms] unfolding candidate_def by blast


text \<open>
  C39: Once a message is recorded under an idempotency key, then after any further requests a
  request with that key is answered with that very message and calls no provider.
\<close>
theorem notification_sent_once:
  assumes "lookup ''by_key'' (sqKey rq) (ntStore s) = Some (MsgDoc m)" "sqKey rq \<noteq> ''''"
    and "sqChannel rq \<in> set note_channels" "sqTo rq \<noteq> ''''" "sqBody rq \<noteq> '''' \<or> sqTemplateID rq \<noteq> ''''"
  shows "note_send e ps (Some rq) u (note_run e ps v ops s) = ((200, NMessage m), note_run e ps v ops s)"
proof -
  have "lookup ''by_key'' (sqKey rq) (ntStore (note_run e ps v ops s)) = Some (MsgDoc m)"
    using note_run_keeps [of s e ps v ops] assms(1) by (auto simp: keys_kept_def ds.evolves_def)
  then show ?thesis using recorded_key_replays assms(2-5) by blast
qed

theorem notification_sent_once_witness:
  "note_send d_rails [LogSimulator] (Some (d_send ''k'')) ''9''
      (note_run d_rails [LogSimulator] (\<lambda>_. '''') [NoteSend (Some (d_send ''j'')) ''2''] d_notifier)
    = ((200, NMessage d_sent), note_run d_rails [LogSimulator] (\<lambda>_. '''') [NoteSend (Some (d_send ''j'')) ''2''] d_notifier)"
proof (rule notification_sent_once)
  show "lookup ''by_key'' (sqKey (d_send ''k'')) (ntStore d_notifier) = Some (MsgDoc d_sent)"
    using d_by_key by (simp add: d_send_def)
qed (simp_all add: d_send_def note_channels_def)

text \<open>
  C40: The development checker answers yes exactly when the subject holds the relation: by a
  tuple, by a member of the relation's union on the same object, or by a walk through a tuple to
  another object. The search ends after its sixteenth level, so the answer is complete for
  questions that reduce to at most seventeen distinct ones.
\<close>
theorem checker_decides_relation:
  assumes "goals_ok ck N" "(ob, r) \<in> N" "card N \<le> 17"
  shows "checker_Check ck ob r s \<longleftrightarrow> holds ck s ob r"
  using checker_decides [OF assms] .

theorem checker_decides_relation_witness:
  "\<forall>sub. checker_Check d_checker ''tenant:t1'' ''operate'' sub \<longleftrightarrow> holds d_checker sub ''tenant:t1'' ''operate''"
  using checker_decides_relation [OF d_goals_ok(1) _ d_goals_ok(2)] by (simp add: d_goals_def)

text \<open>
  With a Permify server wired, a caller may administer TINs only if it has a subject and the
  server answered, with status 200 and an allowing body, one of at most two requests for the
  operate permission of the caller's tenant; the second request is made after a server error
  only, and every failure denies.
\<close>
theorem permission_fails_closed:
  assumes "canAdministerTIN (Some (client_Check net)) c"
  shows "\<exists>cl ent sub. c = Some cl \<and> Sub cl \<noteq> '''' \<and> splitRef (''user:'' @ Sub cl) = Inr sub
    \<and> splitRef (''tenant:'' @ (if TenantID cl = '''' then ''core'' else TenantID cl)) = Inr ent
    \<and> (allows (net 0 ent ''operate'' sub)
       \<or> (\<exists>status body. net 0 ent ''operate'' sub = Response status body \<and> status \<ge> 500) \<and> allows (net 1 ent ''operate'' sub))"
proof -
  obtain cl where cl: "c = Some cl" "Sub cl \<noteq> ''''"
    "client_Check net (''tenant:'' @ (if TenantID cl = '''' then ''core'' else TenantID cl)) ''operate'' (''user:'' @ Sub cl) = Inr True"
    using assms by (auto simp: canAdministerTIN_def Let_def split: option.splits if_splits sum.splits)
  then show ?thesis unfolding client_Check_allows by blast
qed

theorem permission_fails_closed_witness:
  "\<exists>ent sub. splitRef ''user:u1'' = Inr sub \<and> splitRef ''tenant:core'' = Inr ent
     \<and> canAdministerTIN (Some (client_Check (\<lambda>n _ _ _. if n = 0 then Response 503 None else Response 200 (Some \<lparr>crCan = ''RESULT_ALLOWED'', crAllowed = None\<rparr>))))
         (Some \<lparr>Sub = ''u1'', Roles = [], TenantID = '''', cExp = 0\<rparr>)"
proof -
  let ?net = "\<lambda>n _ _ _. if n = 0 then Response 503 None else Response 200 (Some \<lparr>crCan = ''RESULT_ALLOWED'', crAllowed = None\<rparr>)"
  have "canAdministerTIN (Some (client_Check ?net)) (Some \<lparr>Sub = ''u1'', Roles = [], TenantID = '''', cExp = 0\<rparr>)"
    by code_simp
  from permission_fails_closed [OF this] this show ?thesis by auto
qed

end
